(* ===== verification/Prelude.thy ===== *)
theory Prelude
  imports Main Complex_Main
    "HOL-Library.Word" "HOL-Library.AList" "HOL-Library.Char_ord"
    "HOL-Library.List_Lexorder" "HOL-Library.Signed_Division" "HOL-Library.Log_Nat"
begin

text \<open>
  What every component of the router model shares: the Rust scalar types and their saturating
  operations, results, the hash maps and ordered maps of the standard library, the string
  operations of \<open>str\<close> on UTF-8 byte strings, the rounding of IEEE double division, and
  transition systems with their invariants.
\<close>

named_theorems rust_simps \<open>unfolding of the standard-library wrappers\<close>
named_theorems json_simps \<open>evaluation of JSON accessors on built objects\<close>

section \<open>Scalars\<close>

type_synonym u8 = "8 word"
type_synonym u16 = "16 word"
type_synonym u32 = "32 word"
type_synonym u64 = "64 word"
type_synonym i64 = int
type_synonym usize = nat
type_synonym bytes = string

text \<open>\<open>saturating_sub\<close> and \<open>saturating_add\<close> of the unsigned integer types.\<close>

definition sat_sub :: "'a::len word \<Rightarrow> 'a word \<Rightarrow> 'a word" where
  "sat_sub a b = (if a < b then 0 else a - b)"

definition sat_add :: "'a::len word \<Rightarrow> 'a word \<Rightarrow> 'a word" where
  "sat_add a b = (if unat a + unat b < 2 ^ LENGTH('a) then a + b else - 1)"

definition sat_mul :: "'a::len word \<Rightarrow> 'a word \<Rightarrow> 'a word" where
  "sat_mul a b = (if unat a * unat b < 2 ^ LENGTH('a) then a * b else - 1)"

lemma unat_sat_sub [simp]: "unat (sat_sub a b) = unat a - unat b"
  by (simp add: sat_sub_def unat_sub word_less_nat_alt word_le_nat_alt not_less)

lemma sat_sub_le: "sat_sub a b \<le> a"
  by (simp add: word_le_nat_alt)

lemma unat_add_no_overflow:
  "unat a + unat b < 2 ^ LENGTH('a) \<Longrightarrow> unat (a + b :: 'a::len word) = unat a + unat b"
  by (simp add: unat_word_ariths)

lemma unat_neg_one: "unat (- 1 :: 'a::len word) = 2 ^ LENGTH('a) - 1"
  by (simp add: unsigned_minus_1_eq_mask mask_eq_exp_minus_1)

lemma unat_sat_add: "unat (sat_add a b :: 'a::len word) = min (unat a + unat b) (2 ^ LENGTH('a) - 1)"
  by (auto simp: sat_add_def unat_add_no_overflow unat_neg_one)

lemma unat_sat_mul: "unat (sat_mul a b :: 'a::len word) = min (unat a * unat b) (2 ^ LENGTH('a) - 1)"
  by (auto simp: sat_mul_def unat_word_ariths unat_neg_one)

lemma sat_sub_of_add:
  assumes "unat x + unat a < 2 ^ LENGTH('a)"
  shows "sat_sub (x + a) a = (x :: 'a::len word)"
  using assms by (simp add: sat_sub_def word_less_nat_alt unat_add_no_overflow)

text \<open>Lengths and indices are \<open>usize\<close>; their saturating sum stops at the 64-bit maximum.\<close>

definition usize_max :: usize where
  "usize_max = 2 ^ 64 - 1"

definition usat_add :: "usize \<Rightarrow> usize \<Rightarrow> usize" where
  "usat_add a b = min (a + b) usize_max"

lemma usat_add_le_iff: "n < usize_max \<Longrightarrow> usat_add a b \<le> n \<longleftrightarrow> a + b \<le> n"
  by (auto simp: usat_add_def)

lemma usat_add_gt_iff: "n < usize_max \<Longrightarrow> n < usat_add a b \<longleftrightarrow> n < a + b"
  by (auto simp: usat_add_def)

section \<open>Results\<close>

text \<open>\<open>Result<A, E>\<close> is \<open>'e + 'a\<close>; \<open>try_res\<close> is the \<open>?\<close> operator.\<close>

fun try_res :: "'e + 'a \<Rightarrow> ('a \<Rightarrow> 'e + 'b) \<Rightarrow> 'e + 'b" where
  "try_res (Inl e) f = Inl e"
| "try_res (Inr x) f = f x"

fun ok_or :: "'e \<Rightarrow> 'a option \<Rightarrow> 'e + 'a" where
  "ok_or e None = Inl e"
| "ok_or e (Some x) = Inr x"

definition filter_opt :: "('a \<Rightarrow> bool) \<Rightarrow> 'a option \<Rightarrow> 'a option" where
  "filter_opt p x = (case x of None \<Rightarrow> None | Some y \<Rightarrow> if p y then Some y else None)"

definition or_else :: "'a option \<Rightarrow> 'a option \<Rightarrow> 'a option" where
  "or_else x y = (case x of None \<Rightarrow> y | Some _ \<Rightarrow> x)"

definition unwrap_or :: "'a \<Rightarrow> 'a option \<Rightarrow> 'a" where
  "unwrap_or d x = (case x of None \<Rightarrow> d | Some y \<Rightarrow> y)"

lemma try_res_Inr_iff: "try_res m f = Inr y \<longleftrightarrow> (\<exists>x. m = Inr x \<and> f x = Inr y)"
  by (cases m) auto

lemma try_res_Inl_iff: "try_res m f = Inl e \<longleftrightarrow> m = Inl e \<or> (\<exists>x. m = Inr x \<and> f x = Inl e)"
  by (cases m) auto

lemma ok_or_Inr_iff: "ok_or e m = Inr y \<longleftrightarrow> m = Some y"
  by (cases m) auto

lemma filter_opt_Some_iff [simp]: "filter_opt p x = Some y \<longleftrightarrow> x = Some y \<and> p y"
  by (auto simp: filter_opt_def split: option.splits)

lemma filter_opt_simps [simp]:
  "filter_opt p None = None"
  "filter_opt p (Some y) = (if p y then Some y else None)"
  by (simp_all add: filter_opt_def)

lemma or_else_simps [simp]: "or_else None y = y" "or_else (Some x) y = Some x"
  by (simp_all add: or_else_def)

lemma unwrap_or_simps [simp]: "unwrap_or d None = d" "unwrap_or d (Some y) = y"
  by (simp_all add: unwrap_or_def)

lemmas result_iffs = try_res_Inr_iff try_res_Inl_iff ok_or_Inr_iff

text \<open>A loop over a list whose body may return early with an error.\<close>

fun fold_res :: "('s \<Rightarrow> 'a \<Rightarrow> 'e + 's) \<Rightarrow> 's \<Rightarrow> 'a list \<Rightarrow> 'e + 's" where
  "fold_res f s [] = Inr s"
| "fold_res f s (x # xs) = try_res (f s x) (\<lambda>s'. fold_res f s' xs)"

lemma fold_res_append: "fold_res f s (xs @ ys) = try_res (fold_res f s xs) (\<lambda>s'. fold_res f s' ys)"
proof (induction xs arbitrary: s)
  case (Cons x xs)
  then show ?case by (cases "f s x") auto
qed simp

lemma fold_res_invariant:
  assumes "fold_res f s xs = Inr t" and "P s"
    and "\<And>s x s'. x \<in> set xs \<Longrightarrow> P s \<Longrightarrow> f s x = Inr s' \<Longrightarrow> P s'"
  shows "P t"
  using assms
proof (induction xs arbitrary: s)
  case (Cons x xs)
  from Cons.prems(1) obtain s' where s': "f s x = Inr s'" "fold_res f s' xs = Inr t"
    by (auto simp: result_iffs)
  have "P s'" using Cons.prems(2,3) s'(1) by auto
  then show ?case using Cons.IH [OF s'(2)] Cons.prems(3) by auto
qed simp

lemma fold_res_collect:
  assumes "fold_res f s xs = Inr t"
    and "\<And>s x s'. x \<in> set xs \<Longrightarrow> f s x = Inr s' \<Longrightarrow> g s' = g s @ h x"
  shows "g t = g s @ concat (map h xs)"
  using assms
proof (induction xs arbitrary: s)
  case (Cons x xs)
  from Cons.prems(1) obtain s' where s': "f s x = Inr s'" "fold_res f s' xs = Inr t"
    by (auto simp: result_iffs)
  then show ?case using Cons.IH [OF s'(2)] Cons.prems(2) [OF _ s'(1)] Cons.prems(2) by auto
qed simp

section \<open>Maps\<close>

text \<open>
  \<open>HashMap\<close> and \<open>DashMap\<close> are association lists: the operations are those of
  \<open>HOL-Library.AList\<close>, and the list's order stands for the unspecified order of iteration.
\<close>

type_synonym ('k, 'v) hmap = "('k \<times> 'v) list"

abbreviation hm_get :: "('k, 'v) hmap \<Rightarrow> 'k \<Rightarrow> 'v option" where
  "hm_get m k \<equiv> map_of m k"

abbreviation hm_insert :: "'k \<Rightarrow> 'v \<Rightarrow> ('k, 'v) hmap \<Rightarrow> ('k, 'v) hmap" where
  "hm_insert k v m \<equiv> AList.update k v m"

abbreviation hm_remove :: "'k \<Rightarrow> ('k, 'v) hmap \<Rightarrow> ('k, 'v) hmap" where
  "hm_remove k m \<equiv> AList.delete k m"

abbreviation hm_keys :: "('k, 'v) hmap \<Rightarrow> 'k list" where
  "hm_keys m \<equiv> map fst m"

definition hm_entry_or :: "'k \<Rightarrow> 'v \<Rightarrow> ('k, 'v) hmap \<Rightarrow> ('k, 'v) hmap" where
  "hm_entry_or k v m = (case hm_get m k of None \<Rightarrow> hm_insert k v m | Some _ \<Rightarrow> m)"

lemma hm_get_insert [simp]: "hm_get (hm_insert k v m) j = (if j = k then Some v else hm_get m j)"
  by (simp add: AList.update_conv')

lemma hm_get_remove [simp]: "hm_get (hm_remove k m) j = (if j = k then None else hm_get m j)"
  by (simp add: AList.delete_conv')

lemma hm_get_entry_or [simp]:
  "hm_get (hm_entry_or k v m) j = (if j = k \<and> hm_get m k = None then Some v else hm_get m j)"
  by (auto simp: hm_entry_or_def split: option.splits)

lemma hm_distinct_insert: "distinct (hm_keys m) \<Longrightarrow> distinct (hm_keys (hm_insert k v m))"
  by (rule AList.distinct_update)

lemma hm_distinct_remove: "distinct (hm_keys m) \<Longrightarrow> distinct (hm_keys (hm_remove k m))"
  by (rule AList.distinct_delete)

lemma hm_distinct_entry_or: "distinct (hm_keys m) \<Longrightarrow> distinct (hm_keys (hm_entry_or k v m))"
  by (auto simp: hm_entry_or_def hm_distinct_insert split: option.splits)

lemma update_same: "hm_get m k = Some v \<Longrightarrow> hm_insert k v m = m"
  by (induction m) auto

lemma hm_get_Some_in_keys: "hm_get m k = Some v \<Longrightarrow> k \<in> set (hm_keys m)"
  by (force dest: map_of_SomeD)

text \<open>\<open>BTreeMap\<close>: an association list kept in increasing key order.\<close>

fun bt_insert :: "'k::linorder \<Rightarrow> 'v \<Rightarrow> ('k \<times> 'v) list \<Rightarrow> ('k \<times> 'v) list" where
  "bt_insert k v [] = [(k, v)]"
| "bt_insert k v ((k', v') # m) =
     (if k = k' then (k, v) # m
      else if k < k' then (k, v) # (k', v') # m
      else (k', v') # bt_insert k v m)"

lemma bt_get_insert [simp]: "map_of (bt_insert k v m) j = (if j = k then Some v else map_of m j)"
  by (induction k v m rule: bt_insert.induct) auto

lemma bt_keys_insert [simp]: "fst ` set (bt_insert k v m) = insert k (fst ` set m)"
  by (induction k v m rule: bt_insert.induct) auto

lemma bt_insert_not_Nil [simp]: "bt_insert k v m \<noteq> []"
  by (induction k v m rule: bt_insert.induct) auto

lemma bt_insert_sorted:
  "sorted (map fst m) \<Longrightarrow> distinct (map fst m) \<Longrightarrow>
   sorted (map fst (bt_insert k v m)) \<and> distinct (map fst (bt_insert k v m))"
proof (induction k v m rule: bt_insert.induct)
  case (2 k v k' v' m)
  then show ?case
    by (auto simp: less_le_not_le)
qed simp

definition bt_remove :: "'k \<Rightarrow> ('k \<times> 'v) list \<Rightarrow> ('k \<times> 'v) list" where
  "bt_remove k m = filter (\<lambda>kv. fst kv \<noteq> k) m"

lemma bt_get_remove [simp]: "map_of (bt_remove k m) j = (if j = k then None else map_of m j)"
  by (induction m) (auto simp: bt_remove_def)

section \<open>Strings\<close>

text \<open>
  A Rust \<open>String\<close> is its UTF-8 encoding, a list of bytes; \<open>chars().count()\<close> counts the bytes
  that are not continuation bytes. \<open>trim\<close> removes the code points with the Unicode property
  \<open>White_Space\<close>, here by their encodings.
\<close>

definition byte_val :: "char \<Rightarrow> nat" where
  "byte_val c = of_char c"

definition starts_with :: "string \<Rightarrow> string \<Rightarrow> bool" where
  "starts_with s p \<longleftrightarrow> take (length p) s = p"

definition ends_with :: "string \<Rightarrow> string \<Rightarrow> bool" where
  "ends_with s p \<longleftrightarrow> length p \<le> length s \<and> drop (length s - length p) s = p"

definition strip_prefix :: "string \<Rightarrow> string \<Rightarrow> string option" where
  "strip_prefix s p = (if starts_with s p then Some (drop (length p) s) else None)"

definition strip_suffix :: "string \<Rightarrow> string \<Rightarrow> string option" where
  "strip_suffix s p = (if ends_with s p then Some (take (length s - length p) s) else None)"

definition white_space :: "string list" where
  "white_space =
     [[CHR 0x09], [CHR 0x0A], [CHR 0x0B], [CHR 0x0C], [CHR 0x0D], [CHR 0x20],
      [CHR 0xC2, CHR 0x85], [CHR 0xC2, CHR 0xA0], [CHR 0xE1, CHR 0x9A, CHR 0x80],
      [CHR 0xE2, CHR 0x80, CHR 0x80], [CHR 0xE2, CHR 0x80, CHR 0x81], [CHR 0xE2, CHR 0x80, CHR 0x82],
      [CHR 0xE2, CHR 0x80, CHR 0x83], [CHR 0xE2, CHR 0x80, CHR 0x84], [CHR 0xE2, CHR 0x80, CHR 0x85],
      [CHR 0xE2, CHR 0x80, CHR 0x86], [CHR 0xE2, CHR 0x80, CHR 0x87], [CHR 0xE2, CHR 0x80, CHR 0x88],
      [CHR 0xE2, CHR 0x80, CHR 0x89], [CHR 0xE2, CHR 0x80, CHR 0x8A], [CHR 0xE2, CHR 0x80, CHR 0xA8],
      [CHR 0xE2, CHR 0x80, CHR 0xA9], [CHR 0xE2, CHR 0x80, CHR 0xAF], [CHR 0xE2, CHR 0x81, CHR 0x9F],
      [CHR 0xE3, CHR 0x80, CHR 0x80]]"

definition ws_prefix :: "string \<Rightarrow> nat" where
  "ws_prefix s = (case find (starts_with s) white_space of None \<Rightarrow> 0 | Some e \<Rightarrow> length e)"

definition ws_suffix :: "string \<Rightarrow> nat" where
  "ws_suffix s = (case find (ends_with s) white_space of None \<Rightarrow> 0 | Some e \<Rightarrow> length e)"

function trim_start :: "string \<Rightarrow> string" where
  "trim_start s = (if s = [] \<or> ws_prefix s = 0 then s else trim_start (drop (ws_prefix s) s))"
  by pat_completeness auto
termination by (relation "measure length") auto

function trim_end :: "string \<Rightarrow> string" where
  "trim_end s = (if s = [] \<or> ws_suffix s = 0 then s
                 else trim_end (take (length s - ws_suffix s) s))"
  by pat_completeness auto
termination by (relation "measure length") auto

declare trim_start.simps [simp del] trim_end.simps [simp del]

definition trim :: "string \<Rightarrow> string" where
  "trim s = trim_end (trim_start s)"

lemma trim_Nil [simp]: "trim [] = []" "trim_start [] = []" "trim_end [] = []"
  by (simp_all add: trim_def trim_start.simps trim_end.simps)

definition ascii_lower :: "char \<Rightarrow> char" where
  "ascii_lower c = (if 65 \<le> byte_val c \<and> byte_val c \<le> 90 then char_of (byte_val c + 32) else c)"

definition to_ascii_lowercase :: "string \<Rightarrow> string" where
  "to_ascii_lowercase s = map ascii_lower s"

lemma to_ascii_lowercase_Nil [simp]: "to_ascii_lowercase [] = []"
  by (simp add: to_ascii_lowercase_def)

definition is_ascii_alnum :: "char \<Rightarrow> bool" where
  "is_ascii_alnum c = (let b = byte_val c in
     (48 \<le> b \<and> b \<le> 57) \<or> (65 \<le> b \<and> b \<le> 90) \<or> (97 \<le> b \<and> b \<le> 122))"

definition is_continuation :: "char \<Rightarrow> bool" where
  "is_continuation c = (128 \<le> byte_val c \<and> byte_val c < 192)"

definition char_count :: "string \<Rightarrow> nat" where
  "char_count s = length (filter (\<lambda>c. \<not> is_continuation c) s)"

lemma char_count_le_length: "char_count s \<le> length s"
  by (simp add: char_count_def)

lemma char_count_append [simp]: "char_count (s @ t) = char_count s + char_count t"
  by (simp add: char_count_def)

text \<open>\<open>split_once\<close> and the search for a byte.\<close>

fun split_at_char :: "char \<Rightarrow> string \<Rightarrow> (string \<times> string) option" where
  "split_at_char c [] = None"
| "split_at_char c (x # xs) =
     (if x = c then Some ([], xs)
      else map_option (\<lambda>(a, b). (x # a, b)) (split_at_char c xs))"

lemma split_at_char_Some:
  "split_at_char c s = Some (a, b) \<longleftrightarrow> s = a @ c # b \<and> c \<notin> set a"
proof (induction s arbitrary: a)
  case (Cons x s)
  then show ?case by (cases a) auto
qed simp

lemma split_at_char_None: "split_at_char c s = None \<longleftrightarrow> c \<notin> set s"
  by (induction s) auto

lemma split_at_char_append_None:
  "c \<notin> set a \<Longrightarrow> split_at_char c (a @ c # b) = Some (a, b)"
  by (simp add: split_at_char_Some)

lemma split_at_char_append_Some:
  "split_at_char c s = Some (a, b) \<Longrightarrow> split_at_char c (s @ t) = Some (a, b @ t)"
  by (auto simp: split_at_char_Some)

fun split_char :: "char \<Rightarrow> string \<Rightarrow> string list" where
  "split_char c [] = [[]]"
| "split_char c (x # xs) =
     (if x = c then [] # split_char c xs
      else case split_char c xs of [] \<Rightarrow> [[x]] | y # ys \<Rightarrow> (x # y) # ys)"

lemma split_char_not_Nil [simp]: "split_char c s \<noteq> []"
  by (induction s) (auto split: list.splits)

fun find_sub :: "string \<Rightarrow> string \<Rightarrow> nat option" where
  "find_sub p [] = (if p = [] then Some 0 else None)"
| "find_sub p (x # xs) =
     (if starts_with (x # xs) p then Some 0 else map_option Suc (find_sub p xs))"

lemma find_sub_Some: "find_sub p s = Some i \<Longrightarrow> i + length p \<le> length s \<and> take (length p) (drop i s) = p"
proof (induction s arbitrary: i)
  case (Cons x s)
  show ?case
  proof (cases "starts_with (x # s) p")
    case True
    then have "length p \<le> length (x # s)"
      by (metis starts_with_def length_take min.cobounded1)
    with True Cons.prems show ?thesis by (simp add: starts_with_def)
  next
    case False
    with Cons.prems obtain j where "find_sub p s = Some j" "i = Suc j" by auto
    with Cons.IH show ?thesis by auto
  qed
qed (auto split: if_splits)

lemma find_sub_first: "find_sub p s = Some i \<longleftrightarrow> i \<le> length s \<and> starts_with (drop i s) p \<and> (\<forall>j<i. \<not> starts_with (drop j s) p)"
proof (induction s arbitrary: i)
  case Nil
  then show ?case by (auto simp: starts_with_def)
next
  case (Cons c s)
  show ?case
  proof (cases "starts_with (c # s) p")
    case True
    then show ?thesis by (cases i) auto
  next
    case False
    then show ?thesis using Cons.IH by (cases i) (auto simp: less_Suc_eq_0_disj)
  qed
qed

definition str_contains :: "string \<Rightarrow> string \<Rightarrow> bool" where
  "str_contains s p = (find_sub p s \<noteq> None)"

fun join :: "string \<Rightarrow> string list \<Rightarrow> string" where
  "join sep [] = []"
| "join sep [x] = x"
| "join sep (x # y # ys) = x @ sep @ join sep (y # ys)"

text \<open>Decimal output of integers, and the fixed-width hexadecimal of \<open>{:016x}\<close>.\<close>

fun dec :: "nat \<Rightarrow> string" where
  "dec n = (if n < 10 then [char_of (48 + n)] else dec (n div 10) @ [char_of (48 + n mod 10)])"

declare dec.simps [simp del]

definition idec :: "int \<Rightarrow> string" where
  "idec i = (if i < 0 then ''-'' @ dec (nat (- i)) else dec (nat i))"

definition hex_digit :: "nat \<Rightarrow> char" where
  "hex_digit n = (if n < 10 then char_of (48 + n) else char_of (87 + n))"

definition hex16 :: "u64 \<Rightarrow> string" where
  "hex16 h = map (\<lambda>i. hex_digit (unat h div 16 ^ (15 - i) mod 16)) [0..<16]"

lemma length_hex16 [simp]: "length (hex16 h) = 16"
  by (simp add: hex16_def)

section \<open>Double-precision quotients\<close>

text \<open>
  A finite \<open>f64\<close> is a rational. \<open>f64_round\<close> rounds a non-negative rational to the nearest
  double (53-bit significand, ties to even, subnormals from exponent -1022 down); the code only
  rounds values far below the overflow threshold.
\<close>

datatype f64 = Fin rat | Infinite bool | NaN

definition flog2 :: "rat \<Rightarrow> int" where
  "flog2 q = (let (n, d) = quotient_of q;
                  k = int (floorlog 2 (nat n)) - int (floorlog 2 (nat d))
              in if 2 powi k \<le> q then k else k - 1)"

definition half_even :: "rat \<Rightarrow> int" where
  "half_even q = (let f = \<lfloor>q\<rfloor>; r = q - of_int f in
     if r < 1/2 then f else if r > 1/2 then f + 1 else if even f then f else f + 1)"

definition f64_round :: "rat \<Rightarrow> rat" where
  "f64_round q = (if q \<le> 0 then 0
     else let e = max (flog2 q) (-1022); u = 2 powi (e - 52)
          in of_int (half_even (q / u)) * u)"

section \<open>Transition systems\<close>

text \<open>
  Reachable states of a step relation, and the interface an inductive invariant has to offer.
  The concurrent counters, the lease accounting, the counter blocks and the ledger writer are
  instances.
\<close>

inductive reach :: "('s \<Rightarrow> bool) \<Rightarrow> ('s \<Rightarrow> 's \<Rightarrow> bool) \<Rightarrow> 's \<Rightarrow> bool" for init step where
  reach_init: "init s \<Longrightarrow> reach init step s"
| reach_step: "reach init step s \<Longrightarrow> step s t \<Longrightarrow> reach init step t"

locale inductive_invariant =
  fixes init :: "'s \<Rightarrow> bool" and step :: "'s \<Rightarrow> 's \<Rightarrow> bool" and invar :: "'s \<Rightarrow> bool"
  assumes invar_initial: "init s \<Longrightarrow> invar s"
    and invar_preserved: "invar s \<Longrightarrow> step s t \<Longrightarrow> invar t"
begin

lemma invar_reachable: "reach init step s \<Longrightarrow> invar s"
  by (induction rule: reach.induct) (auto intro: invar_initial invar_preserved)

lemma invar_steps: "step\<^sup>*\<^sup>* s t \<Longrightarrow> invar s \<Longrightarrow> invar t"
  by (induction rule: rtranclp_induct) (auto intro: invar_preserved)

end

end
