(* ===== verification/Json.thy ===== *)
theory Json
  imports Prelude
begin

text \<open>
  The value type of \<open>serde_json\<close> and the accessors the router calls on it. The crate is not
  part of the repository, so its parser and printer are a parameter (\<open>serde\<close>) of every
  definition that uses them: \<open>from_slice\<close> returns the error text or the value, \<open>to_string\<close>
  never fails on a \<open>Value\<close>. Objects are \<open>BTreeMap\<close>s (the crate is built without
  \<open>preserve_order\<close>), so they are kept in key order.
\<close>

datatype json_num = PosInt u64 | NegInt i64 | FloatNum rat

datatype json =
    JNull
  | JBool bool
  | JNumber json_num
  | JString string
  | JArray "json list"
  | JObject "(string \<times> json) list"

type_synonym json_map = "(string \<times> json) list"

record serde =
  from_slice :: "bytes \<Rightarrow> string + json"
  to_string :: "json \<Rightarrow> string"

section \<open>Accessors\<close>

fun as_str :: "json \<Rightarrow> string option" where
  "as_str (JString s) = Some s"
| "as_str _ = None"

fun as_bool :: "json \<Rightarrow> bool option" where
  "as_bool (JBool b) = Some b"
| "as_bool _ = None"

fun as_u64 :: "json \<Rightarrow> u64 option" where
  "as_u64 (JNumber (PosInt n)) = Some n"
| "as_u64 _ = None"

fun as_f64 :: "json \<Rightarrow> rat option" where
  "as_f64 (JNumber (PosInt n)) = Some (f64_round (of_nat (unat n)))"
| "as_f64 (JNumber (NegInt i)) = Some (- f64_round (of_int (- i)))"
| "as_f64 (JNumber (FloatNum q)) = Some q"
| "as_f64 _ = None"

fun as_array :: "json \<Rightarrow> json list option" where
  "as_array (JArray xs) = Some xs"
| "as_array _ = None"

fun as_object :: "json \<Rightarrow> json_map option" where
  "as_object (JObject m) = Some m"
| "as_object _ = None"

fun is_null :: "json \<Rightarrow> bool" where
  "is_null JNull = True"
| "is_null _ = False"

text \<open>\<open>Value::get\<close> with a string index is \<open>None\<close> on anything but an object.\<close>

fun jget :: "json \<Rightarrow> string \<Rightarrow> json option" where
  "jget (JObject m) k = map_of m k"
| "jget _ k = None"

definition get_str :: "json_map \<Rightarrow> string \<Rightarrow> string option" where
  "get_str m k = Option.bind (map_of m k) as_str"

definition get_nonempty_str :: "json_map \<Rightarrow> string \<Rightarrow> string option" where
  "get_nonempty_str m k = filter_opt (\<lambda>s. s \<noteq> []) (get_str m k)"

definition jget_str :: "json \<Rightarrow> string \<Rightarrow> string option" where
  "jget_str v k = Option.bind (jget v k) as_str"

definition jget_u64 :: "json \<Rightarrow> string \<Rightarrow> u64 option" where
  "jget_u64 v k = Option.bind (jget v k) as_u64"

text \<open>\<open>Value::pointer\<close> for a path of object keys.\<close>

fun pointer :: "json \<Rightarrow> string list \<Rightarrow> json option" where
  "pointer v [] = Some v"
| "pointer v (k # ks) = Option.bind (jget v k) (\<lambda>w. pointer w ks)"

section \<open>Building objects\<close>

definition map_of_pairs :: "(string \<times> json) list \<Rightarrow> json_map" where
  "map_of_pairs kvs = fold (\<lambda>(k, v) m. bt_insert k v m) kvs []"

text \<open>The \<open>json!\<close> macro on an object literal.\<close>

definition jobj :: "(string \<times> json) list \<Rightarrow> json" where
  "jobj kvs = JObject (map_of_pairs kvs)"

definition jnum :: "u64 \<Rightarrow> json" where
  "jnum n = JNumber (PosInt n)"

lemma map_of_fold_bt_insert:
  "map_of (fold (\<lambda>(k, v) m. bt_insert k v m) kvs m) k =
   (case map_of (rev kvs) k of None \<Rightarrow> map_of m k | Some v \<Rightarrow> Some v)"
proof (induction kvs arbitrary: m)
  case (Cons kv kvs)
  obtain a b where [simp]: "kv = (a, b)" by (cases kv)
  show ?case
    by (auto simp: Cons.IH map_add_def split: option.splits)
qed simp

lemma map_of_pairs_get [json_simps]: "map_of (map_of_pairs kvs) k = map_of (rev kvs) k"
  by (simp add: map_of_pairs_def map_of_fold_bt_insert split: option.splits)

lemma jget_jobj [json_simps]: "jget (jobj kvs) k = map_of (rev kvs) k"
  by (simp add: jobj_def map_of_pairs_get)

lemma as_object_jobj [json_simps]: "as_object (jobj kvs) = Some (map_of_pairs kvs)"
  by (simp add: jobj_def)

lemma as_jnum [json_simps]: "as_u64 (jnum n) = Some n" "as_str (jnum n) = None" "as_bool (jnum n) = None"
  by (simp_all add: jnum_def)

lemma as_str_jobj [json_simps]: "as_str (jobj kvs) = None" "as_array (jobj kvs) = None"
  by (simp_all add: jobj_def)

lemma jget_str_jobj [json_simps]: "jget_str (jobj kvs) k = Option.bind (map_of (rev kvs) k) as_str"
  by (simp add: jget_str_def jget_jobj)

lemma jobj_neq [simp]: "jobj kvs \<noteq> JNull" "jobj kvs \<noteq> JString s" "jobj kvs \<noteq> JArray xs"
  by (simp_all add: jobj_def)

text \<open>
  Size of a value, for the recursions that follow nested values: a member found in an object and an
  element of an array are smaller.
\<close>

lemma size_jget: "jget v k = Some w \<Longrightarrow> size w < size v"
proof (cases v)
  case (JObject m)
  assume "jget v k = Some w"
  then have "(k, w) \<in> set m" using JObject by (auto dest: map_of_SomeD)
  then have "size_prod (\<lambda>_. 0) size (k, w) \<le> size_list (size_prod (\<lambda>_. 0) size) m"
    by (simp add: size_list_estimation')
  then show ?thesis using JObject by simp
qed auto

lemma size_as_array: "as_array v = Some xs \<Longrightarrow> x \<in> set xs \<Longrightarrow> size x < size v"
  by (cases v) (auto dest: size_list_estimation' [of _ _ "size _" size])

end
