(* ===== verification/Contract.thy ===== *)
theory Contract
  imports Json
begin

text \<open>
  The shared types of \<open>src/contract.rs\<close>: provider protocols, backends, model routes and their
  endpoint overrides, teams, API keys, budgets, the configuration snapshot and the usage events.
  Struct fields carry a short prefix of their struct, durations are milliseconds.
\<close>

type_synonym key_hash = "u8 list"
type_synonym duration = nat

datatype backend_format = FmtOpenAi | FmtAnthropic

section \<open>Provider protocols\<close>

datatype provider_protocol =
    OpenAiChat | OpenAiResponses | OpenAiCompletions | OpenAiEmbeddings | OpenAiRerank
  | QwenRerank | CohereRerank | VoyageRerank | JinaRerank | OpenAiAudioTranscriptions
  | SystemOne | AnthropicMessages | LocalOpenAiChat | CustomOpenAiChat

definition protocol_parse :: "string \<Rightarrow> provider_protocol" where
  "protocol_parse s = (let t = to_ascii_lowercase (trim s) in
     if t \<in> {''openai_responses'', ''responses''} then OpenAiResponses
     else if t \<in> {''openai_completions'', ''completions''} then OpenAiCompletions
     else if t \<in> {''openai_embeddings'', ''embeddings''} then OpenAiEmbeddings
     else if t \<in> {''openai_rerank'', ''rerank'', ''custom_rerank''} then OpenAiRerank
     else if t \<in> {''qwen_rerank'', ''dashscope_rerank''} then QwenRerank
     else if t = ''cohere_rerank'' then CohereRerank
     else if t = ''voyage_rerank'' then VoyageRerank
     else if t = ''jina_rerank'' then JinaRerank
     else if t \<in> {''openai_audio_transcriptions'', ''openai_asr'', ''asr'', ''transcriptions''}
       then OpenAiAudioTranscriptions
     else if t \<in> {''systemone'', ''system_one'', ''typesafe_systemone'', ''jev_systemone'', ''decisions''}
       then SystemOne
     else if t \<in> {''anthropic_messages'', ''messages''} then AnthropicMessages
     else if t = ''local_openai_chat'' then LocalOpenAiChat
     else if t = ''custom_openai_chat'' then CustomOpenAiChat
     else OpenAiChat)"

fun protocol_as_str :: "provider_protocol \<Rightarrow> string" where
  "protocol_as_str OpenAiChat = ''openai_chat''"
| "protocol_as_str OpenAiResponses = ''openai_responses''"
| "protocol_as_str OpenAiCompletions = ''openai_completions''"
| "protocol_as_str OpenAiEmbeddings = ''openai_embeddings''"
| "protocol_as_str OpenAiRerank = ''openai_rerank''"
| "protocol_as_str QwenRerank = ''qwen_rerank''"
| "protocol_as_str CohereRerank = ''cohere_rerank''"
| "protocol_as_str VoyageRerank = ''voyage_rerank''"
| "protocol_as_str JinaRerank = ''jina_rerank''"
| "protocol_as_str OpenAiAudioTranscriptions = ''openai_audio_transcriptions''"
| "protocol_as_str SystemOne = ''systemone''"
| "protocol_as_str AnthropicMessages = ''anthropic_messages''"
| "protocol_as_str LocalOpenAiChat = ''local_openai_chat''"
| "protocol_as_str CustomOpenAiChat = ''custom_openai_chat''"

fun incoming_path :: "provider_protocol \<Rightarrow> string" where
  "incoming_path OpenAiChat = ''/v1/chat/completions''"
| "incoming_path LocalOpenAiChat = ''/v1/chat/completions''"
| "incoming_path CustomOpenAiChat = ''/v1/chat/completions''"
| "incoming_path OpenAiResponses = ''/v1/responses''"
| "incoming_path OpenAiCompletions = ''/v1/completions''"
| "incoming_path OpenAiEmbeddings = ''/v1/embeddings''"
| "incoming_path OpenAiRerank = ''/v1/rerank''"
| "incoming_path QwenRerank = ''/v1/rerank''"
| "incoming_path CohereRerank = ''/v1/rerank''"
| "incoming_path VoyageRerank = ''/v1/rerank''"
| "incoming_path JinaRerank = ''/v1/rerank''"
| "incoming_path OpenAiAudioTranscriptions = ''/v1/audio/transcriptions''"
| "incoming_path SystemOne = ''/v1/systemone''"
| "incoming_path AnthropicMessages = ''/v1/messages''"

definition accepts_incoming_path :: "provider_protocol \<Rightarrow> string \<Rightarrow> bool" where
  "accepts_incoming_path p path \<longleftrightarrow>
     path = incoming_path p \<or> (p = SystemOne \<and> path = ''/v1/decisions'')"

fun is_openai_chat_family :: "provider_protocol \<Rightarrow> bool" where
  "is_openai_chat_family OpenAiChat = True"
| "is_openai_chat_family LocalOpenAiChat = True"
| "is_openai_chat_family CustomOpenAiChat = True"
| "is_openai_chat_family _ = False"

fun protocol_label :: "provider_protocol \<Rightarrow> string" where
  "protocol_label OpenAiChat = ''OpenAI Chat Completions''"
| "protocol_label OpenAiResponses = ''OpenAI Responses''"
| "protocol_label OpenAiCompletions = ''OpenAI Completions''"
| "protocol_label OpenAiEmbeddings = ''OpenAI Embeddings''"
| "protocol_label OpenAiRerank = ''OpenAI-compatible Rerank''"
| "protocol_label QwenRerank = ''Qwen/DashScope Rerank''"
| "protocol_label CohereRerank = ''Cohere Rerank''"
| "protocol_label VoyageRerank = ''Voyage Rerank''"
| "protocol_label JinaRerank = ''Jina Rerank''"
| "protocol_label OpenAiAudioTranscriptions = ''OpenAI-compatible Audio Transcriptions''"
| "protocol_label SystemOne = ''System One Decisions''"
| "protocol_label AnthropicMessages = ''Anthropic Messages''"
| "protocol_label LocalOpenAiChat = ''Local OpenAI-compatible Chat''"
| "protocol_label CustomOpenAiChat = ''Custom OpenAI-compatible''"

section \<open>Backends and routes\<close>

record backend =
  be_id :: i64
  be_name :: string
  be_base_url :: string
  be_api_key_ref :: string
  be_api_key :: "string option"
  be_weight :: u32
  be_max_inflight :: u32
  be_format :: backend_format
  be_enabled :: bool

datatype routing_policy = LeastLoadedWeighted | RoundRobin | WeightedRoundRobin

definition policy_parse :: "string \<Rightarrow> routing_policy" where
  "policy_parse s = (let t = to_ascii_lowercase (trim s) in
     if t \<in> {''round_robin'', ''rr''} then RoundRobin
     else if t \<in> {''weighted_round_robin'', ''weighted'', ''wrr''} then WeightedRoundRobin
     else LeastLoadedWeighted)"

fun policy_as_str :: "routing_policy \<Rightarrow> string" where
  "policy_as_str LeastLoadedWeighted = ''least_loaded_weighted''"
| "policy_as_str RoundRobin = ''round_robin''"
| "policy_as_str WeightedRoundRobin = ''weighted_round_robin''"

record model_endpoint =
  ep_backend_id :: i64
  ep_provider_model_name :: string
  ep_provider_key_ref :: "string option"
  ep_auth_mode :: string
  ep_protocol :: string
  ep_weight :: u32
  ep_max_inflight :: u32
  ep_enabled :: bool
  ep_provider_key :: "string option"

record effective_model_endpoint =
  eff_provider_model_name :: string
  eff_provider_key :: "string option"
  eff_auth_mode :: string
  eff_protocol :: string

record model_route =
  rt_model_name :: string
  rt_backend_ids :: "i64 list"
  rt_fallback_backend_id :: "i64 option"
  rt_chars_per_token :: f64
  rt_first_byte_timeout :: duration
  rt_provider_model_name :: string
  rt_context_tokens :: "i64 option"
  rt_max_output_tokens :: "i64 option"
  rt_price_input_per_mtok_usd :: "f64 option"
  rt_price_output_per_mtok_usd :: "f64 option"
  rt_enabled :: bool
  rt_provider_key_ref :: "string option"
  rt_auth_mode :: string
  rt_protocol :: string
  rt_provider_key :: "string option"
  rt_routing_policy :: routing_policy
  rt_accept_anthropic_messages :: bool
  rt_endpoints :: "(i64, model_endpoint) hmap"

definition endpoint_for :: "model_route \<Rightarrow> i64 \<Rightarrow> effective_model_endpoint" where
  "endpoint_for r b = (case hm_get (rt_endpoints r) b of
     Some e \<Rightarrow>
       \<lparr>eff_provider_model_name =
          (if trim (ep_provider_model_name e) = [] then rt_provider_model_name r
           else ep_provider_model_name e),
        eff_provider_key = or_else (ep_provider_key e) (rt_provider_key r),
        eff_auth_mode = ep_auth_mode e,
        eff_protocol = ep_protocol e\<rparr>
   | None \<Rightarrow>
       \<lparr>eff_provider_model_name = rt_provider_model_name r,
        eff_provider_key = rt_provider_key r,
        eff_auth_mode = rt_auth_mode r,
        eff_protocol = rt_protocol r\<rparr>)"

definition endpoint_weight :: "model_route \<Rightarrow> i64 \<Rightarrow> u32" where
  "endpoint_weight r b =
     unwrap_or 1 (map_option (\<lambda>e. max (ep_weight e) 1) (filter_opt ep_enabled (hm_get (rt_endpoints r) b)))"

definition endpoint_max_inflight :: "model_route \<Rightarrow> i64 \<Rightarrow> u32" where
  "endpoint_max_inflight r b =
     unwrap_or 0 (map_option ep_max_inflight (filter_opt ep_enabled (hm_get (rt_endpoints r) b)))"

definition endpoint_enabled :: "model_route \<Rightarrow> i64 \<Rightarrow> bool" where
  "endpoint_enabled r b = unwrap_or True (map_option ep_enabled (hm_get (rt_endpoints r) b))"

section \<open>Teams, keys, budgets\<close>

record budget =
  bg_period :: string
  bg_max_tokens :: u64
  bg_max_usd_cents :: "u64 option"
  bg_per_model :: "(string, u64) hmap"

record team =
  tm_id :: i64
  tm_name :: string
  tm_budget :: "budget option"
  tm_enabled :: bool

record api_key =
  ak_id :: i64
  ak_key_hash :: key_hash
  ak_key_prefix :: string
  ak_team_id :: i64
  ak_owner :: string
  ak_allowed_models :: "string list"
  ak_budget :: "budget option"
  ak_rpm_limit :: "u32 option"
  ak_concurrency_limit :: "u32 option"
  ak_expires_at :: "i64 option"
  ak_enabled :: bool

record config_snapshot =
  cs_backends :: "(i64, backend) hmap"
  cs_routes :: "(string, model_route) hmap"
  cs_teams :: "(i64, team) hmap"
  cs_keys_by_hash :: "(key_hash, api_key) hmap"

definition empty_snapshot :: config_snapshot where
  "empty_snapshot = \<lparr>cs_backends = [], cs_routes = [], cs_teams = [], cs_keys_by_hash = []\<rparr>"

datatype budget_error = RateLimited duration | BudgetExceeded u64

datatype usage_scope = KeyTotal | KeyModel | TeamTotal | TeamModel

record usage_seed =
  us_scope :: usage_scope
  us_id :: i64
  us_model :: string
  us_period_start :: i64
  us_used_tokens :: u64

record usage_event =
  ev_ts :: i64
  ev_request_id :: string
  ev_key_id :: i64
  ev_team_id :: i64
  ev_model :: string
  ev_backend_id :: i64
  ev_status :: u16
  ev_input_tokens :: u64
  ev_output_tokens :: u64
  ev_estimated :: bool
  ev_ttfb_ms :: u64
  ev_total_ms :: u64
  ev_router_overhead_ms :: u64
  ev_completed_at_ms :: u64
  ev_stream :: bool
  ev_client_aborted :: bool
  ev_error_class :: "string option"

section \<open>Properties\<close>

lemma endpoint_weight_ge_1: "1 \<le> endpoint_weight r b"
  by (cases "hm_get (rt_endpoints r) b") (auto simp: endpoint_weight_def)

lemma endpoint_weight_pos: "0 < unat (endpoint_weight r b)"
  using endpoint_weight_ge_1 [of r b] by (simp add: word_le_nat_alt)

lemma protocol_roundtrip: "protocol_parse (protocol_as_str p) = p"
  by (cases p; hypsubst; code_simp)

lemma policy_roundtrip: "policy_parse (policy_as_str q) = q"
  by (cases q; hypsubst; code_simp)

text \<open>
  Every protocol and every routing policy is recovered from the name it is stored under, so
  the loader's canonicalisation (parse, then print) is idempotent and no two protocols share a
  stored name; the chat-completions path is accepted by exactly the OpenAI chat family, the one the
  Claude bridge may serve, and a path is accepted by a protocol of that family only if it is this one.
\<close>

theorem protocol_names_and_paths:
  "protocol_parse (protocol_as_str p) = p
   \<and> protocol_as_str (protocol_parse (protocol_as_str (protocol_parse s))) = protocol_as_str (protocol_parse s)
   \<and> policy_parse (policy_as_str q) = q
   \<and> inj protocol_as_str
   \<and> (is_openai_chat_family p \<longleftrightarrow> accepts_incoming_path p ''/v1/chat/completions'')
   \<and> \<not> (is_openai_chat_family p \<and> accepts_incoming_path p ''/v1/messages'')"
proof -
  have "inj protocol_as_str"
    by (rule inj_on_inverseI [where g = protocol_parse]) (rule protocol_roundtrip)
  moreover have "is_openai_chat_family p \<longleftrightarrow> accepts_incoming_path p ''/v1/chat/completions''"
    by (cases p) (simp_all add: accepts_incoming_path_def)
  moreover have "\<not> (is_openai_chat_family p \<and> accepts_incoming_path p ''/v1/messages'')"
    by (cases p) (simp_all add: accepts_incoming_path_def)
  ultimately show ?thesis
    by (simp add: protocol_roundtrip policy_roundtrip)
qed

end
