(* ===== verification/Auth.thy ===== *)
theory Auth
  imports Contract
begin

text \<open>
  Key lookup and model permission, \<open>src/auth.rs\<close>. The SHA-256 of the \<open>sha2\<close> crate is a
  parameter; the wall clock is an argument in seconds.
\<close>

definition hash_key :: "(bytes \<Rightarrow> key_hash) \<Rightarrow> string \<Rightarrow> key_hash" where
  "hash_key sha256 plaintext = sha256 plaintext"

datatype auth_error = InvalidKey | Expired | Disabled | ModelNotAllowed

definition model_allowed :: "api_key \<Rightarrow> string \<Rightarrow> bool" where
  "model_allowed k m \<longleftrightarrow> ak_allowed_models k = [] \<or> list_ex (\<lambda>x. x = m) (ak_allowed_models k)"

definition authorize_key :: "config_snapshot \<Rightarrow> key_hash \<Rightarrow> i64 \<Rightarrow> auth_error + api_key" where
  "authorize_key snap h now =
     try_res (ok_or InvalidKey (hm_get (cs_keys_by_hash snap) h)) (\<lambda>key.
       if \<not> ak_enabled key then Inl Disabled
       else case hm_get (cs_teams snap) (ak_team_id key) of
         None \<Rightarrow> Inl Disabled
       | Some team \<Rightarrow>
           if \<not> tm_enabled team then Inl Disabled
           else case ak_expires_at key of
             Some ex \<Rightarrow> if ex \<le> now then Inl Expired else Inr key
           | None \<Rightarrow> Inr key)"

definition authorize_detailed ::
  "config_snapshot \<Rightarrow> key_hash \<Rightarrow> string \<Rightarrow> i64 \<Rightarrow> auth_error + api_key" where
  "authorize_detailed snap h model now =
     try_res (authorize_key snap h now) (\<lambda>key.
       if \<not> model_allowed key model then Inl ModelNotAllowed else Inr key)"

definition authorize :: "config_snapshot \<Rightarrow> key_hash \<Rightarrow> string \<Rightarrow> i64 \<Rightarrow> api_key option" where
  "authorize snap h model now =
     (case authorize_detailed snap h model now of Inl _ \<Rightarrow> None | Inr k \<Rightarrow> Some k)"

section \<open>Properties\<close>

text \<open>The conditions of the hot path, as one predicate on the snapshot.\<close>

definition key_live :: "config_snapshot \<Rightarrow> key_hash \<Rightarrow> i64 \<Rightarrow> api_key \<Rightarrow> bool" where
  "key_live snap h now k \<longleftrightarrow>
     hm_get (cs_keys_by_hash snap) h = Some k \<and> ak_enabled k
     \<and> (case hm_get (cs_teams snap) (ak_team_id k) of None \<Rightarrow> False | Some t \<Rightarrow> tm_enabled t)
     \<and> (case ak_expires_at k of None \<Rightarrow> True | Some ex \<Rightarrow> now < ex)"

lemma model_allowed_iff: "model_allowed k m \<longleftrightarrow> ak_allowed_models k = [] \<or> m \<in> set (ak_allowed_models k)"
  by (auto simp: model_allowed_def list_ex_iff)

lemma authorize_key_Some:
  assumes "hm_get (cs_keys_by_hash snap) h = Some key"
  shows "authorize_key snap h now =
     (if \<not> ak_enabled key \<or> \<not> (case hm_get (cs_teams snap) (ak_team_id key) of None \<Rightarrow> False | Some t \<Rightarrow> tm_enabled t)
      then Inl Disabled
      else if \<not> (case ak_expires_at key of None \<Rightarrow> True | Some ex \<Rightarrow> now < ex) then Inl Expired
      else Inr key)"
  using assms by (auto simp: authorize_key_def split: option.split)

lemma authorize_key_None:
  "hm_get (cs_keys_by_hash snap) h = None \<Longrightarrow> authorize_key snap h now = Inl InvalidKey"
  by (simp add: authorize_key_def)

lemma authorize_key_iff: "authorize_key snap h now = Inr k \<longleftrightarrow> key_live snap h now k"
  by (cases "hm_get (cs_keys_by_hash snap) h")
     (auto simp: authorize_key_None authorize_key_Some key_live_def)

lemma authorize_key_error:
  "authorize_key snap h now = Inl e \<Longrightarrow> e \<noteq> ModelNotAllowed \<and> (e = InvalidKey \<longleftrightarrow> hm_get (cs_keys_by_hash snap) h = None)"
  by (cases "hm_get (cs_keys_by_hash snap) h")
     (auto simp: authorize_key_None authorize_key_Some split: if_splits)

text \<open>
  C24. A request is authorised exactly when its hash names an enabled key whose team exists and is
  enabled, that has not expired (the expiry second itself is already too late), and whose allow
  list is empty or contains the model; a live key with a model outside its list is the only
  way to get \<open>ModelNotAllowed\<close> (the 403), and an unknown hash the only way to get
  \<open>InvalidKey\<close>.
\<close>

theorem authorize_exact:
  "(authorize snap h m now = Some k \<longleftrightarrow>
      key_live snap h now k \<and> (ak_allowed_models k = [] \<or> m \<in> set (ak_allowed_models k)))
   \<and> (authorize_detailed snap h m now = Inl ModelNotAllowed \<longleftrightarrow>
      (\<exists>k'. key_live snap h now k' \<and> ak_allowed_models k' \<noteq> [] \<and> m \<notin> set (ak_allowed_models k')))
   \<and> (authorize_detailed snap h m now = Inl InvalidKey \<longleftrightarrow> hm_get (cs_keys_by_hash snap) h = None)"
proof (cases "authorize_key snap h now")
  case (Inl e)
  then have "\<not> key_live snap h now k'" for k'
    using authorize_key_iff [of snap h now k'] by simp
  with Inl authorize_key_error [OF Inl] show ?thesis
    by (simp add: authorize_def authorize_detailed_def)
next
  case (Inr k')
  then have k': "key_live snap h now k'" by (simp add: authorize_key_iff)
  have u: "key_live snap h now j \<longleftrightarrow> j = k'" for j
    using k' by (auto simp: key_live_def)
  have "hm_get (cs_keys_by_hash snap) h \<noteq> None" using k' by (simp add: key_live_def)
  then show ?thesis using Inr
    by (auto simp: u authorize_def authorize_detailed_def model_allowed_iff)
qed

end
