(* ===== verification/Calendar.thy ===== *)
theory Calendar
  imports Auth
begin

text \<open>
  Budget periods, the calendar of \<open>src/budget/mod.rs\<close>: \<open>period_start\<close> and the proleptic
  Gregorian conversions it uses. Integer \<open>/\<close> and \<open>%\<close> of Rust truncate towards zero and are
  \<open>sdiv\<close> and \<open>smod\<close>; the casts to \<open>u32\<close> keep the low 32 bits.
\<close>

definition days_from_civil :: "i64 \<Rightarrow> u32 \<Rightarrow> u32 \<Rightarrow> i64" where
  "days_from_civil y0 m d =
     (let y = (if m \<le> 2 then y0 - 1 else y0);
          era = (if y \<ge> 0 then y sdiv 400 else (y - 399) sdiv 400);
          yoe = y - era * 400;
          mp = (uint m + 9) smod 12;
          doy = (153 * mp + 2) sdiv 5 + uint d - 1;
          doe = yoe * 365 + yoe sdiv 4 - yoe sdiv 100 + doy
      in era * 146097 + doe - 719468)"

definition civil_from_days :: "i64 \<Rightarrow> i64 \<times> u32 \<times> u32" where
  "civil_from_days z0 =
     (let z = z0 + 719468;
          era = (if z \<ge> 0 then z sdiv 146097 else (z - 146096) sdiv 146097);
          doe = z - era * 146097;
          yoe = (doe - doe sdiv 1460 + doe sdiv 36524 - doe sdiv 146096) sdiv 365;
          y = yoe + era * 400;
          doy = doe - (365 * yoe + yoe sdiv 4 - yoe sdiv 100);
          mp = (5 * doy + 2) sdiv 153;
          d = doy - (153 * mp + 2) sdiv 5 + 1;
          m = (if mp < 10 then mp + 3 else mp - 9)
      in (if m \<le> 2 then y + 1 else y, word_of_int m, word_of_int d))"

definition period_start :: "string \<Rightarrow> i64 \<Rightarrow> i64" where
  "period_start period now_secs =
     (if period = ''month'' then
        let days = now_secs div 86400;
            (year, month, _) = civil_from_days days;
            start_days = days_from_civil year month 1
        in start_days * 86400
      else let days = now_secs div 86400 in days * 86400)"

section \<open>Floor division\<close>

lemma sdiv_nonneg: "0 \<le> a \<Longrightarrow> 0 < b \<Longrightarrow> a sdiv b = a div (b::int)"
  by (simp add: signed_divide_int_def sgn_if)

lemma smod_nonneg: "0 \<le> a \<Longrightarrow> 0 < b \<Longrightarrow> a smod b = a mod (b::int)"
  by (cases "a = 0") (simp_all add: signed_modulo_int_def)

lemma era_floor: "(if z \<ge> 0 then z sdiv n else (z - m) sdiv n) = z div n"
  if "0 < n" and m: "m = n - 1" for z n m :: int
proof (cases "0 \<le> z")
  case True
  with that show ?thesis by (simp add: sdiv_nonneg)
next
  case False
  have "(z - m) sdiv n = - ((n - 1 - z) div n)"
    using False that by (simp add: signed_divide_int_def sgn_if abs_if)
  also have "n - 1 - z = n * (- (z div n)) + (n - 1 - z mod n)"
    by (simp add: algebra_simps)
  also have "\<dots> div n = - (z div n)"
    using that pos_mod_sign [OF that(1), of z] pos_mod_bound [OF that(1), of z]
    by (intro int_div_pos_eq [OF refl]) simp_all
  finally show ?thesis using False by simp
qed

section \<open>Years of an era and months of a year\<close>

text \<open>Day of the era on which March year \<open>y\<close> starts, and the year the code computes for a day.\<close>

definition year_start :: "int \<Rightarrow> int" where
  "year_start y = 365 * y + y div 4 - y div 100 + y div 400"

definition year_pre :: "int \<Rightarrow> int" where
  "year_pre doe = doe - doe div 1460 + doe div 36524 - doe div 146096"

definition year_of :: "int \<Rightarrow> int" where
  "year_of doe = year_pre doe div 365"

definition month_start :: "int \<Rightarrow> int" where
  "month_start mp = (153 * mp + 2) div 5"

text \<open>A March year inside its era is a century, a four-year cycle and a year of the cycle.\<close>

lemma year_start_cycle:
  assumes "0 \<le> c" "c \<le> 3" "0 \<le> k" "k \<le> 24" "0 \<le> j" "j \<le> 3"
  shows "year_start (100 * c + 4 * k + j) = 36524 * c + 1461 * k + 365 * j"
proof -
  have "(100 * c + 4 * k + j) div 4 = 25 * c + k"
    using assms by (intro int_div_pos_eq [where r = j]) simp_all
  moreover have "(100 * c + 4 * k + j) div 100 = c"
    using assms by (intro int_div_pos_eq [where r = "4 * k + j"]) simp_all
  moreover have "(100 * c + 4 * k + j) div 400 = 0"
    using assms by (intro int_div_pos_eq [where r = "100 * c + 4 * k + j"]) simp_all
  ultimately show ?thesis by (simp add: year_start_def)
qed

lemma year_start_400: "year_start 400 = 146097"
  by (simp add: year_start_def)

lemma year_start_next:
  assumes "0 \<le> c" "c \<le> 3" "0 \<le> k" "k \<le> 24" "0 \<le> j" "j \<le> 3"
  shows "year_start (100 * c + 4 * k + j + 1) - year_start (100 * c + 4 * k + j) =
    (if j = 3 \<and> (k \<noteq> 24 \<or> c = 3) then 366 else 365)"
proof -
  consider "j < 3" | "j = 3" "k < 24" | "j = 3" "k = 24" "c < 3" | "j = 3" "k = 24" "c = 3"
    using assms by linarith
  then show ?thesis
  proof cases
    case 1
    then show ?thesis using assms year_start_cycle [of c k j] year_start_cycle [of c k "j + 1"]
      by (simp add: algebra_simps)
  next
    case 2
    then show ?thesis using assms year_start_cycle [of c k j] year_start_cycle [of c "k + 1" 0]
      by (simp add: algebra_simps)
  next
    case 3
    then show ?thesis using assms year_start_cycle [of c k j] year_start_cycle [of "c + 1" 0 0]
      by (simp add: algebra_simps)
  next
    case 4
    then show ?thesis using year_start_cycle [of c k j] by (simp add: year_start_400)
  qed
qed

lemma cycle_ex:
  assumes "0 \<le> y" "y < 400"
  obtains c k j :: int where "0 \<le> c" "c \<le> 3" "0 \<le> k" "k \<le> 24" "0 \<le> j" "j \<le> 3"
    and "y = 100 * c + 4 * k + j"
proof
  show "y = 100 * (y div 100) + 4 * (y mod 100 div 4) + y mod 100 mod 4"
    by (metis add.assoc mult_div_mod_eq)
  show "0 \<le> y div 100" "y div 100 \<le> 3" "0 \<le> y mod 100 mod 4" "y mod 100 mod 4 \<le> 3"
    "0 \<le> y mod 100 div 4" "y mod 100 div 4 \<le> 24"
    using assms by linarith+
qed

text \<open>The code's formula gives the year of a day: 1460 days short a leap day per cycle.\<close>

lemma year_of_cycle:
  assumes b: "0 \<le> c" "c \<le> 3" "0 \<le> k" "k \<le> 24" "0 \<le> j" "j \<le> 3"
    and t: "0 \<le> t" "t < (if j = 3 \<and> (k \<noteq> 24 \<or> c = 3) then 366 else 365)"
  shows "year_of (36524 * c + 1461 * k + 365 * j + t) = 100 * c + 4 * k + j"
proof -
  define doe where "doe = 36524 * c + 1461 * k + 365 * j + t"
  define \<delta> where "\<delta> = (if 24 * c + k + 365 * j + t \<ge> 1460 then 1 else 0 :: int)"
  define \<epsilon> where "\<epsilon> = (if doe = 146096 then 1 else 0 :: int)"
  have le: "1461 * k + 365 * j + t \<le> 36523 \<or> (c = 3 \<and> k = 24 \<and> j = 3 \<and> t = 365)"
    using b t by (auto split: if_splits)
  have "doe div 1460 = 25 * c + k + \<delta>"
    using b t unfolding doe_def \<delta>_def
    by (intro int_div_pos_eq [where r = "24 * c + k + 365 * j + t - 1460 * \<delta>"])
       (auto simp: \<delta>_def split: if_splits)
  moreover have "doe div 36524 = c + \<epsilon>"
    using b t le unfolding doe_def \<epsilon>_def
    by (intro int_div_pos_eq [where r = "1461 * k + 365 * j + t - 36524 * \<epsilon>"])
       (auto simp: \<epsilon>_def doe_def split: if_splits)
  moreover have "doe div 146096 = \<epsilon>"
    using b t le unfolding \<epsilon>_def
    by (intro int_div_pos_eq [where r = "doe - 146096 * \<epsilon>"])
       (auto simp: \<epsilon>_def doe_def split: if_splits)
  ultimately have "year_pre doe = 365 * (100 * c + 4 * k + j) + (t - \<delta>)"
    by (simp add: year_pre_def doe_def)
  moreover have "0 \<le> t - \<delta>" "t - \<delta> < 365"
    using b t unfolding \<delta>_def by (auto split: if_splits)
  ultimately show ?thesis
    unfolding year_of_def doe_def [symmetric] by (intro int_div_pos_eq) simp_all
qed

lemma year_start_ex:
  "0 \<le> doe \<Longrightarrow> doe < year_start (int n) \<Longrightarrow>
   \<exists>k<n. year_start (int k) \<le> doe \<and> doe < year_start (int k + 1)"
proof (induction n)
  case 0
  then show ?case by (simp add: year_start_def)
next
  case (Suc n)
  show ?case
  proof (cases "doe < year_start (int n)")
    case True
    with Suc show ?thesis by (meson less_SucI)
  next
    case False
    with Suc.prems show ?thesis by (intro exI [of _ n]) (simp add: add.commute)
  qed
qed

text \<open>The code's year is the one whose interval of days contains the day.\<close>

lemma year_of_interval:
  assumes "0 \<le> y" "y < 400" "year_start y \<le> doe" "doe < year_start (y + 1)"
  shows "year_of doe = y"
proof -
  obtain c k j where b: "0 \<le> c" "c \<le> 3" "0 \<le> k" "k \<le> 24" "0 \<le> j" "j \<le> 3"
    and y: "y = 100 * c + 4 * k + j"
    using assms(1,2) by (rule cycle_ex)
  show ?thesis
    using year_of_cycle [OF b, of "doe - year_start y"] assms(3,4) year_start_next [OF b]
    unfolding y by (simp add: year_start_cycle [OF b] split: if_splits)
qed

lemma year_of_bounds:
  assumes "0 \<le> doe" "doe < 146097"
  shows "0 \<le> year_of doe \<and> year_of doe < 400 \<and> year_start (year_of doe) \<le> doe
    \<and> doe < year_start (year_of doe + 1)"
proof -
  have "doe < year_start (int 400)" using assms by (simp add: year_start_def)
  from year_start_ex [OF assms(1) this] obtain k where
    k: "k < 400" "year_start (int k) \<le> doe" "doe < year_start (int k + 1)" by auto
  have "year_of doe = int k" using k by (intro year_of_interval) auto
  with k show ?thesis by simp
qed

lemma year_length:
  assumes "0 \<le> y" "y < 400"
  shows "year_start (y + 1) - year_start y \<le> 366"
proof -
  obtain c k j where b: "0 \<le> c" "c \<le> 3" "0 \<le> k" "k \<le> 24" "0 \<le> j" "j \<le> 3"
    and "y = 100 * c + 4 * k + j"
    using assms by (rule cycle_ex)
  then show ?thesis using year_start_next [OF b] by (auto split: if_splits)
qed

lemma month_cases:
  assumes "0 \<le> (mp::int)" "mp \<le> 11"
  shows "mp \<in> {0, 1, 2, 3, 4, 5, 6, 7, 8, 9, 10, 11}"
  using assms by (simp only: insert_iff empty_iff) presburger

lemma month_of_start:
  assumes "0 \<le> mp" "mp \<le> 11"
  shows "(5 * month_start mp + 2) div 153 = mp \<and> 0 \<le> month_start mp"
  using month_cases [OF assms] by (auto simp: month_start_def)

lemma month_bounds:
  assumes "0 \<le> doy" "doy < 366"
  defines "mp \<equiv> (5 * doy + 2) div 153"
  shows "0 \<le> mp \<and> mp \<le> 11 \<and> month_start mp \<le> doy \<and> doy < month_start mp + 31"
proof -
  have mp: "0 \<le> mp" "mp \<le> 11" using assms unfolding mp_def by linarith+
  have "153 * mp \<le> 5 * doy + 2" "5 * doy + 2 < 153 * mp + 153"
    unfolding mp_def using pos_mod_sign [of 153 "5 * doy + 2"] pos_mod_bound [of 153 "5 * doy + 2"]
    by (simp_all add: minus_mult_div_eq_mod [symmetric])
  then show ?thesis using mp month_cases [OF mp] by (auto simp: month_start_def)
qed

section \<open>Civil dates\<close>

text \<open>
  A day number is its era, year of the era, March-based month and day of the month.
\<close>

definition civil_parts :: "i64 \<Rightarrow> int \<Rightarrow> int \<Rightarrow> int \<Rightarrow> int \<Rightarrow> bool" where
  "civil_parts z era yoe mp d \<longleftrightarrow>
     z + 719468 = 146097 * era + year_start yoe + month_start mp + (d - 1)
     \<and> 0 \<le> yoe \<and> yoe < 400 \<and> 0 \<le> mp \<and> mp \<le> 11 \<and> 1 \<le> d \<and> d \<le> 31
     \<and> year_start yoe + month_start mp + (d - 1) < year_start (yoe + 1)
     \<and> (5 * (month_start mp + (d - 1)) + 2) div 153 = mp"

definition march_month :: "int \<Rightarrow> int" where
  "march_month mp = (if mp < 10 then mp + 3 else mp - 9)"

definition civil_date :: "int \<Rightarrow> int \<Rightarrow> int \<Rightarrow> int \<Rightarrow> i64 \<times> u32 \<times> u32" where
  "civil_date era yoe mp d =
     (if march_month mp \<le> 2 then yoe + era * 400 + 1 else yoe + era * 400,
      word_of_int (march_month mp), word_of_int d)"

lemma era_bound: "0 \<le> z - z div 146097 * 146097" "z - z div 146097 * 146097 < 146097" for z :: int
  by (simp_all add: minus_div_mult_eq_mod)

lemma year_start_lt_400: "0 \<le> y \<Longrightarrow> y < 400 \<Longrightarrow> year_start y = 365 * y + y div 4 - y div 100"
  by (simp add: year_start_def)

lemma year_start_nonneg: "0 \<le> y \<Longrightarrow> 0 \<le> year_start y"
  unfolding year_start_def using zdiv_mono2 [of y 4 100] by simp

lemma year_start_upper:
  assumes "0 \<le> y" "y < 400"
  shows "year_start (y + 1) \<le> 146097"
proof -
  obtain c k j where b: "0 \<le> c" "c \<le> 3" "0 \<le> k" "k \<le> 24" "0 \<le> j" "j \<le> 3"
    and y: "y = 100 * c + 4 * k + j"
    using assms by (rule cycle_ex)
  show ?thesis unfolding y using year_start_next [OF b] year_start_cycle [OF b] b
    by (auto split: if_splits)
qed

lemma civil_parts_ex: "\<exists>era yoe mp d. civil_parts z era yoe mp d"
proof -
  define w where "w = z + 719468"
  define era where "era = w div 146097"
  define doe where "doe = w - w div 146097 * 146097"
  define yoe where "yoe = year_of doe"
  define doy where "doy = doe - year_start yoe"
  define mp where "mp = (5 * doy + 2) div 153"
  have y: "0 \<le> yoe" "yoe < 400" "year_start yoe \<le> doe" "doe < year_start (yoe + 1)"
    using year_of_bounds [OF era_bound, of w] unfolding yoe_def doe_def by simp_all
  then have doy: "0 \<le> doy" "doy < 366" using year_length [OF y(1,2)] unfolding doy_def by simp_all
  note m = month_bounds [OF doy, folded mp_def]
  have "civil_parts z era yoe mp (doy - month_start mp + 1)"
    using y m unfolding civil_parts_def w_def [symmetric]
    by (simp add: era_def doe_def doy_def mp_def algebra_simps)
  then show ?thesis by blast
qed

lemma civil_from_days_parts:
  assumes "civil_parts z era yoe mp d"
  shows "civil_from_days z = civil_date era yoe mp d"
proof -
  define doe where "doe = year_start yoe + month_start mp + (d - 1)"
  note p = assms [unfolded civil_parts_def]
  have ms: "0 \<le> month_start mp" using p month_of_start by simp
  have doe: "0 \<le> doe" "doe < 146097"
    using p ms year_start_nonneg [of yoe] year_start_upper [of yoe] unfolding doe_def by simp_all
  have era: "(z + 719468) div 146097 = era"
    using p doe by (intro int_div_pos_eq [where r = doe]) (simp_all add: doe_def)
  have eraf: "(if z + 719468 \<ge> 0 then (z + 719468) sdiv 146097 else (z + 719468 - 146096) sdiv 146097) = era"
    by (rule trans [OF era_floor era]) simp_all
  have yoe: "year_of doe = yoe"
    using p ms by (intro year_of_interval) (simp_all add: doe_def)
  have pre: "(doe - doe sdiv 1460 + doe sdiv 36524 - doe sdiv 146096) sdiv 365 = yoe"
  proof -
    have "0 \<le> year_pre doe" using yoe p pos_imp_zdiv_nonneg_iff [of 365 "year_pre doe"] unfolding year_of_def by simp
    then show ?thesis using doe yoe by (simp add: sdiv_nonneg year_of_def year_pre_def)
  qed
  have z: "z + 719468 - era * 146097 = doe" using p by (simp add: doe_def)
  have doy: "doe - (365 * yoe + yoe sdiv 4 - yoe sdiv 100) = month_start mp + (d - 1)"
    using p by (simp add: doe_def year_start_lt_400 sdiv_nonneg)
  have mp: "(5 * (month_start mp + (d - 1)) + 2) sdiv 153 = mp"
    using p ms by (simp add: sdiv_nonneg)
  have md: "(153 * mp + 2) sdiv 5 = month_start mp"
    using p by (simp add: month_start_def sdiv_nonneg)
  show ?thesis
    unfolding civil_from_days_def Let_def eraf z pre doy mp md
    by (simp add: civil_date_def march_month_def)
qed

lemma u32_of_month:
  assumes "0 \<le> mp" "mp \<le> 11"
  shows "uint (word_of_int (march_month mp) :: u32) = march_month mp"
    and "(word_of_int (march_month mp) :: u32) \<le> 2 \<longleftrightarrow> march_month mp \<le> 2"
proof -
  have r: "0 \<le> march_month mp" "march_month mp \<le> 12" using assms by (auto simp: march_month_def)
  then show u: "uint (word_of_int (march_month mp) :: u32) = march_month mp"
    by (simp add: uint_word_of_int)
  show "(word_of_int (march_month mp) :: u32) \<le> 2 \<longleftrightarrow> march_month mp \<le> 2"
    by (simp add: word_le_def u)
qed

lemma days_from_civil_parts:
  assumes p: "civil_parts z era yoe mp d" and d': "1 \<le> d'" "d' \<le> 31"
  shows "days_from_civil (fst (civil_date era yoe mp d)) (fst (snd (civil_date era yoe mp d))) (word_of_int d')
    = z - (d - d')"
proof -
  note q = p [unfolded civil_parts_def]
  have mp: "0 \<le> mp" "mp \<le> 11" using q by simp_all
  have y: "(if march_month mp \<le> 2 then (if march_month mp \<le> 2 then yoe + era * 400 + 1 else yoe + era * 400) - 1
      else (if march_month mp \<le> 2 then yoe + era * 400 + 1 else yoe + era * 400)) = yoe + era * 400"
    by simp
  have era: "(yoe + era * 400) div 400 = era"
    using q by (intro int_div_pos_eq [where r = yoe]) simp_all
  have eraf: "(if yoe + era * 400 \<ge> 0 then (yoe + era * 400) sdiv 400 else (yoe + era * 400 - 399) sdiv 400) = era"
    by (rule trans [OF era_floor era]) simp_all
  have m: "(march_month mp + 9) smod 12 = mp"
    using mp by (simp add: smod_nonneg march_month_def)
  have d: "uint (word_of_int d' :: u32) = d'" using d' by (simp add: uint_word_of_int)
  have md: "(153 * mp + 2) sdiv 5 = month_start mp"
    using mp by (simp add: month_start_def sdiv_nonneg)
  show ?thesis
    unfolding days_from_civil_def Let_def civil_date_def fst_conv snd_conv u32_of_month [OF mp] y m d md
      eraf
    using q year_start_lt_400 [of yoe] by (simp add: sdiv_nonneg)
qed

lemma civil_parts_month_start:
  assumes "civil_parts z era yoe mp d"
  shows "civil_parts (z - (d - 1)) era yoe mp 1"
  using assms month_of_start [of mp] unfolding civil_parts_def by simp

lemma days_civil_roundtrip:
  "(case civil_from_days z of (y, m, d) \<Rightarrow> days_from_civil y m d) = z"
proof -
  obtain era yoe mp d where p: "civil_parts z era yoe mp d" using civil_parts_ex by blast
  have "1 \<le> d" "d \<le> 31" using p by (simp_all add: civil_parts_def)
  from days_from_civil_parts [OF p this] civil_from_days_parts [OF p] show ?thesis
    by (simp add: civil_date_def)
qed

section \<open>Periods\<close>

lemma period_start_month:
  assumes "civil_parts (now div 86400) era yoe mp d"
  shows "period_start ''month'' now = (now div 86400 - (d - 1)) * 86400"
  using days_from_civil_parts [OF assms, of 1] civil_from_days_parts [OF assms]
  by (simp add: period_start_def civil_date_def)

lemma period_start_day: "p \<noteq> ''month'' \<Longrightarrow> period_start p now = now div 86400 * 86400"
  by (simp add: period_start_def)

lemma day_floor: "now div 86400 * 86400 \<le> now" "now < now div 86400 * 86400 + 86400" for now :: int
  by (simp_all add: minus_mod_eq_div_mult [symmetric])

text \<open>
  The civil-date conversions of the budget period are inverse: every day number, before and
  after the epoch, is recovered from its year, month and day.
\<close>

theorem civil_roundtrip:
  "(case civil_from_days z of (y, m, d) \<Rightarrow> days_from_civil y m d) = z"
  by (rule days_civil_roundtrip)

text \<open>
  A period start is never after the instant it is computed from, less than 31 days before it
  for a month and less than one day before it otherwise, falls on midnight UTC, and every instant
  of the period from its start on has the same start: the usage counters of one period share one key.
\<close>

theorem period_start_sound:
  "period_start p now \<le> now
   \<and> now < period_start p now + (if p = ''month'' then 31 * 86400 else 86400)
   \<and> 86400 dvd period_start p now
   \<and> (period_start p now \<le> t \<and> t \<le> now \<longrightarrow> period_start p t = period_start p now)"
proof (cases "p = ''month''")
  case False
  have "t div 86400 = now div 86400" if "now div 86400 * 86400 \<le> t" "t \<le> now"
    using that by (intro int_div_pos_eq [where r = "t - now div 86400 * 86400"])
      (use day_floor [of now] in simp_all)
  with False show ?thesis using day_floor [of now] by (simp add: period_start_day)
next
  case True
  define n where "n = now div 86400"
  obtain era yoe mp d where p: "civil_parts n era yoe mp d" using civil_parts_ex by blast
  note q = p [unfolded civil_parts_def]
  have start: "period_start p now = (n - (d - 1)) * 86400"
    using period_start_month p True unfolding n_def by simp
  have same: "period_start p t = period_start p now" if t: "(n - (d - 1)) * 86400 \<le> t" "t \<le> now"
  proof -
    define u where "u = t div 86400"
    have u: "n - (d - 1) \<le> u" "u \<le> n"
      using t zdiv_mono1 [OF t(1), of 86400] zdiv_mono1 [OF t(2), of 86400] unfolding u_def n_def by simp_all
    have "(5 * month_start mp + 2) div 153 \<le> (5 * (month_start mp + (d - (n - u) - 1)) + 2) div 153"
      "(5 * (month_start mp + (d - (n - u) - 1)) + 2) div 153 \<le> (5 * (month_start mp + (d - 1)) + 2) div 153"
      using u by (intro zdiv_mono1; simp)+
    then have "(5 * (month_start mp + (d - (n - u) - 1)) + 2) div 153 = mp"
      using q month_of_start [of mp] by simp
    then have "civil_parts u era yoe mp (d - (n - u))"
      using q u unfolding civil_parts_def by simp
    from period_start_month [OF this [unfolded u_def]] show ?thesis
      unfolding start u_def [symmetric] using True by simp
  qed
  have n: "n * 86400 \<le> now" "now < n * 86400 + 86400" and d: "1 \<le> d" "d \<le> 31"
    using day_floor [of now] q unfolding n_def by simp_all
  have "(n - (d - 1)) * 86400 \<le> now" "now < (n - (d - 1)) * 86400 + 31 * 86400"
    using n d by (simp_all add: left_diff_distrib)
  with True same show ?thesis unfolding start by simp
qed

text \<open>The hypotheses at a concrete instant: 2024-02-29 12:00:00 and the start of its month.\<close>

theorem period_start_sound_witness:
  "period_start ''month'' 1709208000 = 1706745600
   \<and> period_start ''month'' 1706745600 = period_start ''month'' 1709208000"
proof -
  have e: "period_start ''month'' 1709208000 = 1706745600"
    by code_simp
  show ?thesis using e period_start_sound [of "''month''" 1709208000 1706745600] by simp
qed

end
