(* ===== verification/Budget.thy ===== *)
theory Budget
  imports Calendar
begin

text \<open>
  The in-memory budget store of \<open>src/budget/mod.rs\<close>: token budgets per key and team, the
  request-per-minute token buckets and the concurrency gauges. Atomic counters are \<open>u64\<close> words.
  The operations here run without interference, so a compare-and-swap loop succeeds in its first
  round (a spurious failure of the weak form inside a loop only repeats the round on the same values,
  and the one exchange outside a loop, of \<open>last_refill_ms\<close>, is taken to succeed); the loops under
  interference, and that exchange failing, are the subject of the theory \<open>Budget_Concurrent\<close>. The clocks
  \<open>now_secs\<close> and \<open>now_ms\<close> are arguments.
\<close>

section \<open>State\<close>

record usage_key =
  uk_scope :: u8
  uk_id :: i64
  uk_model :: string
  uk_period_start :: i64

definition SCOPE_KEY_TOTAL :: u8 where "SCOPE_KEY_TOTAL = 0"
definition SCOPE_KEY_MODEL :: u8 where "SCOPE_KEY_MODEL = 1"
definition SCOPE_TEAM_TOTAL :: u8 where "SCOPE_TEAM_TOTAL = 2"
definition SCOPE_TEAM_MODEL :: u8 where "SCOPE_TEAM_MODEL = 3"

lemmas scope_defs = SCOPE_KEY_TOTAL_def SCOPE_KEY_MODEL_def SCOPE_TEAM_TOTAL_def SCOPE_TEAM_MODEL_def

record reserved_scope =
  rs_key :: usage_key
  rs_amount :: u64

record budget_reservation =
  br_scopes :: "reserved_scope list"
  br_consumed :: bool

record rpm_bucket =
  rb_tokens :: u64
  rb_last_refill_ms :: u64

record ram_budget_store =
  st_rpm :: "(i64, rpm_bucket) hmap"
  st_usage :: "(usage_key, u64) hmap"
  st_inflight :: "(i64, u64) hmap"
  st_team_budgets :: "(i64, budget) hmap"

definition store_new :: ram_budget_store where
  "store_new = \<lparr>st_rpm = [], st_usage = [], st_inflight = [], st_team_budgets = []\<rparr>"

section \<open>Counters\<close>

definition current_usage_key :: "ram_budget_store \<Rightarrow> usage_key \<Rightarrow> u64" where
  "current_usage_key st k = unwrap_or 0 (hm_get (st_usage st) k)"

definition current_usage :: "ram_budget_store \<Rightarrow> u8 \<Rightarrow> i64 \<Rightarrow> string \<Rightarrow> i64 \<Rightarrow> u64" where
  "current_usage st scope i model period =
     current_usage_key st \<lparr>uk_scope = scope, uk_id = i, uk_model = model, uk_period_start = period\<rparr>"

definition usage_add :: "ram_budget_store \<Rightarrow> usage_key \<Rightarrow> u64 \<Rightarrow> ram_budget_store" where
  "usage_add st k amount =
     (if amount = 0 then st
      else case hm_get (st_usage st) k of
        None \<Rightarrow> st
      | Some c \<Rightarrow> st\<lparr>st_usage := hm_insert k (c + amount) (st_usage st)\<rparr>)"

definition usage_sub :: "ram_budget_store \<Rightarrow> usage_key \<Rightarrow> u64 \<Rightarrow> ram_budget_store" where
  "usage_sub st k amount =
     (if amount = 0 then st
      else case hm_get (st_usage st) k of
        None \<Rightarrow> st
      | Some c \<Rightarrow> st\<lparr>st_usage := hm_insert k (sat_sub c amount) (st_usage st)\<rparr>)"

definition commit_scopes :: "ram_budget_store \<Rightarrow> reserved_scope list \<Rightarrow> u64 \<Rightarrow> ram_budget_store" where
  "commit_scopes st scopes actual =
     foldl (\<lambda>s r. if actual \<ge> rs_amount r then usage_add s (rs_key r) (actual - rs_amount r)
                  else usage_sub s (rs_key r) (rs_amount r - actual)) st scopes"

definition rollback_scopes :: "ram_budget_store \<Rightarrow> reserved_scope list \<Rightarrow> ram_budget_store" where
  "rollback_scopes st scopes = foldl (\<lambda>s r. usage_sub s (rs_key r) (rs_amount r)) st scopes"

definition reserve_scope ::
  "ram_budget_store \<Rightarrow> u8 \<Rightarrow> i64 \<Rightarrow> string \<Rightarrow> i64 \<Rightarrow> u64 \<Rightarrow> u64 \<Rightarrow> reserved_scope list
   \<Rightarrow> ram_budget_store \<times> (u64 + reserved_scope list)" where
  "reserve_scope st scope i model period limit amount scopes =
     (let key = \<lparr>uk_scope = scope, uk_id = i, uk_model = model, uk_period_start = period\<rparr>;
          st1 = st\<lparr>st_usage := hm_entry_or key 0 (st_usage st)\<rparr>;
          current = current_usage_key st1 key;
          remaining = sat_sub limit current
      in if amount > remaining then (st1, Inl remaining)
         else (st1\<lparr>st_usage := hm_insert key (current + amount) (st_usage st1)\<rparr>,
               Inr (scopes @ [\<lparr>rs_key = key, rs_amount = amount\<rparr>])))"

section \<open>Reservations\<close>

definition effective_budget :: "ram_budget_store \<Rightarrow> api_key \<Rightarrow> (bool \<times> i64 \<times> budget) option" where
  "effective_budget st key =
     (case ak_budget key of
        Some b \<Rightarrow> Some (True, ak_id key, b)
      | None \<Rightarrow> (case hm_get (st_team_budgets st) (ak_team_id key) of
          Some b \<Rightarrow> Some (False, ak_team_id key, b)
        | None \<Rightarrow> None))"

definition bucket_new :: "u32 \<Rightarrow> u64 \<Rightarrow> rpm_bucket" where
  "bucket_new limit now_ms = \<lparr>rb_tokens = ucast limit, rb_last_refill_ms = now_ms\<rparr>"

text \<open>One round of the refill computation: the tokens added and the replenished level.\<close>

definition refill_add :: "u64 \<Rightarrow> u64 \<Rightarrow> u64 \<Rightarrow> u64" where
  "refill_add lm now last_ms = word_of_nat (unat (sat_sub now last_ms) * unat lm div 60000)"

definition replenished :: "u64 \<Rightarrow> u64 \<Rightarrow> u64 \<Rightarrow> u64 \<Rightarrow> u64" where
  "replenished lm now tokens last_ms = min (tokens + refill_add lm now last_ms) lm"

definition retry_after :: "u64 \<Rightarrow> u64 \<Rightarrow> u64 \<Rightarrow> duration" where
  "retry_after lm now last_ms = unat (sat_sub (last_ms + 60000 div max lm 1) now)"

definition try_take :: "rpm_bucket \<Rightarrow> u32 \<Rightarrow> u64 \<Rightarrow> rpm_bucket \<times> (duration + unit)" where
  "try_take b limit now =
     (let lm = ucast limit;
          last_ms = rb_last_refill_ms b;
          tokens = rb_tokens b;
          add = refill_add lm now last_ms;
          new_last = (if add > 0 then now else last_ms);
          rep = replenished lm now tokens last_ms
      in if rep = 0 then (b, Inl (retry_after lm now last_ms))
         else (\<lparr>rb_tokens = rep - 1, rb_last_refill_ms = (if add > 0 then new_last else last_ms)\<rparr>, Inr ()))"

definition take_rpm :: "ram_budget_store \<Rightarrow> i64 \<Rightarrow> u32 \<Rightarrow> u64 \<Rightarrow> ram_budget_store \<times> (duration + unit)" where
  "take_rpm st key_id limit now =
     (let rpm = hm_entry_or key_id (bucket_new limit now) (st_rpm st);
          b = unwrap_or (bucket_new limit now) (hm_get rpm key_id);
          (b', r) = try_take b limit now
      in (st\<lparr>st_rpm := hm_insert key_id b' rpm\<rparr>, r))"

text \<open>The budget part of \<open>reserve\<close>: both scopes of the effective budget, undone on failure.\<close>

definition reserve_budget ::
  "ram_budget_store \<Rightarrow> api_key \<Rightarrow> string \<Rightarrow> u64 \<Rightarrow> i64
   \<Rightarrow> ram_budget_store \<times> (budget_error + reserved_scope list)" where
  "reserve_budget st key model est now_secs =
     (case effective_budget st key of
        None \<Rightarrow> (st, Inr [])
      | Some (is_key, scope_id, budget) \<Rightarrow>
          (let period = period_start (bg_period budget) now_secs;
               (total_scope, model_scope) =
                 (if is_key then (SCOPE_KEY_TOTAL, SCOPE_KEY_MODEL)
                  else (SCOPE_TEAM_TOTAL, SCOPE_TEAM_MODEL))
           in case reserve_scope st total_scope scope_id [] period (bg_max_tokens budget) est [] of
                (st1, Inl remaining) \<Rightarrow> (rollback_scopes st1 [], Inl (BudgetExceeded remaining))
              | (st1, Inr scopes) \<Rightarrow>
                  (case hm_get (bg_per_model budget) model of
                     None \<Rightarrow> (st1, Inr scopes)
                   | Some cap \<Rightarrow>
                       (case reserve_scope st1 model_scope scope_id model period cap est scopes of
                          (st2, Inl remaining) \<Rightarrow>
                            (rollback_scopes st2 scopes, Inl (BudgetExceeded remaining))
                        | (st2, Inr scopes2) \<Rightarrow> (st2, Inr scopes2)))))"

definition reserve ::
  "ram_budget_store \<Rightarrow> api_key \<Rightarrow> string \<Rightarrow> u64 \<Rightarrow> i64 \<Rightarrow> u64
   \<Rightarrow> ram_budget_store \<times> (budget_error + budget_reservation)" where
  "reserve st key model est now_secs now_ms =
     (case reserve_budget st key model est now_secs of
        (st1, Inl e) \<Rightarrow> (st1, Inl e)
      | (st1, Inr scopes) \<Rightarrow>
          (case filter_opt (\<lambda>l. l > 0) (ak_rpm_limit key) of
             None \<Rightarrow> (st1, Inr \<lparr>br_scopes = scopes, br_consumed = False\<rparr>)
           | Some limit \<Rightarrow>
               (case take_rpm st1 (ak_id key) limit now_ms of
                  (st2, Inl retry) \<Rightarrow> (rollback_scopes st2 scopes, Inl (RateLimited retry))
                | (st2, Inr _) \<Rightarrow> (st2, Inr \<lparr>br_scopes = scopes, br_consumed = False\<rparr>))))"

definition reservation_drop :: "ram_budget_store \<Rightarrow> budget_reservation \<Rightarrow> ram_budget_store" where
  "reservation_drop st r = (if \<not> br_consumed r then rollback_scopes st (br_scopes r) else st)"

text \<open>\<open>commit\<close> and \<open>rollback\<close> consume the reservation, so its destructor runs at their end.\<close>

definition reservation_commit :: "ram_budget_store \<Rightarrow> budget_reservation \<Rightarrow> u64 \<Rightarrow> ram_budget_store" where
  "reservation_commit st r actual =
     (let scopes = br_scopes r;
          st1 = commit_scopes st scopes actual
      in reservation_drop st1 (r\<lparr>br_scopes := [], br_consumed := True\<rparr>))"

definition reservation_rollback :: "ram_budget_store \<Rightarrow> budget_reservation \<Rightarrow> ram_budget_store" where
  "reservation_rollback st r =
     (let scopes = br_scopes r;
          st1 = rollback_scopes st scopes
      in reservation_drop st1 (r\<lparr>br_scopes := [], br_consumed := True\<rparr>))"

section \<open>Concurrency gauges\<close>

text \<open>A guard carries the key it counts, \<open>None\<close> for an unlimited key.\<close>

record concurrency_guard =
  cg_key_id :: "i64 option"

definition acquire_concurrency ::
  "ram_budget_store \<Rightarrow> api_key \<Rightarrow> ram_budget_store \<times> concurrency_guard option" where
  "acquire_concurrency st key =
     (case ak_concurrency_limit key of
        None \<Rightarrow> (st, Some \<lparr>cg_key_id = None\<rparr>)
      | Some limit \<Rightarrow>
          if limit = 0 then (st, Some \<lparr>cg_key_id = None\<rparr>)
          else
            (let infl = hm_entry_or (ak_id key) 0 (st_inflight st);
                 current = unwrap_or 0 (hm_get infl (ak_id key))
             in if current \<ge> ucast limit then (st\<lparr>st_inflight := infl\<rparr>, None)
                else (st\<lparr>st_inflight := hm_insert (ak_id key) (current + 1) infl\<rparr>,
                      Some \<lparr>cg_key_id = Some (ak_id key)\<rparr>)))"

definition release_concurrency_id :: "ram_budget_store \<Rightarrow> i64 \<Rightarrow> ram_budget_store" where
  "release_concurrency_id st key_id =
     (case hm_get (st_inflight st) key_id of
        None \<Rightarrow> st
      | Some v \<Rightarrow> st\<lparr>st_inflight := hm_insert key_id (sat_sub v 1) (st_inflight st)\<rparr>)"

definition guard_drop :: "ram_budget_store \<Rightarrow> concurrency_guard \<Rightarrow> ram_budget_store" where
  "guard_drop st g = (case cg_key_id g of None \<Rightarrow> st | Some i \<Rightarrow> release_concurrency_id st i)"

section \<open>Teams, seeds, metrics\<close>

definition load_teams :: "ram_budget_store \<Rightarrow> (i64, team) hmap \<Rightarrow> ram_budget_store" where
  "load_teams st teams =
     st\<lparr>st_team_budgets := foldl (\<lambda>m (i, t). case tm_budget t of
          Some b \<Rightarrow> hm_insert i b m | None \<Rightarrow> hm_remove i m) (st_team_budgets st) teams\<rparr>"

definition sync_teams :: "ram_budget_store \<Rightarrow> (i64, team) hmap \<Rightarrow> ram_budget_store" where
  "sync_teams st teams =
     (let current = hm_keys (st_team_budgets st);
          pruned = foldl (\<lambda>m i. if hm_get teams i = None then hm_remove i m else m)
                     (st_team_budgets st) current
      in st\<lparr>st_team_budgets := foldl (\<lambda>m (i, t).
            if tm_enabled t then
              (case tm_budget t of Some b \<Rightarrow> hm_insert i b m | None \<Rightarrow> hm_remove i m)
            else hm_remove i m) pruned teams\<rparr>)"

fun scope_code :: "usage_scope \<Rightarrow> u8" where
  "scope_code KeyTotal = SCOPE_KEY_TOTAL"
| "scope_code KeyModel = SCOPE_KEY_MODEL"
| "scope_code TeamTotal = SCOPE_TEAM_TOTAL"
| "scope_code TeamModel = SCOPE_TEAM_MODEL"

definition seed_usage :: "ram_budget_store \<Rightarrow> usage_seed \<Rightarrow> ram_budget_store" where
  "seed_usage st seed =
     (let key = \<lparr>uk_scope = scope_code (us_scope seed), uk_id = us_id seed,
                 uk_model = us_model seed, uk_period_start = us_period_start seed\<rparr>
      in st\<lparr>st_usage := hm_insert key (us_used_tokens seed) (hm_entry_or key 0 (st_usage st))\<rparr>)"

definition budget_remaining_snapshot ::
  "ram_budget_store \<Rightarrow> i64 \<Rightarrow> (i64 \<times> string \<times> u64) list" where
  "budget_remaining_snapshot st now_secs =
     concat (map (\<lambda>(team_id, budget).
       (let period = period_start (bg_period budget) now_secs;
            used = current_usage st SCOPE_TEAM_TOTAL team_id [] period
        in (team_id, ''total'', sat_sub (bg_max_tokens budget) used)
           # map (\<lambda>(model, cap).
               (team_id, model, sat_sub cap (current_usage st SCOPE_TEAM_MODEL team_id model period)))
             (bg_per_model budget))) (st_team_budgets st))"

section \<open>The counter interface\<close>

text \<open>
  What commits and rollbacks rely on: a counter per key that a tracked bump raises and a refund
  lowers without going below zero, leaving the other counters alone. The wrap-around of
  \<open>fetch_add\<close> is kept.
\<close>

locale usage_counters =
  fixes used :: "'st \<Rightarrow> 'k \<Rightarrow> u64" and tracked :: "'st \<Rightarrow> 'k \<Rightarrow> bool"
    and bump :: "'st \<Rightarrow> 'k \<Rightarrow> u64 \<Rightarrow> 'st" and refund :: "'st \<Rightarrow> 'k \<Rightarrow> u64 \<Rightarrow> 'st"
  assumes used_bump: "tracked s k \<Longrightarrow> used (bump s k a) j = (if j = k then used s k + a else used s j)"
    and used_refund: "used (refund s k a) j = (if j = k then sat_sub (used s k) a else used s j)"
    and tracked_bump: "tracked (bump s k a) j = tracked s j"
    and tracked_refund: "tracked (refund s k a) j = tracked s j"
begin

lemma used_refund_all:
  assumes "distinct (map key xs)" and "\<forall>x \<in> set xs. amount x = a"
  shows "used (foldl (\<lambda>s x. refund s (key x) (amount x)) s xs) j =
    (if j \<in> key ` set xs then sat_sub (used s j) a else used s j)"
  using assms by (induction xs arbitrary: s) (auto simp: used_refund)

lemma used_settle_all:
  assumes "distinct (map key xs)" and "\<forall>x \<in> set xs. amount x = a \<and> tracked s (key x)"
  shows "used (foldl (\<lambda>s x. if actual \<ge> amount x then bump s (key x) (actual - amount x)
                  else refund s (key x) (amount x - actual)) s xs) j =
    (if j \<in> key ` set xs
     then (if actual \<ge> a then used s j + (actual - a) else sat_sub (used s j) (a - actual))
     else used s j)"
  using assms
proof (induction xs arbitrary: s)
  case (Cons x xs)
  let ?s = "if actual \<ge> amount x then bump s (key x) (actual - amount x)
            else refund s (key x) (amount x - actual)"
  have "\<forall>y \<in> set xs. amount y = a \<and> tracked ?s (key y)"
    using Cons.prems by (simp add: tracked_bump tracked_refund)
  with Cons.IH [of ?s] Cons.prems show ?case
    by (auto simp: used_bump used_refund)
qed simp

end

definition usage_tracked :: "ram_budget_store \<Rightarrow> usage_key \<Rightarrow> bool" where
  "usage_tracked st k \<longleftrightarrow> hm_get (st_usage st) k \<noteq> None"

interpretation ram: usage_counters current_usage_key usage_tracked usage_add usage_sub
proof
  fix s k a j
  show "usage_tracked s k \<Longrightarrow> current_usage_key (usage_add s k a) j =
      (if j = k then current_usage_key s k + a else current_usage_key s j)"
    by (auto simp: current_usage_key_def usage_add_def usage_tracked_def)
  show "current_usage_key (usage_sub s k a) j =
      (if j = k then sat_sub (current_usage_key s k) a else current_usage_key s j)"
    by (cases "a = 0") (auto simp: current_usage_key_def usage_sub_def sat_sub_def word_gt_0 split: option.splits)
  show "usage_tracked (usage_add s k a) j = usage_tracked s j"
    by (auto simp: usage_add_def usage_tracked_def split: option.splits)
  show "usage_tracked (usage_sub s k a) j = usage_tracked s j"
    by (auto simp: usage_sub_def usage_tracked_def split: option.splits)
qed

lemma usage_sub_frame [simp]:
  "st_inflight (usage_sub s k a) = st_inflight s" "st_team_budgets (usage_sub s k a) = st_team_budgets s"
  "st_rpm (usage_sub s k a) = st_rpm s"
  by (auto simp: usage_sub_def split: option.splits)

lemma rollback_frame [simp]:
  "st_inflight (rollback_scopes s rs) = st_inflight s"
  "st_team_budgets (rollback_scopes s rs) = st_team_budgets s"
  "st_rpm (rollback_scopes s rs) = st_rpm s"
  unfolding rollback_scopes_def by (induction rs arbitrary: s) simp_all

lemma rollback_Nil [simp]: "rollback_scopes s [] = s"
  by (simp add: rollback_scopes_def)

section \<open>Reserving\<close>

lemma unat_sat_room: "\<not> a > sat_sub l c \<longleftrightarrow> unat c + unat a \<le> unat l \<or> unat a = 0"
  by (auto simp: not_less word_le_nat_alt)

lemma room_sub_back: "unat a \<le> unat l - unat c \<Longrightarrow> sat_sub (c + a) a = c" for a c l :: u64
  by (rule sat_sub_of_add) (use unsigned_less [of l, where ?'a = nat] unsigned_less [of c, where ?'a = nat] in auto)

lemma settle_word:
  fixes c l est actual :: u64
  assumes "\<not> actual \<ge> est" and "unat est \<le> unat l - unat c"
  shows "sat_sub (c + est) (est - actual) = c + actual"
proof -
  have lt: "unat actual < unat est" and fits: "unat c + unat est < 2 ^ 64"
    using assms unsigned_less [of l, where ?'a = nat] by (auto simp: word_le_nat_alt not_le)
  have "unat (c + actual) + unat (est - actual) = unat c + unat est"
    using lt fits by (simp add: unat_add_no_overflow unat_sub word_le_nat_alt)
  then have "sat_sub (c + actual + (est - actual)) (est - actual) = c + actual"
    using fits by (intro sat_sub_of_add) simp
  then show ?thesis by simp
qed

lemma reserve_scope_Inl:
  assumes "reserve_scope st sc i m p l a rs = (st', Inl r)"
  shows "current_usage_key st' j = current_usage_key st j"
    and "r = sat_sub l (current_usage st sc i m p)" and "unat l - unat (current_usage st sc i m p) < unat a"
    and "st_inflight st' = st_inflight st" "st_team_budgets st' = st_team_budgets st" "st_rpm st' = st_rpm st"
  using assms
  by (auto simp: reserve_scope_def Let_def current_usage_key_def current_usage_def word_less_nat_alt
      split: if_splits option.splits)

lemma reserve_scope_Inr:
  assumes "reserve_scope st sc i m p l a rs = (st', Inr rs')"
  defines "k \<equiv> \<lparr>uk_scope = sc, uk_id = i, uk_model = m, uk_period_start = p\<rparr>"
  shows "current_usage_key st' j = (if j = k then current_usage_key st k + a else current_usage_key st j)"
    and "unat a \<le> unat l - unat (current_usage_key st k)"
    and "rs' = rs @ [\<lparr>rs_key = k, rs_amount = a\<rparr>]"
    and "usage_tracked st' k" and "usage_tracked st j \<Longrightarrow> usage_tracked st' j"
    and "st_inflight st' = st_inflight st" "st_team_budgets st' = st_team_budgets st" "st_rpm st' = st_rpm st"
  using assms
  by (auto simp: reserve_scope_def Let_def current_usage_key_def usage_tracked_def word_less_nat_alt not_less
      split: if_splits option.splits)

text \<open>
  The abstract view: the counters a request of a key for a model is charged to, with their caps.
\<close>

definition charged_scopes :: "ram_budget_store \<Rightarrow> api_key \<Rightarrow> string \<Rightarrow> i64 \<Rightarrow> (usage_key \<times> u64) list" where
  "charged_scopes st key model now_secs =
     (case effective_budget st key of
        None \<Rightarrow> []
      | Some (is_key, i, b) \<Rightarrow>
          (let p = period_start (bg_period b) now_secs in
           (\<lparr>uk_scope = (if is_key then SCOPE_KEY_TOTAL else SCOPE_TEAM_TOTAL), uk_id = i,
             uk_model = [], uk_period_start = p\<rparr>, bg_max_tokens b)
           # (case hm_get (bg_per_model b) model of
                None \<Rightarrow> []
              | Some cap \<Rightarrow>
                  [(\<lparr>uk_scope = (if is_key then SCOPE_KEY_MODEL else SCOPE_TEAM_MODEL), uk_id = i,
                     uk_model = model, uk_period_start = p\<rparr>, cap)])))"

lemma charged_distinct: "distinct (map fst (charged_scopes st key model now))"
  by (auto simp: charged_scopes_def Let_def scope_defs split: option.splits)

text \<open>\<open>has_room\<close>: a cap has room for the estimate; an estimate of zero always fits.\<close>

definition has_room :: "ram_budget_store \<Rightarrow> u64 \<Rightarrow> usage_key \<times> u64 \<Rightarrow> bool" where
  "has_room st est = (\<lambda>(k, cap). unat est \<le> unat cap - unat (current_usage_key st k))"

text \<open>The outcome of the budget part of a reservation against the abstract view.\<close>

definition reserved_as ::
  "ram_budget_store \<Rightarrow> ram_budget_store \<Rightarrow> (usage_key \<times> u64) list \<Rightarrow> u64 \<Rightarrow> reserved_scope list \<Rightarrow> bool" where
  "reserved_as st st' cs est rs \<longleftrightarrow>
     rs = map (\<lambda>(k, cap). \<lparr>rs_key = k, rs_amount = est\<rparr>) cs
     \<and> (\<forall>c \<in> set cs. has_room st est c \<and> usage_tracked st' (fst c))
     \<and> (\<forall>j. current_usage_key st' j =
           (if j \<in> fst ` set cs then current_usage_key st j + est else current_usage_key st j))"

definition rejected_as ::
  "ram_budget_store \<Rightarrow> ram_budget_store \<Rightarrow> (usage_key \<times> u64) list \<Rightarrow> u64 \<Rightarrow> u64 \<Rightarrow> bool" where
  "rejected_as st st' cs est remaining \<longleftrightarrow>
     (\<exists>c \<in> set cs. \<not> has_room st est c \<and> remaining = sat_sub (snd c) (current_usage_key st (fst c)))
     \<and> current_usage_key st' = current_usage_key st"

lemma reserve_budget_ok:
  assumes "reserve_budget st key model est now = (st', Inr rs)"
  shows "reserved_as st st' (charged_scopes st key model now) est rs"
proof (cases "effective_budget st key")
  case None
  then show ?thesis using assms by (simp add: reserve_budget_def charged_scopes_def reserved_as_def)
next
  case (Some e)
  obtain is_key i b where e: "e = (is_key, i, b)" by (cases e)
  let ?p = "period_start (bg_period b) now"
  let ?t = "if is_key then SCOPE_KEY_TOTAL else SCOPE_TEAM_TOTAL"
  let ?m = "if is_key then SCOPE_KEY_MODEL else SCOPE_TEAM_MODEL"
  obtain st1 rs1 where r1: "reserve_scope st ?t i [] ?p (bg_max_tokens b) est [] = (st1, Inr rs1)"
    using assms Some e by (auto simp: reserve_budget_def Let_def split: prod.splits sum.splits if_splits)
  note R1 = reserve_scope_Inr [OF r1]
  show ?thesis
  proof (cases "hm_get (bg_per_model b) model")
    case None
    then show ?thesis using assms Some e r1 R1
      by (auto simp: reserve_budget_def charged_scopes_def reserved_as_def has_room_def Let_def
          split: if_splits)
  next
    case (Some cap)
    have r2: "reserve_scope st1 ?m i model ?p cap est rs1 = (st', Inr rs)"
      using assms \<open>effective_budget st key = Some e\<close> e r1 Some
      by (auto simp: reserve_budget_def Let_def split: prod.splits sum.splits if_splits)
    note R2 = reserve_scope_Inr [OF r2]
    show ?thesis using \<open>effective_budget st key = Some e\<close> e Some R1 R2
      by (auto simp: charged_scopes_def reserved_as_def has_room_def Let_def scope_defs split: if_splits)
  qed
qed

lemma reserve_budget_err:
  assumes "reserve_budget st key model est now = (st', Inl e)"
  shows "\<exists>remaining. e = BudgetExceeded remaining
           \<and> rejected_as st st' (charged_scopes st key model now) est remaining"
proof -
  obtain is_key i b where eff: "effective_budget st key = Some (is_key, i, b)"
    using assms by (auto simp: reserve_budget_def split: option.splits)
  let ?p = "period_start (bg_period b) now"
  let ?t = "if is_key then SCOPE_KEY_TOTAL else SCOPE_TEAM_TOTAL"
  let ?m = "if is_key then SCOPE_KEY_MODEL else SCOPE_TEAM_MODEL"
  obtain st1 x where r1: "reserve_scope st ?t i [] ?p (bg_max_tokens b) est [] = (st1, x)" by force
  show ?thesis
  proof (cases x)
    case (Inl r)
    note R1 = reserve_scope_Inl [OF r1 [unfolded Inl]]
    show ?thesis using assms eff r1 Inl R1
      by (auto simp: reserve_budget_def charged_scopes_def rejected_as_def has_room_def Let_def
          current_usage_def fun_eq_iff split: if_splits)
  next
    case (Inr rs1)
    note R1 = reserve_scope_Inr [OF r1 [unfolded Inr]]
    obtain cap where cap: "hm_get (bg_per_model b) model = Some cap"
      using assms eff r1 Inr by (auto simp: reserve_budget_def Let_def split: option.splits if_splits)
    obtain st2 r where r2: "reserve_scope st1 ?m i model ?p cap est rs1 = (st2, Inl r)"
      and out: "st' = rollback_scopes st2 rs1" "e = BudgetExceeded r"
      using assms eff r1 Inr cap
      by (auto simp: reserve_budget_def Let_def split: prod.splits sum.splits if_splits)
    note R2 = reserve_scope_Inl [OF r2]
    let ?k = "\<lparr>uk_scope = ?t, uk_id = i, uk_model = [], uk_period_start = ?p\<rparr>"
    let ?k2 = "\<lparr>uk_scope = ?m, uk_id = i, uk_model = model, uk_period_start = ?p\<rparr>"
    have undone: "current_usage_key st' = current_usage_key st"
      using R1(1-3) R2(1) by (auto simp: out rollback_scopes_def ram.used_refund fun_eq_iff room_sub_back)
    have "current_usage st1 ?m i model ?p = current_usage_key st ?k2"
      using R1(1) by (auto simp: current_usage_def scope_defs)
    with undone R2(2,3) eff cap show ?thesis
      by (auto simp: charged_scopes_def rejected_as_def has_room_def Let_def out not_le scope_defs)
  qed
qed

text \<open>The rate-limit part only touches the buckets.\<close>

lemma take_rpm_frame:
  assumes "take_rpm st i l t = (st', r)"
  shows "current_usage_key st' = current_usage_key st" "usage_tracked st' = usage_tracked st"
    "st_inflight st' = st_inflight st" "st_team_budgets st' = st_team_budgets st"
  using assms by (auto simp: take_rpm_def current_usage_key_def usage_tracked_def Let_def fun_eq_iff
      split: prod.splits)

lemma rollback_reserved:
  assumes "reserved_as st st' cs est rs" and "distinct (map fst cs)"
  shows "current_usage_key (rollback_scopes st' rs) = current_usage_key st"
proof
  fix j
  have rs: "rs = map (\<lambda>(k, cap). \<lparr>rs_key = k, rs_amount = est\<rparr>) cs"
    and room: "\<forall>c \<in> set cs. has_room st est c"
    and u: "current_usage_key st' j =
           (if j \<in> fst ` set cs then current_usage_key st j + est else current_usage_key st j)"
    using assms(1) by (auto simp: reserved_as_def)
  have keys: "map rs_key rs = map fst cs" by (simp add: rs case_prod_beta)
  have "current_usage_key (rollback_scopes st' rs) j =
      (if j \<in> rs_key ` set rs then sat_sub (current_usage_key st' j) est else current_usage_key st' j)"
    unfolding rollback_scopes_def using assms(2)
    by (intro ram.used_refund_all) (simp only: keys, auto simp: rs)
  also have "rs_key ` set rs = fst ` set cs" by (metis keys set_map)
  finally show "current_usage_key (rollback_scopes st' rs) j = current_usage_key st j"
    using room u by (auto simp: has_room_def room_sub_back)
qed

lemma commit_reserved:
  assumes "reserved_as st st' cs est rs" and "distinct (map fst cs)"
    and "\<forall>c \<in> set cs. unat (current_usage_key st (fst c)) + unat actual < 2 ^ 64"
  shows "current_usage_key (commit_scopes st' rs actual) j =
    (if j \<in> fst ` set cs then current_usage_key st j + actual else current_usage_key st j)"
proof -
  have rs: "rs = map (\<lambda>(k, cap). \<lparr>rs_key = k, rs_amount = est\<rparr>) cs"
    and room: "\<forall>c \<in> set cs. has_room st est c \<and> usage_tracked st' (fst c)"
    and u: "current_usage_key st' j =
           (if j \<in> fst ` set cs then current_usage_key st j + est else current_usage_key st j)"
    using assms(1) by (auto simp: reserved_as_def)
  have keys: "map rs_key rs = map fst cs" by (simp add: rs case_prod_beta)
  have "current_usage_key (commit_scopes st' rs actual) j =
      (if j \<in> rs_key ` set rs
       then (if actual \<ge> est then current_usage_key st' j + (actual - est)
             else sat_sub (current_usage_key st' j) (est - actual))
       else current_usage_key st' j)"
    unfolding commit_scopes_def using assms(2) room
    by (intro ram.used_settle_all) (simp only: keys, auto simp: rs)
  also have "rs_key ` set rs = fst ` set cs" by (metis keys set_map)
  finally show ?thesis
    using room u by (auto simp: has_room_def settle_word)
qed

text \<open>Whether the rate limit of a key has a slot for one more request at an instant.\<close>

definition rpm_admits :: "ram_budget_store \<Rightarrow> api_key \<Rightarrow> u64 \<Rightarrow> bool" where
  "rpm_admits st key now =
     (case filter_opt (\<lambda>l. l > 0) (ak_rpm_limit key) of
        None \<Rightarrow> True
      | Some l \<Rightarrow> (case snd (take_rpm st (ak_id key) l now) of Inl _ \<Rightarrow> False | Inr _ \<Rightarrow> True))"

lemma take_rpm_result_cong: "st_rpm s = st_rpm t \<Longrightarrow> snd (take_rpm s i l now) = snd (take_rpm t i l now)"
  by (simp add: take_rpm_def Let_def split: prod.split)

lemma reserve_scope_rpm: "reserve_scope st sc i m p l a rs = (st', r) \<Longrightarrow> st_rpm st' = st_rpm st
    \<and> st_inflight st' = st_inflight st \<and> st_team_budgets st' = st_team_budgets st"
  by (cases r) (auto dest: reserve_scope_Inl(4-6) reserve_scope_Inr(6-8))

lemma reserve_budget_frame:
  "reserve_budget st key model est now = (st', r) \<Longrightarrow> st_rpm st' = st_rpm st
    \<and> st_inflight st' = st_inflight st \<and> st_team_budgets st' = st_team_budgets st"
  by (auto simp: reserve_budget_def Let_def split: option.splits prod.splits sum.splits if_splits
      dest!: reserve_scope_rpm)

lemma reserve_inflight:
  assumes "reserve st key model est now ms = (st', r)"
  shows "st_inflight st' = st_inflight st"
proof -
  obtain st1 r1 where rb: "reserve_budget st key model est now = (st1, r1)" by force
  then have "st_inflight st1 = st_inflight st" using reserve_budget_frame [OF rb] by simp
  then show ?thesis using assms rb
    by (auto simp: reserve_def split: sum.splits option.splits prod.splits dest!: take_rpm_frame(3))
qed

lemma reserved_as_cong:
  "reserved_as st st1 cs est rs \<Longrightarrow> current_usage_key st2 = current_usage_key st1 \<Longrightarrow>
   usage_tracked st2 = usage_tracked st1 \<Longrightarrow> reserved_as st st2 cs est rs"
  by (simp add: reserved_as_def)

lemma reserve_cases:
  assumes "reserve st key model est now ms = (st', r)"
  defines "cs \<equiv> charged_scopes st key model now"
  obtains (ok) rs where "r = Inr \<lparr>br_scopes = rs, br_consumed = False\<rparr>"
      "reserved_as st st' cs est rs" "rpm_admits st key ms"
    | (budget) rem where "r = Inl (BudgetExceeded rem)" "rejected_as st st' cs est rem"
    | (rate) d where "r = Inl (RateLimited d)" "list_all (has_room st est) cs"
      "current_usage_key st' = current_usage_key st" "\<not> rpm_admits st key ms"
proof -
  obtain st1 r1 where rb: "reserve_budget st key model est now = (st1, r1)" by force
  show thesis
  proof (cases r1)
    case (Inl e)
    with rb assms reserve_budget_err [OF rb [unfolded Inl]] that(2) show thesis
      by (auto simp: reserve_def)
  next
    case (Inr rs)
    note ra = reserve_budget_ok [OF rb [unfolded Inr]]
    note fr = reserve_budget_frame [OF rb]
    show thesis
    proof (cases "filter_opt (\<lambda>l. l > 0) (ak_rpm_limit key)")
      case None
      with rb Inr assms(1) ra that(1) [of rs] show thesis by (auto simp: reserve_def rpm_admits_def cs_def)
    next
      case (Some l)
      obtain st2 r2 where tk: "take_rpm st1 (ak_id key) l ms = (st2, r2)" by force
      have res: "snd (take_rpm st (ak_id key) l ms) = r2"
        using take_rpm_result_cong [of st1 st] fr tk by (metis snd_conv)
      note tf = take_rpm_frame [OF tk]
      have ra2: "reserved_as st st2 cs est rs"
        using reserved_as_cong [OF ra tf(1,2)] by (simp add: cs_def)
      show thesis
      proof (cases r2)
        case (Inl d)
        have "current_usage_key st' = current_usage_key st"
          using assms(1) rb Inr Some tk Inl rollback_reserved [OF ra2] charged_distinct
          by (auto simp: reserve_def cs_def)
        moreover have "list_all (has_room st est) cs"
          using ra2 by (simp add: reserved_as_def list_all_iff)
        ultimately show thesis using that(3) assms(1) rb \<open>r1 = Inr rs\<close> Some tk Inl res
          by (auto simp: reserve_def rpm_admits_def)
      next
        case (Inr u)
        then show thesis using that(1) ra2 assms(1) rb \<open>r1 = Inr rs\<close> Some tk res
          by (auto simp: reserve_def rpm_admits_def)
      qed
    qed
  qed
qed

text \<open>
  C25. What a reservation does, on every branch. It succeeds only when every counter charged (the
  total of the effective budget, and the model's own cap if there is one) has room for the
  estimate and the rate limit admits the request, and then it raises exactly those counters by
  the estimate. It is refused for the budget exactly when a charged counter has no room, reporting
  what that counter has left; otherwise it can only be refused by the rate limit. A refusal of
  either kind leaves every usage counter as it was.
\<close>

theorem reserve_exact:
  "case reserve st key model est now ms of
     (st', Inr res) \<Rightarrow> reserved_as st st' (charged_scopes st key model now) est (br_scopes res)
        \<and> \<not> br_consumed res \<and> rpm_admits st key ms
   | (st', Inl (BudgetExceeded remaining)) \<Rightarrow>
        rejected_as st st' (charged_scopes st key model now) est remaining
   | (st', Inl (RateLimited _)) \<Rightarrow> list_all (has_room st est) (charged_scopes st key model now)
        \<and> \<not> rpm_admits st key ms \<and> current_usage_key st' = current_usage_key st"
proof -
  obtain st' r where e: "reserve st key model est now ms = (st', r)" by force
  then show ?thesis by (cases rule: reserve_cases) (simp_all add: e)
qed

text \<open>
  C8. The life of a reservation: committing it leaves each charged counter at its value before the
  reservation plus the actual usage, whether the estimate was too high or too low, and no other
  counter changes; rolling it back, or dropping it unconsumed, restores every counter exactly. The
  only hypothesis is that the sums fit 64 bits.
\<close>

theorem reservation_lifecycle:
  assumes "reserve st key model est now ms = (st1, Inr res)"
    and "\<forall>c \<in> set (charged_scopes st key model now). unat (current_usage_key st (fst c)) + unat actual < 2 ^ 64"
  shows "current_usage_key (reservation_commit st1 res actual) j =
      (if j \<in> fst ` set (charged_scopes st key model now) then current_usage_key st j + actual
       else current_usage_key st j)
    \<and> current_usage_key (reservation_rollback st1 res) = current_usage_key st
    \<and> current_usage_key (reservation_drop st1 res) = current_usage_key st"
  using assms(1)
proof (cases rule: reserve_cases)
  case (ok rs)
  then show ?thesis
    using commit_reserved [OF ok(2) charged_distinct assms(2), of j] rollback_reserved [OF ok(2) charged_distinct]
    by (simp add: reservation_commit_def reservation_rollback_def reservation_drop_def Let_def)
qed simp_all

theorem reservation_lifecycle_witness:
  "\<exists>key model. case reserve store_new key model 10 0 0 of
     (st1, Inr res) \<Rightarrow>
       (let k = \<lparr>uk_scope = 1, uk_id = 7, uk_model = ''m'', uk_period_start = 0\<rparr> in
        current_usage_key st1 k = 10 \<and> current_usage_key (reservation_commit st1 res 12) k = 12
        \<and> current_usage_key (reservation_drop st1 res) k = 0)
   | _ \<Rightarrow> False"
proof -
  define key where "key = \<lparr>ak_id = 7, ak_key_hash = [], ak_key_prefix = [], ak_team_id = 1,
    ak_owner = [], ak_allowed_models = [],
    ak_budget = Some \<lparr>bg_period = ''day'', bg_max_tokens = 100, bg_max_usd_cents = None,
      bg_per_model = [(''m'', 50)]\<rparr>,
    ak_rpm_limit = None, ak_concurrency_limit = None, ak_expires_at = None, ak_enabled = True\<rparr>"
  define k :: usage_key where "k = \<lparr>uk_scope = 1, uk_id = 7, uk_model = ''m'', uk_period_start = 0\<rparr>"
  obtain st1 res where r: "reserve store_new key ''m'' 10 0 0 = (st1, Inr res)"
    and u: "current_usage_key st1 k = 10"
    by (simp add: key_def k_def reserve_def reserve_budget_def effective_budget_def store_new_def
        reserve_scope_def current_usage_key_def period_start_def scope_defs Let_def sat_sub_def
        hm_entry_or_def filter_opt_def)
  have cs: "charged_scopes store_new key ''m'' 0 =
      [(\<lparr>uk_scope = 0, uk_id = 7, uk_model = [], uk_period_start = 0\<rparr>, 100), (k, 50)]"
    by (simp add: charged_scopes_def effective_budget_def key_def k_def period_start_def scope_defs)
  have z: "current_usage_key store_new j = 0" for j by (simp add: current_usage_key_def store_new_def)
  from reservation_lifecycle [OF r, of 12 k] u
  show ?thesis
    by (intro exI [of _ key] exI [of _ "''m''"]) (simp add: r cs z Let_def flip: k_def)
qed

section \<open>The rate limit\<close>

text \<open>A history of requests on the buckets: each is a key and an instant; the admitted ones are returned.\<close>

fun rpm_run :: "ram_budget_store \<Rightarrow> (i64 \<Rightarrow> u32) \<Rightarrow> (i64 \<times> u64) list \<Rightarrow> (i64 \<times> u64) list" where
  "rpm_run st lim_of [] = []"
| "rpm_run st lim_of ((i, now) # reqs) =
     (case take_rpm st i (lim_of i) now of
        (st', Inl _) \<Rightarrow> rpm_run st' lim_of reqs
      | (st', Inr _) \<Rightarrow> (i, now) # rpm_run st' lim_of reqs)"

text \<open>
  The potential of a bucket at the horizon \<open>hi\<close>: its tokens and what can still flow in. Truncation
  of the 128-bit product and wrap-around of the sum can only lower it.
\<close>

definition potential :: "rpm_bucket \<Rightarrow> u32 \<Rightarrow> nat \<Rightarrow> nat" where
  "potential b limit hi = unat (rb_tokens b) + (hi - unat (rb_last_refill_ms b)) * unat limit div 60000"

lemma unat_word_of_nat_le: "unat (word_of_nat n :: 'a::len word) \<le> n"
  by (simp add: unat_of_nat)

lemma unat_word_add_le: "unat (a + b :: 'a::len word) \<le> unat a + unat b"
  by (simp add: unat_word_ariths)

lemma div_add_le: "(a :: nat) div n + b div n \<le> (a + b) div n"
  by (subst div_add1_eq [of a b]) simp

lemma unat_ucast_u32 [simp]: "unat (ucast (l :: u32) :: u64) = unat l"
proof -
  have "unat l < 2 ^ 64" using unsigned_less [of l, where ?'a = nat] by simp
  then show ?thesis by (simp add: unsigned_ucast_eq take_bit_nat_eq_self)
qed

lemma try_take_potential:
  assumes "try_take b limit now = (b', r)" and "unat now \<le> hi"
  shows "potential b' limit hi + (case r of Inl _ \<Rightarrow> 0 | Inr _ \<Rightarrow> 1) \<le> potential b limit hi"
proof (cases r)
  case (Inl d)
  with assms show ?thesis by (auto simp: try_take_def Let_def split: if_splits)
next
  case (Inr u)
  let ?t = "rb_tokens b" and ?l = "rb_last_refill_ms b" and ?lm = "unat limit"
  let ?add = "refill_add (ucast limit) now ?l"
  let ?rep = "replenished (ucast limit) now ?t ?l"
  have rep: "?rep \<noteq> 0" "rb_tokens b' = ?rep - 1" "rb_last_refill_ms b' = (if ?add > 0 then now else ?l)"
    using assms(1) Inr by (auto simp: try_take_def Let_def split: if_splits)
  have "unat ?rep \<le> unat ?t + unat ?add"
    using unat_word_add_le [of ?t ?add] by (auto simp: replenished_def min_def word_le_nat_alt)
  moreover have "unat (?rep - 1) + 1 = unat ?rep"
    using rep(1) by (simp add: unat_minus_one unat_gt_0)
  moreover have "unat ?add \<le> (unat now - unat ?l) * ?lm div 60000"
    using unat_word_of_nat_le by (auto simp: refill_add_def)
  moreover have "(unat now - unat ?l) * ?lm div 60000 + (hi - unat now) * ?lm div 60000
      \<le> (hi - unat ?l) * ?lm div 60000" if "?add > 0"
  proof -
    have "unat ?l \<le> unat now"
    proof (rule ccontr)
      assume "\<not> unat ?l \<le> unat now"
      then have "sat_sub now ?l = 0" by (simp add: sat_sub_def word_less_nat_alt)
      with that show False by (simp add: refill_add_def)
    qed
    then have "(unat now - unat ?l) * ?lm + (hi - unat now) * ?lm = (hi - unat ?l) * ?lm"
      using assms(2) by (simp flip: add_mult_distrib)
    then show ?thesis using div_add_le by metis
  qed
  ultimately show ?thesis using Inr rep
    by (cases "?add > 0") (auto simp: potential_def word_gt_0)
qed

lemma take_rpm_bucket:
  assumes "take_rpm st i l now = (st', r)"
  shows "\<exists>b'. try_take (unwrap_or (bucket_new l now) (hm_get (st_rpm st) i)) l now = (b', r)
      \<and> hm_get (st_rpm st') = (hm_get (st_rpm st)) (i \<mapsto> b')"
  using assms by (cases "hm_get (st_rpm st) i") (auto simp: take_rpm_def Let_def fun_eq_iff split: prod.splits)

lemma rpm_run_potential:
  assumes "\<forall>(j, t) \<in> set reqs. j = i \<longrightarrow> unat lo \<le> unat t \<and> unat t \<le> hi"
    and "case hm_get (st_rpm st) i of
           None \<Rightarrow> unat (lim_of i) + (hi - unat lo) * unat (lim_of i) div 60000 \<le> p
         | Some b \<Rightarrow> potential b (lim_of i) hi \<le> p"
  shows "length (filter (\<lambda>(j, t). j = i) (rpm_run st lim_of reqs)) \<le> p"
  using assms
proof (induction reqs arbitrary: st p)
  case (Cons q reqs)
  obtain k now where q: "q = (k, now)" by force
  obtain st' r where tk: "take_rpm st k (lim_of k) now = (st', r)" by force
  obtain b' where b': "try_take (unwrap_or (bucket_new (lim_of k) now) (hm_get (st_rpm st) k)) (lim_of k) now = (b', r)"
      "hm_get (st_rpm st') = (hm_get (st_rpm st)) (k \<mapsto> b')"
    using take_rpm_bucket [OF tk] by auto
  show ?case
  proof (cases "k = i")
    case False
    then have "hm_get (st_rpm st') i = hm_get (st_rpm st) i" using b' by simp
    then show ?thesis using Cons.IH [where st = st' and p = p] Cons.prems False q tk by (cases r) auto
  next
    case True
    then have t: "unat lo \<le> unat now" "unat now \<le> hi" using Cons.prems(1) q by auto
    let ?b = "unwrap_or (bucket_new (lim_of i) now) (hm_get (st_rpm st) i)"
    have "potential ?b (lim_of i) hi \<le> p"
    proof (cases "hm_get (st_rpm st) i")
      case None
      have "(hi - unat now) * unat (lim_of i) div 60000 \<le> (hi - unat lo) * unat (lim_of i) div 60000"
        using t by (intro div_le_mono mult_le_mono1) simp
      then show ?thesis using None Cons.prems(2) by (simp add: potential_def bucket_new_def)
    qed (use Cons.prems(2) in simp)
    then have P: "potential b' (lim_of i) hi + (case r of Inl _ \<Rightarrow> 0 | Inr _ \<Rightarrow> 1) \<le> p"
      using try_take_potential [OF b'(1) [unfolded True] t(2)] True by simp
    have "hm_get (st_rpm st') i = Some b'" using b' True by simp
    then have "length (filter (\<lambda>(j, t). j = i) (rpm_run st' lim_of reqs))
        \<le> p - (case r of Inl _ \<Rightarrow> 0 | Inr _ \<Rightarrow> 1)"
      using Cons.prems(1) P by (intro Cons.IH) auto
    then show ?thesis using P True q tk by (cases r) auto
  qed
qed (simp split: option.splits)



text \<open>The HTTP layer prints the pause in whole seconds, rounded down.\<close>

definition retry_after_header :: "duration \<Rightarrow> string" where
  "retry_after_header d = dec (d div 1000)"

lemma refill_add_unat:
  assumes "(unat now - unat l) * unat lm div 60000 < 2 ^ 64"
  shows "unat (refill_add lm now l) = (unat now - unat l) * unat lm div 60000"
  using assms by (simp add: refill_add_def unat_of_nat)

lemma refill_fits:
  assumes "unat now < 2 ^ 46"
  shows "(unat now - l) * unat (limit :: u32) div 60000 < 2 ^ 63"
proof -
  have "(unat now - l) * unat limit < 2 ^ 46 * 2 ^ 32"
    using assms unsigned_less [of limit, where ?'a = nat] by (intro mult_strict_mono') auto
  then have "(unat now - l) * unat limit div 60000 < 2 ^ 78 div 60000 + 1"
    by (simp add: less_mult_imp_div_less)
  then show ?thesis by simp
qed

lemma try_take_refused:
  assumes "try_take b limit now = (b', Inl d)" and "limit > 0" and "unat now < 2 ^ 46"
    and "rb_tokens b \<le> ucast limit"
  shows "b' = b" "rb_tokens b = 0" "d = retry_after (ucast limit) now (rb_last_refill_ms b)"
proof -
  let ?t = "rb_tokens b" and ?add = "refill_add (ucast limit) now (rb_last_refill_ms b)"
  have rep: "replenished (ucast limit) now ?t (rb_last_refill_ms b) = 0" and eq: "b' = b"
    and d: "d = retry_after (ucast limit) now (rb_last_refill_ms b)"
    using assms(1) by (auto simp: try_take_def Let_def split: if_splits)
  have "unat ?add < 2 ^ 63"
    using refill_fits [OF assms(3), of "unat (rb_last_refill_ms b)" limit] by (subst refill_add_unat) auto
  moreover have "unat ?t < 2 ^ 32"
    using assms(4) unsigned_less [of limit, where ?'a = nat] by (simp add: word_le_nat_alt)
  ultimately have sum: "unat (?t + ?add) = unat ?t + unat ?add" by (simp add: unat_add_no_overflow)
  have "(ucast limit :: u64) \<noteq> 0" using assms(2) by (metis unat_ucast_u32 unat_0 unat_gt_0 word_gt_0)
  then have "?t + ?add = 0" using rep by (auto simp: replenished_def min_def split: if_splits)
  with sum show "rb_tokens b = 0" by (simp flip: unat_eq_0)
  show "b' = b" "d = retry_after (ucast limit) now (rb_last_refill_ms b)" by (fact eq d)+
qed



text \<open>
  The pause in the header is rounded down to seconds: for a limit above 60 it always reads 0.
\<close>

lemma retry_after_header_zero:
  assumes "unat limit > 60" and "unat last_ms \<le> unat now" and "unat now < 2 ^ 63"
  shows "retry_after_header (retry_after (ucast (limit :: u32)) now last_ms) = ''0''"
proof -
  have "unat (60000 div max (ucast limit) 1 :: u64) = 60000 div unat limit"
    using assms(1) by (simp add: max_def word_le_nat_alt unat_div)
  moreover have "60000 div unat limit < 1000"
    using assms(1) by (simp add: less_mult_imp_div_less)
  moreover have "unat (last_ms + 60000 div max (ucast limit) 1) \<le> unat last_ms + unat (60000 div max (ucast limit) 1 :: u64)"
    by (rule unat_word_add_le)
  ultimately have "retry_after (ucast limit) now last_ms < 1000"
    using assms(2) by (simp add: retry_after_def)
  then show ?thesis by (simp add: retry_after_header_def dec.simps) code_simp
qed

section \<open>Concurrency\<close>

text \<open>The gauge of a key, and the histories of acquisitions and guard drops under fixed limits.\<close>

definition gauge :: "ram_budget_store \<Rightarrow> i64 \<Rightarrow> u64" where
  "gauge st i = unwrap_or 0 (hm_get (st_inflight st) i)"

inductive gauge_step ::
  "(i64 \<Rightarrow> u32) \<Rightarrow> ram_budget_store \<times> concurrency_guard list \<Rightarrow> ram_budget_store \<times> concurrency_guard list \<Rightarrow> bool"
  for limits where
  granted: "ak_concurrency_limit key = Some (limits (ak_id key)) \<Longrightarrow>
    acquire_concurrency st key = (st', Some g) \<Longrightarrow> gauge_step limits (st, gs) (st', g # gs)"
| refused: "ak_concurrency_limit key = Some (limits (ak_id key)) \<Longrightarrow>
    acquire_concurrency st key = (st', None) \<Longrightarrow> gauge_step limits (st, gs) (st', gs)"
| released: "g \<in> set gs \<Longrightarrow> gauge_step limits (st, gs) (guard_drop st g, remove1 g gs)"

definition live_guards :: "concurrency_guard list \<Rightarrow> i64 \<Rightarrow> nat" where
  "live_guards gs i = length (filter (\<lambda>g. cg_key_id g = Some i) gs)"

definition gauge_invar :: "(i64 \<Rightarrow> u32) \<Rightarrow> ram_budget_store \<times> concurrency_guard list \<Rightarrow> bool" where
  "gauge_invar limits = (\<lambda>(st, gs). \<forall>i. unat (gauge st i) = live_guards gs i
     \<and> (limits i > 0 \<longrightarrow> gauge st i \<le> ucast (limits i)))"

lemma gauge_acquired:
  assumes "acquire_concurrency st key = (st', r)"
  shows "case r of
      None \<Rightarrow> gauge st' = gauge st \<and> (\<exists>l > 0. ak_concurrency_limit key = Some l \<and> ucast l \<le> gauge st (ak_id key))
    | Some g \<Rightarrow> (case cg_key_id g of
        None \<Rightarrow> st' = st \<and> filter_opt (\<lambda>l. l > 0) (ak_concurrency_limit key) = None
      | Some i \<Rightarrow> i = ak_id key \<and> gauge st' = (gauge st) (i := gauge st i + 1)
          \<and> (\<exists>l. ak_concurrency_limit key = Some l \<and> gauge st i < ucast l))"
  using assms by (auto simp: acquire_concurrency_def gauge_def filter_opt_def Let_def fun_eq_iff word_gt_0 not_le
      split: option.splits if_splits)

lemma gauge_released:
  "gauge (guard_drop st g) = (case cg_key_id g of None \<Rightarrow> gauge st | Some i \<Rightarrow> (gauge st) (i := sat_sub (gauge st i) 1))"
  by (auto simp: guard_drop_def release_concurrency_id_def gauge_def sat_sub_def fun_eq_iff split: option.splits)

lemma live_guards_Cons [simp]:
  "live_guards (g # gs) i = live_guards gs i + (if cg_key_id g = Some i then 1 else 0)"
  by (simp add: live_guards_def)

lemma live_guards_remove1:
  "g \<in> set gs \<Longrightarrow> live_guards (remove1 g gs) i = live_guards gs i - (if cg_key_id g = Some i then 1 else 0)"
  by (induction gs) (auto simp: live_guards_def filter_remove1 length_remove1)

interpretation gauges: inductive_invariant "\<lambda>(st, gs). st_inflight st = [] \<and> gs = []"
  "gauge_step limits" "gauge_invar limits"
proof
  fix s t assume inv: "gauge_invar limits s" and step: "gauge_step limits s t"
  obtain st gs st' gs' where st: "s = (st, gs)" "t = (st', gs')" by (cases s; cases t) auto
  from step [unfolded st] show "gauge_invar limits t" unfolding st
  proof (cases rule: gauge_step.cases)
    case (granted key g)
    note A = gauge_acquired [OF granted(3)]
    show "gauge_invar limits (st', gs')"
    proof (cases "cg_key_id g")
      case None
      with A inv st granted show ?thesis by (simp add: gauge_invar_def)
    next
      case (Some i)
      with A granted have lt: "i = ak_id key" "gauge st i < ucast (limits i)" "gauge st' = (gauge st) (i := gauge st i + 1)"
        by auto
      have "unat (gauge st i + 1) = unat (gauge st i) + 1"
        using lt(2) unsigned_less [of "ucast (limits i) :: u64", where ?'a = nat]
        by (subst unat_add_no_overflow) (simp_all add: word_less_nat_alt)
      with lt inv st granted Some show ?thesis
        by (auto simp: gauge_invar_def word_le_nat_alt word_less_nat_alt) metis
    qed
  next
    case (refused key)
    with gauge_acquired [OF refused(3)] inv st show "gauge_invar limits (st', gs')"
      by (simp add: gauge_invar_def)
  next
    case (released g)
    with inv st show "gauge_invar limits (st', gs')"
      by (auto simp: gauge_invar_def gauge_released live_guards_remove1 word_le_nat_alt split: option.splits)
  qed
qed (auto simp: gauge_invar_def gauge_def live_guards_def)

text \<open>
  C28. In every history of acquisitions and guard drops, the gauge of a key is the number of its
  guards still alive, and that number never exceeds the key's limit.
\<close>

theorem concurrency_never_exceeded:
  assumes "reach (\<lambda>(st, gs). st_inflight st = [] \<and> gs = []) (gauge_step limits) (st, gs)"
  shows "unat (gauge st i) = live_guards gs i \<and> (limits i = 0 \<or> live_guards gs i \<le> unat (limits i))"
  using gauges.invar_reachable [OF assms] by (auto simp: gauge_invar_def word_gt_0 word_le_nat_alt)

text \<open>At a history of three steps: one slot granted, one refused, the slot released.\<close>

theorem concurrency_never_exceeded_witness:
  "\<exists>st. reach (\<lambda>(st, gs). st_inflight st = [] \<and> gs = []) (gauge_step (\<lambda>_. 1)) (st, [\<lparr>cg_key_id = Some 3\<rparr>])
     \<and> unat (gauge st 3) = 1"
proof -
  let ?g = "\<lparr>cg_key_id = Some (3::i64)\<rparr>" and ?st = "store_new\<lparr>st_inflight := [(3, 1)]\<rparr>"
  define key where "key = \<lparr>ak_id = 3, ak_key_hash = [], ak_key_prefix = [], ak_team_id = 1,
    ak_owner = [], ak_allowed_models = [], ak_budget = None, ak_rpm_limit = None,
    ak_concurrency_limit = Some 1, ak_expires_at = None, ak_enabled = True\<rparr>"
  have s1: "gauge_step (\<lambda>_. 1) (store_new, []) (?st, [?g])"
    by (rule gauge_step.granted [of key])
       (simp_all add: key_def acquire_concurrency_def store_new_def hm_entry_or_def Let_def)
  have s2: "gauge_step (\<lambda>_. 1) (?st, [?g]) (?st, [?g])"
    by (rule gauge_step.refused [of key])
       (simp_all add: key_def acquire_concurrency_def store_new_def hm_entry_or_def Let_def)
  have r: "reach (\<lambda>(st, gs). st_inflight st = [] \<and> gs = []) (gauge_step (\<lambda>_. 1)) (?st, [?g])"
    by (rule reach_step [where s = "(?st, [?g])", OF reach_step [where s = "(store_new, [])"]])
       (auto intro: reach_init simp: s1 s2, simp add: store_new_def reach_init)
  moreover have "live_guards [?g] 3 = 1" by (simp add: live_guards_def)
  ultimately show ?thesis using concurrency_never_exceeded [OF r, of 3] by auto
qed

section \<open>Teams and seeds\<close>

lemma prune_get:
  "hm_get (foldl (\<lambda>m i. if hm_get teams i = None then hm_remove i m else m) m is) j =
    (if j \<in> set is \<and> hm_get teams j = None then None else hm_get m j)"
  by (induction "is" arbitrary: m) auto

lemma fold_teams_get:
  assumes "distinct (hm_keys teams)"
    and "\<And>m i t j. hm_get (f m (i, t)) j = (if j = i then g t else hm_get m j)"
  shows "hm_get (foldl f m teams) j = (case hm_get teams j of None \<Rightarrow> hm_get m j | Some t \<Rightarrow> g t)"
  using assms(1)
proof (induction teams arbitrary: m)
  case (Cons p teams)
  obtain i t where p: "p = (i, t)" by force
  have "hm_get teams i = None" using Cons.prems p by (simp add: map_of_eq_None_iff)
  then show ?case using Cons p assms(2) [of m i t j] by (auto split: option.splits)
qed simp

text \<open>
  After a configuration reload the team budgets are exactly those of the snapshot's enabled
  teams that have one: budgets of removed, disabled or unbudgeted teams are gone, whatever the
  store held before, and the usage counters are untouched. (A snapshot is a \<open>HashMap\<close>, so its keys are distinct.)
\<close>

theorem sync_teams_exact:
  assumes "distinct (hm_keys teams)"
  shows "hm_get (st_team_budgets (sync_teams st teams)) i =
      (case hm_get teams i of
         None \<Rightarrow> None
       | Some t \<Rightarrow> if tm_enabled t then tm_budget t else None)
    \<and> current_usage_key (sync_teams st teams) = current_usage_key st"
proof -
  let ?f = "\<lambda>m (i, t). if tm_enabled t then
      (case tm_budget t of Some b \<Rightarrow> hm_insert i b m | None \<Rightarrow> hm_remove i m) else hm_remove i m"
  let ?m = "foldl (\<lambda>m i. if hm_get teams i = None then hm_remove i m else m) (st_team_budgets st) (hm_keys (st_team_budgets st))"
  have "hm_get (foldl ?f ?m teams) i =
      (case hm_get teams i of None \<Rightarrow> hm_get ?m i | Some t \<Rightarrow> if tm_enabled t then tm_budget t else None)"
    by (rule fold_teams_get [OF assms]) (auto split: option.splits)
  moreover have "hm_get ?m i = None" if "hm_get teams i = None"
    using that hm_get_Some_in_keys [of "st_team_budgets st" i] by (cases "hm_get (st_team_budgets st) i") (auto simp: prune_get)
  ultimately show ?thesis
    by (simp add: sync_teams_def Let_def current_usage_key_def fun_eq_iff split: option.splits)
qed

theorem sync_teams_exact_witness:
  "hm_get (st_team_budgets (sync_teams (store_new\<lparr>st_team_budgets := [(2, \<lparr>bg_period = [], bg_max_tokens = 5,
      bg_max_usd_cents = None, bg_per_model = []\<rparr>)]\<rparr>)
      [(1, \<lparr>tm_id = 1, tm_name = [], tm_budget = None, tm_enabled = True\<rparr>)])) 2 = None"
  using sync_teams_exact [of "[(1, \<lparr>tm_id = 1, tm_name = [], tm_budget = None, tm_enabled = True\<rparr>)]"] by simp

lemma load_teams_get:
  "distinct (hm_keys teams) \<Longrightarrow> hm_get (st_team_budgets (load_teams st teams)) i =
    (case hm_get teams i of None \<Rightarrow> hm_get (st_team_budgets st) i | Some t \<Rightarrow> tm_budget t)"
  by (simp add: load_teams_def, rule fold_teams_get) (auto split: option.splits)

text \<open>
  Usage seeded from the ledger at start-up counts against the budget: after seeding the total of
  a key's own budget for the current period, a request whose estimate exceeds the cap minus the
  seeded usage is refused, and the remainder it is told is exactly that difference.
\<close>

theorem seeded_usage_counts:
  assumes "ak_budget key = Some b" and "st' = seed_usage st \<lparr>us_scope = KeyTotal, us_id = ak_id key,
      us_model = [], us_period_start = period_start (bg_period b) now, us_used_tokens = used\<rparr>"
    and "unat est > unat (bg_max_tokens b) - unat used"
  shows "snd (reserve st' key model est now ms) = Inl (BudgetExceeded (sat_sub (bg_max_tokens b) used))"
proof -
  let ?k = "\<lparr>uk_scope = SCOPE_KEY_TOTAL, uk_id = ak_id key, uk_model = [], uk_period_start = period_start (bg_period b) now\<rparr>"
  have u: "hm_get (st_usage st') ?k = Some used" by (simp add: assms(2) seed_usage_def Let_def)
  then have "est > sat_sub (bg_max_tokens b) used" using assms(3) by (simp add: word_less_nat_alt)
  with u show ?thesis
    by (simp add: reserve_def reserve_budget_def effective_budget_def assms(1) reserve_scope_def Let_def
        current_usage_key_def hm_entry_or_def)
qed

theorem seeded_usage_counts_witness:
  "\<exists>key st'. snd (reserve st' key ''m'' 3 0 0) = Inl (BudgetExceeded 2)"
proof -
  let ?b = "\<lparr>bg_period = ''day'', bg_max_tokens = 10, bg_max_usd_cents = None, bg_per_model = []\<rparr>"
  let ?key = "\<lparr>ak_id = 7, ak_key_hash = [], ak_key_prefix = [], ak_team_id = 1,
    ak_owner = [], ak_allowed_models = [], ak_budget = Some ?b, ak_rpm_limit = None,
    ak_concurrency_limit = None, ak_expires_at = None, ak_enabled = True\<rparr>"
  show ?thesis using seeded_usage_counts [of ?key ?b _ store_new 0 8 3 "''m''" 0]
    by (fastforce simp: sat_sub_def)
qed

end
