(* ===== verification/Budget_Concurrent.thy ===== *)
theory Budget_Concurrent
  imports Budget
begin

text \<open>
  The compare-and-swap loops of \<open>src/budget/mod.rs\<close> under interference, one atomic access per step:
  the loop of \<open>reserve_scope\<close> on one usage counter together with the commits and rollbacks of other
  requests, and the loop of \<open>RpmBucket::try_take\<close> on one bucket. The weak exchange may fail spuriously.
\<close>

section \<open>One usage counter, many requests\<close>

text \<open>
  Where a request is in \<open>reserve_scope\<close>: before the load, in the loop with the value it observed,
  returned with an error, or returned with the reservation, which is later rolled back or committed.
\<close>

datatype scope_pc =
    AtLoad
  | InLoop u64
  | ScopeErr u64
  | Reserved
  | RolledBack
  | Committed u64

record scope_thread =
  th_amount :: u64
  th_pc :: scope_pc

record scope_machine =
  sm_counter :: u64
  sm_threads :: "scope_thread list"

definition set_pc :: "scope_machine \<Rightarrow> nat \<Rightarrow> scope_pc \<Rightarrow> scope_machine" where
  "set_pc s i pc = s\<lparr>sm_threads := (sm_threads s)[i := (sm_threads s ! i)\<lparr>th_pc := pc\<rparr>]\<rparr>"

definition at_pc :: "scope_machine \<Rightarrow> nat \<Rightarrow> scope_pc \<Rightarrow> bool" where
  "at_pc s i pc \<longleftrightarrow> i < length (sm_threads s) \<and> th_pc (sm_threads s ! i) = pc"

abbreviation amount_of :: "scope_machine \<Rightarrow> nat \<Rightarrow> u64" where
  "amount_of s i \<equiv> th_amount (sm_threads s ! i)"

text \<open>
  One atomic access. A commit above the reservation adds with \<open>fetch_add\<close>; the machine takes that
  step only while the sum fits 64 bits.
\<close>

inductive scope_step :: "u64 \<Rightarrow> scope_machine \<Rightarrow> scope_machine \<Rightarrow> bool" for limit where
  load: "at_pc s i AtLoad \<Longrightarrow> scope_step limit s (set_pc s i (InLoop (sm_counter s)))"
| exceeded: "at_pc s i (InLoop current) \<Longrightarrow> amount_of s i > sat_sub limit current \<Longrightarrow>
    scope_step limit s (set_pc s i (ScopeErr (sat_sub limit current)))"
| exchanged: "at_pc s i (InLoop current) \<Longrightarrow> \<not> amount_of s i > sat_sub limit current \<Longrightarrow>
    sm_counter s = current \<Longrightarrow>
    scope_step limit s (set_pc (s\<lparr>sm_counter := current + amount_of s i\<rparr>) i Reserved)"
| exchange_failed: "at_pc s i (InLoop current) \<Longrightarrow> \<not> amount_of s i > sat_sub limit current \<Longrightarrow>
    scope_step limit s (set_pc s i (InLoop (sm_counter s)))"
| rolled_back: "at_pc s i Reserved \<Longrightarrow>
    scope_step limit s (set_pc (s\<lparr>sm_counter := sat_sub (sm_counter s) (amount_of s i)\<rparr>) i RolledBack)"
| committed_less: "at_pc s i Reserved \<Longrightarrow> actual < amount_of s i \<Longrightarrow>
    scope_step limit s
      (set_pc (s\<lparr>sm_counter := sat_sub (sm_counter s) (amount_of s i - actual)\<rparr>) i (Committed actual))"
| committed_more: "at_pc s i Reserved \<Longrightarrow> actual \<ge> amount_of s i \<Longrightarrow>
    unat (sm_counter s) + unat (actual - amount_of s i) < 2 ^ 64 \<Longrightarrow>
    scope_step limit s
      (set_pc (s\<lparr>sm_counter := sm_counter s + (actual - amount_of s i)\<rparr>) i (Committed actual))"

text \<open>What a request holds of the counter, and by how much its commit went over its estimate.\<close>

definition holds :: "scope_thread \<Rightarrow> nat" where
  "holds t = (case th_pc t of Reserved \<Rightarrow> unat (th_amount t) | Committed a \<Rightarrow> unat a | _ \<Rightarrow> 0)"

definition overshoot :: "scope_thread \<Rightarrow> nat" where
  "overshoot t = (case th_pc t of Committed a \<Rightarrow> unat a - unat (th_amount t) | _ \<Rightarrow> 0)"

definition sum_over :: "(scope_thread \<Rightarrow> nat) \<Rightarrow> scope_machine \<Rightarrow> nat" where
  "sum_over f s = sum_list (map f (sm_threads s))"

lemma sum_over_set_pc:
  assumes "at_pc s i pc0" and "sm_threads s' = sm_threads s"
  shows "sum_over f (set_pc s' i pc) + f (sm_threads s ! i) = sum_over f s + f ((sm_threads s ! i)\<lparr>th_pc := pc\<rparr>)"
proof -
  have "i < length (map f (sm_threads s))" using assms(1) by (simp add: at_pc_def)
  from elem_le_sum_list [OF this] sum_list_update [OF this, of "f ((sm_threads s ! i)\<lparr>th_pc := pc\<rparr>)"]
  show ?thesis using assms by (simp add: sum_over_def set_pc_def at_pc_def map_update)
qed

lemma set_pc_counter [simp]: "sm_counter (set_pc s i pc) = sm_counter s"
  by (simp add: set_pc_def)

lemma holds_le_sum_over: "at_pc s i pc \<Longrightarrow> holds (sm_threads s ! i) \<le> sum_over holds s"
  using elem_le_sum_list [of i "map holds (sm_threads s)"] by (simp add: sum_over_def at_pc_def)

definition scope_start :: "scope_machine \<Rightarrow> bool" where
  "scope_start s \<longleftrightarrow> sm_counter s = 0 \<and> list_all (\<lambda>t. th_pc t = AtLoad) (sm_threads s)"

definition scope_invar :: "u64 \<Rightarrow> scope_machine \<Rightarrow> bool" where
  "scope_invar limit s \<longleftrightarrow> unat (sm_counter s) = sum_over holds s
     \<and> sum_over holds s \<le> unat limit + sum_over overshoot s"

lemma scope_invar_step:
  assumes "scope_invar limit s" and "scope_step limit s s'"
  shows "scope_invar limit s'"
  using assms(2)
proof cases
  case (load i)
  from sum_over_set_pc [OF load(2) refl, of holds] sum_over_set_pc [OF load(2) refl, of overshoot] load assms(1)
  show ?thesis by (simp add: scope_invar_def holds_def overshoot_def at_pc_def)
next
  case (exceeded i current)
  from sum_over_set_pc [OF exceeded(2) refl, of holds] sum_over_set_pc [OF exceeded(2) refl, of overshoot] exceeded assms(1)
  show ?thesis by (simp add: scope_invar_def holds_def overshoot_def at_pc_def)
next
  case (exchange_failed i current)
  from sum_over_set_pc [OF exchange_failed(2) refl, of holds] sum_over_set_pc [OF exchange_failed(2) refl, of overshoot]
    exchange_failed assms(1)
  show ?thesis by (simp add: scope_invar_def holds_def overshoot_def at_pc_def)
next
  case (exchanged i current)
  have room: "unat (amount_of s i) \<le> unat limit - unat current"
    using exchanged(3) by (simp add: not_less word_le_nat_alt)
  have "unat current + unat (amount_of s i) < 2 ^ 64"
    using room unsigned_less [of limit, where ?'a = nat] unsigned_less [of current, where ?'a = nat] by auto
  with sum_over_set_pc [OF exchanged(2), of "s\<lparr>sm_counter := current + amount_of s i\<rparr>" holds]
    sum_over_set_pc [OF exchanged(2), of "s\<lparr>sm_counter := current + amount_of s i\<rparr>" overshoot] exchanged(1,2,4) room assms(1)
  show ?thesis by (auto simp: scope_invar_def holds_def overshoot_def at_pc_def unat_add_no_overflow)
next
  case (rolled_back i)
  with sum_over_set_pc [OF rolled_back(2), of "s\<lparr>sm_counter := sat_sub (sm_counter s) (amount_of s i)\<rparr>" holds RolledBack]
    sum_over_set_pc [OF rolled_back(2), of "s\<lparr>sm_counter := sat_sub (sm_counter s) (amount_of s i)\<rparr>" overshoot RolledBack]
    holds_le_sum_over [OF rolled_back(2)] assms(1)
  show ?thesis by (auto simp: scope_invar_def holds_def overshoot_def at_pc_def)
next
  case (committed_less i actual)
  let ?s = "s\<lparr>sm_counter := sat_sub (sm_counter s) (amount_of s i - actual)\<rparr>"
  have "unat (amount_of s i - actual) = unat (amount_of s i) - unat actual" "unat actual < unat (amount_of s i)"
    using committed_less(3) by (auto simp: unat_sub word_le_nat_alt word_less_nat_alt)
  with sum_over_set_pc [OF committed_less(2), of ?s holds "Committed actual"] sum_over_set_pc [OF committed_less(2), of ?s overshoot "Committed actual"]
    holds_le_sum_over [OF committed_less(2)] assms(1) committed_less(1,2)
  show ?thesis by (simp add: scope_invar_def holds_def overshoot_def at_pc_def)
next
  case (committed_more i actual)
  let ?s = "s\<lparr>sm_counter := sm_counter s + (actual - amount_of s i)\<rparr>"
  have "unat (actual - amount_of s i) = unat actual - unat (amount_of s i)" "unat (amount_of s i) \<le> unat actual"
    using committed_more(3) by (auto simp: unat_sub word_le_nat_alt)
  with sum_over_set_pc [OF committed_more(2), of ?s holds "Committed actual"] sum_over_set_pc [OF committed_more(2), of ?s overshoot "Committed actual"]
    holds_le_sum_over [OF committed_more(2)] assms(1) committed_more(1,2,4)
  show ?thesis by (auto simp: scope_invar_def holds_def overshoot_def at_pc_def unat_add_no_overflow)
qed

interpretation scope: inductive_invariant scope_start "scope_step limit" "scope_invar limit"
proof
  fix s assume "scope_start s"
  then have "\<forall>t \<in> set (sm_threads s). th_pc t = AtLoad" and "sm_counter s = 0"
    by (simp_all add: scope_start_def list_all_iff)
  moreover from this(1) have "sum_over holds s = 0" by (simp add: sum_over_def holds_def)
  ultimately show "scope_invar limit s" by (simp add: scope_invar_def)
qed (rule scope_invar_step)



section \<open>One rate-limit bucket, many requests\<close>

text \<open>
  Where a request is in \<open>try_take\<close>: before the first load, before the second, in the loop with
  the values it read, after its failed exchange (the tokens known, \<open>last\<close> still to be reloaded), after its successful
  exchange with the refill mark still to be moved, and returned.
\<close>

datatype take_pc =
    AtLoadLast
  | AtLoadTokens u64
  | Looping u64 u64
  | Reloading u64
  | AtMark u64 u64
  | TakeOk
  | TakeErr duration

record take_machine =
  tk_bucket :: rpm_bucket
  tk_pcs :: "take_pc list"

definition tk_goto :: "take_machine \<Rightarrow> nat \<Rightarrow> take_pc \<Rightarrow> take_machine" where
  "tk_goto s i pc = s\<lparr>tk_pcs := (tk_pcs s)[i := pc]\<rparr>"

definition tk_at :: "take_machine \<Rightarrow> nat \<Rightarrow> take_pc \<Rightarrow> bool" where
  "tk_at s i pc \<longleftrightarrow> i < length (tk_pcs s) \<and> tk_pcs s ! i = pc"

inductive take_step :: "u64 \<Rightarrow> u64 \<Rightarrow> take_machine \<Rightarrow> take_machine \<Rightarrow> bool" for lm now where
  load_last: "tk_at s i AtLoadLast \<Longrightarrow>
    take_step lm now s (tk_goto s i (AtLoadTokens (rb_last_refill_ms (tk_bucket s))))"
| load_tokens: "tk_at s i (AtLoadTokens l) \<Longrightarrow>
    take_step lm now s (tk_goto s i (Looping (rb_tokens (tk_bucket s)) l))"
| empty: "tk_at s i (Looping t l) \<Longrightarrow> replenished lm now t l = 0 \<Longrightarrow>
    take_step lm now s (tk_goto s i (TakeErr (retry_after lm now l)))"
| taken: "tk_at s i (Looping t l) \<Longrightarrow> replenished lm now t l \<noteq> 0 \<Longrightarrow> rb_tokens (tk_bucket s) = t \<Longrightarrow>
    take_step lm now s
      (tk_goto (s\<lparr>tk_bucket := (tk_bucket s)\<lparr>rb_tokens := replenished lm now t l - 1\<rparr>\<rparr>) i
         (if refill_add lm now l > 0 then AtMark l now else TakeOk))"
| not_taken: "tk_at s i (Looping t l) \<Longrightarrow> replenished lm now t l \<noteq> 0 \<Longrightarrow>
    take_step lm now s (tk_goto s i (Reloading (rb_tokens (tk_bucket s))))"
| reload_last: "tk_at s i (Reloading t) \<Longrightarrow>
    take_step lm now s (tk_goto s i (Looping t (rb_last_refill_ms (tk_bucket s))))"
| marked: "tk_at s i (AtMark l nl) \<Longrightarrow> rb_last_refill_ms (tk_bucket s) = l \<Longrightarrow>
    take_step lm now s (tk_goto (s\<lparr>tk_bucket := (tk_bucket s)\<lparr>rb_last_refill_ms := nl\<rparr>\<rparr>) i TakeOk)"
| not_marked: "tk_at s i (AtMark l nl) \<Longrightarrow> take_step lm now s (tk_goto s i TakeOk)"

text \<open>
  The rate limit does not hold under concurrency: the tokens are exchanged before the refill
  mark is moved, so two requests arriving at the same instant at an empty bucket of one request per
  minute, due for one token, are both admitted, where \<open>try_take\<close> run twice in sequence admits one.
\<close>

theorem rpm_race_admits_two:
  "reach (\<lambda>s. s = \<lparr>tk_bucket = \<lparr>rb_tokens = 0, rb_last_refill_ms = 0\<rparr>, tk_pcs = [AtLoadLast, AtLoadLast]\<rparr>)
     (take_step 1 60000)
     \<lparr>tk_bucket = \<lparr>rb_tokens = 0, rb_last_refill_ms = 60000\<rparr>, tk_pcs = [TakeOk, TakeOk]\<rparr>
   \<and> (case try_take \<lparr>rb_tokens = 0, rb_last_refill_ms = 0\<rparr> 1 60000 of
       (b, r) \<Rightarrow> r = Inr () \<and> snd (try_take b 1 60000) = Inl 60000)"
proof
  let ?R = "reach (\<lambda>s. s = \<lparr>tk_bucket = \<lparr>rb_tokens = 0, rb_last_refill_ms = 0\<rparr>, tk_pcs = [AtLoadLast, AtLoadLast]\<rparr>)
     (take_step 1 60000)"
  let ?m = "\<lambda>l p q. \<lparr>tk_bucket = \<lparr>rb_tokens = 0, rb_last_refill_ms = l\<rparr>, tk_pcs = [p, q]\<rparr>"
  note one = take_step.intros [where i = 0 and lm = 1 and now = 60000]
    and two = take_step.intros [where i = "Suc 0" and lm = 1 and now = 60000]
  note evals = tk_at_def tk_goto_def replenished_def refill_add_def sat_sub_def
  have "?R (?m 0 AtLoadLast AtLoadLast)" by (rule reach_init) simp
  moreover have "take_step 1 60000 (?m 0 AtLoadLast AtLoadLast) (?m 0 (AtLoadTokens 0) AtLoadLast)"
    using one(1) [of "?m 0 AtLoadLast AtLoadLast"] by (simp add: evals)
  moreover have "take_step 1 60000 (?m 0 (AtLoadTokens 0) AtLoadLast) (?m 0 (Looping 0 0) AtLoadLast)"
    using one(2) [of "?m 0 (AtLoadTokens 0) AtLoadLast"] by (simp add: evals)
  moreover have "take_step 1 60000 (?m 0 (Looping 0 0) AtLoadLast) (?m 0 (Looping 0 0) (AtLoadTokens 0))"
    using two(1) [of "?m 0 (Looping 0 0) AtLoadLast"] by (simp add: evals)
  moreover have "take_step 1 60000 (?m 0 (Looping 0 0) (AtLoadTokens 0)) (?m 0 (Looping 0 0) (Looping 0 0))"
    using two(2) [of "?m 0 (Looping 0 0) (AtLoadTokens 0)"] by (simp add: evals)
  moreover have "take_step 1 60000 (?m 0 (Looping 0 0) (Looping 0 0)) (?m 0 (AtMark 0 60000) (Looping 0 0))"
    using one(4) [of "?m 0 (Looping 0 0) (Looping 0 0)"] by (simp add: evals)
  moreover have "take_step 1 60000 (?m 0 (AtMark 0 60000) (Looping 0 0)) (?m 0 (AtMark 0 60000) (AtMark 0 60000))"
    using two(4) [of "?m 0 (AtMark 0 60000) (Looping 0 0)"] by (simp add: evals)
  moreover have "take_step 1 60000 (?m 0 (AtMark 0 60000) (AtMark 0 60000)) (?m 60000 TakeOk (AtMark 0 60000))"
    using one(7) [of "?m 0 (AtMark 0 60000) (AtMark 0 60000)"] by (simp add: evals)
  moreover have "take_step 1 60000 (?m 60000 TakeOk (AtMark 0 60000)) (?m 60000 TakeOk TakeOk)"
    using two(8) [of "?m 60000 TakeOk (AtMark 0 60000)"] by (simp add: evals)
  ultimately show "?R (?m 60000 TakeOk TakeOk)" by (meson reach_step)
  show "case try_take \<lparr>rb_tokens = 0, rb_last_refill_ms = 0\<rparr> 1 60000 of
       (b, r) \<Rightarrow> r = Inr () \<and> snd (try_take b 1 60000) = Inl 60000"
    by (simp add: try_take_def evals retry_after_def Let_def)
qed

end
