(* ===== verification/Route.thy ===== *)
theory Route
  imports Contract "HOL-Library.Multiset"
begin

text \<open>
  Backend selection of \<open>src/route/mod.rs\<close>: the exclusion set, the state of a backend and its circuit
  breaker, the three selection policies, the persistent round-robin counter, the claim of a slot and
  the leases. Instants are milliseconds and arguments, the random tie break is an argument, and the
  counter table of PostgreSQL is a state threaded through the calls. Between choosing a candidate and
  claiming it other requests may change the pool; that interference is an argument of the loop.
\<close>

type_synonym instant = nat

definition CIRCUIT_CLOSED :: u8 where "CIRCUIT_CLOSED = 0"
definition CIRCUIT_OPEN :: u8 where "CIRCUIT_OPEN = 1"
definition CIRCUIT_HALF_OPEN :: u8 where "CIRCUIT_HALF_OPEN = 2"

lemmas circuit_defs = CIRCUIT_CLOSED_def CIRCUIT_OPEN_def CIRCUIT_HALF_OPEN_def

record candidate =
  cd_backend_id :: i64
  cd_score :: rat
  cd_half_open :: bool

section \<open>The exclusion set\<close>

definition INLINE_EXCLUSIONS :: usize where "INLINE_EXCLUSIONS = 8"

text \<open>The array \<open>[i64; 8]\<close> is a function of the index, of which \<open>0..len\<close> is in use.\<close>

record backend_exclusions =
  ex_inline :: "nat \<Rightarrow> i64"
  ex_len :: usize
  ex_overflow :: "i64 list"

definition exclusions_default :: backend_exclusions where
  "exclusions_default = \<lparr>ex_inline = (\<lambda>_. 0), ex_len = 0, ex_overflow = []\<rparr>"

definition ex_contains :: "backend_exclusions \<Rightarrow> i64 \<Rightarrow> bool" where
  "ex_contains e b \<longleftrightarrow> b \<in> set (map (ex_inline e) [0..<ex_len e]) \<or> b \<in> set (ex_overflow e)"

definition ex_insert :: "backend_exclusions \<Rightarrow> i64 \<Rightarrow> backend_exclusions" where
  "ex_insert e b =
     (if ex_contains e b then e
      else if ex_len e < INLINE_EXCLUSIONS
      then e\<lparr>ex_inline := (ex_inline e)(ex_len e := b), ex_len := ex_len e + 1\<rparr>
      else e\<lparr>ex_overflow := ex_overflow e @ [b]\<rparr>)"

text \<open>What the retry loops need of an exclusion set, and that each exclusion brings them closer to their end.\<close>

locale exclusion_set =
  fixes none :: 'e and has :: "'e \<Rightarrow> 'b \<Rightarrow> bool" and add :: "'e \<Rightarrow> 'b \<Rightarrow> 'e"
  assumes has_none: "\<not> has none b"
    and has_add: "has (add e b) c \<longleftrightarrow> c = b \<or> has e c"
begin

lemma remaining_decreases:
  assumes "b \<in> set ids" and "\<not> has e b"
  shows "card {x \<in> set ids. \<not> has (add e b) x} < card {x \<in> set ids. \<not> has e x}"
  using assms by (intro psubset_card_mono) (auto simp: has_add)

lemma has_fold: "has (foldl add e bs) c \<longleftrightarrow> c \<in> set bs \<or> has e c"
  by (induction bs arbitrary: e) (auto simp: has_add)

end

interpretation excl: exclusion_set exclusions_default ex_contains ex_insert
  by unfold_locales (auto simp: exclusions_default_def ex_contains_def ex_insert_def less_Suc_eq)

text \<open>The inline array is never overrun, and the vector is used only once the array is full.\<close>

definition ex_wf :: "backend_exclusions \<Rightarrow> bool" where
  "ex_wf e \<longleftrightarrow> ex_len e \<le> INLINE_EXCLUSIONS \<and> (ex_overflow e = [] \<or> ex_len e = INLINE_EXCLUSIONS)
     \<and> distinct (map (ex_inline e) [0..<ex_len e] @ ex_overflow e)"

lemma ex_wf_insert: "ex_wf e \<Longrightarrow> ex_wf (ex_insert e b)"
  by (auto simp: ex_wf_def ex_insert_def ex_contains_def)

section \<open>The pool\<close>

record backend_state =
  bs_inflight :: u32
  bs_consecutive_failures :: u32
  bs_circuit :: u8
  bs_half_open_probe :: bool
  bs_opened_until :: "instant option"
  bs_weight :: u32
  bs_max_inflight :: u32
  bs_enabled :: bool
  bs_base_url :: "string option"

definition backend_state_new :: "backend \<Rightarrow> backend_state" where
  "backend_state_new b =
     \<lparr>bs_inflight = 0, bs_consecutive_failures = 0, bs_circuit = CIRCUIT_CLOSED,
      bs_half_open_probe = True, bs_opened_until = None, bs_weight = be_weight b,
      bs_max_inflight = be_max_inflight b, bs_enabled = be_enabled b,
      bs_base_url = Some (be_base_url b)\<rparr>"

record counter_block =
  cb_next :: u64
  cb_end :: u64

definition counter_block_empty :: counter_block where
  "counter_block_empty = \<lparr>cb_next = 0, cb_end = 0\<rparr>"

record ram_backend_pool =
  bp_states :: "(i64, backend_state) hmap"
  bp_rr_counters :: "(string, counter_block) hmap"
  bp_counter_pool :: bool
  bp_counter_block_size :: u64
  bp_open_duration :: duration

definition pool_new_without_counter_pool :: "duration \<Rightarrow> ram_backend_pool" where
  "pool_new_without_counter_pool open_duration =
     \<lparr>bp_states = [], bp_rr_counters = [], bp_counter_pool = False, bp_counter_block_size = 1024,
      bp_open_duration = open_duration\<rparr>"

definition pool_new_with_counter_pool :: "u64 \<Rightarrow> duration \<Rightarrow> ram_backend_pool" where
  "pool_new_with_counter_pool block_size open_duration =
     \<lparr>bp_states = [], bp_rr_counters = [], bp_counter_pool = True,
      bp_counter_block_size = max block_size 1, bp_open_duration = open_duration\<rparr>"

definition put_state :: "ram_backend_pool \<Rightarrow> i64 \<Rightarrow> backend_state \<Rightarrow> ram_backend_pool" where
  "put_state p b s = p\<lparr>bp_states := hm_insert b s (bp_states p)\<rparr>"

datatype acquire_error = CounterUnavailable string

definition upsert_backend :: "ram_backend_pool \<Rightarrow> backend \<Rightarrow> ram_backend_pool" where
  "upsert_backend p b =
     (case hm_get (bp_states p) (be_id b) of
        Some s \<Rightarrow> put_state p (be_id b)
          (s\<lparr>bs_weight := be_weight b, bs_max_inflight := be_max_inflight b, bs_enabled := be_enabled b,
             bs_base_url := Some (be_base_url b)\<rparr>)
      | None \<Rightarrow> put_state p (be_id b) (backend_state_new b))"

definition sync_remove :: "(i64, backend) hmap \<Rightarrow> ram_backend_pool \<Rightarrow> i64 \<Rightarrow> ram_backend_pool" where
  "sync_remove snapshot p i =
     (if hm_get snapshot i = None then
        (let (p1, removable) = (case hm_get (bp_states p) i of
               Some s \<Rightarrow> (put_state p i (s\<lparr>bs_enabled := False\<rparr>), bs_inflight s = 0)
             | None \<Rightarrow> (p, True))
         in if removable then p1\<lparr>bp_states := hm_remove i (bp_states p1)\<rparr> else p1)
      else p)"

definition sync_backends :: "ram_backend_pool \<Rightarrow> (i64, backend) hmap \<Rightarrow> ram_backend_pool" where
  "sync_backends p snapshot =
     (let current = hm_keys (bp_states p);
          p1 = foldl (sync_remove snapshot) p current
      in foldl upsert_backend p1 (map snd snapshot))"

section \<open>Candidates\<close>

definition effective_max :: "u32 \<Rightarrow> u32 \<Rightarrow> u32" where
  "effective_max global_max endpoint_max =
     (if global_max = 0 \<and> endpoint_max = 0 then 0
      else if global_max = 0 then endpoint_max
      else if endpoint_max = 0 then global_max
      else min global_max endpoint_max)"

definition candidate_weight :: "model_route \<Rightarrow> i64 \<Rightarrow> backend_state \<Rightarrow> u32" where
  "candidate_weight route b s =
     unwrap_or (max (bs_weight s) 1)
       (map_option (\<lambda>e. max (ep_weight e) 1) (filter_opt ep_enabled (hm_get (rt_endpoints route) b)))"

text \<open>The circuit check of a candidate: the state after it and whether the candidate is a probe.\<close>

definition circuit_gate :: "backend_state \<Rightarrow> instant \<Rightarrow> backend_state \<times> bool option" where
  "circuit_gate s now =
     (if bs_circuit s = CIRCUIT_CLOSED then (s, Some False)
      else if bs_circuit s = CIRCUIT_OPEN then
        (let expired = (case bs_opened_until s of None \<Rightarrow> True | Some i \<Rightarrow> i \<le> now)
         in if \<not> expired then (s, None)
            else (s\<lparr>bs_circuit := CIRCUIT_HALF_OPEN, bs_half_open_probe := True\<rparr>, Some True))
      else if bs_circuit s = CIRCUIT_HALF_OPEN then
        (if bs_half_open_probe s then (s, Some True) else (s, None))
      else (s, None))"

definition candidate_for_backend ::
  "ram_backend_pool \<Rightarrow> model_route \<Rightarrow> i64 \<Rightarrow> backend_exclusions \<Rightarrow> instant
   \<Rightarrow> ram_backend_pool \<times> candidate option" where
  "candidate_for_backend p route b excluded now =
     (if ex_contains excluded b \<or> \<not> endpoint_enabled route b then (p, None)
      else case hm_get (bp_states p) b of
        None \<Rightarrow> (p, None)
      | Some s \<Rightarrow>
          if \<not> bs_enabled s then (p, None)
          else case circuit_gate s now of
            (s1, None) \<Rightarrow> (put_state p b s1, None)
          | (s1, Some half_open) \<Rightarrow>
              (let infl = bs_inflight s1;
                   mx = effective_max (bs_max_inflight s1) (endpoint_max_inflight route b)
               in if mx > 0 \<and> infl \<ge> mx then (put_state p b s1, None)
                  else (put_state p b s1,
                        Some \<lparr>cd_backend_id = b,
                              cd_score = f64_round (of_nat (unat infl) / of_nat (unat (candidate_weight route b s1))),
                              cd_half_open = half_open\<rparr>)))"

section \<open>The persistent counter\<close>

text \<open>
  The table \<open>model_route_counters\<close>, or the error of a database that does not answer. The statement
  adds the block size to the row (or inserts it) and returns the value before and after;
  a sum beyond the \<open>bigint\<close> range is an error of the database.
\<close>

record counter_db =
  db_counters :: "(string, i64) hmap"
  db_error :: "string option"

definition i64_max :: int where "i64_max = 2 ^ 63 - 1"

definition allocate_block :: "counter_db \<Rightarrow> string \<Rightarrow> i64 \<Rightarrow> counter_db \<times> (string + i64 \<times> i64)" where
  "allocate_block db model_name sz =
     (case db_error db of
        Some e \<Rightarrow> (db, Inl e)
      | None \<Rightarrow>
          (let next_value = (case hm_get (db_counters db) model_name of None \<Rightarrow> sz | Some v \<Rightarrow> v + sz)
           in if next_value > i64_max then (db, Inl ''bigint out of range'')
              else (db\<lparr>db_counters := hm_insert model_name next_value (db_counters db)\<rparr>,
                    Inr (next_value - sz, next_value))))"

definition u64_of_i64 :: "i64 \<Rightarrow> u64" where
  "u64_of_i64 i = word_of_nat (nat (max i 0))"

definition next_persistent_counter ::
  "ram_backend_pool \<Rightarrow> counter_db \<Rightarrow> string \<Rightarrow> ram_backend_pool \<times> counter_db \<times> (acquire_error + u64)" where
  "next_persistent_counter p db model_name =
     (let rr = hm_entry_or model_name counter_block_empty (bp_rr_counters p);
          block = unwrap_or counter_block_empty (hm_get rr model_name);
          p1 = p\<lparr>bp_rr_counters := rr\<rparr>
      in if cb_next block < cb_end block then
           (p1\<lparr>bp_rr_counters := hm_insert model_name (block\<lparr>cb_next := cb_next block + 1\<rparr>) rr\<rparr>,
            db, Inr (cb_next block))
         else if \<not> bp_counter_pool p then
           (p1, db, Inl (CounterUnavailable
              ''route counter unavailable: PostgreSQL pool is not configured''))
         else
           (let sz = min (int (unat (bp_counter_block_size p))) i64_max in
            case allocate_block db model_name sz of
              (db1, Inl e) \<Rightarrow> (p1, db1, Inl (CounterUnavailable (''route counter unavailable: '' @ e)))
            | (db1, Inr (start_value, end_value)) \<Rightarrow>
                (let start = u64_of_i64 start_value; fin = u64_of_i64 end_value in
                 if start \<ge> fin then
                   (p1, db1, Inl (CounterUnavailable ''route counter unavailable: empty allocated block''))
                 else
                   (p1\<lparr>bp_rr_counters := hm_insert model_name \<lparr>cb_next = start + 1, cb_end = fin\<rparr> rr\<rparr>,
                    db1, Inr start))))"

section \<open>Policies\<close>

text \<open>The counting pass of the round-robin policies: the state it leaves and the sum of a measure of the candidates.\<close>

definition rr_count ::
  "ram_backend_pool \<Rightarrow> model_route \<Rightarrow> backend_exclusions \<Rightarrow> instant \<Rightarrow> i64 list \<Rightarrow> ram_backend_pool \<times> nat" where
  "rr_count p route excluded now ids =
     foldl (\<lambda>(p, n) b. case candidate_for_backend p route b excluded now of
              (p1, None) \<Rightarrow> (p1, n) | (p1, Some _) \<Rightarrow> (p1, n + 1)) (p, 0) ids"

fun rr_pick ::
  "ram_backend_pool \<Rightarrow> model_route \<Rightarrow> backend_exclusions \<Rightarrow> instant \<Rightarrow> usize \<Rightarrow> usize \<Rightarrow> i64 list
   \<Rightarrow> ram_backend_pool \<times> candidate option" where
  "rr_pick p route excluded now seen selected [] = (p, None)"
| "rr_pick p route excluded now seen selected (b # ids) =
     (case candidate_for_backend p route b excluded now of
        (p1, None) \<Rightarrow> rr_pick p1 route excluded now seen selected ids
      | (p1, Some c) \<Rightarrow>
          if seen = selected then (p1, Some c)
          else rr_pick p1 route excluded now (seen + 1) selected ids)"

definition choose_round_robin_candidate ::
  "ram_backend_pool \<Rightarrow> counter_db \<Rightarrow> model_route \<Rightarrow> i64 list \<Rightarrow> backend_exclusions \<Rightarrow> instant
   \<Rightarrow> ram_backend_pool \<times> counter_db \<times> (acquire_error + candidate option)" where
  "choose_round_robin_candidate p db route ids excluded now =
     (let (p1, candidate_count) = rr_count p route excluded now ids
      in if candidate_count = 0 then (p1, db, Inr None)
         else case next_persistent_counter p1 db (rt_model_name route) of
           (p2, db2, Inl e) \<Rightarrow> (p2, db2, Inl e)
         | (p2, db2, Inr n) \<Rightarrow>
             (let selected = unat n mod candidate_count;
                  (p3, r) = rr_pick p2 route excluded now 0 selected ids
              in (p3, db2, Inr r)))"

definition wrr_total ::
  "ram_backend_pool \<Rightarrow> model_route \<Rightarrow> backend_exclusions \<Rightarrow> instant \<Rightarrow> i64 list \<Rightarrow> ram_backend_pool \<times> u64" where
  "wrr_total p route excluded now ids =
     foldl (\<lambda>(p, n) b. case candidate_for_backend p route b excluded now of
              (p1, None) \<Rightarrow> (p1, n)
            | (p1, Some _) \<Rightarrow> (p1, sat_add n (ucast (max (endpoint_weight route b) 1)))) (p, 0) ids"

fun wrr_pick ::
  "ram_backend_pool \<Rightarrow> model_route \<Rightarrow> backend_exclusions \<Rightarrow> instant \<Rightarrow> u64 \<Rightarrow> i64 list
   \<Rightarrow> ram_backend_pool \<times> candidate option" where
  "wrr_pick p route excluded now slot [] = (p, None)"
| "wrr_pick p route excluded now slot (b # ids) =
     (case candidate_for_backend p route b excluded now of
        (p1, None) \<Rightarrow> wrr_pick p1 route excluded now slot ids
      | (p1, Some c) \<Rightarrow>
          (let weight = ucast (max (endpoint_weight route b) 1)
           in if slot < weight then (p1, Some c)
              else wrr_pick p1 route excluded now (slot - weight) ids))"

definition choose_weighted_round_robin_candidate ::
  "ram_backend_pool \<Rightarrow> counter_db \<Rightarrow> model_route \<Rightarrow> i64 list \<Rightarrow> backend_exclusions \<Rightarrow> instant
   \<Rightarrow> ram_backend_pool \<times> counter_db \<times> (acquire_error + candidate option)" where
  "choose_weighted_round_robin_candidate p db route ids excluded now =
     (let (p1, total_weight) = wrr_total p route excluded now ids
      in if total_weight = 0 then (p1, db, Inr None)
         else case next_persistent_counter p1 db (rt_model_name route) of
           (p2, db2, Inl e) \<Rightarrow> (p2, db2, Inl e)
         | (p2, db2, Inr n) \<Rightarrow>
             (let (p3, r) = wrr_pick p2 route excluded now (n mod total_weight) ids
              in (p3, db2, Inr r)))"

text \<open>\<open>rnd ties\<close> is the draw from \<open>0..ties\<close> (for the candidate at hand).\<close>

fun ll_scan ::
  "ram_backend_pool \<Rightarrow> model_route \<Rightarrow> backend_exclusions \<Rightarrow> instant \<Rightarrow> (i64 \<Rightarrow> nat \<Rightarrow> nat)
   \<Rightarrow> candidate option \<Rightarrow> nat \<Rightarrow> i64 list \<Rightarrow> ram_backend_pool \<times> candidate option" where
  "ll_scan p route excluded now rnd best ties [] = (p, best)"
| "ll_scan p route excluded now rnd best ties (b # ids) =
     (case candidate_for_backend p route b excluded now of
        (p1, None) \<Rightarrow> ll_scan p1 route excluded now rnd best ties ids
      | (p1, Some c) \<Rightarrow>
          (case best of
             None \<Rightarrow> ll_scan p1 route excluded now rnd (Some c) 1 ids
           | Some current \<Rightarrow>
               if cd_score c < cd_score current then ll_scan p1 route excluded now rnd (Some c) 1 ids
               else if cd_score c = cd_score current then
                 ll_scan p1 route excluded now rnd (if rnd b (ties + 1) = 0 then Some c else best) (ties + 1) ids
               else ll_scan p1 route excluded now rnd best ties ids))"

definition choose_least_loaded_candidate ::
  "ram_backend_pool \<Rightarrow> model_route \<Rightarrow> i64 list \<Rightarrow> backend_exclusions \<Rightarrow> instant \<Rightarrow> (i64 \<Rightarrow> nat \<Rightarrow> nat)
   \<Rightarrow> ram_backend_pool \<times> candidate option" where
  "choose_least_loaded_candidate p route ids excluded now rnd = ll_scan p route excluded now rnd None 0 ids"

definition choose_candidate ::
  "ram_backend_pool \<Rightarrow> counter_db \<Rightarrow> model_route \<Rightarrow> i64 list \<Rightarrow> backend_exclusions \<Rightarrow> instant \<Rightarrow> (i64 \<Rightarrow> nat \<Rightarrow> nat)
   \<Rightarrow> ram_backend_pool \<times> counter_db \<times> (acquire_error + candidate option)" where
  "choose_candidate p db route ids excluded now rnd =
     (case rt_routing_policy route of
        RoundRobin \<Rightarrow> choose_round_robin_candidate p db route ids excluded now
      | WeightedRoundRobin \<Rightarrow> choose_weighted_round_robin_candidate p db route ids excluded now
      | LeastLoadedWeighted \<Rightarrow>
          (let (p1, r) = choose_least_loaded_candidate p route ids excluded now rnd in (p1, db, Inr r)))"

section \<open>Results\<close>

definition note_result :: "ram_backend_pool \<Rightarrow> i64 \<Rightarrow> bool \<Rightarrow> instant \<Rightarrow> ram_backend_pool" where
  "note_result p b ok now =
     (case hm_get (bp_states p) b of
        None \<Rightarrow> p
      | Some s \<Rightarrow>
          if ok then
            put_state p b (s\<lparr>bs_circuit := CIRCUIT_CLOSED, bs_opened_until := None,
                             bs_half_open_probe := True, bs_consecutive_failures := 0\<rparr>)
          else
            (let failures = bs_consecutive_failures s + 1;
                 s1 = s\<lparr>bs_consecutive_failures := failures\<rparr>;
                 opened = s1\<lparr>bs_circuit := CIRCUIT_OPEN, bs_opened_until := Some (now + bp_open_duration p),
                             bs_half_open_probe := False, bs_consecutive_failures := 0\<rparr>
             in if bs_circuit s = CIRCUIT_CLOSED then put_state p b (if failures \<ge> 3 then opened else s1)
                else if bs_circuit s = CIRCUIT_HALF_OPEN then put_state p b opened
                else if bs_circuit s = CIRCUIT_OPEN
                then put_state p b (s1\<lparr>bs_opened_until := Some (now + bp_open_duration p)\<rparr>)
                else put_state p b s1))"

definition inflight :: "ram_backend_pool \<Rightarrow> i64 \<Rightarrow> u32" where
  "inflight p b = unwrap_or 0 (map_option bs_inflight (hm_get (bp_states p) b))"

definition pool_snapshot :: "ram_backend_pool \<Rightarrow> (i64 \<times> u32 \<times> bool) list" where
  "pool_snapshot p = map (\<lambda>(b, s). (b, bs_inflight s, bs_circuit s \<noteq> CIRCUIT_CLOSED)) (bp_states p)"

definition dec_inflight :: "ram_backend_pool \<Rightarrow> i64 \<Rightarrow> ram_backend_pool" where
  "dec_inflight p b =
     (case hm_get (bp_states p) b of
        None \<Rightarrow> p
      | Some s \<Rightarrow> put_state p b (s\<lparr>bs_inflight := sat_sub (bs_inflight s) 1\<rparr>))"

record backend_lease =
  bl_backend_id :: i64

definition lease_drop :: "ram_backend_pool \<Rightarrow> backend_lease \<Rightarrow> ram_backend_pool" where
  "lease_drop p l = dec_inflight p (bl_backend_id l)"

section \<open>Claiming a slot\<close>

text \<open>One round of \<open>acquire_primary\<close> after the choice: the pool, and whether the slot is taken.\<close>

definition claim_candidate :: "ram_backend_pool \<Rightarrow> model_route \<Rightarrow> candidate \<Rightarrow> ram_backend_pool \<times> bool" where
  "claim_candidate p route c =
     (case hm_get (bp_states p) (cd_backend_id c) of
        None \<Rightarrow> (p, False)
      | Some s \<Rightarrow>
          if cd_half_open c \<and> \<not> bs_half_open_probe s then (p, False)
          else
            (let s1 = (if cd_half_open c then s\<lparr>bs_half_open_probe := False\<rparr> else s);
                 mx = effective_max (bs_max_inflight s1) (endpoint_max_inflight route (cd_backend_id c));
                 prev = bs_inflight s1;
                 s2 = s1\<lparr>bs_inflight := prev + 1\<rparr>
             in if mx > 0 \<and> prev \<ge> mx then
                  (let s3 = s2\<lparr>bs_inflight := bs_inflight s2 - 1\<rparr>;
                       s4 = (if cd_half_open c then s3\<lparr>bs_half_open_probe := True\<rparr> else s3)
                   in (put_state p (cd_backend_id c) s4, False))
                else (put_state p (cd_backend_id c) s2, True)))"

section \<open>Facts about candidates\<close>

lemma put_state_get [simp]:
  "hm_get (bp_states (put_state p b s)) c = (if c = b then Some s else hm_get (bp_states p) c)"
  by (simp add: put_state_def)

lemma put_state_frame [simp]:
  "bp_rr_counters (put_state p b s) = bp_rr_counters p" "bp_counter_pool (put_state p b s) = bp_counter_pool p"
  "bp_counter_block_size (put_state p b s) = bp_counter_block_size p"
  "bp_open_duration (put_state p b s) = bp_open_duration p"
  by (simp_all add: put_state_def)

text \<open>The static reading of a backend: what makes it a candidate, and the candidate it is.\<close>

definition gate_open :: "backend_state \<Rightarrow> instant \<Rightarrow> bool" where
  "gate_open s now \<longleftrightarrow> snd (circuit_gate s now) \<noteq> None"

definition has_slot :: "model_route \<Rightarrow> i64 \<Rightarrow> backend_state \<Rightarrow> bool" where
  "has_slot route b s \<longleftrightarrow>
     \<not> (effective_max (bs_max_inflight s) (endpoint_max_inflight route b) > 0
        \<and> bs_inflight s \<ge> effective_max (bs_max_inflight s) (endpoint_max_inflight route b))"

definition eligible :: "ram_backend_pool \<Rightarrow> model_route \<Rightarrow> backend_exclusions \<Rightarrow> instant \<Rightarrow> i64 \<Rightarrow> bool" where
  "eligible p route excluded now b \<longleftrightarrow> \<not> ex_contains excluded b \<and> endpoint_enabled route b
     \<and> (case hm_get (bp_states p) b of None \<Rightarrow> False
        | Some s \<Rightarrow> bs_enabled s \<and> gate_open s now \<and> has_slot route b s)"

definition load_score :: "ram_backend_pool \<Rightarrow> model_route \<Rightarrow> i64 \<Rightarrow> rat" where
  "load_score p route b = (case hm_get (bp_states p) b of None \<Rightarrow> 0
     | Some s \<Rightarrow> f64_round (of_nat (unat (bs_inflight s)) / of_nat (unat (candidate_weight route b s))))"

text \<open>Two pools a selection cannot tell apart: only open circuits whose window has passed may have become half-open.\<close>

definition settled_state :: "instant \<Rightarrow> backend_state \<Rightarrow> backend_state \<Rightarrow> bool" where
  "settled_state now s t \<longleftrightarrow> t = s \<or> t = fst (circuit_gate s now)"

definition settled :: "instant \<Rightarrow> ram_backend_pool \<Rightarrow> ram_backend_pool \<Rightarrow> bool" where
  "settled now p q \<longleftrightarrow> bp_counter_pool q = bp_counter_pool p \<and> bp_counter_block_size q = bp_counter_block_size p
     \<and> bp_open_duration q = bp_open_duration p
     \<and> (\<forall>b. rel_option (settled_state now) (hm_get (bp_states p) b) (hm_get (bp_states q) b))"

lemma circuit_gate_frame [simp]:
  "bs_inflight (fst (circuit_gate s now)) = bs_inflight s"
  "bs_max_inflight (fst (circuit_gate s now)) = bs_max_inflight s"
  "bs_enabled (fst (circuit_gate s now)) = bs_enabled s"
  "bs_weight (fst (circuit_gate s now)) = bs_weight s"
  by (auto simp: circuit_gate_def Let_def split: option.splits)

lemma circuit_gate_idem: "circuit_gate (fst (circuit_gate s now)) now = circuit_gate s now"
  by (auto simp: circuit_gate_def circuit_defs Let_def split: option.splits)

lemma settled_state_facts:
  assumes "settled_state now s t"
  shows "circuit_gate t now = circuit_gate s now" "bs_inflight t = bs_inflight s"
    "bs_max_inflight t = bs_max_inflight s" "bs_enabled t = bs_enabled s" "bs_weight t = bs_weight s"
  using assms by (auto simp: settled_state_def circuit_gate_idem)

lemma settled_refl [simp]: "settled now p p"
  by (auto simp: settled_def settled_state_def option.rel_refl)

lemma settled_state_trans: "settled_state now s t \<Longrightarrow> settled_state now t u \<Longrightarrow> settled_state now s u"
  using circuit_gate_idem [of s now] by (auto simp: settled_state_def)

lemma settled_option_trans:
  "rel_option (settled_state now) x y \<Longrightarrow> rel_option (settled_state now) y z \<Longrightarrow> rel_option (settled_state now) x z"
  by (cases x; cases y; cases z) (auto intro: settled_state_trans)

lemma settled_trans: "settled now p q \<Longrightarrow> settled now q r \<Longrightarrow> settled now p r"
  unfolding settled_def by (metis settled_option_trans)

lemma settled_cases:
  assumes "settled now p q"
  obtains "hm_get (bp_states p) b = None" "hm_get (bp_states q) b = None"
    | s t where "hm_get (bp_states p) b = Some s" "hm_get (bp_states q) b = Some t" "settled_state now s t"
  using assms unfolding settled_def by (metis option.rel_cases)

lemma settled_eligible: "settled now p q \<Longrightarrow> eligible q route e now b = eligible p route e now b"
  by (erule settled_cases [where b = b]) (auto simp: eligible_def gate_open_def has_slot_def settled_state_facts)

lemma settled_load_score: "settled now p q \<Longrightarrow> load_score q route b = load_score p route b"
  by (erule settled_cases [where b = b]) (auto simp: load_score_def candidate_weight_def settled_state_facts)

text \<open>A look at a backend settles the pool and yields the candidate exactly when it is eligible.\<close>

lemma candidate_settles:
  assumes "candidate_for_backend p route b e now = (q, r)"
  shows "settled now p q" and "bp_rr_counters q = bp_rr_counters p"
proof -
  show "bp_rr_counters q = bp_rr_counters p"
    using assms by (auto simp: candidate_for_backend_def Let_def split: if_splits option.splits prod.splits)
  have put: "settled now p (put_state p b t)" if "hm_get (bp_states p) b = Some s" "fst (circuit_gate s now) = t" for s t
    using that by (auto simp: settled_def settled_state_def option.rel_refl)
  show "settled now p q"
    using assms put by (auto simp: candidate_for_backend_def Let_def split: if_splits option.splits prod.splits)
qed

definition candidate_of :: "ram_backend_pool \<Rightarrow> model_route \<Rightarrow> instant \<Rightarrow> i64 \<Rightarrow> candidate" where
  "candidate_of p route now b = \<lparr>cd_backend_id = b, cd_score = load_score p route b,
     cd_half_open = (case hm_get (bp_states p) b of None \<Rightarrow> False | Some s \<Rightarrow> snd (circuit_gate s now) = Some True)\<rparr>"

lemma candidate_of_id [simp]:
  "cd_backend_id (candidate_of p route now b) = b" "cd_score (candidate_of p route now b) = load_score p route b"
  by (simp_all add: candidate_of_def)

lemma settled_candidate_of: "settled now p q \<Longrightarrow> candidate_of q route now b = candidate_of p route now b"
  using settled_load_score [of now p q route b]
  by (auto elim: settled_cases [where b = b] simp: candidate_of_def settled_state_facts)

lemma candidate_result:
  "snd (candidate_for_backend p route b e now) =
    (if eligible p route e now b then Some (candidate_of p route now b) else None)"
proof (cases "hm_get (bp_states p) b")
  case None
  then show ?thesis by (simp add: candidate_for_backend_def eligible_def)
next
  case (Some s)
  obtain s1 g where g: "circuit_gate s now = (s1, g)" by force
  have fr: "bs_inflight s1 = bs_inflight s" "bs_max_inflight s1 = bs_max_inflight s" "bs_weight s1 = bs_weight s"
    using circuit_gate_frame [of s now] g by auto
  show ?thesis
    using Some g fr by (cases g) (auto simp: candidate_for_backend_def eligible_def gate_open_def has_slot_def
        load_score_def candidate_weight_def candidate_of_def Let_def)
qed

lemma candidate_step:
  obtains q where "settled now p q" "bp_rr_counters q = bp_rr_counters p"
    "candidate_for_backend p route b e now =
       (q, if eligible p route e now b then Some (candidate_of p route now b) else None)"
proof -
  obtain q r where eq: "candidate_for_backend p route b e now = (q, r)" by force
  show thesis
    by (rule that [OF candidate_settles [OF eq]]) (use eq candidate_result [of p route b e now] in simp)
qed

text \<open>A backend that has been looked at is past its circuit check.\<close>

definition gated :: "instant \<Rightarrow> ram_backend_pool \<Rightarrow> i64 \<Rightarrow> bool" where
  "gated now p b \<longleftrightarrow> (\<forall>s. hm_get (bp_states p) b = Some s \<longrightarrow> fst (circuit_gate s now) = s)"

lemma settled_gated: "settled now p q \<Longrightarrow> gated now p b \<Longrightarrow> gated now q b"
  by (erule settled_cases [where b = b]) (auto simp: gated_def settled_state_def circuit_gate_idem)

lemma candidate_gated:
  assumes "candidate_for_backend p route b e now = (q, r)" and "eligible p route e now b"
  shows "gated now q b"
proof -
  obtain s where s: "hm_get (bp_states p) b = Some s" "bs_enabled s" "gate_open s now"
      "\<not> ex_contains e b" "endpoint_enabled route b"
    using assms(2) by (auto simp: eligible_def split: option.splits)
  obtain s1 g where g: "circuit_gate s now = (s1, g)" by force
  have "fst (circuit_gate s1 now) = s1" using circuit_gate_idem [of s now] g by simp
  moreover have "hm_get (bp_states q) b = Some s1"
    using assms(1) s g by (auto simp: candidate_for_backend_def gate_open_def Let_def split: if_splits option.splits)
  ultimately show ?thesis by (simp add: gated_def)
qed

abbreviation looked_at ::
  "ram_backend_pool \<Rightarrow> model_route \<Rightarrow> backend_exclusions \<Rightarrow> instant \<Rightarrow> i64 list \<Rightarrow> ram_backend_pool \<Rightarrow> bool" where
  "looked_at p route e now ids q \<equiv> \<forall>b \<in> set ids. eligible p route e now b \<longrightarrow> gated now q b"

section \<open>Policies, characterised\<close>

lemmas settled_stable = settled_eligible settled_candidate_of settled_load_score

lemma fold_candidates:
  "\<exists>q. foldl (\<lambda>(p, n) b. case candidate_for_backend p route b e now of
              (p1, None) \<Rightarrow> (p1, n) | (p1, Some _) \<Rightarrow> (p1, g n b)) (p, n) ids
      = (q, foldl g n (filter (eligible p route e now) ids))
     \<and> settled now p q \<and> bp_rr_counters q = bp_rr_counters p \<and> looked_at p route e now ids q"
proof (induction ids arbitrary: p n)
  case (Cons b ids)
  obtain p1 where p1: "settled now p p1" "bp_rr_counters p1 = bp_rr_counters p"
    "candidate_for_backend p route b e now =
       (p1, if eligible p route e now b then Some (candidate_of p route now b) else None)"
    by (rule candidate_step)
  from Cons.IH [of p1 "if eligible p route e now b then g n b else n"] p1 candidate_gated [OF p1(3)]
  show ?case by (auto simp: settled_stable intro: settled_trans settled_gated)
qed simp

lemma rr_count_spec:
  "\<exists>q. rr_count p route e now ids = (q, length (filter (eligible p route e now) ids))
     \<and> settled now p q \<and> bp_rr_counters q = bp_rr_counters p \<and> looked_at p route e now ids q"
proof -
  have len: "foldl (\<lambda>n b. n + 1) k xs = k + length xs" for k :: nat and xs :: "i64 list"
    by (induction xs arbitrary: k) auto
  show ?thesis
    using fold_candidates [where g = "\<lambda>n b. n + 1" and p = p and n = "0 :: nat" and ids = ids and route = route
        and e = e and now = now]
    unfolding rr_count_def len by (simp only: add_0)
qed

lemma rr_pick_spec:
  assumes "seen \<le> k"
  shows "\<exists>q. rr_pick p route e now seen k ids =
     (q, let el = filter (eligible p route e now) ids
         in if k - seen < length el then Some (candidate_of p route now (el ! (k - seen))) else None)
     \<and> settled now p q \<and> bp_rr_counters q = bp_rr_counters p"
  using assms
proof (induction ids arbitrary: p seen)
  case (Cons b ids)
  obtain p1 where p1: "settled now p p1" "bp_rr_counters p1 = bp_rr_counters p"
    "candidate_for_backend p route b e now =
       (p1, if eligible p route e now b then Some (candidate_of p route now b) else None)"
    by (rule candidate_step)
  show ?case
  proof (cases "eligible p route e now b \<and> seen = k")
    case True
    with p1 show ?thesis by (simp add: Let_def)
  next
    case False
    show ?thesis
    proof (cases "eligible p route e now b")
      case True
      with False Cons.prems have k: "Suc seen \<le> k" "k - seen = Suc (k - Suc seen)" by auto
      from Cons.IH [OF k(1), of p1] p1 True False k(2) show ?thesis
        by (auto simp: settled_stable Let_def intro: settled_trans)
    next
      case f: False
      from Cons.IH [OF Cons.prems, of p1] p1 f show ?thesis
        by (auto simp: settled_stable Let_def intro: settled_trans)
    qed
  qed
qed (simp add: Let_def)

lemma counter_frame:
  assumes "next_persistent_counter p db m = (q, db', r)"
  shows "settled now p q"
proof -
  have "bp_states q = bp_states p \<and> bp_counter_pool q = bp_counter_pool p
      \<and> bp_counter_block_size q = bp_counter_block_size p \<and> bp_open_duration q = bp_open_duration p"
    using assms by (auto simp: next_persistent_counter_def Let_def split: if_splits prod.splits sum.splits)
  then show ?thesis by (simp add: settled_def settled_state_def option.rel_refl)
qed

text \<open>Round robin picks the eligible backend whose position is the counter modulo their number.\<close>

lemma choose_round_robin_spec:
  assumes "choose_round_robin_candidate p db route ids e now = (q, db', r)"
  defines "el \<equiv> filter (eligible p route e now) ids"
  shows "settled now p q \<and> looked_at p route e now ids q
    \<and> (if el = [] then r = Inr None \<and> db' = db
       else \<exists>p1 p2 r1. bp_rr_counters p1 = bp_rr_counters p \<and> settled now p p1
          \<and> next_persistent_counter p1 db (rt_model_name route) = (p2, db', r1)
          \<and> bp_rr_counters q = bp_rr_counters p2
          \<and> (case r1 of Inl x \<Rightarrow> r = Inl x
             | Inr n \<Rightarrow> r = Inr (Some (candidate_of p route now (el ! (unat n mod length el))))))"
proof -
  obtain p1 where c: "rr_count p route e now ids = (p1, length el)" "settled now p p1"
      "bp_rr_counters p1 = bp_rr_counters p" and lk: "looked_at p route e now ids p1"
    using rr_count_spec [of p route e now ids] by (auto simp: el_def)
  show ?thesis
  proof (cases "el = []")
    case True
    with assms(1) c lk show ?thesis by (auto simp: choose_round_robin_candidate_def)
  next
    case False
    obtain p2 db2 r1 where n: "next_persistent_counter p1 db (rt_model_name route) = (p2, db2, r1)"
      by (metis prod_cases3)
    have s2: "settled now p p2" using c(2) counter_frame [OF n] by (rule settled_trans)
    have lk2: "looked_at p route e now ids p2" using lk settled_gated [OF counter_frame [OF n]] by blast
    show ?thesis
    proof (cases r1)
      case (Inl x)
      with assms c n s2 lk2 False show ?thesis by (auto simp: choose_round_robin_candidate_def)
    next
      case (Inr m)
      let ?k = "unat m mod length el"
      have lt: "?k < length el" using False by simp
      have "filter (eligible p2 route e now) ids = el" by (simp add: el_def settled_eligible [OF s2] cong: filter_cong)
      then obtain p3 where p3: "rr_pick p2 route e now 0 ?k ids = (p3, Some (candidate_of p2 route now (el ! ?k)))"
          "settled now p2 p3" "bp_rr_counters p3 = bp_rr_counters p2"
        using rr_pick_spec [of 0 ?k p2 route e now ids] lt by (auto simp: Let_def)
      have "q = p3" "db' = db2" "r = Inr (Some (candidate_of p route now (el ! ?k)))"
        using assms(1) c n Inr False p3 by (auto simp: choose_round_robin_candidate_def Let_def settled_candidate_of [OF s2])
      with c n s2 p3 Inr False lk2 show ?thesis by (auto intro: settled_trans settled_gated)
    qed
  qed
qed

text \<open>The weighted policy reads the counter in a list where each eligible backend has as many slots as its weight.\<close>

definition slot_weight :: "model_route \<Rightarrow> i64 \<Rightarrow> nat" where
  "slot_weight route b = unat (max (endpoint_weight route b) 1)"

definition slots :: "model_route \<Rightarrow> i64 list \<Rightarrow> i64 list" where
  "slots route el = concat (map (\<lambda>b. replicate (slot_weight route b) b) el)"

lemma slot_weight_pos: "slot_weight route b > 0"
  by (simp add: slot_weight_def max_def word_le_nat_alt not_le)

lemma unat_ucast_weight: "unat (ucast (max (endpoint_weight route b) 1) :: u64) = slot_weight route b"
proof -
  have "unat (max (endpoint_weight route b) 1) < 2 ^ 64"
    using unsigned_less [of "max (endpoint_weight route b) 1", where ?'a = nat] by simp
  then show ?thesis by (simp add: slot_weight_def unsigned_ucast_eq take_bit_nat_eq_self)
qed

lemma wrr_total_spec:
  "\<exists>q n. wrr_total p route e now ids = (q, n)
     \<and> unat n = min (length (slots route (filter (eligible p route e now) ids))) (2 ^ 64 - 1)
     \<and> settled now p q \<and> bp_rr_counters q = bp_rr_counters p \<and> looked_at p route e now ids q"
proof -
  let ?g = "\<lambda>n b. sat_add n (ucast (max (endpoint_weight route b) 1)) :: u64"
  have "unat (foldl ?g n xs) = min (unat n + length (slots route xs)) (2 ^ 64 - 1)" for n xs
  proof (induction xs arbitrary: n)
    case Nil
    show ?case using unsigned_less [of n, where ?'a = nat] by (simp add: slots_def)
  next
    case (Cons x xs)
    have "unat (?g n x) = min (unat n + slot_weight route x) (2 ^ 64 - 1)"
      by (simp add: unat_sat_add unat_ucast_weight)
    with Cons.IH [of "?g n x"] show ?case by (simp add: slots_def)
  qed
  from this [of 0] fold_candidates [where g = ?g and p = p and n = 0 and ids = ids and route = route and e = e and now = now]
  show ?thesis by (auto simp: wrr_total_def)
qed

lemma wrr_pick_spec:
  assumes "unat slot < length (slots route (filter (eligible p route e now) ids))"
  shows "\<exists>q. wrr_pick p route e now slot ids =
     (q, Some (candidate_of p route now (slots route (filter (eligible p route e now) ids) ! unat slot)))
     \<and> settled now p q \<and> bp_rr_counters q = bp_rr_counters p"
  using assms
proof (induction ids arbitrary: p slot)
  case (Cons b ids)
  obtain p1 where p1: "settled now p p1" "bp_rr_counters p1 = bp_rr_counters p"
    "candidate_for_backend p route b e now =
       (p1, if eligible p route e now b then Some (candidate_of p route now b) else None)"
    by (rule candidate_step)
  have el: "filter (eligible p1 route e now) ids = filter (eligible p route e now) ids"
    by (simp add: settled_eligible [OF p1(1)] cong: filter_cong)
  let ?w = "ucast (max (endpoint_weight route b) 1) :: u64"
  show ?case
  proof (cases "eligible p route e now b")
    case False
    with Cons.IH [of slot p1] Cons.prems p1 el show ?thesis
      by (auto simp: settled_candidate_of intro: settled_trans)
  next
    case True
    show ?thesis
    proof (cases "slot < ?w")
      case lt: True
      then have "unat slot < slot_weight route b" by (simp add: word_less_nat_alt unat_ucast_weight)
      with True lt p1 show ?thesis by (simp add: slots_def nth_append Let_def)
    next
      case ge: False
      then have w: "slot_weight route b \<le> unat slot" "unat (slot - ?w) = unat slot - slot_weight route b"
        by (auto simp: not_less word_le_nat_alt unat_ucast_weight unat_sub)
      have "unat (slot - ?w) < length (slots route (filter (eligible p1 route e now) ids))"
        using Cons.prems True w by (simp add: el slots_def)
      from Cons.IH [OF this] p1 True ge w el show ?thesis
        by (auto simp: slots_def nth_append Let_def settled_candidate_of intro: settled_trans)
    qed
  qed
qed (simp add: slots_def)

lemma slots_Nil_iff [simp]: "slots route el = [] \<longleftrightarrow> el = []"
  using slot_weight_pos by (cases el) (auto simp: slots_def)

lemma set_slots: "set (slots route el) = set el"
  using slot_weight_pos by (auto simp: slots_def)

lemma choose_weighted_spec:
  assumes "choose_weighted_round_robin_candidate p db route ids e now = (q, db', r)"
  defines "sl \<equiv> slots route (filter (eligible p route e now) ids)"
  shows "settled now p q \<and> looked_at p route e now ids q
    \<and> (if sl = [] then r = Inr None \<and> db' = db
       else \<exists>p1 p2 r1. bp_rr_counters p1 = bp_rr_counters p \<and> settled now p p1
          \<and> next_persistent_counter p1 db (rt_model_name route) = (p2, db', r1)
          \<and> bp_rr_counters q = bp_rr_counters p2
          \<and> (case r1 of Inl x \<Rightarrow> r = Inl x
             | Inr n \<Rightarrow> r = Inr (Some (candidate_of p route now (sl ! (unat n mod min (length sl) (2 ^ 64 - 1)))))))"
proof -
  obtain p1 t where c: "wrr_total p route e now ids = (p1, t)" "unat t = min (length sl) (2 ^ 64 - 1)"
      "settled now p p1" "bp_rr_counters p1 = bp_rr_counters p" and lk: "looked_at p route e now ids p1"
    using wrr_total_spec [of p route e now ids] by (auto simp: sl_def)
  have t0: "t = 0 \<longleftrightarrow> sl = []" using c(2) by (auto simp: min_def unat_eq_0 split: if_splits simp flip: unat_eq_0)
  show ?thesis
  proof (cases "sl = []")
    case True
    with assms(1) c(1,3) t0 lk show ?thesis by (auto simp: choose_weighted_round_robin_candidate_def)
  next
    case False
    obtain p2 db2 r1 where n: "next_persistent_counter p1 db (rt_model_name route) = (p2, db2, r1)"
      by (metis prod_cases3)
    have s2: "settled now p p2" using c(3) counter_frame [OF n] by (rule settled_trans)
    have lk2: "looked_at p route e now ids p2" using lk settled_gated [OF counter_frame [OF n]] by blast
    show ?thesis
    proof (cases r1)
      case (Inl x)
      with assms c n s2 lk2 False t0 show ?thesis by (auto simp: choose_weighted_round_robin_candidate_def)
    next
      case (Inr m)
      let ?k = "unat m mod min (length sl) (2 ^ 64 - 1)"
      have k: "unat (m mod t) = ?k" by (simp add: unat_mod c(2))
      have "0 < min (length sl) (2 ^ 64 - 1)" using False by simp
      then have "?k < min (length sl) (2 ^ 64 - 1)" by (rule mod_less_divisor)
      then have lt: "unat (m mod t) < length sl" by (simp add: k)
      have el: "filter (eligible p2 route e now) ids = filter (eligible p route e now) ids"
        by (simp add: settled_eligible [OF s2] cong: filter_cong)
      obtain p3 where p3: "wrr_pick p2 route e now (m mod t) ids = (p3, Some (candidate_of p2 route now (sl ! ?k)))"
          "settled now p2 p3" "bp_rr_counters p3 = bp_rr_counters p2"
        using wrr_pick_spec [of "m mod t" route p2 e now ids] lt by (auto simp: el sl_def [symmetric] k)
      have "q = p3" "db' = db2" "r = Inr (Some (candidate_of p route now (sl ! ?k)))"
        using assms(1) c n Inr False t0 p3
        by (auto simp: choose_weighted_round_robin_candidate_def Let_def settled_candidate_of [OF s2])
      with c n s2 p3 Inr False lk2 show ?thesis by (auto intro: settled_trans settled_gated)
    qed
  qed
qed

text \<open>The least-loaded scan keeps a candidate whose score no later or earlier one undercuts.\<close>

lemma ll_scan_spec:
  assumes "case best of None \<Rightarrow> True | Some c \<Rightarrow> \<exists>b. c = candidate_of p route now b \<and> b \<in> B \<and> eligible p route e now b
             \<and> (\<forall>b' \<in> B. eligible p route e now b' \<longrightarrow> load_score p route b \<le> load_score p route b')"
    and "best = None \<Longrightarrow> \<forall>b' \<in> B. \<not> eligible p route e now b'"
  shows "\<exists>q r. ll_scan p route e now rnd best ties ids = (q, r) \<and> settled now p q \<and> looked_at p route e now ids q
    \<and> (case r of None \<Rightarrow> \<forall>b' \<in> B \<union> set ids. \<not> eligible p route e now b'
       | Some c \<Rightarrow> \<exists>b \<in> B \<union> set ids. c = candidate_of p route now b \<and> eligible p route e now b
           \<and> (\<forall>b' \<in> B \<union> set ids. eligible p route e now b' \<longrightarrow> load_score p route b \<le> load_score p route b'))"
  using assms
proof (induction ids arbitrary: p best ties B)
  case Nil
  then show ?case by (auto split: option.splits)
next
  case (Cons b ids)
  obtain p1 where p1: "settled now p p1"
    "candidate_for_backend p route b e now =
       (p1, if eligible p route e now b then Some (candidate_of p route now b) else None)"
    by (rule candidate_step)
  note st = settled_stable [OF p1(1)]
  let ?best = "if eligible p route e now b then (case best of None \<Rightarrow> Some (candidate_of p route now b)
      | Some c \<Rightarrow> if load_score p route b < cd_score c then Some (candidate_of p route now b)
          else if load_score p route b = cd_score c \<and> rnd b (ties + 1) = 0 then Some (candidate_of p route now b)
          else best) else best"
  have run: "\<exists>ties'. ll_scan p route e now rnd best ties (b # ids) = ll_scan p1 route e now rnd ?best ties' ids"
    using p1(2) by (auto split: option.splits)
  then obtain ties' where run': "ll_scan p route e now rnd best ties (b # ids) = ll_scan p1 route e now rnd ?best ties' ids" ..
  have inv: "case ?best of None \<Rightarrow> True | Some c \<Rightarrow> \<exists>b0. c = candidate_of p route now b0 \<and> b0 \<in> insert b B \<and> eligible p route e now b0
             \<and> (\<forall>b' \<in> insert b B. eligible p route e now b' \<longrightarrow> load_score p route b0 \<le> load_score p route b')"
  proof (cases best)
    case None
    with Cons.prems show ?thesis by auto
  next
    case (Some c)
    with Cons.prems obtain ba where ba: "c = candidate_of p route now ba" "ba \<in> B" "eligible p route e now ba"
      "\<And>b'. b' \<in> B \<Longrightarrow> eligible p route e now b' \<Longrightarrow> load_score p route ba \<le> load_score p route b'" by auto
    show ?thesis
    proof (cases "eligible p route e now b \<and> load_score p route b \<le> load_score p route ba
        \<and> ?best = Some (candidate_of p route now b)")
      case True
      with ba(4) have "\<forall>b' \<in> insert b B. eligible p route e now b' \<longrightarrow> load_score p route b \<le> load_score p route b'"
        by (auto intro: order_trans)
      with True show ?thesis by (intro option.case_eq_if [THEN iffD2]) auto
    next
      case False
      then have "?best = Some c" and "eligible p route e now b \<longrightarrow> load_score p route ba \<le> load_score p route b"
        using Some ba(1) by (auto split: if_splits)
      with ba show ?thesis by (auto intro!: exI [of _ ba])
    qed
  qed
  have none: "?best = None \<Longrightarrow> \<forall>b' \<in> insert b B. \<not> eligible p route e now b'"
    using Cons.prems by (cases best) (auto split: if_splits)
  from Cons.IH [where best = ?best and p = p1 and B = "insert b B" and ties = ties'] inv none
  obtain q r where "ll_scan p1 route e now rnd ?best ties' ids = (q, r)" "settled now p1 q" "looked_at p route e now ids q"
    "case r of None \<Rightarrow> \<forall>b' \<in> insert b B \<union> set ids. \<not> eligible p route e now b'
       | Some c \<Rightarrow> \<exists>b0 \<in> insert b B \<union> set ids. c = candidate_of p route now b0 \<and> eligible p route e now b0
           \<and> (\<forall>b' \<in> insert b B \<union> set ids. eligible p route e now b' \<longrightarrow> load_score p route b0 \<le> load_score p route b')"
    unfolding st by blast
  with run' settled_trans [OF p1(1)] candidate_gated [OF p1(2)] settled_gated show ?case by (auto split: option.splits)
qed

section \<open>Fairness and balance\<close>

lemma counter_result_cong:
  assumes "bp_rr_counters p = bp_rr_counters q" and "settled now p q"
  shows "snd (snd (next_persistent_counter p db m)) = snd (snd (next_persistent_counter q db m))"
  using assms by (simp add: next_persistent_counter_def Let_def settled_def split: prod.splits sum.splits)

definition picked :: "ram_backend_pool \<times> counter_db \<times> (acquire_error + candidate option) \<Rightarrow> i64 option" where
  "picked r = (case snd (snd r) of Inl _ \<Rightarrow> None | Inr c \<Rightarrow> map_option cd_backend_id c)"

lemma picked_round_robin:
  assumes "snd (snd (next_persistent_counter p db (rt_model_name route))) = Inr c"
    and "filter (eligible p route e now) ids = el" and "el \<noteq> []"
  shows "picked (choose_round_robin_candidate p db route ids e now) = Some (el ! (unat c mod length el))"
proof -
  obtain q db' r where ch: "choose_round_robin_candidate p db route ids e now = (q, db', r)" by (metis prod_cases3)
  from choose_round_robin_spec [OF ch, unfolded assms(2)] assms(3)
  obtain p1 p2 r1 where "bp_rr_counters p1 = bp_rr_counters p" "settled now p p1"
    "next_persistent_counter p1 db (rt_model_name route) = (p2, db', r1)"
    "case r1 of Inl x \<Rightarrow> r = Inl x | Inr n \<Rightarrow> r = Inr (Some (candidate_of p route now (el ! (unat n mod length el))))"
    by auto
  moreover from this(1-3) assms(1) counter_result_cong [of p p1 now db] have "r1 = Inr c" by simp
  ultimately show ?thesis by (simp add: ch picked_def)
qed

lemma picked_weighted:
  assumes "snd (snd (next_persistent_counter p db (rt_model_name route))) = Inr c"
    and "filter (eligible p route e now) ids = el" and "el \<noteq> []" and "length (slots route el) < 2 ^ 64"
  shows "picked (choose_weighted_round_robin_candidate p db route ids e now) =
    Some (slots route el ! (unat c mod length (slots route el)))"
proof -
  obtain q db' r where ch: "choose_weighted_round_robin_candidate p db route ids e now = (q, db', r)" by (metis prod_cases3)
  have len: "min (length (slots route el)) (2 ^ 64 - 1) = length (slots route el)" using assms(4) by simp
  from choose_weighted_spec [OF ch, unfolded assms(2) len] assms(3)
  obtain p1 p2 r1 where "bp_rr_counters p1 = bp_rr_counters p" "settled now p p1"
    "next_persistent_counter p1 db (rt_model_name route) = (p2, db', r1)"
    "case r1 of Inl x \<Rightarrow> r = Inl x
     | Inr n \<Rightarrow> r = Inr (Some (candidate_of p route now (slots route el ! (unat n mod length (slots route el)))))"
    by auto
  moreover from this(1-3) assms(1) counter_result_cong [of p p1 now db] have "r1 = Inr c" by simp
  ultimately show ?thesis by (simp add: ch picked_def)
qed

lemma mset_cycle: "mset (map (\<lambda>i. xs ! ((n + i) mod length xs)) [0..<length xs]) = mset xs"
proof -
  have "map (\<lambda>i. xs ! ((n + i) mod length xs)) [0..<length xs] = rotate n xs"
    by (rule nth_equalityI) (simp_all add: nth_rotate add.commute)
  also have "mset \<dots> = mset xs" by (metis rotate_drop_take mset_append union_commute append_take_drop_id)
  finally show ?thesis .
qed

lemma mset_cycle_run:
  assumes "length ys = length xs" and "\<forall>i < length xs. ys ! i = f (xs ! ((n + i) mod length xs))"
  shows "mset ys = mset (map f xs)"
proof -
  have "ys = map (\<lambda>i. f (xs ! ((n + i) mod length xs))) [0..<length xs]"
    using assms by (intro nth_equalityI) auto
  also have "\<dots> = map f (map (\<lambda>i. xs ! ((n + i) mod length xs)) [0..<length xs])" by simp
  finally show ?thesis using mset_cycle [of xs n] by (metis mset_map)
qed

text \<open>The calls of a window: each sees the same eligible backends, and they draw consecutive counter values.\<close>

definition rr_window ::
  "model_route \<Rightarrow> backend_exclusions \<Rightarrow> i64 list \<Rightarrow> i64 list \<Rightarrow> nat
   \<Rightarrow> (ram_backend_pool \<times> counter_db \<times> instant) list \<Rightarrow> bool" where
  "rr_window route e ids el n calls \<longleftrightarrow> n + length calls < 2 ^ 64
     \<and> (\<forall>i < length calls. case calls ! i of (p, db, now) \<Rightarrow> filter (eligible p route e now) ids = el
          \<and> snd (snd (next_persistent_counter p db (rt_model_name route))) = Inr (word_of_nat (n + i)))"

lemma unat_of_nat_window: "n + i < 2 ^ 64 \<Longrightarrow> unat (word_of_nat (n + i) :: u64) = n + i"
  by (simp add: unat_of_nat del: of_nat_add)

text \<open>
  Round robin is fair: as many calls as there are eligible backends, drawing consecutive counter
  values from any starting point, pick every eligible backend exactly once.
\<close>

theorem round_robin_fair:
  assumes "rr_window route e ids el n calls" and "length calls = length el"
  shows "mset (map (\<lambda>(p, db, now). picked (choose_round_robin_candidate p db route ids e now)) calls) = mset (map Some el)"
proof (rule mset_cycle_run)
  show "\<forall>i < length el. map (\<lambda>(p, db, now). picked (choose_round_robin_candidate p db route ids e now)) calls ! i
      = Some (el ! ((n + i) mod length el))"
  proof (intro allI impI)
    fix i assume i: "i < length el"
    obtain p db now where c: "calls ! i = (p, db, now)" by (metis prod_cases3)
    have "picked (choose_round_robin_candidate p db route ids e now)
        = Some (el ! (unat (word_of_nat (n + i) :: u64) mod length el))"
      using assms c i by (intro picked_round_robin) (auto simp: rr_window_def)
    then show "map (\<lambda>(p, db, now). picked (choose_round_robin_candidate p db route ids e now)) calls ! i
        = Some (el ! ((n + i) mod length el))"
      using assms c i by (simp add: rr_window_def unat_of_nat_window del: of_nat_add)
  qed
qed (use assms in simp)

text \<open>
  Weighted round robin is exact: as many calls as the sum of the eligible backends' weights, drawing
  consecutive counter values, pick every eligible backend exactly as often as its weight.
\<close>

theorem weighted_round_robin_exact:
  assumes "rr_window route e ids el n calls" and "length calls = length (slots route el)"
    and "distinct el" and "b \<in> set el"
  shows "count (mset (map (\<lambda>(p, db, now). picked (choose_weighted_round_robin_candidate p db route ids e now)) calls)) (Some b)
    = slot_weight route b"
proof -
  let ?sl = "slots route el" and ?f = "\<lambda>(p, db, now). picked (choose_weighted_round_robin_candidate p db route ids e now)"
  have "mset (map ?f calls) = mset (map Some ?sl)"
  proof (rule mset_cycle_run)
    show "\<forall>i < length ?sl. map ?f calls ! i = Some (?sl ! ((n + i) mod length ?sl))"
    proof (intro allI impI)
      fix i assume i: "i < length ?sl"
      obtain p db now where c: "calls ! i = (p, db, now)" by (metis prod_cases3)
      have "?f (p, db, now) = Some (?sl ! (unat (word_of_nat (n + i) :: u64) mod length ?sl))"
        using assms(1,2,4) c i by (simp, intro picked_weighted) (auto simp: rr_window_def)
      then show "map ?f calls ! i = Some (?sl ! ((n + i) mod length ?sl))"
        using assms(1,2) c i by (simp add: rr_window_def unat_of_nat_window del: of_nat_add)
    qed
  qed (use assms in simp)
  moreover have "count (mset (map Some ?sl)) (Some b) = slot_weight route b"
    using assms(3,4) unfolding slots_def
    by (induction el) (auto simp: count_eq_zero_iff)
  ultimately show ?thesis by simp
qed

text \<open>
  A pool with two backends of weights 1 and 2, the counter block at \<open>n\<close>, for the witnesses below.
\<close>

definition demo_state :: "u32 \<Rightarrow> u32 \<Rightarrow> backend_state" where
  "demo_state w infl = \<lparr>bs_inflight = infl, bs_consecutive_failures = 0, bs_circuit = CIRCUIT_CLOSED,
     bs_half_open_probe = True, bs_opened_until = None, bs_weight = w, bs_max_inflight = 0,
     bs_enabled = True, bs_base_url = None\<rparr>"

definition demo_pool :: "u64 \<Rightarrow> ram_backend_pool" where
  "demo_pool n = \<lparr>bp_states = [(1, demo_state 1 0), (2, demo_state 1 3)],
     bp_rr_counters = [(''m'', \<lparr>cb_next = n, cb_end = 100\<rparr>)], bp_counter_pool = True,
     bp_counter_block_size = 10, bp_open_duration = 30000\<rparr>"

definition demo_db :: counter_db where
  "demo_db = \<lparr>db_counters = [(''m'', 100)], db_error = None\<rparr>"

definition demo_endpoint :: "u32 \<Rightarrow> model_endpoint" where
  "demo_endpoint w = \<lparr>ep_backend_id = 2, ep_provider_model_name = [], ep_provider_key_ref = None,
     ep_auth_mode = [], ep_protocol = [], ep_weight = w, ep_max_inflight = 0, ep_enabled = True,
     ep_provider_key = None\<rparr>"

definition demo_route :: "routing_policy \<Rightarrow> model_route" where
  "demo_route pol = \<lparr>rt_model_name = ''m'', rt_backend_ids = [1, 2], rt_fallback_backend_id = None,
     rt_chars_per_token = Fin 4, rt_first_byte_timeout = 1000, rt_provider_model_name = ''m'',
     rt_context_tokens = None, rt_max_output_tokens = None, rt_price_input_per_mtok_usd = None,
     rt_price_output_per_mtok_usd = None, rt_enabled = True, rt_provider_key_ref = None, rt_auth_mode = [],
     rt_protocol = [], rt_provider_key = None, rt_routing_policy = pol, rt_accept_anthropic_messages = False,
     rt_endpoints = [(2, demo_endpoint 2)]\<rparr>"

lemmas demo_defs = demo_state_def demo_pool_def demo_db_def demo_endpoint_def demo_route_def

lemma demo_eligible:
  "eligible (demo_pool n) (demo_route pol) exclusions_default now 1"
  "eligible (demo_pool n) (demo_route pol) exclusions_default now 2"
  by (simp_all add: eligible_def excl.has_none endpoint_enabled_def gate_open_def has_slot_def effective_max_def
      endpoint_max_inflight_def circuit_gate_def demo_defs)

lemma demo_counter:
  "n < 100 \<Longrightarrow> snd (snd (next_persistent_counter (demo_pool n) demo_db (rt_model_name (demo_route pol)))) = Inr n"
  by (simp add: next_persistent_counter_def hm_entry_or_def Let_def demo_defs)

theorem round_robin_fair_witness:
  "mset (map (\<lambda>(p, db, now). picked (choose_round_robin_candidate p db (demo_route RoundRobin) [1, 2] exclusions_default now))
      [(demo_pool 7, demo_db, 0), (demo_pool 8, demo_db, 5)]) = mset [Some 1, Some 2]"
proof -
  have "rr_window (demo_route RoundRobin) exclusions_default [1, 2] [1, 2] 7
      [(demo_pool 7, demo_db, 0), (demo_pool 8, demo_db, 5)]"
    by (auto simp: rr_window_def less_Suc_eq demo_eligible demo_counter)
  from round_robin_fair [OF this] show ?thesis by simp
qed

theorem weighted_round_robin_exact_witness:
  "count (mset (map (\<lambda>(p, db, now). picked (choose_weighted_round_robin_candidate p db (demo_route WeightedRoundRobin)
      [1, 2] exclusions_default now)) [(demo_pool 7, demo_db, 0), (demo_pool 8, demo_db, 1), (demo_pool 9, demo_db, 2)])) (Some 2) = 2"
proof -
  have win: "rr_window (demo_route WeightedRoundRobin) exclusions_default [1, 2] [1, 2] 7
      [(demo_pool 7, demo_db, 0), (demo_pool 8, demo_db, 1), (demo_pool 9, demo_db, 2)]"
    by (auto simp: rr_window_def less_Suc_eq demo_eligible demo_counter)
  have w: "slot_weight (demo_route WeightedRoundRobin) 2 = 2" "slot_weight (demo_route WeightedRoundRobin) 1 = 1"
    by (simp_all add: slot_weight_def endpoint_weight_def demo_defs max_def word_le_nat_alt)
  show ?thesis
    by (subst weighted_round_robin_exact [OF win]) (simp_all add: slots_def w)
qed

text \<open>
  The least-loaded policy returns an eligible backend whose load score, in-flight requests over
  weight in double precision, is minimal among the eligible ones, whatever the random tie breaks; it returns
  nothing exactly when no backend is eligible.
\<close>

theorem least_loaded_minimal:
  "case snd (choose_least_loaded_candidate p route ids e now rnd) of
     None \<Rightarrow> list_all (\<lambda>b. \<not> eligible p route e now b) ids
   | Some c \<Rightarrow> cd_backend_id c \<in> set ids \<and> eligible p route e now (cd_backend_id c)
       \<and> cd_score c = load_score p route (cd_backend_id c)
       \<and> list_all (\<lambda>b. cd_score c \<le> load_score p route b) (filter (eligible p route e now) ids)"
  using ll_scan_spec [where best = None and p = p and B = "{}" and ids = ids and ties = 0 and route = route and e = e and now = now and rnd = rnd]
  by (auto simp: choose_least_loaded_candidate_def list_all_iff split: option.splits)

end
