(* ===== verification/Counter.thy ===== *)
theory Counter
  imports Route
begin

text \<open>
  The persistent round-robin counter of \<open>src/route/mod.rs\<close> (\<open>next_persistent_counter\<close>): several router
  processes draw from blocks they allocate in one PostgreSQL table. No value is drawn twice for a model, and one
  process alone draws consecutive values across its block boundaries.
\<close>

section \<open>The interface\<close>

text \<open>
  A process holds a set of values it may still draw, the table has a level above everything ever
  allocated; a draw takes a value the process held or one it allocates above the level.
\<close>

locale counter_service =
  fixes pending :: "'p \<Rightarrow> 'm \<Rightarrow> nat set" and level :: "'d \<Rightarrow> 'm \<Rightarrow> nat" and healthy :: "'d \<Rightarrow> bool"
    and draw :: "'p \<Rightarrow> 'd \<Rightarrow> 'm \<Rightarrow> 'p \<times> 'd \<times> nat option"
  assumes draw_healthy: "healthy d \<Longrightarrow> draw p d m = (p', d', r) \<Longrightarrow> healthy d'"
    and draw_level: "healthy d \<Longrightarrow> draw p d m = (p', d', r) \<Longrightarrow> level d k \<le> level d' k"
    and draw_pending: "healthy d \<Longrightarrow> draw p d m = (p', d', r) \<Longrightarrow>
      pending p' k \<subseteq> pending p k \<union> {level d k..<level d' k} - {v. k = m \<and> r = Some v}"
    and draw_value: "healthy d \<Longrightarrow> draw p d m = (p', d', Some v) \<Longrightarrow>
      v \<in> pending p m \<or> level d m \<le> v \<and> v < level d' m"
begin

definition unique :: "'p list \<times> 'd \<times> ('m \<times> nat) list \<Rightarrow> bool" where
  "unique = (\<lambda>(ps, d, out). healthy d \<and> distinct out
     \<and> (\<forall>k. (\<forall>p \<in> set ps. pending p k \<subseteq> {..<level d k}) \<and> (\<forall>v. (k, v) \<in> set out \<longrightarrow> v < level d k)
          \<and> (\<forall>i < length ps. \<forall>v. (k, v) \<in> set out \<longrightarrow> v \<notin> pending (ps ! i) k)
          \<and> (\<forall>i < length ps. \<forall>j < length ps. i \<noteq> j \<longrightarrow> pending (ps ! i) k \<inter> pending (ps ! j) k = {})))"

lemma unique_draw:
  assumes u: "unique (ps, d, out)" and i: "i < length ps" and dr: "draw (ps ! i) d m = (p', d', r)"
  shows "unique (ps[i := p'], d', (case r of None \<Rightarrow> out | Some v \<Rightarrow> (m, v) # out))"
proof -
  have h: "healthy d" using u by (simp add: unique_def)
  note P = draw_pending [OF h dr] and L = draw_level [OF h dr] and H = draw_healthy [OF h dr]
  have below: "pending (ps ! j) k \<subseteq> {..<level d k}" if "j < length ps" for j k
    using u that nth_mem by (fastforce simp: unique_def)
  have outlt: "v < level d k" if "(k, v) \<in> set out" for k v using u that by (auto simp: unique_def)
  have outp: "v \<notin> pending (ps ! j) k" if "(k, v) \<in> set out" "j < length ps" for j k v using u that by (auto simp: unique_def)
  have dis: "pending (ps ! j) k \<inter> pending (ps ! l) k = {}" if "j < length ps" "l < length ps" "j \<noteq> l" for j l k
    using u that by (simp add: unique_def)
  have V: "v \<in> pending (ps ! i) m \<or> level d m \<le> v \<and> v < level d' m" if "r = Some v" for v
    using draw_value [OF h] dr that by auto
  let ?out = "case r of None \<Rightarrow> out | Some v \<Rightarrow> (m, v) # out" and ?ps = "ps[i := p']"
  have out': "(k, v) \<in> set ?out \<longleftrightarrow> (k, v) \<in> set out \<or> k = m \<and> r = Some v" for k v by (cases r) auto
  have "distinct ?out"
  proof (cases r)
    case None
    then show ?thesis using u by (simp add: unique_def)
  next
    case (Some v)
    have "(m, v) \<notin> set out" using V [OF Some] outp [of m v i] outlt [of m v] i by auto
    then show ?thesis using u Some by (simp add: unique_def)
  qed
  moreover have "pending p k \<subseteq> {..<level d' k}" if "p \<in> set ?ps" for p k
  proof -
    from that i consider "p = p'" | j where "j < length ps" "p = ps ! j"
      by (metis in_set_conv_nth insertE set_update_subset_insert subsetD)
    then show ?thesis
      by cases (use P [of k] L [of k] below [of i k] i in fastforce, use L [of k] below in fastforce)
  qed
  moreover have "v < level d' k" if "(k, v) \<in> set ?out" for k v
    using that outlt [of k v] L [of k] V [of v] below [OF i, of m] by (auto simp: out')
  moreover have "v \<notin> pending (?ps ! j) k" if "(k, v) \<in> set ?out" "j < length ps" for j k v
  proof (cases "j = i")
    case True
    have "v \<notin> pending p' k" using that(1) P [of k] outp [of k v i] outlt [of k v] i by (auto simp: out')
    with True i show ?thesis by simp
  next
    case False
    have "v \<notin> pending (ps ! j) k"
    proof (cases "(k, v) \<in> set out")
      case True
      then show ?thesis using outp that(2) by blast
    next
      case f: False
      with that(1) have "k = m" "r = Some v" by (auto simp: out')
      with V [of v] dis [OF i that(2), of m] below [OF that(2), of m] False show ?thesis by fastforce
    qed
    with False show ?thesis by simp
  qed
  moreover have "pending (?ps ! j) k \<inter> pending (?ps ! l) k = {}"
    if "j < length ps" "l < length ps" "j \<noteq> l" for j l k
  proof -
    have "pending p' k \<inter> pending (ps ! n) k = {}" if "n < length ps" "n \<noteq> i" for n
      using P [of k] dis [OF that(1) i, of k] below [OF that(1), of k] that by fastforce
    then show ?thesis using that dis [OF that, of k] i by (cases "j = i"; cases "l = i") auto
  qed
  ultimately show ?thesis using H by (auto simp: unique_def)
qed

end

section \<open>The router's counter\<close>

definition block_of :: "ram_backend_pool \<Rightarrow> string \<Rightarrow> counter_block" where
  "block_of p m = unwrap_or counter_block_empty (hm_get (bp_rr_counters p) m)"

definition held :: "ram_backend_pool \<Rightarrow> string \<Rightarrow> nat set" where
  "held p m = {unat (cb_next (block_of p m))..<unat (cb_end (block_of p m))}"

definition table_level :: "counter_db \<Rightarrow> string \<Rightarrow> nat" where
  "table_level db m = nat (unwrap_or 0 (hm_get (db_counters db) m))"

definition table_ok :: "counter_db \<Rightarrow> bool" where
  "table_ok db \<longleftrightarrow> (\<forall>m v. hm_get (db_counters db) m = Some v \<longrightarrow> 0 \<le> v \<and> v \<le> i64_max)"

definition draw_counter :: "ram_backend_pool \<Rightarrow> counter_db \<Rightarrow> string \<Rightarrow> ram_backend_pool \<times> counter_db \<times> nat option" where
  "draw_counter p db m = (case next_persistent_counter p db m of
     (p', db', Inl _) \<Rightarrow> (p', db', None) | (p', db', Inr v) \<Rightarrow> (p', db', Some (unat v)))"

lemma unat_u64_of_i64: "0 \<le> v \<Longrightarrow> v \<le> i64_max \<Longrightarrow> unat (u64_of_i64 v) = nat v"
  by (simp add: u64_of_i64_def unat_of_nat i64_max_def max_def del: of_nat_nat)

lemma allocate_block_cases:
  assumes "table_ok db" and "0 \<le> sz" and "sz \<le> i64_max" and "allocate_block db m sz = (db', r)"
  obtains e where "r = Inl e" "db' = db"
  | "r = Inr (int (table_level db m), int (table_level db m) + sz)" "int (table_level db m) + sz \<le> i64_max"
    "table_ok db'" "table_level db' = (table_level db)(m := table_level db m + nat sz)"
proof (cases "db_error db = None \<and> int (table_level db m) + sz \<le> i64_max")
  case True
  have "0 \<le> unwrap_or 0 (hm_get (db_counters db) m)" using assms(1) by (cases "hm_get (db_counters db) m") (auto simp: table_ok_def)
  then have lv: "int (table_level db m) = unwrap_or 0 (hm_get (db_counters db) m)" by (simp add: table_level_def)
  have nv: "(case hm_get (db_counters db) m of None \<Rightarrow> sz | Some v \<Rightarrow> v + sz) = int (table_level db m) + sz"
    by (auto simp: lv split: option.split)
  have db': "db' = db\<lparr>db_counters := hm_insert m (int (table_level db m) + sz) (db_counters db)\<rparr>"
    and r: "r = Inr (int (table_level db m), int (table_level db m) + sz)"
    using assms(4) True by (auto simp: allocate_block_def nv Let_def)
  have "table_ok db'" using assms(1,2) True by (auto simp: db' table_ok_def)
  moreover have "table_level db' = (table_level db)(m := table_level db m + nat sz)"
    using assms(2) by (auto simp: db' table_level_def fun_eq_iff nat_add_distrib simp del: int_nat_eq)
  ultimately show thesis using that(2) r True by simp
next
  case False
  have "0 \<le> unwrap_or 0 (hm_get (db_counters db) m)" using assms(1) by (cases "hm_get (db_counters db) m") (auto simp: table_ok_def)
  then have nv: "(case hm_get (db_counters db) m of None \<Rightarrow> sz | Some v \<Rightarrow> v + sz) = int (table_level db m) + sz"
    by (auto simp: table_level_def split: option.split)
  show thesis using assms(4) False that(1) by (auto simp: allocate_block_def nv Let_def split: option.splits)
qed

lemma next_counter_cases:
  assumes ok: "table_ok db" and "next_persistent_counter p db m = (p', db', r)"
  obtains (taken) v where "r = Inr v" "db' = db" "unat v = unat (cb_next (block_of p m))"
      "held p m \<noteq> {}" "held p' = (held p)(m := held p m - {unat v})" "cb_end (block_of p' m) = cb_end (block_of p m)"
  | (allocated) v where "r = Inr v" "unat v = table_level db m" "held p m = {}" "table_ok db'"
      "table_level db m < table_level db' m" "\<forall>k. k \<noteq> m \<longrightarrow> table_level db' k = table_level db k"
      "held p' = (held p)(m := {Suc (table_level db m)..<table_level db' m})"
      "unat (cb_end (block_of p' m)) = table_level db' m"
  | (failed) e where "r = Inl e" "held p' = held p" "table_ok db'"
      "\<forall>k. table_level db k \<le> table_level db' k"
proof -
  let ?b = "block_of p m"
  let ?rr = "hm_entry_or m counter_block_empty (bp_rr_counters p)"
  have get: "unwrap_or counter_block_empty (hm_get ?rr k) = block_of p k" for k
    by (auto simp: block_of_def)
  note eq = assms(2) [unfolded next_persistent_counter_def Let_def get]
  have same: "held (p\<lparr>bp_rr_counters := ?rr\<rparr>) = held p"
    by (simp add: held_def block_of_def get [unfolded block_of_def] fun_eq_iff)
  have put: "block_of (p\<lparr>bp_rr_counters := hm_insert m nb ?rr\<rparr>) k = (if k = m then nb else block_of p k)" for nb k
    by (auto simp: block_of_def)
  show thesis
  proof (cases "cb_next ?b < cb_end ?b")
    case True
    have p': "p' = p\<lparr>bp_rr_counters := hm_insert m (?b\<lparr>cb_next := cb_next ?b + 1\<rparr>) ?rr\<rparr>"
      and rd: "db' = db" "r = Inr (cb_next ?b)"
      using eq True by auto
    have "unat (cb_next ?b + 1) = Suc (unat (cb_next ?b))"
      using True unsigned_less [of "cb_end ?b", where ?'a = nat]
      by (subst unat_add_no_overflow) (simp_all add: word_less_nat_alt)
    then show thesis using True rd
      by (intro taken) (auto simp: p' put held_def fun_eq_iff word_less_nat_alt)
  next
    case False
    then have empty: "held p m = {}" by (simp add: held_def word_less_nat_alt)
    show thesis
    proof (cases "bp_counter_pool p")
      case no: False
      then show thesis using eq False ok
        by (intro failed) (auto simp: same)
    next
      case yes: True
      let ?sz = "min (int (unat (bp_counter_block_size p))) i64_max"
      obtain db1 r1 where al: "allocate_block db m ?sz = (db1, r1)" by force
      have sz: "0 \<le> ?sz" "?sz \<le> i64_max" by (auto simp: i64_max_def)
      show thesis
      proof (cases rule: allocate_block_cases [OF ok sz al])
        case (1 e)
        then show thesis using eq False yes al ok
          by (intro failed) (auto simp: same)
      next
        case 2
        let ?l = "table_level db m" and ?s = "u64_of_i64 (int (table_level db m))" and ?f = "u64_of_i64 (int (table_level db m) + ?sz)"
        have u: "unat ?s = ?l" "unat ?f = ?l + nat ?sz"
        proof -
          have "int ?l \<le> i64_max" using 2(2) sz by linarith
          then show "unat ?s = ?l" by (simp add: unat_u64_of_i64)
          have "unat ?f = nat (int ?l + ?sz)" using 2(2) sz(1) by (intro unat_u64_of_i64) linarith+
          also have "\<dots> = ?l + nat ?sz" using sz(1) by (simp only: nat_add_distrib nat_int of_nat_0_le_iff)
          finally show "unat ?f = ?l + nat ?sz" .
        qed
        show thesis
        proof (cases "?s \<ge> ?f")
          case True
          then show thesis using eq False yes al 2
            by (intro failed) (auto simp: same)
        next
          case lt: False
          have p': "p' = p\<lparr>bp_rr_counters := hm_insert m \<lparr>cb_next = ?s + 1, cb_end = ?f\<rparr> ?rr\<rparr>"
            and rd: "db' = db1" "r = Inr ?s"
            using eq False yes al 2(1) lt by auto
          have suc: "unat (?s + 1) = Suc ?l"
            using lt u(1) unsigned_less [of ?f, where ?'a = nat]
            by (subst unat_add_no_overflow) (simp_all add: not_le word_less_nat_alt)
          have "nat ?sz > 0" using lt u by (auto simp: word_le_nat_alt)
          then show thesis using rd u suc 2 empty
            by (intro allocated) (auto simp: p' put held_def fun_eq_iff)
        qed
      qed
    qed
  qed
qed

interpretation rr: counter_service held table_level table_ok draw_counter
proof
  fix db p m p' db' and r :: "nat option" and k
  assume ok: "table_ok db" and dr: "draw_counter p db m = (p', db', r)"
  obtain r1 where nx: "next_persistent_counter p db m = (p', db', r1)"
      and r: "r = (case r1 of Inl _ \<Rightarrow> None | Inr v \<Rightarrow> Some (unat v))"
    using dr by (auto simp: draw_counter_def split: prod.splits sum.splits)
  show "table_ok db'" using ok by (cases rule: next_counter_cases [OF ok nx]) auto
  show "table_level db k \<le> table_level db' k"
    by (cases "k = m"; cases rule: next_counter_cases [OF ok nx]) auto
  show "held p' k \<subseteq> held p k \<union> {table_level db k..<table_level db' k} - {v. k = m \<and> r = Some v}"
    by (cases "k = m"; cases rule: next_counter_cases [OF ok nx]) (auto simp: r)
next
  fix db p m p' db' and v :: nat
  assume ok: "table_ok db" and dr: "draw_counter p db m = (p', db', Some v)"
  obtain w where nx: "next_persistent_counter p db m = (p', db', Inr w)" and v: "v = unat w"
    using dr by (auto simp: draw_counter_def split: prod.splits sum.splits)
  show "v \<in> held p m \<or> table_level db m \<le> v \<and> v < table_level db' m"
    by (cases rule: next_counter_cases [OF ok nx]) (auto simp: v held_def)
qed

text \<open>Any number of processes, drawing for any models in any order, with a database that may fail at times.\<close>

inductive counter_step ::
  "ram_backend_pool list \<times> counter_db \<times> (string \<times> nat) list \<Rightarrow>
   ram_backend_pool list \<times> counter_db \<times> (string \<times> nat) list \<Rightarrow> bool" where
  drawn: "i < length ps \<Longrightarrow> draw_counter (ps ! i) db m = (p', db', Some v) \<Longrightarrow>
    counter_step (ps, db, out) (ps[i := p'], db', (m, v) # out)"
| not_drawn: "i < length ps \<Longrightarrow> draw_counter (ps ! i) db m = (p', db', None) \<Longrightarrow>
    counter_step (ps, db, out) (ps[i := p'], db', out)"
| outage: "counter_step (ps, db, out) (ps, db\<lparr>db_error := err\<rparr>, out)"

definition counter_start :: "ram_backend_pool list \<times> counter_db \<times> (string \<times> nat) list \<Rightarrow> bool" where
  "counter_start = (\<lambda>(ps, db, out). table_ok db \<and> out = [] \<and> (\<forall>p \<in> set ps. bp_rr_counters p = []))"

interpretation rrs: inductive_invariant counter_start counter_step rr.unique
proof
  fix s assume "counter_start s"
  then show "rr.unique s"
    by (cases s) (auto simp: counter_start_def rr.unique_def held_def block_of_def counter_block_empty_def)
next
  fix s t assume inv: "rr.unique s" and "counter_step s t"
  from this(2) inv show "rr.unique t"
  proof cases
    case (drawn i ps db m p' db' v out)
    with inv rr.unique_draw [of ps db out i m p' db' "Some v"] show ?thesis by simp
  next
    case (not_drawn i ps db m p' db' out)
    with inv rr.unique_draw [of ps db out i m p' db' None] show ?thesis by simp
  next
    case (outage ps db out err)
    then show ?thesis using inv by (simp add: rr.unique_def table_ok_def table_level_def)
  qed
qed

text \<open>
  C21. No counter value is ever drawn twice for a model, by any interleaving of any number of router
  processes that share the table, across block refills, failed draws and database outages.
\<close>

theorem counter_values_unique:
  assumes "reach counter_start counter_step (ps, db, out)"
  shows "distinct out"
  using rrs.invar_reachable [OF assms] by (simp add: rr.unique_def)

theorem counter_values_unique_witness:
  "\<exists>ps db. reach counter_start counter_step (ps, db, [(''m'', 2), (''m'', 0)]) \<and> distinct [(''m'', 2 :: nat), (''m'', 0)]"
proof -
  let ?p = "pool_new_with_counter_pool 2 30000" and ?db = "\<lparr>db_counters = [], db_error = None\<rparr>"
  note evals = draw_counter_def next_persistent_counter_def pool_new_with_counter_pool_def allocate_block_def
    u64_of_i64_def hm_entry_or_def counter_block_empty_def i64_max_def Let_def max_def word_le_nat_alt
  obtain p1 db1 where d1: "draw_counter ?p ?db ''m'' = (p1, db1, Some 0)" "db1 = \<lparr>db_counters = [(''m'', 2)], db_error = None\<rparr>"
    by (simp add: evals)
  obtain p2 db2 where d2: "draw_counter ?p db1 ''m'' = (p2, db2, Some 2)"
    by (simp add: d1(2) evals)
  have "reach counter_start counter_step ([?p, ?p], ?db, [])"
    by (rule reach_init) (simp add: counter_start_def table_ok_def pool_new_with_counter_pool_def)
  moreover have "counter_step ([?p, ?p], ?db, []) ([p1, ?p], db1, [(''m'', 0)])"
    using counter_step.drawn [of 0 "[?p, ?p]" ?db "''m''" p1 db1 0 "[]"] d1 by simp
  moreover have "counter_step ([p1, ?p], db1, [(''m'', 0)]) ([p1, p2], db2, [(''m'', 2), (''m'', 0)])"
    using counter_step.drawn [of 1 "[p1, ?p]" db1 "''m''" p2 db2 2 "[(''m'', 0)]"] d2 by simp
  ultimately have r: "reach counter_start counter_step ([p1, p2], db2, [(''m'', 2), (''m'', 0)])" by (meson reach_step)
  from counter_values_unique [OF r] r show ?thesis by blast
qed

section \<open>One process alone\<close>

text \<open>While no other process uses the model's row, its block ends where the table's level is.\<close>

definition synced :: "ram_backend_pool \<Rightarrow> counter_db \<Rightarrow> string \<Rightarrow> bool" where
  "synced p db m \<longleftrightarrow> table_ok db \<and> (held p m = {} \<or> unat (cb_end (block_of p m)) = table_level db m)"

definition next_value :: "ram_backend_pool \<Rightarrow> counter_db \<Rightarrow> string \<Rightarrow> nat" where
  "next_value p db m = (if held p m = {} then table_level db m else unat (cb_next (block_of p m)))"

lemma interval_start: "{a..<e} = {b..<e} \<Longrightarrow> b < e \<Longrightarrow> a = b" for a b e :: nat
  by (cases "a < e") (auto simp: atLeastLessThan_eq_iff)

lemma draw_synced:
  assumes "synced p db m" and "draw_counter p db m = (p', db', Some v)"
  shows "v = next_value p db m" "synced p' db' m" "next_value p' db' m = Suc v"
proof -
  have ok: "table_ok db" using assms(1) by (simp add: synced_def)
  obtain w where nx: "next_persistent_counter p db m = (p', db', Inr w)" and v: "v = unat w"
    using assms(2) by (auto simp: draw_counter_def split: prod.splits sum.splits)
  have "v = next_value p db m \<and> synced p' db' m \<and> next_value p' db' m = Suc v"
    using ok nx
  proof (cases rule: next_counter_cases)
    case (taken u)
    let ?n = "unat (cb_next (block_of p m))" and ?e = "unat (cb_end (block_of p m))"
    have lv: "table_level db m = ?e" and lt: "?n < ?e"
      using assms(1) taken(4) by (auto simp: synced_def held_def)
    have h': "held p' m = {Suc ?n..<?e}" using taken lt by (auto simp: held_def)
    then have "Suc ?n < ?e \<Longrightarrow> unat (cb_next (block_of p' m)) = Suc ?n"
      using taken(6) by (auto simp: held_def intro: interval_start)
    then show ?thesis using taken h' lv lt ok v
      by (cases "Suc ?n < ?e") (auto simp: next_value_def synced_def held_def)
  next
    case (allocated u)
    let ?l = "table_level db m" and ?l' = "table_level db' m"
    have "Suc ?l < ?l' \<Longrightarrow> unat (cb_next (block_of p' m)) = Suc ?l"
      using fun_cong [OF allocated(7), of m] allocated(8) by (auto simp: held_def intro: interval_start)
    then show ?thesis using allocated v
      by (cases "Suc ?l < ?l'") (auto simp: next_value_def synced_def)
  qed simp
  then show "v = next_value p db m" "synced p' db' m" "next_value p' db' m = Suc v" by auto
qed

fun draws :: "ram_backend_pool \<Rightarrow> counter_db \<Rightarrow> string \<Rightarrow> nat \<Rightarrow> nat list option" where
  "draws p db m 0 = Some []"
| "draws p db m (Suc n) = (case draw_counter p db m of
     (p', db', Some v) \<Rightarrow> map_option ((#) v) (draws p' db' m n)
   | (_, _, None) \<Rightarrow> None)"

text \<open>
  A process that is the only one to use a model's counter draws consecutive values, across the
  boundaries of its blocks, starting from what its block has left or, with none left, from the table's level.
\<close>

theorem counter_consecutive:
  assumes "synced p db m" and "draws p db m n = Some vs"
  shows "vs = [next_value p db m..<next_value p db m + n]"
  using assms
proof (induction n arbitrary: p db vs)
  case (Suc n)
  then obtain p' db' v vs' where d: "draw_counter p db m = (p', db', Some v)" "draws p' db' m n = Some vs'" "vs = v # vs'"
    by (auto split: prod.splits option.splits)
  note D = draw_synced [OF Suc.prems(1) d(1)]
  have "vs' = [Suc v..<Suc v + n]" using Suc.IH [OF D(2) d(2)] D(3) by simp
  then show ?case using D(1) d(3) by (simp add: upt_conv_Cons del: upt_Suc)
qed simp

theorem counter_consecutive_witness:
  "draws (pool_new_with_counter_pool 2 30000) \<lparr>db_counters = [(''m'', 10)], db_error = None\<rparr> ''m'' 3 = Some [10, 11, 12]"
proof -
  let ?p = "pool_new_with_counter_pool 2 30000" and ?db = "\<lparr>db_counters = [(''m'', 10)], db_error = None\<rparr>"
  note evals = draw_counter_def next_persistent_counter_def pool_new_with_counter_pool_def allocate_block_def
    u64_of_i64_def hm_entry_or_def counter_block_empty_def i64_max_def Let_def max_def word_le_nat_alt
  have s: "synced ?p ?db ''m''" and n: "next_value ?p ?db ''m'' = 10"
    by (simp_all add: synced_def next_value_def table_ok_def held_def block_of_def table_level_def
        pool_new_with_counter_pool_def counter_block_empty_def i64_max_def)
  obtain vs where vs: "draws ?p ?db ''m'' 3 = Some vs"
    by (simp add: numeral_3_eq_3 evals)
  from counter_consecutive [OF s vs] have "vs = [10, 11, 12]" by (simp add: n upt_rec)
  with vs show ?thesis by (simp only:)
qed

end
