(* ===== verification/Ledger.thy ===== *)
theory Ledger
  imports Budget "HOL-Library.Multiset"
begin

text \<open>
  The usage ledger of \<open>src/ledger/mod.rs\<close>: the two bounded channels of the hot path, the writer task
  that batches events into PostgreSQL and falls back to a JSON-lines file, the replay of that file and the
  seeds read back at start-up. The database and the file system are outside: how each of their operations ends
  is an argument of the step. An insert can also take effect although its reply is lost. The serialisation of
  an event is a parameter. Renaming and removing the fallback file succeed in the model, and an append writes the whole line
  or nothing.
\<close>

section \<open>Rows\<close>

record ledger_row =
  lr_ts :: i64
  lr_request_id :: string
  lr_key_id :: i64
  lr_team_id :: i64
  lr_model :: string
  lr_backend_id :: i64
  lr_status :: i64
  lr_input_tokens :: i64
  lr_output_tokens :: i64
  lr_estimated :: bool
  lr_ttfb_ms :: i64
  lr_total_ms :: i64
  lr_router_overhead_ms :: i64
  lr_completed_at_ms :: i64
  lr_stream :: bool
  lr_client_aborted :: bool
  lr_error_class :: "string option"

definition u64_to_i64 :: "u64 \<Rightarrow> i64" where
  "u64_to_i64 v = (if unat v < 2 ^ 63 then int (unat v) else 2 ^ 63 - 1)"

definition row_of :: "usage_event \<Rightarrow> ledger_row" where
  "row_of ev =
     \<lparr>lr_ts = ev_ts ev, lr_request_id = ev_request_id ev, lr_key_id = ev_key_id ev, lr_team_id = ev_team_id ev,
      lr_model = ev_model ev, lr_backend_id = ev_backend_id ev, lr_status = int (unat (ev_status ev)),
      lr_input_tokens = u64_to_i64 (ev_input_tokens ev), lr_output_tokens = u64_to_i64 (ev_output_tokens ev),
      lr_estimated = ev_estimated ev, lr_ttfb_ms = u64_to_i64 (ev_ttfb_ms ev), lr_total_ms = u64_to_i64 (ev_total_ms ev),
      lr_router_overhead_ms = u64_to_i64 (ev_router_overhead_ms ev),
      lr_completed_at_ms = u64_to_i64 (ev_completed_at_ms ev), lr_stream = ev_stream ev,
      lr_client_aborted = ev_client_aborted ev, lr_error_class = ev_error_class ev\<rparr>"

section \<open>Channels\<close>

record channel =
  ch_queue :: "usage_event list"
  ch_capacity :: nat
  ch_closed :: bool

datatype send_error = SendFull usage_event | SendClosed usage_event

definition try_send :: "channel \<Rightarrow> usage_event \<Rightarrow> channel \<times> (send_error + unit)" where
  "try_send ch ev =
     (if ch_closed ch then (ch, Inl (SendClosed ev))
      else if length (ch_queue ch) \<ge> ch_capacity ch then (ch, Inl (SendFull ev))
      else (ch\<lparr>ch_queue := ch_queue ch @ [ev]\<rparr>, Inr ()))"

record ledger_sink =
  ls_primary :: channel
  ls_overflow :: channel
  ls_dropped :: "usage_event list"

text \<open>\<open>record_drop\<close> counts the event; the list keeps which ones.\<close>

definition record_drop :: "ledger_sink \<Rightarrow> usage_event \<Rightarrow> ledger_sink" where
  "record_drop s ev = s\<lparr>ls_dropped := ls_dropped s @ [ev]\<rparr>"

definition try_overflow :: "ledger_sink \<Rightarrow> usage_event \<Rightarrow> ledger_sink" where
  "try_overflow s ev =
     (case try_send (ls_overflow s) ev of
        (ch, Inr _) \<Rightarrow> s\<lparr>ls_overflow := ch\<rparr>
      | (ch, Inl _) \<Rightarrow> record_drop (s\<lparr>ls_overflow := ch\<rparr>) ev)"

definition try_record :: "ledger_sink \<Rightarrow> usage_event \<Rightarrow> ledger_sink" where
  "try_record s event =
     (case try_send (ls_primary s) event of
        (ch, Inr _) \<Rightarrow> s\<lparr>ls_primary := ch\<rparr>
      | (ch, Inl (SendFull ev)) \<Rightarrow> try_overflow (s\<lparr>ls_primary := ch\<rparr>) ev
      | (ch, Inl (SendClosed ev)) \<Rightarrow> try_overflow (s\<lparr>ls_primary := ch\<rparr>) ev)"

section \<open>The writer\<close>

record codec =
  enc :: "usage_event \<Rightarrow> string"
  dec_event :: "string \<Rightarrow> usage_event option"

record writer =
  wr_batch_size :: usize
  wr_sink :: ledger_sink
  wr_pool :: bool
  wr_batch :: "usage_event list"
  wr_file :: "string list option"
  wr_table :: "ledger_row list"
  wr_overflow_open :: bool
  wr_stopped :: "bool option"

text \<open>Appending one line; on an error the writer's \<open>?\<close> ends the task (\<open>Some False\<close>).\<close>

definition append_fallback :: "codec \<Rightarrow> bool \<Rightarrow> string list option \<Rightarrow> usage_event \<Rightarrow> unit + string list option" where
  "append_fallback cd ok file ev = (if ok then Inr (Some (unwrap_or [] file @ [enc cd ev])) else Inl ())"

definition append_all :: "codec \<Rightarrow> bool \<Rightarrow> string list option \<Rightarrow> usage_event list \<Rightarrow> unit + string list option" where
  "append_all cd ok file evs = fold_res (append_fallback cd ok) file evs"

datatype db_result = DbOk | DbFailed | DbLost

definition insert_batch :: "db_result \<Rightarrow> ledger_row list \<Rightarrow> usage_event list \<Rightarrow> ledger_row list \<times> bool" where
  "insert_batch r table batch =
     (if batch = [] then (table, True)
      else (if r = DbFailed then table else table @ map row_of batch, r = DbOk))"

text \<open>The result says whether the insert went through; a file error on the way is an error too.\<close>

definition flush_batch ::
  "codec \<Rightarrow> db_result \<Rightarrow> bool \<Rightarrow> ledger_row list \<Rightarrow> string list option \<Rightarrow> usage_event list
   \<Rightarrow> ledger_row list \<times> string list option \<times> bool" where
  "flush_batch cd db file_ok table file batch =
     (case insert_batch db table batch of
        (table', True) \<Rightarrow> (table', file, True)
      | (table', False) \<Rightarrow>
          (case append_all cd file_ok file batch of
             Inr file' \<Rightarrow> (table', file', False)
           | Inl _ \<Rightarrow> (table', file, False)))"

text \<open>The lines of the replayed file, each with the result of its database round; stops at the first error.\<close>

fun replay_lines_to_db :: "codec \<Rightarrow> ledger_row list \<Rightarrow> (string \<times> db_result) list \<Rightarrow> ledger_row list \<times> bool" where
  "replay_lines_to_db cd table [] = (table, True)"
| "replay_lines_to_db cd table ((line, db) # rest) =
     (if trim line = [] then replay_lines_to_db cd table rest
      else case dec_event cd line of
        None \<Rightarrow> (table, False)
      | Some ev \<Rightarrow>
          if db = DbFailed then (table, False)
          else if ev_request_id ev \<in> lr_request_id ` set table then replay_lines_to_db cd table rest
          else case insert_batch db table [ev] of
            (table', True) \<Rightarrow> replay_lines_to_db cd table' rest
          | (table', False) \<Rightarrow> (table', False))"

definition replay_fallback ::
  "codec \<Rightarrow> (nat \<Rightarrow> db_result) \<Rightarrow> ledger_row list \<Rightarrow> string list option \<Rightarrow> ledger_row list \<times> string list option" where
  "replay_fallback cd oks table file =
     (case file of
        None \<Rightarrow> (table, None)
      | Some ls \<Rightarrow>
          (case replay_lines_to_db cd table (zip ls (map oks [0..<length ls])) of
             (table', True) \<Rightarrow> (table', None)
           | (table', False) \<Rightarrow> (table', Some ls)))"

record writer_env =
  we_db :: db_result
  we_file_ok :: bool
  we_connect_ok :: bool
  we_replay :: "nat \<Rightarrow> db_result"

definition on_primary :: "codec \<Rightarrow> writer_env \<Rightarrow> writer \<Rightarrow> usage_event \<Rightarrow> writer" where
  "on_primary cd we w ev =
     (if wr_pool w then
        (let batch = wr_batch w @ [ev] in
         if length batch \<ge> wr_batch_size w then
           (case flush_batch cd (we_db we) (we_file_ok we) (wr_table w) (wr_file w) batch of
              (table, file, ok) \<Rightarrow> w\<lparr>wr_table := table, wr_file := file, wr_pool := ok, wr_batch := []\<rparr>)
         else w\<lparr>wr_batch := batch\<rparr>)
      else case append_fallback cd (we_file_ok we) (wr_file w) ev of
        Inr file \<Rightarrow> w\<lparr>wr_file := file\<rparr>
      | Inl _ \<Rightarrow> w\<lparr>wr_stopped := Some False\<rparr>)"

definition flush_remaining :: "codec \<Rightarrow> writer_env \<Rightarrow> writer \<Rightarrow> writer" where
  "flush_remaining cd we w =
     (if wr_batch w = [] then w
      else if wr_pool w then
        (case flush_batch cd (we_db we) (we_file_ok we) (wr_table w) (wr_file w) (wr_batch w) of
           (table, file, _) \<Rightarrow> w\<lparr>wr_table := table, wr_file := file, wr_batch := []\<rparr>)
      else w\<lparr>wr_file := foldl (\<lambda>f ev. case append_fallback cd (we_file_ok we) f ev of Inr f' \<Rightarrow> f' | Inl _ \<Rightarrow> f)
                          (wr_file w) (wr_batch w), wr_batch := []\<rparr>)"

definition tick_flush :: "codec \<Rightarrow> writer_env \<Rightarrow> writer \<Rightarrow> writer" where
  "tick_flush cd we w =
     (if wr_batch w = [] then w
      else if wr_pool w then
        (case flush_batch cd (we_db we) (we_file_ok we) (wr_table w) (wr_file w) (wr_batch w) of
           (table, file, ok) \<Rightarrow> w\<lparr>wr_table := table, wr_file := file, wr_pool := ok, wr_batch := []\<rparr>)
      else case append_all cd (we_file_ok we) (wr_file w) (wr_batch w) of
        Inr file \<Rightarrow> w\<lparr>wr_file := file, wr_batch := []\<rparr>
      | Inl _ \<Rightarrow> w\<lparr>wr_batch := [], wr_stopped := Some False\<rparr>)"

definition on_tick :: "codec \<Rightarrow> writer_env \<Rightarrow> writer \<Rightarrow> writer" where
  "on_tick cd we w =
     (let w1 = tick_flush cd we w in
      if wr_stopped w1 \<noteq> None then w1
      else if \<not> wr_pool w1 \<and> we_connect_ok we then
        (case replay_fallback cd (we_replay we) (wr_table w1) (wr_file w1) of
           (table, file) \<Rightarrow> w1\<lparr>wr_table := table, wr_file := file, wr_pool := True\<rparr>)
      else w1)"

text \<open>
  The steps of the system: the hot path records an event, all senders are dropped, and the branches of the
  writer's \<open>select!\<close>. \<open>outside\<close> says which behaviours of the database and the file system are possible.
\<close>

definition pop :: "channel \<Rightarrow> channel" where
  "pop ch = ch\<lparr>ch_queue := tl (ch_queue ch)\<rparr>"

inductive ledger_step :: "codec \<Rightarrow> (writer_env \<Rightarrow> bool) \<Rightarrow> writer \<times> usage_event list \<Rightarrow> writer \<times> usage_event list \<Rightarrow> bool" for cd outside where
  recorded: "ledger_step cd outside (w, evs) (w\<lparr>wr_sink := try_record (wr_sink w) ev\<rparr>, evs @ [ev])"
| closed: "ledger_step cd outside (w, evs)
    (w\<lparr>wr_sink := (wr_sink w)\<lparr>ls_primary := (ls_primary (wr_sink w))\<lparr>ch_closed := True\<rparr>,
       ls_overflow := (ls_overflow (wr_sink w))\<lparr>ch_closed := True\<rparr>\<rparr>\<rparr>, evs)"
| primary_event: "outside we \<Longrightarrow> wr_stopped w = None \<Longrightarrow> ch_queue (ls_primary (wr_sink w)) = ev # rest \<Longrightarrow>
    ledger_step cd outside (w, evs) (on_primary cd we (w\<lparr>wr_sink := (wr_sink w)\<lparr>ls_primary := pop (ls_primary (wr_sink w))\<rparr>\<rparr>) ev, evs)"
| primary_closed: "outside we \<Longrightarrow> wr_stopped w = None \<Longrightarrow> ch_queue (ls_primary (wr_sink w)) = [] \<Longrightarrow>
    ch_closed (ls_primary (wr_sink w)) \<Longrightarrow>
    ledger_step cd outside (w, evs) ((flush_remaining cd we w)\<lparr>wr_stopped := Some True\<rparr>, evs)"
| overflow_event: "outside we \<Longrightarrow> wr_stopped w = None \<Longrightarrow> wr_overflow_open w \<Longrightarrow> ch_queue (ls_overflow (wr_sink w)) = ev # rest \<Longrightarrow>
    append_fallback cd (we_file_ok we) (wr_file w) ev = Inr file \<Longrightarrow>
    ledger_step cd outside (w, evs) (w\<lparr>wr_sink := (wr_sink w)\<lparr>ls_overflow := pop (ls_overflow (wr_sink w))\<rparr>, wr_file := file\<rparr>, evs)"
| overflow_failed: "outside we \<Longrightarrow> wr_stopped w = None \<Longrightarrow> wr_overflow_open w \<Longrightarrow> ch_queue (ls_overflow (wr_sink w)) = ev # rest \<Longrightarrow>
    append_fallback cd (we_file_ok we) (wr_file w) ev = Inl () \<Longrightarrow>
    ledger_step cd outside (w, evs) (w\<lparr>wr_sink := (wr_sink w)\<lparr>ls_overflow := pop (ls_overflow (wr_sink w))\<rparr>, wr_stopped := Some False\<rparr>, evs)"
| overflow_closed: "wr_stopped w = None \<Longrightarrow> ch_queue (ls_overflow (wr_sink w)) = [] \<Longrightarrow> ch_closed (ls_overflow (wr_sink w)) \<Longrightarrow>
    ledger_step cd outside (w, evs) (w\<lparr>wr_overflow_open := False\<rparr>, evs)"
| ticked: "outside we \<Longrightarrow> wr_stopped w = None \<Longrightarrow> ledger_step cd outside (w, evs) (on_tick cd we w, evs)"

section \<open>No event is lost\<close>

text \<open>
  The books of the ledger: every recorded event is pending (queued, batched or counted as dropped), in the
  file or in the table; nothing pending is elsewhere, nothing is twice in a place.
\<close>

definition books :: "usage_event list \<Rightarrow> usage_event multiset \<Rightarrow> usage_event list \<Rightarrow> usage_event list \<Rightarrow> bool" where
  "books evs P F T \<longleftrightarrow> (\<forall>x. count P x \<le> 1) \<and> distinct F \<and> distinct T
     \<and> set evs = set_mset P \<union> set F \<union> set T \<and> set_mset P \<inter> (set F \<union> set T) = {}"

lemma books_record:
  "books evs P F T \<Longrightarrow> ev \<notin> set evs \<Longrightarrow> books (evs @ [ev]) (add_mset ev P) F T"
  by (auto simp: books_def not_in_iff)

lemma books_split:
  assumes "books evs (P + mset b) F T"
  shows "distinct b" "set_mset P \<inter> set b = {}"
proof -
  have c: "count P x + count (mset b) x \<le> 1" for x using assms by (simp add: books_def)
  then have "count (mset b) x \<le> 1" for x by (meson add_leD2)
  then show "distinct b" by (simp add: distinct_count_atmost_1) (metis One_nat_def count_mset_0_iff le_Suc_eq le_zero_eq)
  show "set_mset P \<inter> set b = {}"
  proof -
    have False if "x \<in># P" "x \<in> set b" for x
      using c [of x] that by (metis add_le_same_cancel1 count_greater_eq_one_iff count_mset_0_iff le_antisym le_trans
          nat_le_iff_add not_one_le_zero set_mset_mset)
    then show ?thesis by blast
  qed
qed

lemma books_count: "books evs (P + Q) F T \<Longrightarrow> count P x \<le> 1"
  by (auto simp: books_def intro: le_trans [OF le_add1])

lemma books_to_file: "books evs (P + mset b) F T \<Longrightarrow> books evs P (F @ b) T"
  using books_split [of evs P b F T] books_count [of evs P "mset b" F T] by (auto simp: books_def)

lemma books_to_table: "books evs (P + mset b) F T \<Longrightarrow> books evs P F (T @ b)"
  using books_split [of evs P b F T] books_count [of evs P "mset b" F T] by (auto simp: books_def)

lemma books_to_both: "books evs (P + mset b) F T \<Longrightarrow> books evs P (F @ b) (T @ b)"
  using books_split [of evs P b F T] books_count [of evs P "mset b" F T] by (auto simp: books_def)

lemma books_replay:
  "books evs P F T \<Longrightarrow> distinct T' \<Longrightarrow> set T \<subseteq> set T' \<Longrightarrow> set T' \<subseteq> set T \<union> set F \<Longrightarrow> books evs P F T'"
  by (auto simp: books_def)

lemma books_replayed: "books evs P F T \<Longrightarrow> set F \<subseteq> set T \<Longrightarrow> books evs P [] T"
  by (auto simp: books_def)

text \<open>The serialisation the file relies on: an event is read back from its line, and no line is blank.\<close>

definition codec_ok :: "codec \<Rightarrow> usage_event list \<Rightarrow> bool" where
  "codec_ok cd evs \<longleftrightarrow> (\<forall>ev\<in>set evs. dec_event cd (enc cd ev) = Some ev \<and> trim (enc cd ev) \<noteq> [])"

definition file_lines :: "codec \<Rightarrow> usage_event list \<Rightarrow> string list option \<Rightarrow> bool" where
  "file_lines cd F file \<longleftrightarrow> (file = None \<and> F = []) \<or> file = Some (map (enc cd) F)"

lemma append_all_ok:
  assumes "file_lines cd F fl"
  shows "\<exists>fl'. append_all cd True fl b = Inr fl' \<and> file_lines cd (F @ b) fl'"
  using assms
proof (induction b arbitrary: F fl)
  case Nil
  then show ?case by (simp add: append_all_def)
next
  case (Cons ev b)
  have "file_lines cd (F @ [ev]) (Some (unwrap_or [] fl @ [enc cd ev]))"
    using Cons.prems by (auto simp: file_lines_def)
  from Cons.IH [OF this] show ?case by (simp add: append_all_def append_fallback_def)
qed

definition pending_events :: "writer \<Rightarrow> usage_event multiset" where
  "pending_events w = mset (ch_queue (ls_primary (wr_sink w))) + mset (ch_queue (ls_overflow (wr_sink w)))
     + mset (ls_dropped (wr_sink w)) + mset (wr_batch w)"

definition ledger_invar :: "codec \<Rightarrow> writer \<times> usage_event list \<Rightarrow> bool" where
  "ledger_invar cd = (\<lambda>(w, evs). distinct (map ev_request_id evs) \<and> codec_ok cd evs \<longrightarrow>
     (\<exists>F T. file_lines cd F (wr_file w) \<and> wr_table w = map row_of T \<and> books evs (pending_events w) F T))"

lemma try_record_pending:
  "mset (ch_queue (ls_primary (try_record s ev))) + mset (ch_queue (ls_overflow (try_record s ev))) + mset (ls_dropped (try_record s ev))
   = add_mset ev (mset (ch_queue (ls_primary s)) + mset (ch_queue (ls_overflow s)) + mset (ls_dropped s))"
  by (simp add: try_record_def try_overflow_def try_send_def record_drop_def)

lemma flush_batch_books:
  assumes "file_lines cd F file" and "table = map row_of T" and "books evs (P + mset b) F T" and "b \<noteq> []"
    and "flush_batch cd db True table file b = (table', file', ok)"
  shows "\<exists>F' T'. file_lines cd F' file' \<and> table' = map row_of T' \<and> books evs P F' T'"
proof (cases "db = DbOk")
  case True
  then have "table' = map row_of (T @ b)" "file' = file" using assms by (auto simp: flush_batch_def insert_batch_def)
  then show ?thesis using assms(1) books_to_table [OF assms(3)] by blast
next
  case False
  obtain file2 where f: "append_all cd True file b = Inr file2" "file_lines cd (F @ b) file2"
    using append_all_ok [OF assms(1)] by blast
  then have "table' = (if db = DbFailed then map row_of T else map row_of (T @ b))" "file' = file2"
    using False assms(2,4,5) by (auto simp: flush_batch_def insert_batch_def split: if_splits)
  then have "table' = map row_of (if db = DbFailed then T else T @ b)" "file' = file2" by auto
  moreover have "books evs P (F @ b) (if db = DbFailed then T else T @ b)"
    using books_to_file [OF assms(3)] books_to_both [OF assms(3)] by simp
  ultimately show ?thesis using f(2) by blast
qed

lemma ids_inj: "distinct (map ev_request_id evs) \<Longrightarrow> x \<in> set evs \<Longrightarrow> y \<in> set evs \<Longrightarrow>
    ev_request_id x = ev_request_id y \<Longrightarrow> x = y"
  by (auto simp: distinct_map inj_on_def)

lemma row_of_id [simp]: "lr_request_id (row_of ev) = ev_request_id ev"
  by (simp add: row_of_def)

lemma replay_books:
  assumes "codec_ok cd evs" and ids: "distinct (map ev_request_id evs)" and "set F \<subseteq> set evs" and "set T \<subseteq> set evs" and "distinct T"
    and "length oks = length F" and "replay_lines_to_db cd (map row_of T) (zip (map (enc cd) F) oks) = (table', ok)"
  shows "\<exists>T'. table' = map row_of T' \<and> distinct T' \<and> set T \<subseteq> set T' \<and> set T' \<subseteq> set T \<union> set F \<and> (ok \<longrightarrow> set F \<subseteq> set T')"
  using assms(3-7)
proof (induction F arbitrary: T oks)
  case (Cons ev F)
  obtain k oks' where k: "oks = k # oks'" "length oks' = length F" using Cons.prems(4) by (cases oks) auto
  have dec: "dec_event cd (enc cd ev) = Some ev" "trim (enc cd ev) \<noteq> []" using assms(1) Cons.prems(1) by (auto simp: codec_ok_def)
  let ?T = "if ev \<in> set T then T else T @ [ev]"
  have mem: "ev_request_id ev \<in> lr_request_id ` set (map row_of T) \<longleftrightarrow> ev \<in> set T"
    using ids_inj [OF ids] Cons.prems(1,2) by (auto simp: image_iff)
  show ?case
  proof (cases "k = DbOk \<or> k = DbLost \<and> ev \<in> set T")
    case False
    then have "table' = map row_of (if k = DbFailed then T else T @ [ev]) \<and> \<not> ok \<and> (k = DbFailed \<or> ev \<notin> set T)"
      using Cons.prems(5) k dec mem by (cases k) (auto simp: insert_batch_def split: if_splits)
    then show ?thesis using Cons.prems by (intro exI [of _ "if k = DbFailed then T else T @ [ev]"]) auto
  next
    case True
    have "replay_lines_to_db cd (map row_of ?T) (zip (map (enc cd) F) oks') = (table', ok)"
      using Cons.prems(5) k dec True mem by (auto simp: insert_batch_def split: if_splits)
    moreover have "set ?T \<subseteq> set evs" "distinct ?T" "set F \<subseteq> set evs" using Cons.prems by auto
    ultimately obtain T' where "table' = map row_of T'" "distinct T'" "set ?T \<subseteq> set T'" "set T' \<subseteq> set ?T \<union> set F"
        "ok \<longrightarrow> set F \<subseteq> set T'"
      using Cons.IH [of ?T oks'] k(2) by blast
    then show ?thesis by (intro exI [of _ T']) (auto split: if_splits)
  qed
qed auto

lemma replay_fallback_books:
  assumes "codec_ok cd evs" and "distinct (map ev_request_id evs)" and "file_lines cd F fl" and "books evs P F T"
    and "replay_fallback cd oks (map row_of T) fl = (table', fl')"
  shows "\<exists>F' T'. file_lines cd F' fl' \<and> table' = map row_of T' \<and> books evs P F' T'"
proof (cases "fl = None")
  case True
  then show ?thesis using assms by (auto simp: replay_fallback_def file_lines_def)
next
  case False
  then have fl: "fl = Some (map (enc cd) F)" using assms(3) by (auto simp: file_lines_def)
  obtain tb ok where r: "replay_lines_to_db cd (map row_of T) (zip (map (enc cd) F) (map oks [0..<length F])) = (tb, ok)" by force
  have sub: "set F \<subseteq> set evs" "set T \<subseteq> set evs" "distinct T" using assms(4) by (auto simp: books_def)
  obtain T' where T': "tb = map row_of T'" "distinct T'" "set T \<subseteq> set T'" "set T' \<subseteq> set T \<union> set F" "ok \<longrightarrow> set F \<subseteq> set T'"
    using replay_books [OF assms(1,2) sub _ r] by auto
  have b: "books evs P F T'" by (rule books_replay [OF assms(4) T'(2-4)])
  show ?thesis
  proof (cases ok)
    case True
    then have "table' = map row_of T'" "fl' = None" using assms(5) fl r T'(1) by (auto simp: replay_fallback_def)
    then show ?thesis using books_replayed [OF b] T'(5) True by (auto simp: file_lines_def)
  next
    case False
    then have "table' = map row_of T'" "fl' = fl" using assms(5) fl r T'(1) by (auto simp: replay_fallback_def)
    then show ?thesis using b assms(3) by blast
  qed
qed

text \<open>The invariant with the witnesses of the file and the table in view.\<close>

definition kept :: "codec \<Rightarrow> usage_event list \<Rightarrow> usage_event multiset \<Rightarrow> writer \<Rightarrow> bool" where
  "kept cd evs P w \<longleftrightarrow> (\<exists>F T. file_lines cd F (wr_file w) \<and> wr_table w = map row_of T \<and> books evs P F T)"

lemma kept_append:
  assumes "kept cd evs (P + {#ev#}) w"
  shows "append_fallback cd True (wr_file w) ev = Inr (Some (unwrap_or [] (wr_file w) @ [enc cd ev]))"
    and "kept cd evs P (w\<lparr>wr_file := Some (unwrap_or [] (wr_file w) @ [enc cd ev])\<rparr>)"
proof -
  obtain F T where k: "file_lines cd F (wr_file w)" "wr_table w = map row_of T" "books evs (P + mset [ev]) F T"
    using assms by (auto simp: kept_def)
  show "append_fallback cd True (wr_file w) ev = Inr (Some (unwrap_or [] (wr_file w) @ [enc cd ev]))"
    by (simp add: append_fallback_def)
  have "file_lines cd (F @ [ev]) (Some (unwrap_or [] (wr_file w) @ [enc cd ev]))" using k(1) by (auto simp: file_lines_def)
  then show "kept cd evs P (w\<lparr>wr_file := Some (unwrap_or [] (wr_file w) @ [enc cd ev])\<rparr>)"
    using k(2) books_to_file [OF k(3)] by (auto simp: kept_def)
qed

lemma kept_flush:
  assumes "kept cd evs (P + mset b) w" and "b \<noteq> []"
    and "flush_batch cd db True (wr_table w) (wr_file w) b = (table, fl, ok)"
    and "wr_table w' = table" and "wr_file w' = fl"
  shows "kept cd evs P w'"
  using assms flush_batch_books [of cd _ "wr_file w" "wr_table w" _ evs P b db table fl ok]
  by (auto simp: kept_def)

lemma kept_cong: "kept cd evs P w \<Longrightarrow> wr_file w' = wr_file w \<Longrightarrow> wr_table w' = wr_table w \<Longrightarrow> kept cd evs P w'"
  by (simp add: kept_def)

lemma kept_fold_append:
  assumes "kept cd evs (P + mset b) w"
  shows "kept cd evs P (w\<lparr>wr_file := foldl (\<lambda>f ev. case append_fallback cd True f ev of Inr f' \<Rightarrow> f' | Inl _ \<Rightarrow> f) (wr_file w) b\<rparr>)"
  using assms
proof (induction b arbitrary: w)
  case (Cons ev b)
  have "kept cd evs (P + mset b) (w\<lparr>wr_file := Some (unwrap_or [] (wr_file w) @ [enc cd ev])\<rparr>)"
    using kept_append(2) [of cd evs "P + mset b" ev w] Cons.prems by simp
  from Cons.IH [OF this] show ?case by (simp add: append_fallback_def)
qed simp

lemma kept_append_all:
  assumes "kept cd evs (P + mset b) w"
  shows "\<exists>fl. append_all cd True (wr_file w) b = Inr fl \<and> kept cd evs P (w\<lparr>wr_file := fl\<rparr>)"
proof -
  obtain F T where k: "file_lines cd F (wr_file w)" "wr_table w = map row_of T" "books evs (P + mset b) F T"
    using assms by (auto simp: kept_def)
  obtain fl where "append_all cd True (wr_file w) b = Inr fl" "file_lines cd (F @ b) fl" using append_all_ok [OF k(1)] by blast
  then show ?thesis using k(2) books_to_file [OF k(3)] by (auto simp: kept_def)
qed

abbreviation queued :: "writer \<Rightarrow> usage_event multiset" where
  "queued w \<equiv> mset (ch_queue (ls_primary (wr_sink w))) + mset (ch_queue (ls_overflow (wr_sink w))) + mset (ls_dropped (wr_sink w))"

lemma kept_on_primary:
  assumes "kept cd evs (queued w + mset (wr_batch w) + {#ev#}) w" and "we_file_ok we"
  shows "kept cd evs (pending_events (on_primary cd we w ev)) (on_primary cd we w ev)"
proof (cases "wr_pool w")
  case False
  then show ?thesis using assms kept_append [of cd evs "queued w + mset (wr_batch w)" ev w]
    by (simp add: on_primary_def pending_events_def)
next
  case True
  show ?thesis
  proof (cases "length (wr_batch w @ [ev]) \<ge> wr_batch_size w")
    case ge: True
    obtain table fl ok where f: "flush_batch cd (we_db we) True (wr_table w) (wr_file w) (wr_batch w @ [ev]) = (table, fl, ok)"
      by (metis prod_cases3)
    let ?w = "w\<lparr>wr_table := table, wr_file := fl, wr_pool := ok, wr_batch := []\<rparr>"
    have "kept cd evs (queued w) ?w"
      by (rule kept_flush [OF _ _ f]) (use assms(1) in \<open>simp_all add: add.assoc\<close>)
    then show ?thesis using True ge f assms(2) by (simp add: on_primary_def pending_events_def)
  next
    case False
    then show ?thesis using True assms(1) by (simp add: on_primary_def pending_events_def kept_def add.assoc)
  qed
qed

lemma kept_tick_flush:
  assumes "kept cd evs (pending_events w) w" and "we_file_ok we"
  shows "kept cd evs (pending_events (tick_flush cd we w)) (tick_flush cd we w)
    \<and> wr_batch (tick_flush cd we w) = []"
proof (cases "wr_batch w = []")
  case True
  then show ?thesis using assms by (simp add: tick_flush_def)
next
  case ne: False
  show ?thesis
  proof (cases "wr_pool w")
    case True
    obtain table fl ok where f: "flush_batch cd (we_db we) True (wr_table w) (wr_file w) (wr_batch w) = (table, fl, ok)"
      by (metis prod_cases3)
    let ?w = "w\<lparr>wr_table := table, wr_file := fl, wr_pool := ok, wr_batch := []\<rparr>"
    have "kept cd evs (queued w) ?w"
      by (rule kept_flush [OF _ ne f]) (use assms(1) in \<open>simp_all add: pending_events_def\<close>)
    then show ?thesis using True ne f assms(2) by (simp add: tick_flush_def pending_events_def)
  next
    case False
    obtain fl where "append_all cd True (wr_file w) (wr_batch w) = Inr fl" "kept cd evs (queued w) (w\<lparr>wr_file := fl\<rparr>)"
      using kept_append_all [of cd evs "queued w" "wr_batch w" w] assms(1) by (auto simp: pending_events_def)
    then show ?thesis using False ne assms(2) by (simp add: tick_flush_def pending_events_def kept_def)
  qed
qed

lemma kept_on_tick:
  assumes "kept cd evs (pending_events w) w" and "we_file_ok we" and "codec_ok cd evs" and "distinct (map ev_request_id evs)"
  shows "kept cd evs (pending_events (on_tick cd we w)) (on_tick cd we w)"
proof -
  let ?w = "tick_flush cd we w"
  have k: "kept cd evs (pending_events ?w) ?w" using kept_tick_flush [OF assms(1,2)] by simp
  show ?thesis
  proof (cases "wr_stopped ?w = None \<and> \<not> wr_pool ?w \<and> we_connect_ok we")
    case True
    obtain F T where F: "file_lines cd F (wr_file ?w)" "wr_table ?w = map row_of T" "books evs (pending_events ?w) F T"
      using k by (auto simp: kept_def)
    obtain table fl where r: "replay_fallback cd (we_replay we) (map row_of T) (wr_file ?w) = (table, fl)" by force
    from replay_fallback_books [OF assms(3,4) F(1,3) r] True r F(2) show ?thesis
      by (auto simp: on_tick_def kept_def pending_events_def Let_def)
  next
    case False
    then have "on_tick cd we w = ?w" by (auto simp: on_tick_def Let_def)
    then show ?thesis using k by simp
  qed
qed

lemma kept_flush_remaining:
  assumes "kept cd evs (pending_events w) w" and "we_file_ok we"
  shows "kept cd evs (pending_events (flush_remaining cd we w)) (flush_remaining cd we w)"
proof (cases "wr_batch w = []")
  case True
  then show ?thesis using assms by (simp add: flush_remaining_def)
next
  case ne: False
  have P: "pending_events w = queued w + mset (wr_batch w)" by (simp add: pending_events_def)
  show ?thesis
  proof (cases "wr_pool w")
    case True
    obtain table fl ok where f: "flush_batch cd (we_db we) True (wr_table w) (wr_file w) (wr_batch w) = (table, fl, ok)"
      by (metis prod_cases3)
    let ?w = "w\<lparr>wr_table := table, wr_file := fl, wr_batch := []\<rparr>"
    have "kept cd evs (queued w) ?w" by (rule kept_flush [OF _ ne f]) (use assms(1) P in simp_all)
    then show ?thesis using True ne f assms(2) by (simp add: flush_remaining_def pending_events_def)
  next
    case False
    then show ?thesis using ne assms(2) kept_fold_append [OF assms(1) [unfolded P]]
      by (simp add: flush_remaining_def pending_events_def kept_def)
  qed
qed

lemma invar_kept: "ledger_invar cd (w, evs) \<longleftrightarrow> (distinct (map ev_request_id evs) \<and> codec_ok cd evs \<longrightarrow> kept cd evs (pending_events w) w)"
  by (simp add: ledger_invar_def kept_def)

lemma ledger_invar_step:
  assumes inv: "ledger_invar cd (w, evs)" and step: "ledger_step cd we_file_ok (w, evs) (w', evs')"
  shows "ledger_invar cd (w', evs')"
proof (unfold invar_kept, rule impI)
  assume "distinct (map ev_request_id evs') \<and> codec_ok cd evs'"
  then have d: "distinct (map ev_request_id evs')" and cd: "codec_ok cd evs'" by auto
  from step show "kept cd evs' (pending_events w') w'"
  proof cases
    case (recorded ev)
    then have d': "distinct (map ev_request_id evs)" "codec_ok cd evs" and new: "ev \<notin> set evs"
      using d cd by (auto simp: codec_ok_def)
    obtain F T where "file_lines cd F (wr_file w)" "wr_table w = map row_of T" "books evs (pending_events w) F T"
      using inv d' by (auto simp: invar_kept kept_def)
    moreover have "pending_events w' = add_mset ev (pending_events w)"
      using recorded try_record_pending [of "wr_sink w" ev] by (simp add: pending_events_def)
    ultimately have "file_lines cd F (wr_file w') \<and> wr_table w' = map row_of T \<and> books evs' (pending_events w') F T"
      using recorded books_record [OF _ new] by simp
    then show ?thesis unfolding kept_def by blast
  next
    case (primary_event we ev rest)
    let ?w = "w\<lparr>wr_sink := (wr_sink w)\<lparr>ls_primary := pop (ls_primary (wr_sink w))\<rparr>\<rparr>"
    have "pending_events w = queued ?w + mset (wr_batch ?w) + {#ev#}"
      using primary_event by (simp add: pending_events_def pop_def)
    then have "kept cd evs (queued ?w + mset (wr_batch ?w) + {#ev#}) ?w"
      using inv d cd primary_event by (simp add: invar_kept kept_def)
    from kept_on_primary [OF this] primary_event show ?thesis by simp
  next
    case (overflow_event we ev rest fl)
    let ?w = "w\<lparr>wr_sink := (wr_sink w)\<lparr>ls_overflow := pop (ls_overflow (wr_sink w))\<rparr>\<rparr>"
    have "pending_events w = pending_events ?w + {#ev#}"
      using overflow_event by (simp add: pending_events_def pop_def)
    then have "kept cd evs (pending_events ?w + {#ev#}) ?w" using inv d cd overflow_event by (simp add: invar_kept kept_def)
    from kept_append(2) [OF this] overflow_event show ?thesis
      by (simp add: append_fallback_def pending_events_def)
  next
    case (overflow_failed we ev rest)
    then show ?thesis by (simp add: append_fallback_def)
  next
    case (primary_closed we)
    then show ?thesis using inv d cd kept_flush_remaining [of cd evs w we]
      by (simp add: invar_kept kept_def pending_events_def)
  next
    case (ticked we)
    then show ?thesis using inv d cd kept_on_tick by (simp add: invar_kept)
  qed (use inv d cd in \<open>simp_all add: invar_kept kept_def pending_events_def\<close>)
qed

definition ledger_start :: "writer \<times> usage_event list \<Rightarrow> bool" where
  "ledger_start = (\<lambda>(w, evs). evs = [] \<and> ch_queue (ls_primary (wr_sink w)) = [] \<and> ch_queue (ls_overflow (wr_sink w)) = []
     \<and> ls_dropped (wr_sink w) = [] \<and> wr_batch w = [] \<and> wr_file w = None \<and> wr_table w = [] \<and> wr_stopped w = None)"


definition demo_event :: usage_event where
  "demo_event = \<lparr>ev_ts = 5, ev_request_id = ''r'', ev_key_id = 1, ev_team_id = 1, ev_model = ''m'', ev_backend_id = 1,
     ev_status = 200, ev_input_tokens = 3, ev_output_tokens = 4, ev_estimated = False, ev_ttfb_ms = 0, ev_total_ms = 0,
     ev_router_overhead_ms = 0, ev_completed_at_ms = 0, ev_stream = False, ev_client_aborted = False, ev_error_class = None\<rparr>"


section \<open>Seeds\<close>

text \<open>One of the grouped sums; adding a row's tokens or casting the sum to \<open>BIGINT\<close> may overflow, an error.\<close>

definition row_tokens :: "ledger_row \<Rightarrow> int" where
  "row_tokens r = lr_input_tokens r + lr_output_tokens r"

definition seed_query :: "usage_scope \<Rightarrow> (ledger_row \<Rightarrow> i64 \<times> string) \<Rightarrow> i64 \<Rightarrow> ledger_row list \<Rightarrow> unit + usage_seed list" where
  "seed_query scope grp period table =
     (let rows = filter (\<lambda>r. lr_ts r \<ge> period) table;
          used = (\<lambda>g. sum_list (map row_tokens (filter (\<lambda>r. grp r = g) rows)))
      in if (\<exists>r\<in>set rows. row_tokens r \<ge> 2 ^ 63 \<or> used (grp r) \<ge> 2 ^ 63) then Inl ()
         else Inr (map (\<lambda>g. \<lparr>us_scope = scope, us_id = fst g, us_model = snd g, us_period_start = period,
                    us_used_tokens = word_of_int (max (used g) 0)\<rparr>) (remdups (map grp rows))))"

fun seed_group :: "usage_scope \<Rightarrow> ledger_row \<Rightarrow> i64 \<times> string" where
  "seed_group KeyTotal r = (lr_key_id r, [])"
| "seed_group KeyModel r = (lr_key_id r, lr_model r)"
| "seed_group TeamTotal r = (lr_team_id r, [])"
| "seed_group TeamModel r = (lr_team_id r, lr_model r)"

definition load_usage_seeds :: "i64 \<Rightarrow> ledger_row list \<Rightarrow> unit + usage_seed list" where
  "load_usage_seeds now table =
     fold_res (\<lambda>seeds (period, scope). try_res (seed_query scope (seed_group scope) period table) (\<lambda>q. Inr (seeds @ q))) []
       (concat (map (\<lambda>period. map (Pair period) [KeyTotal, KeyModel, TeamTotal, TeamModel])
          [period_start ''day'' now, period_start ''month'' now]))"

definition period_usage :: "usage_scope \<Rightarrow> i64 \<Rightarrow> string \<Rightarrow> i64 \<Rightarrow> ledger_row list \<Rightarrow> int" where
  "period_usage scope i m period table =
     sum_list (map row_tokens (filter (\<lambda>r. period \<le> lr_ts r \<and> seed_group scope r = (i, m)) table))"

lemma seed_query_sound:
  assumes "seed_query scope (seed_group scope) period table = Inr q"
  shows "s \<in> set q \<Longrightarrow> us_scope s = scope \<and> us_period_start s = period
      \<and> us_used_tokens s = word_of_int (max (period_usage scope (us_id s) (us_model s) period table) 0)"
    and "(\<exists>r\<in>set table. period \<le> lr_ts r \<and> seed_group scope r = (i, m))
      \<Longrightarrow> \<exists>s\<in>set q. us_scope s = scope \<and> us_id s = i \<and> us_model s = m \<and> us_period_start s = period"
proof -
  let ?rows = "filter (\<lambda>r. lr_ts r \<ge> period) table"
  have q: "q = map (\<lambda>g. \<lparr>us_scope = scope, us_id = fst g, us_model = snd g, us_period_start = period,
      us_used_tokens = word_of_int (max (sum_list (map row_tokens (filter (\<lambda>r. seed_group scope r = g) ?rows))) 0)\<rparr>)
      (remdups (map (seed_group scope) ?rows))"
    using assms by (auto simp: seed_query_def Let_def split: if_splits)
  show "s \<in> set q \<Longrightarrow> us_scope s = scope \<and> us_period_start s = period
      \<and> us_used_tokens s = word_of_int (max (period_usage scope (us_id s) (us_model s) period table) 0)"
    by (auto simp: q period_usage_def conj_commute)
  show "(\<exists>r\<in>set table. period \<le> lr_ts r \<and> seed_group scope r = (i, m))
      \<Longrightarrow> \<exists>s\<in>set q. us_scope s = scope \<and> us_id s = i \<and> us_model s = m \<and> us_period_start s = period"
    by (force simp: q)
qed

lemma fold_seed_queries:
  assumes "fold_res (\<lambda>seeds (period, scope). try_res (f scope period) (\<lambda>q. Inr (seeds @ q))) acc ps = Inr seeds"
  shows "set seeds = set acc \<union> (\<Union>(p, sc)\<in>set ps. set (projr (f sc p))) \<and> (\<forall>(p, sc)\<in>set ps. \<exists>q. f sc p = Inr q)"
  using assms
proof (induction ps arbitrary: acc)
  case (Cons a ps)
  obtain p sc where a: "a = (p, sc)" by (cases a)
  then obtain q where q: "f sc p = Inr q" using Cons.prems by (auto simp: try_res_Inr_iff)
  with Cons.IH [of "acc @ q"] Cons.prems a show ?case by auto
qed simp

lemma seed_from_query:
  assumes "fold_res (\<lambda>seeds (period, scope). try_res (f scope period) (\<lambda>q. Inr (seeds @ q))) [] ps = Inr seeds"
  shows "s \<in> set seeds \<Longrightarrow> \<exists>p sc q. f sc p = Inr q \<and> s \<in> set q"
    and "(p, sc) \<in> set ps \<Longrightarrow> \<exists>q. f sc p = Inr q \<and> set q \<subseteq> set seeds"
  using fold_seed_queries [OF assms] by force+

abbreviation seed_key :: "usage_seed \<Rightarrow> usage_key" where
  "seed_key s \<equiv> \<lparr>uk_scope = scope_code (us_scope s), uk_id = us_id s, uk_model = us_model s, uk_period_start = us_period_start s\<rparr>"

lemma fold_seed_usage:
  assumes "\<And>s. s \<in> set seeds \<Longrightarrow> us_used_tokens s = f (seed_key s)"
  shows "hm_get (st_usage (foldl seed_usage st seeds)) k
    = (if k \<in> seed_key ` set seeds then Some (f k) else hm_get (st_usage st) k)"
  using assms
proof (induction seeds arbitrary: st)
  case (Cons s seeds)
  then show ?case by (auto simp: seed_usage_def Let_def)
qed simp

lemma scope_code_inject: "scope_code a = scope_code b \<longleftrightarrow> a = b"
  by (cases a; cases b) (simp_all add: SCOPE_KEY_TOTAL_def SCOPE_KEY_MODEL_def SCOPE_TEAM_TOTAL_def SCOPE_TEAM_MODEL_def)

text \<open>
  C13. A restart restores the counters: after seeding a fresh store from the ledger, the usage of every key and
  team, in total and per model, for the current day and for the current month, is the sum of the tokens of the
  ledger's rows of that period.
\<close>

theorem restart_restores_usage:
  assumes "load_usage_seeds now table = Inr seeds" and "period = period_start ''day'' now \<or> period = period_start ''month'' now"
    and "st = foldl seed_usage store_new seeds"
  shows "current_usage st (scope_code scope) i m period = word_of_int (max (period_usage scope i m period table) 0)"
proof -
  let ?q = "\<lambda>sc p. seed_query sc (seed_group sc) p table"
  let ?f = "\<lambda>k. word_of_int (max (period_usage (THE sc. scope_code sc = uk_scope k) (uk_id k) (uk_model k) (uk_period_start k) table) 0) :: u64"
  have the: "(THE sc. scope_code sc = scope_code x) = x" for x by (auto simp: scope_code_inject)
  note fs = seed_from_query [OF assms(1) [unfolded load_usage_seeds_def]]
  have val: "us_used_tokens s = ?f (seed_key s)" if "s \<in> set seeds" for s
  proof -
    from fs(1) [OF that] obtain p sc q where "?q sc p = Inr q" "s \<in> set q" by blast
    then show ?thesis using seed_query_sound(1) [of sc p table q s] by (simp add: the)
  qed
  have q: "\<exists>q. ?q scope period = Inr q \<and> set q \<subseteq> set seeds"
    by (rule fs(2)) (use assms(2) in \<open>cases scope, auto\<close>)
  let ?k = "\<lparr>uk_scope = scope_code scope, uk_id = i, uk_model = m, uk_period_start = period\<rparr>"
  have get: "hm_get (st_usage st) ?k = (if ?k \<in> seed_key ` set seeds then Some (?f ?k) else None)"
    using fold_seed_usage [of seeds ?f store_new ?k] val by (simp add: assms(3) store_new_def)
  show ?thesis
  proof (cases "?k \<in> seed_key ` set seeds")
    case True
    then show ?thesis using get by (simp add: current_usage_def current_usage_key_def the)
  next
    case False
    from q obtain qs where q: "?q scope period = Inr qs" "set qs \<subseteq> set seeds" by blast
    then have "\<not> (\<exists>r\<in>set table. period \<le> lr_ts r \<and> seed_group scope r = (i, m))"
      using False seed_query_sound(2) [OF q(1), of i m] by force
    then have "period_usage scope i m period table = 0" by (simp add: period_usage_def filter_False)
    then show ?thesis using get False by (simp add: current_usage_def current_usage_key_def)
  qed
qed

theorem restart_restores_usage_witness:
  "\<exists>seeds. load_usage_seeds 100 [row_of demo_event] = Inr seeds
    \<and> current_usage (foldl seed_usage store_new seeds) SCOPE_KEY_TOTAL 1 [] 0 = 7"
proof -
  let ?t = "[row_of demo_event]"
  have d: "period_start ''day'' 100 = 0" "period_start ''month'' 100 = 0" by code_simp+
  have u: "period_usage KeyTotal 1 [] 0 ?t = 7" by (simp add: period_usage_def row_tokens_def row_of_def demo_event_def u64_to_i64_def)
  have "\<exists>seeds. load_usage_seeds 100 ?t = Inr seeds"
    by (simp add: load_usage_seeds_def d seed_query_def row_tokens_def row_of_def demo_event_def u64_to_i64_def)
  then obtain seeds where "load_usage_seeds 100 ?t = Inr seeds" by blast
  then show ?thesis
    using restart_restores_usage [of 100 ?t seeds "period_start ''day'' 100" _ KeyTotal 1 "[]"] d u by simp
qed

end
