(* ===== verification/Lease.thy ===== *)
theory Lease
  imports Route
begin

text \<open>
  Acquiring and releasing backends (\<open>acquire\<close>, \<open>acquire_excluding\<close>, \<open>acquire_primary\<close>,
  \<open>BackendLease\<close>), the circuit breaker (\<open>note_result\<close>) and configuration reloads (\<open>sync_backends\<close>) of
  \<open>src/route/mod.rs\<close>: when a lease is granted, that the retry loop ends, that the in-flight gauge
  counts the live leases, and the life of an open circuit.
\<close>

section \<open>Acquiring\<close>

text \<open>
  What the outside contributes to a round of the loop: the clock, the random draws, and what other
  requests do to the pool and the counter table between the choice and the claim.
\<close>

record round_env =
  re_now :: instant
  re_rnd :: "i64 \<Rightarrow> nat \<Rightarrow> nat"
  re_others :: "ram_backend_pool \<times> counter_db \<Rightarrow> ram_backend_pool \<times> counter_db"

lemma choose_candidate_sound:
  assumes "choose_candidate p db route ids e now rnd = (q, db', r)"
  shows "settled now p q \<and> looked_at p route e now ids q
    \<and> (case r of Inl _ \<Rightarrow> filter (eligible p route e now) ids \<noteq> []
       | Inr None \<Rightarrow> filter (eligible p route e now) ids = []
       | Inr (Some c) \<Rightarrow> \<exists>b \<in> set ids. eligible p route e now b \<and> c = candidate_of p route now b)"
proof (cases "rt_routing_policy route")
  case LeastLoadedWeighted
  with assms ll_scan_spec [where best = None and p = p and B = "{}" and ids = ids and ties = 0
      and route = route and e = e and now = now and rnd = rnd]
  show ?thesis
    by (auto simp: choose_candidate_def choose_least_loaded_candidate_def filter_empty_conv split: option.splits) blast
next
  case RoundRobin
  let ?el = "filter (eligible p route e now) ids"
  from assms RoundRobin have "choose_round_robin_candidate p db route ids e now = (q, db', r)"
    by (simp add: choose_candidate_def)
  note S = choose_round_robin_spec [OF this]
  have mem: "?el ! (k mod length ?el) \<in> set ids \<and> eligible p route e now (?el ! (k mod length ?el))" if "?el \<noteq> []" for k
    using nth_mem [of "k mod length ?el" ?el] that by auto
  show ?thesis
  proof (cases "?el = []")
    case True
    with S show ?thesis by simp
  next
    case False
    with S obtain r1 :: "acquire_error + u64" where "case r1 of Inl x \<Rightarrow> r = Inl x | Inr n \<Rightarrow> r = Inr (Some (candidate_of p route now (?el ! (unat n mod length ?el))))"
      by auto
    with S mem [OF False] False show ?thesis by (cases r1) auto
  qed
next
  case WeightedRoundRobin
  let ?el = "filter (eligible p route e now) ids"
  let ?m = "min (length (slots route ?el)) (2 ^ 64 - 1)"
  from assms WeightedRoundRobin have "choose_weighted_round_robin_candidate p db route ids e now = (q, db', r)"
    by (simp add: choose_candidate_def)
  note S = choose_weighted_spec [OF this]
  have mem: "slots route ?el ! (k mod ?m) \<in> set ids \<and> eligible p route e now (slots route ?el ! (k mod ?m))"
    if "?el \<noteq> []" for k
  proof -
    have "k mod ?m < ?m" using that by (intro mod_less_divisor) simp
    then have "slots route ?el ! (k mod ?m) \<in> set (slots route ?el)" by (intro nth_mem) linarith
    then show ?thesis by (simp add: set_slots)
  qed
  show ?thesis
  proof (cases "?el = []")
    case True
    with S show ?thesis by simp
  next
    case False
    with S obtain r1 :: "acquire_error + u64" where "case r1 of Inl x \<Rightarrow> r = Inl x | Inr n \<Rightarrow> r = Inr (Some (candidate_of p route now (slots route ?el ! (unat n mod ?m))))"
      by auto
    with S mem [OF False] False show ?thesis by (cases r1) auto
  qed
qed

function acquire_primary ::
  "(nat \<Rightarrow> round_env) \<Rightarrow> nat \<Rightarrow> ram_backend_pool \<Rightarrow> counter_db \<Rightarrow> model_route \<Rightarrow> i64 list \<Rightarrow> backend_exclusions
   \<Rightarrow> ram_backend_pool \<times> counter_db \<times> backend_exclusions \<times> nat \<times> (acquire_error + backend_lease option)" where
  "acquire_primary env n p db route ids e =
     (case choose_candidate p db route ids e (re_now (env n)) (re_rnd (env n)) of
        (p1, db1, Inl err) \<Rightarrow> (p1, db1, e, n, Inl err)
      | (p1, db1, Inr None) \<Rightarrow> (p1, db1, e, n, Inr None)
      | (p1, db1, Inr (Some c)) \<Rightarrow>
          (case re_others (env n) (p1, db1) of (p2, db2) \<Rightarrow>
           (case claim_candidate p2 route c of
              (p3, True) \<Rightarrow> (p3, db2, e, n, Inr (Some \<lparr>bl_backend_id = cd_backend_id c\<rparr>))
            | (p3, False) \<Rightarrow>
                acquire_primary env (n + 1) p3 db2 route ids (ex_insert e (cd_backend_id c)))))"
  by pat_completeness auto
termination
proof (relation "measure (\<lambda>(env, n, p, db, route, ids, e). card {b \<in> set ids. \<not> ex_contains e b})", goal_cases)
  case (2 env n p db route ids e p1 y db1 z w c p2 db2 p3 ok)
  then have "choose_candidate p db route ids e (re_now (env n)) (re_rnd (env n)) = (p1, db1, Inr (Some c))" by simp
  from choose_candidate_sound [OF this] obtain b where "b \<in> set ids" "\<not> ex_contains e b" "cd_backend_id c = b"
    by (auto simp: eligible_def)
  then show ?case by (simp add: excl.remaining_decreases)
qed simp

declare acquire_primary.simps [simp del]

definition acquire_excluding ::
  "(nat \<Rightarrow> round_env) \<Rightarrow> ram_backend_pool \<Rightarrow> counter_db \<Rightarrow> model_route \<Rightarrow> backend_exclusions
   \<Rightarrow> ram_backend_pool \<times> counter_db \<times> backend_exclusions \<times> (acquire_error + backend_lease option)" where
  "acquire_excluding env p db route e =
     (case acquire_primary env 0 p db route (rt_backend_ids route) e of
        (p1, db1, e1, n, Inl err) \<Rightarrow> (p1, db1, e1, Inl err)
      | (p1, db1, e1, n, Inr (Some l)) \<Rightarrow> (p1, db1, e1, Inr (Some l))
      | (p1, db1, e1, n, Inr None) \<Rightarrow>
          (case rt_fallback_backend_id route of
             None \<Rightarrow> (p1, db1, e1, Inr None)
           | Some fallback \<Rightarrow>
               if ex_contains e1 fallback then (p1, db1, e1, Inr None)
               else (case acquire_primary env (n + 1) p1 db1 route [fallback] e1 of
                       (p2, db2, e2, _, r) \<Rightarrow> (p2, db2, e2, r))))"

definition acquire ::
  "(nat \<Rightarrow> round_env) \<Rightarrow> ram_backend_pool \<Rightarrow> counter_db \<Rightarrow> model_route
   \<Rightarrow> ram_backend_pool \<times> counter_db \<times> (acquire_error + backend_lease option)" where
  "acquire env p db route =
     (case acquire_excluding env p db route exclusions_default of (p1, db1, _, r) \<Rightarrow> (p1, db1, r))"

section \<open>When a lease is granted\<close>

lemma settled_inflight: "settled now p q \<Longrightarrow> inflight q b = inflight p b"
  by (erule settled_cases [where b = b]) (auto simp: inflight_def settled_state_facts)

lemma claim_inflight:
  assumes "claim_candidate p route c = (q, ok)"
  shows "inflight q b = inflight p b + (if ok \<and> b = cd_backend_id c then 1 else 0)"
  using assms by (auto simp: claim_candidate_def inflight_def Let_def split: option.splits if_splits)

text \<open>A claim never takes a slot beyond the limit, whatever happened since the choice.\<close>

lemma claim_within_max:
  assumes "claim_candidate p route c = (q, True)" and "hm_get (bp_states p) (cd_backend_id c) = Some s"
    and "effective_max (bs_max_inflight s) (endpoint_max_inflight route (cd_backend_id c)) > 0"
  shows "inflight q (cd_backend_id c) \<le> effective_max (bs_max_inflight s) (endpoint_max_inflight route (cd_backend_id c))"
proof -
  let ?mx = "effective_max (bs_max_inflight s) (endpoint_max_inflight route (cd_backend_id c))"
  have "bs_inflight s < ?mx" and q: "inflight q (cd_backend_id c) = bs_inflight s + 1"
    using assms by (auto simp: claim_candidate_def inflight_def Let_def not_le split: if_splits)
  then show ?thesis by (simp add: inc_le)
qed

text \<open>Without interference the chosen candidate is always claimed.\<close>

lemma claim_chosen:
  assumes "settled now p q" and "eligible p route e now b" and "gated now q b"
  shows "\<exists>q'. claim_candidate q route (candidate_of p route now b) = (q', True)"
proof (cases rule: settled_cases [OF assms(1), of b])
  case 1
  with assms show ?thesis by (simp add: eligible_def)
next
  case (2 s t)
  have el: "gate_open s now" "has_slot route b s" using assms 2 by (auto simp: eligible_def)
  have "has_slot route b t" using el(2) settled_state_facts [OF 2(3)] by (simp add: has_slot_def)
  moreover have "bs_half_open_probe t" if "snd (circuit_gate s now) = Some True"
  proof -
    have "circuit_gate t now = (t, Some True)"
      using that settled_state_facts(1) [OF 2(3)] assms(3) 2(2) by (metis gated_def prod.collapse)
    then show ?thesis by (auto simp: circuit_gate_def circuit_defs Let_def split: if_splits option.splits
        dest: arg_cong [where f = bs_half_open_probe])
  qed
  ultimately show ?thesis using 2
    by (auto simp: claim_candidate_def candidate_of_def has_slot_def Let_def)
qed

definition quiet :: "(nat \<Rightarrow> round_env) \<Rightarrow> instant \<Rightarrow> bool" where
  "quiet env now \<longleftrightarrow> (\<forall>n. re_now (env n) = now \<and> re_others (env n) = (\<lambda>x. x))"

lemma acquire_primary_quiet:
  assumes "quiet env now" and "acquire_primary env n p db route ids e = (q, db', e', n', r)"
  shows "e' = e \<and> (case r of
      Inl _ \<Rightarrow> settled now p q \<and> filter (eligible p route e now) ids \<noteq> []
    | Inr None \<Rightarrow> settled now p q \<and> filter (eligible p route e now) ids = []
    | Inr (Some l) \<Rightarrow> bl_backend_id l \<in> set ids \<and> eligible p route e now (bl_backend_id l)
        \<and> (\<forall>b. inflight q b = inflight p b + (if b = bl_backend_id l then 1 else 0)))"
proof -
  have env: "re_now (env n) = now" "re_others (env n) = (\<lambda>x. x)" using assms(1) by (auto simp: quiet_def)
  obtain p1 db1 r1 where ch: "choose_candidate p db route ids e now (re_rnd (env n)) = (p1, db1, r1)" by (metis prod_cases3)
  note S = choose_candidate_sound [OF ch]
  show ?thesis
  proof (cases r1)
    case (Inl err)
    with assms(2) S ch env show ?thesis by (subst (asm) acquire_primary.simps) auto
  next
    case (Inr o1)
    show ?thesis
    proof (cases o1)
      case None
      with assms(2) S ch env Inr show ?thesis by (subst (asm) acquire_primary.simps) auto
    next
      case (Some c)
      with S Inr obtain b where b: "b \<in> set ids" "eligible p route e now b" "c = candidate_of p route now b" by auto
      obtain q' where q': "claim_candidate p1 route c = (q', True)"
        using claim_chosen [of now p p1 route e b] S b by auto
      have "q = q'" "e' = e" "r = Inr (Some \<lparr>bl_backend_id = b\<rparr>)"
        using assms(2) ch env Inr Some q' b by (auto simp: acquire_primary.simps [of env n])
      with b claim_inflight [OF q'] settled_inflight [of now p p1] S show ?thesis by simp
    qed
  qed
qed

text \<open>
  C11. What \<open>acquire_excluding\<close> returns when no other request interferes: a lease is for an eligible
  primary backend, or for the fallback, which is only tried when no primary is eligible; nothing
  is returned exactly when neither is eligible, and an error only comes from the persistent counter.
  The in-flight gauge of the leased backend rises by one and no other gauge changes.
\<close>

theorem acquire_exact:
  assumes "quiet env now" and "acquire_excluding env p db route e = (q, db', e', r)"
  defines "prim \<equiv> filter (eligible p route e now) (rt_backend_ids route)"
    and "fb \<equiv> (case rt_fallback_backend_id route of None \<Rightarrow> [] | Some f \<Rightarrow> filter (eligible p route e now) [f])"
  shows "case r of
      Inl _ \<Rightarrow> prim @ fb \<noteq> [] \<and> inflight q = inflight p
    | Inr None \<Rightarrow> prim = [] \<and> fb = [] \<and> inflight q = inflight p
    | Inr (Some l) \<Rightarrow> bl_backend_id l \<in> set (if prim \<noteq> [] then prim else fb)
        \<and> inflight q = (inflight p)(bl_backend_id l := inflight p (bl_backend_id l) + 1)"
proof -
  obtain p1 db1 e1 n r1 where a1: "acquire_primary env 0 p db route (rt_backend_ids route) e = (p1, db1, e1, n, r1)"
    by (metis prod_cases5)
  note S1 = acquire_primary_quiet [OF assms(1) a1]
  show ?thesis
  proof (cases "r1 = Inr None \<and> (\<exists>f. rt_fallback_backend_id route = Some f \<and> \<not> ex_contains e f)")
    case False
    show ?thesis
    proof (cases r1)
      case (Inl err)
      with S1 a1 assms(2) show ?thesis
        by (auto simp: acquire_excluding_def prim_def settled_inflight fun_eq_iff)
    next
      case (Inr o1)
      show ?thesis
      proof (cases o1)
        case None
        with False Inr S1 a1 assms(2) show ?thesis
          by (auto simp: acquire_excluding_def prim_def fb_def eligible_def settled_inflight fun_eq_iff
              split: option.splits)
      next
        case (Some l)
        with Inr S1 have "bl_backend_id l \<in> set prim" by (simp add: prim_def)
        then have "prim \<noteq> []" by auto
        with Some Inr S1 a1 assms(2) \<open>bl_backend_id l \<in> set prim\<close> show ?thesis
          by (auto simp: acquire_excluding_def fun_eq_iff)
      qed
    qed
  next
    case True
    then obtain f where f: "rt_fallback_backend_id route = Some f" "\<not> ex_contains e f" and r1: "r1 = Inr None" by auto
    obtain p2 db2 e2 n2 r2 where a2: "acquire_primary env (n + 1) p1 db1 route [f] e1 = (p2, db2, e2, n2, r2)"
      by (metis prod_cases5)
    note S2 = acquire_primary_quiet [OF assms(1) a2]
    have s1: "settled now p p1" "e1 = e" "prim = []" using S1 r1 by (auto simp: prim_def)
    have r: "q = p2" "r = r2" using assms(2) a1 a2 r1 f s1(2) by (auto simp: acquire_excluding_def)
    have fb: "fb = filter (eligible p1 route e now) [f]" by (simp add: fb_def f settled_eligible [OF s1(1)])
    show ?thesis
      using S2 s1 fb by (auto simp: r settled_inflight fun_eq_iff split: sum.splits option.splits if_splits)
  qed
qed

theorem acquire_exact_witness:
  "\<exists>env l. (case acquire_excluding env (demo_pool 7) demo_db (demo_route RoundRobin) exclusions_default of
     (q, _, _, r) \<Rightarrow> r = Inr (Some l) \<and> bl_backend_id l \<in> {1, 2}
       \<and> inflight q = (inflight (demo_pool 7))(bl_backend_id l := inflight (demo_pool 7) (bl_backend_id l) + 1))"
proof -
  let ?env = "\<lambda>_. \<lparr>re_now = 0, re_rnd = (\<lambda>_ _. 0), re_others = (\<lambda>x. x)\<rparr>"
  obtain q db' e' r where a: "acquire_excluding ?env (demo_pool 7) demo_db (demo_route RoundRobin) exclusions_default = (q, db', e', r)"
    by (metis prod_cases4)
  have "quiet ?env 0" by (simp add: quiet_def)
  note E = acquire_exact [OF this a]
  have ids: "rt_backend_ids (demo_route RoundRobin) = [1, 2]" by (simp add: demo_route_def)
  obtain x where r: "r = Inr x"
  proof -
    obtain p1 d1 r1 where ch: "choose_candidate (demo_pool 7) demo_db (demo_route RoundRobin) [1, 2] exclusions_default 0 (\<lambda>_ _. 0) = (p1, d1, r1)"
      by (metis prod_cases3)
    have pk: "picked (choose_round_robin_candidate (demo_pool 7) demo_db (demo_route RoundRobin) [1, 2] exclusions_default 0) \<noteq> None"
      using picked_round_robin [OF demo_counter [of 7 RoundRobin], of exclusions_default 0 "[1, 2]" "[1, 2]"]
      by (simp add: demo_eligible)
    then have "\<exists>c. r1 = Inr (Some c)"
      using ch by (cases r1) (auto simp: choose_candidate_def picked_def demo_route_def)
    then obtain c where c: "r1 = Inr (Some c)" ..
    from choose_candidate_sound [OF ch] c obtain b where b: "eligible (demo_pool 7) (demo_route RoundRobin) exclusions_default 0 b"
        "c = candidate_of (demo_pool 7) (demo_route RoundRobin) 0 b" "gated 0 p1 b" "settled 0 (demo_pool 7) p1" by auto
    obtain q' where "claim_candidate p1 (demo_route RoundRobin) c = (q', True)"
      using claim_chosen [OF b(4,1,3)] b(2) by auto
    with a ch c that show thesis by (auto simp: acquire_excluding_def acquire_primary.simps [of ?env 0] ids)
  qed
  then obtain l where l: "r = Inr (Some l)" using E by (cases x) (auto simp: ids demo_eligible)
  show ?thesis
    by (intro exI [of _ ?env] exI [of _ l]) (use a E l in \<open>auto simp: ids demo_eligible split: if_splits\<close>)
qed

section \<open>Lease accounting\<close>

text \<open>
  The pool under any interleaving of the requests' accesses: looking at a backend, claiming a slot for
  a candidate chosen earlier, dropping a lease, reporting a result, and the two parts of a
  configuration reload for one backend. The limits \<open>M\<close> of the backends are fixed; the claim step
  excludes the 32-bit wrap of a gauge with no limit.
\<close>

inductive pool_step ::
  "(i64 \<Rightarrow> u32) \<Rightarrow> ram_backend_pool \<times> backend_lease list \<Rightarrow> ram_backend_pool \<times> backend_lease list \<Rightarrow> bool" for M where
  look: "candidate_for_backend p route b e now = (q, r) \<Longrightarrow> pool_step M (p, ls) (q, ls)"
| claim: "claim_candidate p route c = (q, True) \<Longrightarrow> inflight p (cd_backend_id c) \<noteq> - 1 \<Longrightarrow>
    pool_step M (p, ls) (q, \<lparr>bl_backend_id = cd_backend_id c\<rparr> # ls)"
| claim_lost: "claim_candidate p route c = (q, False) \<Longrightarrow> pool_step M (p, ls) (q, ls)"
| lease_dropped: "l \<in> set ls \<Longrightarrow> pool_step M (p, ls) (lease_drop p l, remove1 l ls)"
| noted: "pool_step M (p, ls) (note_result p b ok now, ls)"
| upserted: "be_max_inflight be = M (be_id be) \<Longrightarrow> pool_step M (p, ls) (upsert_backend p be, ls)"
| removed: "pool_step M (p, ls) (sync_remove snapshot p i, ls)"

definition live_leases :: "backend_lease list \<Rightarrow> i64 \<Rightarrow> nat" where
  "live_leases ls b = length (filter (\<lambda>l. bl_backend_id l = b) ls)"

definition lease_invar :: "(i64 \<Rightarrow> u32) \<Rightarrow> ram_backend_pool \<times> backend_lease list \<Rightarrow> bool" where
  "lease_invar M = (\<lambda>(p, ls). \<forall>b. unat (inflight p b) = live_leases ls b
     \<and> (M b > 0 \<longrightarrow> inflight p b \<le> M b)
     \<and> (\<forall>s. hm_get (bp_states p) b = Some s \<longrightarrow> bs_max_inflight s = M b))"

text \<open>Steps that change neither the gauges nor the limits.\<close>

definition gauge_neutral :: "ram_backend_pool \<Rightarrow> ram_backend_pool \<Rightarrow> bool" where
  "gauge_neutral p q \<longleftrightarrow> inflight q = inflight p
     \<and> (\<forall>b s'. hm_get (bp_states q) b = Some s' \<longrightarrow>
          (\<exists>s. hm_get (bp_states p) b = Some s \<and> bs_max_inflight s' = bs_max_inflight s))"

lemma neutral_invar: "gauge_neutral p q \<Longrightarrow> lease_invar M (p, ls) \<Longrightarrow> lease_invar M (q, ls)"
  by (fastforce simp: gauge_neutral_def lease_invar_def)

lemma neutral_look: "candidate_for_backend p route b e now = (q, r) \<Longrightarrow> gauge_neutral p q"
proof -
  assume "candidate_for_backend p route b e now = (q, r)"
  then have s: "settled now p q" by (rule candidate_settles)
  have "\<exists>s. hm_get (bp_states p) b = Some s \<and> bs_max_inflight s' = bs_max_inflight s"
    if "hm_get (bp_states q) b = Some s'" for b s'
    using settled_cases [OF s, of b] that by (metis option.inject option.distinct(1) settled_state_facts(3))
  with s show ?thesis by (auto simp: gauge_neutral_def settled_inflight fun_eq_iff)
qed

lemma neutral_lost: "claim_candidate p route c = (q, False) \<Longrightarrow> gauge_neutral p q"
  by (auto simp: gauge_neutral_def claim_candidate_def inflight_def Let_def fun_eq_iff split: option.splits if_splits)

lemma neutral_note: "gauge_neutral p (note_result p b ok now)"
  by (auto simp: gauge_neutral_def note_result_def inflight_def Let_def fun_eq_iff split: option.splits)

lemma neutral_remove: "gauge_neutral p (sync_remove snapshot p i)"
  by (auto simp: gauge_neutral_def sync_remove_def inflight_def Let_def fun_eq_iff put_state_def split: option.splits)

lemma live_leases_Cons [simp]:
  "live_leases (l # ls) b = live_leases ls b + (if bl_backend_id l = b then 1 else 0)"
  by (simp add: live_leases_def)

lemma live_leases_remove1:
  "l \<in> set ls \<Longrightarrow> live_leases (remove1 l ls) b = live_leases ls b - (if bl_backend_id l = b then 1 else 0)"
  by (induction ls) (auto simp: live_leases_def filter_remove1 length_remove1)

lemma effective_max_le: "g > 0 \<Longrightarrow> 0 < effective_max g x \<and> effective_max g x \<le> g" for g x :: u32
  by (auto simp: effective_max_def min_def word_gt_0)

lemma claim_invar:
  assumes inv: "lease_invar M (p, ls)" and c: "claim_candidate p route c = (q, True)"
    and wrap: "inflight p (cd_backend_id c) \<noteq> - 1"
  shows "lease_invar M (q, \<lparr>bl_backend_id = cd_backend_id c\<rparr> # ls)"
proof -
  let ?b = "cd_backend_id c"
  obtain s where s: "hm_get (bp_states p) ?b = Some s" using c by (auto simp: claim_candidate_def split: option.splits)
  have M: "bs_max_inflight s = M ?b" using inv s by (auto simp: lease_invar_def)
  have infl: "inflight q b = inflight p b + (if b = ?b then 1 else 0)" for b using claim_inflight [OF c] by simp
  have suc: "unat (inflight p ?b + 1) = unat (inflight p ?b) + 1"
    using wrap by (metis Suc_eq_plus1 add.commute unatSuc neg_eq_iff_add_eq_0 add.inverse_inverse)
  have "inflight q ?b \<le> M ?b" if "M ?b > 0"
    using claim_within_max [OF c s] effective_max_le [of "M ?b" "endpoint_max_inflight route ?b"] that M
    by (auto intro: order_trans)
  moreover have "hm_get (bp_states q) b = Some s' \<Longrightarrow> bs_max_inflight s' = M b" for b s'
    using c inv by (auto simp: claim_candidate_def lease_invar_def Let_def split: option.splits if_splits)
  ultimately show ?thesis using inv by (auto simp: lease_invar_def infl suc)
qed

lemma drop_invar:
  assumes "lease_invar M (p, ls)" and "l \<in> set ls"
  shows "lease_invar M (lease_drop p l, remove1 l ls)"
proof -
  have "inflight (lease_drop p l) b = (if b = bl_backend_id l then sat_sub (inflight p b) 1 else inflight p b)" for b
    by (auto simp: lease_drop_def dec_inflight_def inflight_def sat_sub_def split: option.splits)
  moreover have "hm_get (bp_states (lease_drop p l)) b = Some s' \<Longrightarrow> bs_max_inflight s' = M b" for b s'
    using assms(1) by (auto simp: lease_drop_def dec_inflight_def lease_invar_def split: option.splits if_splits)
  moreover have "sat_sub (inflight p b) 1 \<le> M b" if "M b > 0" for b
    using assms(1) that sat_sub_le [of "inflight p b" 1] by (auto simp: lease_invar_def intro: order_trans)
  ultimately show ?thesis using assms by (auto simp: lease_invar_def live_leases_remove1)
qed

lemma upsert_inflight: "inflight (upsert_backend p be) b = inflight p b"
  by (auto simp: upsert_backend_def inflight_def backend_state_new_def split: option.splits)

lemma upsert_invar:
  assumes "lease_invar M (p, ls)" and "be_max_inflight be = M (be_id be)"
  shows "lease_invar M (upsert_backend p be, ls)"
proof -
  have "hm_get (bp_states (upsert_backend p be)) b = Some s \<Longrightarrow> bs_max_inflight s = M b" for b s
    using assms by (auto simp: lease_invar_def upsert_backend_def backend_state_new_def split: option.splits if_splits)
  with assms(1) show ?thesis by (simp add: lease_invar_def upsert_inflight)
qed

interpretation leases: inductive_invariant "\<lambda>(p, ls). bp_states p = [] \<and> ls = []" "pool_step M" "lease_invar M"
proof
  fix s t assume inv: "lease_invar M s" and step: "pool_step M s t"
  from step inv show "lease_invar M t"
  proof cases
    case (look p route b e now q r ls)
    with inv neutral_invar [OF neutral_look [OF look(3)]] show ?thesis by simp
  next
    case (claim_lost p route c q ls)
    with inv neutral_invar [OF neutral_lost [OF claim_lost(3)]] show ?thesis by simp
  qed (auto intro: claim_invar drop_invar upsert_invar neutral_invar neutral_note neutral_remove)
qed (auto simp: lease_invar_def inflight_def live_leases_def)



section \<open>The circuit breaker\<close>

lemma note_failure_get:
  assumes "hm_get (bp_states p) b = Some s" and "bs_circuit s = CIRCUIT_CLOSED"
  shows "hm_get (bp_states (note_result p b False now)) b =
    Some (if bs_consecutive_failures s + 1 \<ge> 3
          then s\<lparr>bs_consecutive_failures := 0, bs_circuit := CIRCUIT_OPEN,
                 bs_opened_until := Some (now + bp_open_duration p), bs_half_open_probe := False\<rparr>
          else s\<lparr>bs_consecutive_failures := bs_consecutive_failures s + 1\<rparr>)"
  using assms by (simp add: note_result_def Let_def)

lemma note_duration [simp]: "bp_open_duration (note_result p b ok now) = bp_open_duration p"
  by (auto simp: note_result_def Let_def split: option.splits)

text \<open>
  Three failures in a row open a closed circuit, not fewer: until the open window of the third one has
  passed, no route gets the backend as a candidate; from then on the first look at it is a probe and the circuit
  is half-open.
\<close>

theorem circuit_opens_after_three:
  assumes "hm_get (bp_states p) b = Some s" and "bs_circuit s = CIRCUIT_CLOSED" and "bs_consecutive_failures s = 0"
    and p2_def: "p2 = note_result (note_result p b False t1) b False t2" and p3_def: "p3 = note_result p2 b False t3"
  shows "hm_get (bp_states p2) b = Some (s\<lparr>bs_consecutive_failures := 2\<rparr>)
    \<and> (now < t3 + bp_open_duration p \<longrightarrow> candidate_for_backend p3 route b e now = (p3, None))
    \<and> (now \<ge> t3 + bp_open_duration p \<longrightarrow> eligible p route e t b \<longrightarrow>
        (case candidate_for_backend p3 route b e now of
           (q, Some c) \<Rightarrow> cd_backend_id c = b \<and> cd_half_open c
             \<and> map_option bs_circuit (hm_get (bp_states q) b) = Some CIRCUIT_HALF_OPEN
         | _ \<Rightarrow> False))"
proof -
  let ?p1 = "note_result p b False t1"
  have g1: "hm_get (bp_states ?p1) b = Some (s\<lparr>bs_consecutive_failures := 1\<rparr>)"
    using note_failure_get [OF assms(1,2), of t1] assms(3) by (simp add: word_le_nat_alt)
  have g2: "hm_get (bp_states p2) b = Some (s\<lparr>bs_consecutive_failures := 2\<rparr>)"
    using note_failure_get [OF g1, of t2] assms(2) by (simp add: word_le_nat_alt p2_def)
  let ?s3 = "s\<lparr>bs_consecutive_failures := 0, bs_circuit := CIRCUIT_OPEN,
      bs_opened_until := Some (t3 + bp_open_duration p), bs_half_open_probe := False\<rparr>"
  have g3: "hm_get (bp_states p3) b = Some ?s3"
    using note_failure_get [OF g2, of t3] assms(2) by (simp add: word_le_nat_alt p2_def p3_def)
  have same: "put_state p3 b ?s3 = p3"
    using g3 by (simp add: put_state_def update_same)
  have "candidate_for_backend p3 route b e now = (p3, None)" if "now < t3 + bp_open_duration p"
    using that g3 same by (auto simp: candidate_for_backend_def circuit_gate_def circuit_defs Let_def)
  moreover have "case candidate_for_backend p3 route b e now of
           (q, Some c) \<Rightarrow> cd_backend_id c = b \<and> cd_half_open c
             \<and> map_option bs_circuit (hm_get (bp_states q) b) = Some CIRCUIT_HALF_OPEN
         | _ \<Rightarrow> False" if "now \<ge> t3 + bp_open_duration p" "eligible p route e t b"
    using that g3 assms(1)
    by (auto simp: candidate_for_backend_def circuit_gate_def circuit_defs eligible_def has_slot_def Let_def)
  ultimately show ?thesis using g2 by blast
qed

theorem circuit_opens_after_three_witness:
  "candidate_for_backend (note_result (note_result (note_result (demo_pool 0) 1 False 0) 1 False 5) 1 False 9)
     (demo_route RoundRobin) 1 exclusions_default 30008
   = (note_result (note_result (note_result (demo_pool 0) 1 False 0) 1 False 5) 1 False 9, None)"
proof -
  have "hm_get (bp_states (demo_pool 0)) 1 = Some (demo_state 1 0)" by (simp add: demo_pool_def)
  from circuit_opens_after_three [OF this _ _ refl refl, where now = 30008 and ?t1.0 = 0 and ?t2.0 = 5 and ?t3.0 = 9
      and route = "demo_route RoundRobin" and e = exclusions_default]
  show ?thesis by (simp add: demo_state_def demo_pool_def)
qed

text \<open>A half-open backend whose probe is out.\<close>

definition probing :: "ram_backend_pool \<Rightarrow> i64 \<Rightarrow> bool" where
  "probing p b \<longleftrightarrow> (\<exists>s. hm_get (bp_states p) b = Some s \<and> bs_circuit s = CIRCUIT_HALF_OPEN \<and> \<not> bs_half_open_probe s)"

lemma probing_not_candidate: "probing p b \<Longrightarrow> snd (candidate_for_backend p route b e now) = None"
  by (auto simp: probing_def candidate_for_backend_def circuit_gate_def circuit_defs)

lemma probing_claim:
  assumes "candidate_for_backend p route b e now = (q, Some c)" and "cd_half_open c"
    and "claim_candidate q route' c = (q', True)"
  shows "probing q' b"
proof -
  have c: "cd_backend_id c = b"
    using assms(1) by (auto simp: candidate_for_backend_def Let_def split: if_splits option.splits prod.splits)
  obtain s1 where "hm_get (bp_states q) b = Some s1" "bs_circuit s1 = CIRCUIT_HALF_OPEN"
    using assms(1,2) by (auto simp: candidate_for_backend_def circuit_gate_def circuit_defs Let_def
        split: if_splits option.splits prod.splits)
  with assms(2,3) c show ?thesis by (auto simp: claim_candidate_def probing_def Let_def split: if_splits)
qed

text \<open>What other requests can do to a probing backend, short of a result for it or its removal.\<close>

inductive unreported_step :: "i64 \<Rightarrow> ram_backend_pool \<Rightarrow> ram_backend_pool \<Rightarrow> bool" for b where
  "candidate_for_backend p route c e now = (q, r) \<Longrightarrow> unreported_step b p q"
| "claim_candidate p route c = (q, ok) \<Longrightarrow> unreported_step b p q"
| "unreported_step b p (lease_drop p l)"
| "c \<noteq> b \<Longrightarrow> unreported_step b p (note_result p c ok now)"
| "unreported_step b p (upsert_backend p be)"
| "hm_get snapshot b \<noteq> None \<Longrightarrow> unreported_step b p (sync_backends p snapshot)"

lemma probing_look: "probing p b \<Longrightarrow> candidate_for_backend p route c e now = (q, r) \<Longrightarrow> probing q b"
  by (auto simp: probing_def candidate_for_backend_def circuit_gate_def circuit_defs Let_def
      split: if_splits option.splits prod.splits)

lemma probing_drop: "probing p b \<Longrightarrow> probing (lease_drop p l) b"
  by (auto simp: probing_def lease_drop_def dec_inflight_def split: option.splits)

lemma probing_upsert: "probing p b \<Longrightarrow> probing (upsert_backend p be) b"
  by (auto simp: probing_def upsert_backend_def split: option.splits)

lemma probing_note: "probing p b \<Longrightarrow> c \<noteq> b \<Longrightarrow> probing (note_result p c ok now) b"
  by (auto simp: probing_def note_result_def Let_def split: option.splits)

lemma probing_sync:
  assumes "probing p b" and "hm_get snapshot b \<noteq> None"
  shows "probing (sync_backends p snapshot) b"
proof -
  have rm: "probing (sync_remove snapshot p' i) b" if "probing p' b" for p' i
    using that assms(2)
    by (cases "i = b") (auto simp: probing_def sync_remove_def Let_def put_state_def split: option.splits)
  have "probing (foldl (sync_remove snapshot) p' is) b" if "probing p' b" for p' "is"
    using that by (induction "is" arbitrary: p') (auto intro: rm)
  moreover have "probing (foldl upsert_backend p' bs) b" if "probing p' b" for p' bs
    using that by (induction bs arbitrary: p') (auto intro: probing_upsert)
  ultimately show ?thesis using assms(1) by (simp add: sync_backends_def Let_def)
qed

lemma probing_later_claim: "probing p b \<Longrightarrow> claim_candidate p route c = (q, ok) \<Longrightarrow> probing q b"
  by (cases "cd_backend_id c = b")
     (auto simp: probing_def claim_candidate_def Let_def split: option.splits if_splits)

lemma probing_step: "unreported_step b p q \<Longrightarrow> probing p b \<Longrightarrow> probing q b"
  by (induction rule: unreported_step.induct)
     (auto intro: probing_look probing_later_claim probing_drop probing_note probing_upsert probing_sync)

lemma probing_steps: "(unreported_step b)\<^sup>*\<^sup>* p q \<Longrightarrow> probing p b \<Longrightarrow> probing q b"
  by (induction rule: rtranclp_induct) (auto intro: probing_step)

text \<open>
  A half-open backend lets exactly one request through: once the probe is claimed, no look finds
  the backend eligible again, at any instant and for any route, whatever other requests and
  reloads do (dropping leases, the probe's own included), until a result is reported for it. A success closes
  the circuit at once; a failure opens it for a full window. In particular a probe that is dropped
  without a report keeps the backend out for good.
\<close>

theorem half_open_single_probe:
  assumes "candidate_for_backend p route b e now = (q, Some c)" and "cd_half_open c"
    and "claim_candidate q route c = (q1, True)" and "(unreported_step b)\<^sup>*\<^sup>* q1 q2"
  shows "snd (candidate_for_backend q2 route' b e' t) = None
    \<and> map_option bs_circuit (hm_get (bp_states (note_result q2 b True t)) b) = Some CIRCUIT_CLOSED
    \<and> map_option (\<lambda>s. (bs_circuit s, bs_opened_until s)) (hm_get (bp_states (note_result q2 b False t)) b)
        = Some (CIRCUIT_OPEN, Some (t + bp_open_duration q2))"
proof -
  have pr: "probing q2 b" by (rule probing_steps [OF assms(4) probing_claim [OF assms(1-3)]])
  then obtain s where "hm_get (bp_states q2) b = Some s" "bs_circuit s = CIRCUIT_HALF_OPEN" by (auto simp: probing_def)
  then show ?thesis using probing_not_candidate [OF pr]
    by (simp add: note_result_def Let_def circuit_defs)
qed

text \<open>At a backend whose probe's lease is dropped with no report: a year later it is still no candidate.\<close>

theorem half_open_single_probe_witness:
  "\<exists>q2. (unreported_step 1)\<^sup>*\<^sup>* q2 (lease_drop q2 \<lparr>bl_backend_id = 1\<rparr>)
     \<and> inflight q2 1 = 1 \<and> inflight (lease_drop q2 \<lparr>bl_backend_id = 1\<rparr>) 1 = 0
     \<and> snd (candidate_for_backend (lease_drop q2 \<lparr>bl_backend_id = 1\<rparr>) (demo_route RoundRobin) 1 exclusions_default 31536000000) = None"
proof -
  let ?s = "(demo_state 1 0)\<lparr>bs_circuit := CIRCUIT_OPEN, bs_opened_until := Some 30000, bs_half_open_probe := False\<rparr>"
  let ?p = "(demo_pool 0)\<lparr>bp_states := [(1, ?s)]\<rparr>"
  let ?q = "put_state ?p 1 (?s\<lparr>bs_circuit := CIRCUIT_HALF_OPEN, bs_half_open_probe := True\<rparr>)"
  let ?c = "\<lparr>cd_backend_id = 1, cd_score = f64_round 0, cd_half_open = True\<rparr>"
  let ?q1 = "put_state ?q 1 (?s\<lparr>bs_circuit := CIRCUIT_HALF_OPEN, bs_half_open_probe := False, bs_inflight := 1\<rparr>)"
  have look: "candidate_for_backend ?p (demo_route RoundRobin) 1 exclusions_default 30000 = (?q, Some ?c)"
    by (simp add: candidate_for_backend_def excl.has_none endpoint_enabled_def circuit_gate_def circuit_defs
        effective_max_def endpoint_max_inflight_def demo_defs Let_def)
  have claim: "claim_candidate ?q (demo_route RoundRobin) ?c = (?q1, True)"
    by (simp add: claim_candidate_def effective_max_def endpoint_max_inflight_def demo_defs Let_def put_state_def)
  have drop: "(unreported_step 1)\<^sup>*\<^sup>* ?q1 (lease_drop ?q1 \<lparr>bl_backend_id = 1\<rparr>)"
    by (intro r_into_rtranclp unreported_step.intros)
  have "snd (candidate_for_backend (lease_drop ?q1 \<lparr>bl_backend_id = 1\<rparr>) (demo_route RoundRobin) 1 exclusions_default 31536000000) = None"
    using half_open_single_probe [OF look _ claim drop] by simp
  then show ?thesis using drop
    by (intro exI [of _ ?q1]) (simp add: inflight_def lease_drop_def dec_inflight_def sat_sub_def)
qed

section \<open>Reloads\<close>

lemma fold_remove_get:
  "hm_get (bp_states (foldl (sync_remove snapshot) p is)) b =
    (if b \<in> set is \<and> hm_get snapshot b = None
     then (case hm_get (bp_states p) b of None \<Rightarrow> None
           | Some s \<Rightarrow> if bs_inflight s = 0 then None else Some (s\<lparr>bs_enabled := False\<rparr>))
     else hm_get (bp_states p) b)"
proof (induction "is" arbitrary: p)
  case (Cons i "is")
  have one: "hm_get (bp_states (sync_remove snapshot p i)) b =
      (if b = i \<and> hm_get snapshot i = None
       then (case hm_get (bp_states p) b of None \<Rightarrow> None
             | Some s \<Rightarrow> if bs_inflight s = 0 then None else Some (s\<lparr>bs_enabled := False\<rparr>))
       else hm_get (bp_states p) b)"
    by (auto simp: sync_remove_def Let_def put_state_def split: option.splits)
  show ?case using Cons.IH [of "sync_remove snapshot p i"] one by (auto split: option.splits)
qed simp

definition refreshed :: "backend \<Rightarrow> backend_state option \<Rightarrow> backend_state" where
  "refreshed be s = (case s of None \<Rightarrow> backend_state_new be
     | Some s \<Rightarrow> s\<lparr>bs_weight := be_weight be, bs_max_inflight := be_max_inflight be, bs_enabled := be_enabled be,
                   bs_base_url := Some (be_base_url be)\<rparr>)"

lemma upsert_get: "hm_get (bp_states (upsert_backend p be)) b =
    (if b = be_id be then Some (refreshed be (hm_get (bp_states p) b)) else hm_get (bp_states p) b)"
  by (auto simp: upsert_backend_def refreshed_def split: option.splits)

lemma fold_upsert_get:
  assumes "distinct (map fst m)" and "\<forall>(i, be) \<in> set m. be_id be = i"
  shows "hm_get (bp_states (foldl upsert_backend p (map snd m))) b =
    (case hm_get m b of None \<Rightarrow> hm_get (bp_states p) b | Some be \<Rightarrow> Some (refreshed be (hm_get (bp_states p) b)))"
  using assms
proof (induction m arbitrary: p)
  case (Cons x m)
  obtain i be where x: "x = (i, be)" by force
  have "hm_get m i = None" using Cons.prems(1) x by (simp add: map_of_eq_None_iff)
  then show ?case using Cons x by (auto simp: upsert_get split: option.splits)
qed simp

text \<open>
  A reload makes the pool follow the snapshot without losing a lease: every backend of the snapshot is
  present with its new limit, weight and switch, keeping its in-flight gauge and circuit; a backend that is
  gone from the snapshot is removed when idle and otherwise kept, disabled, until its leases are
  dropped. No gauge changes. (A snapshot is keyed by the backends' ids.)
\<close>

theorem sync_backends_exact:
  assumes "distinct (map fst snapshot)" and "\<forall>(i, be) \<in> set snapshot. be_id be = i"
  shows "hm_get (bp_states (sync_backends p snapshot)) b =
      (case hm_get snapshot b of
         Some be \<Rightarrow> Some (refreshed be (hm_get (bp_states p) b))
       | None \<Rightarrow> (case hm_get (bp_states p) b of None \<Rightarrow> None
           | Some s \<Rightarrow> if bs_inflight s = 0 then None else Some (s\<lparr>bs_enabled := False\<rparr>)))
    \<and> inflight (sync_backends p snapshot) b = inflight p b"
proof -
  have "hm_get (bp_states (sync_backends p snapshot)) b =
      (case hm_get snapshot b of
         Some be \<Rightarrow> Some (refreshed be (hm_get (bp_states p) b))
       | None \<Rightarrow> (case hm_get (bp_states p) b of None \<Rightarrow> None
           | Some s \<Rightarrow> if bs_inflight s = 0 then None else Some (s\<lparr>bs_enabled := False\<rparr>)))"
    using hm_get_Some_in_keys [of "bp_states p" b]
    by (auto simp: sync_backends_def Let_def fold_upsert_get [OF assms] fold_remove_get split: option.splits)
  then show ?thesis
    by (auto simp: inflight_def refreshed_def backend_state_new_def split: option.splits)
qed

theorem sync_backends_exact_witness:
  "hm_get (bp_states (sync_backends (demo_pool 0) [])) 2 = Some ((demo_state 1 3)\<lparr>bs_enabled := False\<rparr>)
   \<and> hm_get (bp_states (sync_backends (demo_pool 0) [])) 1 = None"
  using sync_backends_exact [of "[]" "demo_pool 0" 2] sync_backends_exact [of "[]" "demo_pool 0" 1]
  by (simp add: demo_pool_def demo_state_def)

text \<open>
  The check and the removal of a backend are two accesses. Between them a request that chose the
  backend before the reload can still claim it; its lease then survives the removal, and after the
  backend is loaded again the gauge no longer counts it.
\<close>

definition removal_check :: "ram_backend_pool \<Rightarrow> i64 \<Rightarrow> ram_backend_pool \<times> bool" where
  "removal_check p i = (case hm_get (bp_states p) i of
     Some s \<Rightarrow> (put_state p i (s\<lparr>bs_enabled := False\<rparr>), bs_inflight s = 0) | None \<Rightarrow> (p, True))"

definition removal :: "ram_backend_pool \<Rightarrow> i64 \<Rightarrow> ram_backend_pool" where
  "removal p i = p\<lparr>bp_states := hm_remove i (bp_states p)\<rparr>"

lemma sync_remove_split:
  "sync_remove snapshot p i = (if hm_get snapshot i = None
     then (case removal_check p i of (p1, ok) \<Rightarrow> if ok then removal p1 i else p1) else p)"
  by (auto simp: sync_remove_def removal_check_def removal_def split: option.splits)

text \<open>
  A claim between the check and the removal escapes the gauge: two leases of a backend limited to one are
  alive at the same time, with the gauge at one.
\<close>

theorem removal_race_exceeds_limit:
  "\<exists>p be c. be_max_inflight be = 1 \<and> be_id be = 1 \<and> inflight p 1 = 0 \<and>
    (case removal_check p 1 of (p1, removable) \<Rightarrow> removable \<and>
    (case claim_candidate p1 (demo_route RoundRobin) c of (p2, ok1) \<Rightarrow> ok1 \<and>
    (case claim_candidate (upsert_backend (removal p2 1) be) (demo_route RoundRobin) c of (p3, ok2) \<Rightarrow> ok2 \<and>
      live_leases [\<lparr>bl_backend_id = cd_backend_id c\<rparr>, \<lparr>bl_backend_id = cd_backend_id c\<rparr>] 1 = 2 \<and> inflight p3 1 = 1)))"
proof -
  let ?be = "\<lparr>be_id = 1, be_name = [], be_base_url = [], be_api_key_ref = [], be_api_key = None,
    be_weight = 1, be_max_inflight = 1, be_format = FmtOpenAi, be_enabled = True\<rparr>"
  let ?p = "(demo_pool 0)\<lparr>bp_states := [(1, backend_state_new ?be)]\<rparr>"
  let ?c = "\<lparr>cd_backend_id = 1, cd_score = 0, cd_half_open = False\<rparr>"
  show ?thesis
    by (intro exI [of _ ?p] exI [of _ ?be] exI [of _ ?c])
       (simp add: removal_check_def removal_def claim_candidate_def upsert_backend_def backend_state_new_def
        effective_max_def endpoint_max_inflight_def inflight_def live_leases_def put_state_def demo_route_def Let_def)
qed

end
