(* ===== verification/Upload.thy ===== *)
theory Upload
  imports Prelude
begin

text \<open>
  The two request bodies of known length in \<open>src/proxy/mod.rs\<close>: \<open>ExactLengthUploadBody\<close> (a prefix
  already read, then the rest of the client's stream) and \<open>ExactLengthChunksBody\<close> (the pieces of an edited body). A
  stream is the list of what its polls yield; \<open>Pending\<close> polls change nothing and are left out.
\<close>

datatype stream_item = Chunk bytes | StreamError string

datatype frame = Data bytes | FrameError string | EndOfBody

section \<open>Uploads\<close>

record exact_length_upload_body =
  up_prefix :: "bytes option"
  up_rest :: "stream_item list"
  up_sent :: u64
  up_ended :: bool
  up_content_length :: u64

definition upload_new :: "bytes \<Rightarrow> stream_item list \<Rightarrow> u64 \<Rightarrow> exact_length_upload_body" where
  "upload_new prefix rest content_length =
     \<lparr>up_prefix = Some prefix, up_rest = rest, up_sent = 0, up_ended = False, up_content_length = content_length\<rparr>"

definition upload_poll_rest :: "exact_length_upload_body \<Rightarrow> exact_length_upload_body \<times> frame" where
  "upload_poll_rest b =
     (case up_rest b of
        Chunk c # r \<Rightarrow> (b\<lparr>up_rest := r, up_sent := sat_add (up_sent b) (word_of_nat (length c))\<rparr>, Data c)
      | StreamError e # r \<Rightarrow> (b\<lparr>up_rest := r\<rparr>, FrameError e)
      | [] \<Rightarrow> (b\<lparr>up_ended := True\<rparr>, EndOfBody))"

definition upload_poll_frame :: "exact_length_upload_body \<Rightarrow> exact_length_upload_body \<times> frame" where
  "upload_poll_frame b =
     (case up_prefix b of
        Some prefix \<Rightarrow>
          (let b1 = b\<lparr>up_prefix := None\<rparr> in
           if prefix = [] then upload_poll_rest b1
           else (b1\<lparr>up_sent := sat_add (up_sent b1) (word_of_nat (length prefix))\<rparr>, Data prefix))
      | None \<Rightarrow> upload_poll_rest b)"

definition upload_size_hint :: "exact_length_upload_body \<Rightarrow> u64" where
  "upload_size_hint b = sat_sub (up_content_length b) (up_sent b)"

section \<open>Chunks\<close>

record exact_length_chunks_body =
  ck_chunks :: "bytes list"
  ck_sent :: u64
  ck_ended :: bool
  ck_content_length :: u64

definition chunks_new :: "bytes list \<Rightarrow> exact_length_chunks_body" where
  "chunks_new chunks =
     \<lparr>ck_chunks = chunks, ck_sent = 0, ck_ended = False,
      ck_content_length = sum_list (map (\<lambda>c. word_of_nat (length c)) chunks)\<rparr>"

definition chunks_poll_frame :: "exact_length_chunks_body \<Rightarrow> exact_length_chunks_body \<times> frame" where
  "chunks_poll_frame b =
     (case dropWhile (\<lambda>c. c = []) (ck_chunks b) of
        c # cs \<Rightarrow> (b\<lparr>ck_chunks := cs, ck_sent := sat_add (ck_sent b) (word_of_nat (length c))\<rparr>, Data c)
      | [] \<Rightarrow> (b\<lparr>ck_chunks := [], ck_ended := True\<rparr>, EndOfBody))"

definition chunks_size_hint :: "exact_length_chunks_body \<Rightarrow> u64" where
  "chunks_size_hint b = sat_sub (ck_content_length b) (ck_sent b)"

section \<open>The contract of an exact-length body\<close>

text \<open>The frames a body has sent between two states.\<close>

inductive sends :: "('s \<Rightarrow> 's \<times> frame) \<Rightarrow> 's \<Rightarrow> bytes list \<Rightarrow> 's \<Rightarrow> bool" for poll where
  sends_none: "sends poll s [] s"
| sends_data: "poll s = (s', Data c) \<Longrightarrow> sends poll s' cs t \<Longrightarrow> sends poll s (c # cs) t"

text \<open>
  What the HTTP client relies on: a data frame is the next piece of what is left, the end is
  announced only when nothing is left, and the size hint is the number of bytes left.
\<close>

locale exact_body =
  fixes poll :: "'s \<Rightarrow> 's \<times> frame" and left :: "'s \<Rightarrow> bytes" and hint :: "'s \<Rightarrow> u64" and fine :: "'s \<Rightarrow> bool"
  assumes poll_data: "fine s \<Longrightarrow> poll s = (s', Data c) \<Longrightarrow> left s = c @ left s' \<and> fine s'"
    and poll_end: "fine s \<Longrightarrow> poll s = (s', EndOfBody) \<Longrightarrow> left s = []"
    and hint_exact: "fine s \<Longrightarrow> unat (hint s) = length (left s)"
begin

lemma sends_left: "sends poll s cs t \<Longrightarrow> fine s \<Longrightarrow> left s = concat cs @ left t \<and> fine t"
  by (induction rule: sends.induct) (auto dest: poll_data)

lemma sends_hint: "sends poll s cs t \<Longrightarrow> fine s \<Longrightarrow> unat (hint t) + length (concat cs) = unat (hint s)"
  using sends_left hint_exact by fastforce

lemma sends_complete: "sends poll s cs t \<Longrightarrow> fine s \<Longrightarrow> snd (poll t) = EndOfBody \<Longrightarrow> concat cs = left s"
  using sends_left [of s cs t] poll_end [of t] by (metis append_Nil2 prod.collapse)

end

definition item_bytes :: "stream_item \<Rightarrow> bytes" where
  "item_bytes i = (case i of Chunk c \<Rightarrow> c | StreamError _ \<Rightarrow> [])"

definition upload_left :: "exact_length_upload_body \<Rightarrow> bytes" where
  "upload_left b = unwrap_or [] (up_prefix b) @ concat (map item_bytes (up_rest b))"

definition upload_fine :: "exact_length_upload_body \<Rightarrow> bool" where
  "upload_fine b \<longleftrightarrow> unat (up_sent b) + length (upload_left b) = unat (up_content_length b)"

definition chunks_fine :: "exact_length_chunks_body \<Rightarrow> bool" where
  "chunks_fine b \<longleftrightarrow> unat (ck_sent b) + length (concat (ck_chunks b)) = unat (ck_content_length b)"

lemma sent_grows:
  assumes "unat (s :: u64) + (n + k) = unat (l :: u64)"
  shows "unat (sat_add s (word_of_nat n)) + k = unat l"
proof -
  have "n + unat s < 2 ^ 64" using assms unsigned_less [of l, where ?'a = nat] by simp
  then show ?thesis using assms by (simp add: unat_sat_add unat_of_nat)
qed

interpretation upload: exact_body upload_poll_frame upload_left upload_size_hint upload_fine
proof
  fix s s' c assume f: "upload_fine s" and p: "upload_poll_frame s = (s', Data c)"
  show "upload_left s = c @ upload_left s' \<and> upload_fine s'"
  proof (cases "up_prefix s = None \<or> up_prefix s = Some []")
    case True
    then obtain r where "up_rest s = Chunk c # r" "up_rest s' = r" "up_prefix s' = None"
        "up_sent s' = sat_add (up_sent s) (word_of_nat (length c))" "up_content_length s' = up_content_length s"
      using p by (auto simp: upload_poll_frame_def upload_poll_rest_def Let_def split: list.splits stream_item.splits)
    then show ?thesis using True f sent_grows [of "up_sent s" "length c"]
      by (auto simp: upload_left_def upload_fine_def item_bytes_def)
  next
    case False
    then obtain q where "up_prefix s = Some q" "q \<noteq> []" by auto
    then show ?thesis using p f sent_grows [of "up_sent s" "length c"]
      by (auto simp: upload_poll_frame_def upload_left_def upload_fine_def)
  qed
next
  fix s s' assume "upload_fine s" and "upload_poll_frame s = (s', EndOfBody)"
  then show "upload_left s = []"
    by (auto simp: upload_poll_frame_def upload_poll_rest_def upload_left_def Let_def
        split: option.splits if_splits list.splits stream_item.splits)
next
  fix s assume "upload_fine s"
  then show "unat (upload_size_hint s) = length (upload_left s)"
    by (simp add: upload_fine_def upload_size_hint_def)
qed

lemma concat_dropWhile_Nil: "concat (dropWhile (\<lambda>c. c = []) cs) = concat cs"
  by (induction cs) auto

interpretation chunks: exact_body chunks_poll_frame "\<lambda>b. concat (ck_chunks b)" chunks_size_hint chunks_fine
proof
  fix s s' c assume f: "chunks_fine s" and p: "chunks_poll_frame s = (s', Data c)"
  obtain cs where cs: "dropWhile (\<lambda>c. c = []) (ck_chunks s) = c # cs"
      "s' = s\<lparr>ck_chunks := cs, ck_sent := sat_add (ck_sent s) (word_of_nat (length c))\<rparr>"
    using p by (auto simp: chunks_poll_frame_def split: list.splits)
  have eq: "concat (ck_chunks s) = c @ concat cs" using concat_dropWhile_Nil [of "ck_chunks s"] cs(1) by simp
  then show "concat (ck_chunks s) = c @ concat (ck_chunks s') \<and> chunks_fine s'"
    using f sent_grows [of "ck_sent s" "length c"] by (simp add: cs(2) chunks_fine_def)
next
  fix s s' assume "chunks_fine s" and "chunks_poll_frame s = (s', EndOfBody)"
  then show "concat (ck_chunks s) = []"
    using concat_dropWhile_Nil [of "ck_chunks s"] by (auto simp: chunks_poll_frame_def split: list.splits)
next
  fix s assume "chunks_fine s"
  then show "unat (chunks_size_hint s) = length (concat (ck_chunks s))"
    by (simp add: chunks_fine_def chunks_size_hint_def)
qed

lemma chunks_new_fine:
  assumes "length (concat chunks) < 2 ^ 64"
  shows "chunks_fine (chunks_new chunks)"
proof -
  have "sum_list (map (\<lambda>c. word_of_nat (length c)) chunks) = (word_of_nat (length (concat chunks)) :: u64)" for chunks :: "bytes list"
    by (induction chunks) simp_all
  then show ?thesis using assms by (simp add: chunks_fine_def chunks_new_def unat_of_nat)
qed

text \<open>
  Bodies of known length are sent whole: whatever frames a rewritten body or a streamed upload of the
  declared length has sent when its end is announced, they are its bytes in order, and at every moment the
  size hint is exactly the number of bytes still to come (so the \<open>Content-Length\<close> sent upstream is honoured).
\<close>

theorem exact_length_bodies:
  assumes "length (concat parts) < 2 ^ 64" and "unat n = length (prefix @ concat (map item_bytes rest))"
    and "sends chunks_poll_frame (chunks_new parts) cs t" and "sends upload_poll_frame (upload_new prefix rest n) us u"
  shows "(snd (chunks_poll_frame t) = EndOfBody \<longrightarrow> concat cs = concat parts)
    \<and> unat (chunks_size_hint t) + length (concat cs) = length (concat parts)
    \<and> (snd (upload_poll_frame u) = EndOfBody \<longrightarrow> concat us = prefix @ concat (map item_bytes rest))
    \<and> unat (upload_size_hint u) + length (concat us) = unat n"
proof -
  have c: "chunks_fine (chunks_new parts)" by (rule chunks_new_fine [OF assms(1)])
  have u: "upload_fine (upload_new prefix rest n)" using assms(2) by (simp add: upload_fine_def upload_new_def upload_left_def)
  show ?thesis
    using chunks.sends_complete [OF assms(3) c] chunks.sends_hint [OF assms(3) c] chunks.hint_exact [OF c]
      upload.sends_complete [OF assms(4) u] upload.sends_hint [OF assms(4) u] upload.hint_exact [OF u] assms(2)
    by (simp add: chunks_new_def upload_new_def upload_left_def)
qed

theorem exact_length_bodies_witness:
  "\<exists>t u. sends chunks_poll_frame (chunks_new [''ab'', [], ''c'']) [''ab'', ''c''] t \<and> sends upload_poll_frame (upload_new ''x'' [Chunk ''yz''] 3) [''x''] u
     \<and> unat (chunks_size_hint t) + 3 = 3 \<and> unat (upload_size_hint u) + 1 = 3"
proof -
  obtain t where t: "sends chunks_poll_frame (chunks_new [''ab'', [], ''c'']) [''ab'', ''c''] t"
    by (rule that) (rule sends_data, simp add: chunks_new_def chunks_poll_frame_def,
        rule sends_data, simp add: chunks_poll_frame_def, rule sends_none)
  obtain u where u: "sends upload_poll_frame (upload_new ''x'' [Chunk ''yz''] 3) [''x''] u"
    by (rule that) (rule sends_data, simp add: upload_new_def upload_poll_frame_def, rule sends_none)
  from exact_length_bodies [of "[''ab'', [], ''c'']" 3 "''x''" "[Chunk ''yz'']", OF _ _ t u] t u show ?thesis
    by (intro exI [of _ t] exI [of _ u]) (simp add: item_bytes_def)
qed

end
