(* ===== verification/Bridge.thy ===== *)
theory Bridge
  imports Json Upload
begin

text \<open>
  The shared part of the Anthropic-to-OpenAI bridge, \<open>src/bridge/mod.rs\<close>: its context and errors, the
  framing of Anthropic events, identifiers and signatures, the error envelope, and the bounded read of an
  upstream body. The JSON printer and parser are the parameter \<open>sd\<close>.
\<close>

section \<open>Limits, context, errors\<close>

definition NONSTREAM_RESPONSE_LIMIT :: usize where "NONSTREAM_RESPONSE_LIMIT = 8 * 1024 * 1024"
definition ERROR_BODY_LIMIT :: usize where "ERROR_BODY_LIMIT = 64 * 1024"
definition SSE_LINE_LIMIT :: usize where "SSE_LINE_LIMIT = 1024 * 1024"

record bridge_context =
  bc_public_model :: string
  bc_request_id :: string
  bc_estimated_input_tokens :: u64

datatype bridge_error =
    InvalidRequest string
  | Unsupported string
  | Upstream string
  | TooLarge

fun bridge_error_status :: "bridge_error \<Rightarrow> u16" where
  "bridge_error_status (InvalidRequest _) = 400"
| "bridge_error_status (Unsupported _) = 400"
| "bridge_error_status (Upstream _) = 502"
| "bridge_error_status TooLarge = 502"

fun bridge_error_message :: "bridge_error \<Rightarrow> string" where
  "bridge_error_message (InvalidRequest message) = message"
| "bridge_error_message (Unsupported message) = message"
| "bridge_error_message (Upstream message) = message"
| "bridge_error_message TooLarge = ''bridge response exceeded the size limit''"

section \<open>Events and identifiers\<close>

definition newline :: char where "newline = CHR 0x0A"

definition sse_event :: "serde \<Rightarrow> string \<Rightarrow> json \<Rightarrow> bytes" where
  "sse_event sd event data =
     ''event: '' @ event @ [newline] @ ''data: '' @ to_string sd data @ [newline, newline]"

text \<open>FNV-1a over the bytes of the text.\<close>

unbundle bit_operations_syntax

definition fnv_step :: "u64 \<Rightarrow> char \<Rightarrow> u64" where
  "fnv_step hash byte = (hash XOR of_nat (byte_val byte)) * 0x100000001b3"

definition thinking_signature :: "string \<Rightarrow> string" where
  "thinking_signature text = ''brighto-bridge-'' @ hex16 (foldl fnv_step 0xcbf29ce484222325 text)"


definition bridge_message_id :: "string \<Rightarrow> string option \<Rightarrow> string" where
  "bridge_message_id request_id upstream =
     (case filter_opt (\<lambda>v. v \<noteq> []) upstream of
        Some i \<Rightarrow> i
      | None \<Rightarrow>
          (let safe = take 48 (filter (\<lambda>c. is_ascii_alnum c \<or> c = CHR ''-'' \<or> c = CHR ''_'') request_id)
           in if safe = [] then ''msg_bridge'' else ''msg_bridge_'' @ safe))"

section \<open>The error envelope\<close>

definition anthropic_error_type :: "u16 \<Rightarrow> string" where
  "anthropic_error_type status =
     (if status = 400 \<or> status = 422 then ''invalid_request_error''
      else if status = 401 then ''authentication_error''
      else if status = 403 then ''permission_error''
      else if status = 404 then ''not_found_error''
      else if status = 413 then ''request_too_large''
      else if status = 429 then ''rate_limit_error''
      else if status = 503 \<or> status = 529 then ''overloaded_error''
      else ''api_error'')"

text \<open>The first \<open>n\<close> characters of a UTF-8 string.\<close>

fun take_chars :: "nat \<Rightarrow> string \<Rightarrow> string" where
  "take_chars n [] = []"
| "take_chars n (c # cs) =
     (if is_continuation c then c # take_chars n cs
      else case n of 0 \<Rightarrow> [] | Suc k \<Rightarrow> c # take_chars k cs)"

definition ellipsis :: string where
  "ellipsis = [char_of (226 :: nat), char_of (128 :: nat), char_of (166 :: nat)]"

definition truncate_message :: "string \<Rightarrow> string" where
  "truncate_message message =
     (if char_count message \<le> 2000 then message else take_chars 2000 message @ ellipsis)"

definition anthropic_error_value :: "u16 \<Rightarrow> string \<Rightarrow> json" where
  "anthropic_error_value status message =
     jobj [(''type'', JString ''error''),
           (''error'', jobj [(''type'', JString (anthropic_error_type status)),
                             (''message'', JString (truncate_message message))])]"

definition anthropic_error_body :: "serde \<Rightarrow> u16 \<Rightarrow> string \<Rightarrow> bytes" where
  "anthropic_error_body sd status message = to_string sd (anthropic_error_value status message)"

definition sse_error_value :: "serde \<Rightarrow> u16 \<Rightarrow> string \<Rightarrow> json" where
  "sse_error_value sd status message =
     (case from_slice sd (anthropic_error_body sd status message) of
        Inr v \<Rightarrow> v
      | Inl _ \<Rightarrow> jobj [(''type'', JString ''error'')])"

definition anthropic_sse_error :: "serde \<Rightarrow> u16 \<Rightarrow> string \<Rightarrow> bytes" where
  "anthropic_sse_error sd status message = sse_event sd ''error'' (sse_error_value sd status message)"

definition is_error_envelope :: "json \<Rightarrow> bool" where
  "is_error_envelope v \<longleftrightarrow> jget_str v ''type'' = Some ''error'' \<and> jget v ''error'' \<noteq> None"

definition is_anthropic_error_body :: "serde \<Rightarrow> bytes \<Rightarrow> bool" where
  "is_anthropic_error_body sd body =
     (case from_slice sd body of Inr v \<Rightarrow> is_error_envelope v | Inl _ \<Rightarrow> False)"

definition translate_upstream_error :: "serde \<Rightarrow> u16 \<Rightarrow> bytes \<Rightarrow> string \<Rightarrow> bytes" where
  "translate_upstream_error sd status body fallback =
     (case from_slice sd body of
        Inr v \<Rightarrow>
          if is_error_envelope v then body
          else anthropic_error_body sd status
                 (unwrap_or fallback (or_else (Option.bind (pointer v [''error'', ''message'']) as_str) (jget_str v ''message'')))
      | Inl _ \<Rightarrow> anthropic_error_body sd status fallback)"

section \<open>Reading an upstream body\<close>

fun read_chunks :: "usize \<Rightarrow> bytes \<Rightarrow> stream_item list \<Rightarrow> bridge_error + bytes" where
  "read_chunks limit out [] = Inr out"
| "read_chunks limit out (StreamError e # rest) = Inl (Upstream e)"
| "read_chunks limit out (Chunk c # rest) =
     (if usat_add (length out) (length c) > limit then Inl TooLarge else read_chunks limit (out @ c) rest)"

definition read_body_limited :: "u64 option \<Rightarrow> stream_item list \<Rightarrow> usize \<Rightarrow> bridge_error + bytes" where
  "read_body_limited content_length stream limit =
     (if (case content_length of Some n \<Rightarrow> unat n > limit | None \<Rightarrow> False) then Inl TooLarge
      else read_chunks limit [] stream)"

section \<open>Facts\<close>

lemma take_chars_count: "char_count (take_chars n s) \<le> n"
proof (induction n s rule: take_chars.induct)
  case (2 n c cs)
  then show ?case by (auto simp: char_count_def split: nat.splits)
qed (simp add: char_count_def)

lemma take_chars_prefix: "\<exists>r. s = take_chars n s @ r"
proof (induction n s rule: take_chars.induct)
  case (2 n c cs)
  then show ?case by (auto split: nat.splits)
qed simp

lemma truncate_message_bound: "char_count (truncate_message m) \<le> 2001"
proof (cases "char_count m \<le> 2000")
  case False
  have "char_count ellipsis = 1" by (simp add: ellipsis_def char_count_def is_continuation_def byte_val_def)
  then show ?thesis using False take_chars_count [of 2000 m] by (simp add: truncate_message_def)
qed (simp add: truncate_message_def)

lemma read_chunks_sound:
  assumes "read_chunks limit out stream = Inr r" and "length out \<le> limit" and "limit < usize_max"
  shows "length r \<le> limit \<and> (\<exists>cs. stream = map Chunk cs \<and> r = out @ concat cs)"
  using assms
proof (induction limit out stream rule: read_chunks.induct)
  case (3 limit out c rest)
  then have "length out + length c \<le> limit" "read_chunks limit (out @ c) rest = Inr r"
    by (auto simp: usat_add_def split: if_splits)
  then obtain cs where "length r \<le> limit" "rest = map Chunk cs" "r = (out @ c) @ concat cs"
    using 3 by (auto split: if_splits)
  then show ?case by (intro conjI exI [of _ "c # cs"]) auto
qed auto

lemma envelope_is_envelope: "is_error_envelope (anthropic_error_value status m)"
  by (simp add: is_error_envelope_def anthropic_error_value_def json_simps)

text \<open>
  C33. Every upstream error reaches an Anthropic client as an Anthropic error envelope: what
  \<open>translate_upstream_error\<close> returns parses as one for any status and body, an envelope the upstream sent itself is
  passed on unchanged, and any other message is cut to at most 2000 characters and an ellipsis. (The JSON printer's
  output parses back.)
\<close>

theorem upstream_errors_enveloped:
  assumes "\<And>m. from_slice sd (to_string sd (anthropic_error_value status m)) = Inr (anthropic_error_value status m)"
  shows "is_anthropic_error_body sd (translate_upstream_error sd status body fallback)
    \<and> (if is_anthropic_error_body sd body then translate_upstream_error sd status body fallback = body
       else \<exists>m. char_count m \<le> 2001 \<and> from_slice sd (translate_upstream_error sd status body fallback)
              = Inr (jobj [(''type'', JString ''error''), (''error'', jobj [(''type'', JString (anthropic_error_type status)),
                  (''message'', JString m)])]))"
proof -
  have env: "is_anthropic_error_body sd (anthropic_error_body sd status m)" for m
    by (simp add: is_anthropic_error_body_def anthropic_error_body_def assms envelope_is_envelope)
  have msg: "from_slice sd (anthropic_error_body sd status m) = Inr (jobj [(''type'', JString ''error''),
      (''error'', jobj [(''type'', JString (anthropic_error_type status)), (''message'', JString (truncate_message m))])])" for m
    by (simp add: anthropic_error_body_def assms) (simp add: anthropic_error_value_def)
  show ?thesis
  proof (cases "is_anthropic_error_body sd body")
    case True
    then have "translate_upstream_error sd status body fallback = body"
      by (auto simp: is_anthropic_error_body_def translate_upstream_error_def split: sum.splits)
    then show ?thesis using True by simp
  next
    case False
    then obtain m where "translate_upstream_error sd status body fallback = anthropic_error_body sd status m"
      by (auto simp: is_anthropic_error_body_def translate_upstream_error_def split: sum.splits)
    then show ?thesis using False env [of m] msg [of m] truncate_message_bound [of m] by auto
  qed
qed

theorem upstream_errors_enveloped_witness:
  "\<exists>sd. is_anthropic_error_body sd (translate_upstream_error sd 500 ''x'' ''failed'') \<and> \<not> is_anthropic_error_body sd ''x''"
proof -
  define sd where "sd = \<lparr>from_slice = (\<lambda>b. case b of [] \<Rightarrow> Inl ''eof''
      | c # s \<Rightarrow> if c = CHR ''e'' then Inr (jobj [(''type'', JString ''error''), (''error'', jobj [(''type'', JString ''api_error''),
                  (''message'', JString s)])]) else Inl ''bad''),
      to_string = (\<lambda>v. CHR ''e'' # unwrap_or [] (Option.bind (pointer v [''error'', ''message'']) as_str))\<rparr>"
  have "from_slice sd (to_string sd (anthropic_error_value 500 m)) = Inr (anthropic_error_value 500 m)" for m
    by (simp add: sd_def anthropic_error_value_def json_simps anthropic_error_type_def)
  from upstream_errors_enveloped [of sd 500 "''x''" "''failed''", OF this] show ?thesis
    by (intro exI [of _ sd]) (simp add: sd_def is_anthropic_error_body_def)
qed

end
