(* ===== verification/Reporter.thy ===== *)
theory Reporter
  imports Ledger Lease Bridge
begin

text \<open>
  The shared state of the router (\<open>AppState\<close>), the context of a request and the \<open>CompletionReporter\<close> of
  \<open>src/proxy/mod.rs\<close>, which settles a forwarded request: budget, concurrency slot, backend lease, ledger and metrics. Times
  are what the clocks showed; the metrics are the calls made, with milliseconds where the code divides by 1000.
\<close>

section \<open>State\<close>

datatype metric =
    RequestTotal i64 i64 string string u16
  | TokensTotal i64 i64 string string string bool u64
  | ObserveTtfb string string bool u64
  | ObserveOverhead string string bool u64

record app_state =
  as_store :: ram_budget_store
  as_pool :: ram_backend_pool
  as_counters :: counter_db
  as_ledger :: ledger_sink
  as_metrics :: "metric list"

definition emit :: "metric list \<Rightarrow> app_state \<Rightarrow> app_state" where
  "emit ms st = st\<lparr>as_metrics := as_metrics st @ ms\<rparr>"

datatype response_dialect = DialectOpenAi | DialectAnthropic

record proxy_context =
  pc_api_key :: api_key
  pc_model_name :: string
  pc_route :: model_route
  pc_request_id :: string
  pc_stream :: bool
  pc_stream_options_present :: bool
  pc_protocol :: provider_protocol
  pc_rewrite_model_in_proxy :: bool
  pc_bridge :: "bridge_context option"
  pc_response_dialect :: response_dialect
  pc_reservation :: "budget_reservation option"
  pc_concurrency :: "concurrency_guard option"
  pc_estimated_input_tokens :: u64

definition anthropic_errors :: "proxy_context \<Rightarrow> bool" where
  "anthropic_errors ctx = (pc_response_dialect ctx = DialectAnthropic)"

record request_meta =
  rm_key_id :: i64
  rm_team_id :: i64
  rm_model :: string
  rm_request_id :: string

definition meta_from_ctx :: "proxy_context \<Rightarrow> request_meta" where
  "meta_from_ctx ctx =
     \<lparr>rm_key_id = ak_id (pc_api_key ctx), rm_team_id = ak_team_id (pc_api_key ctx),
      rm_model = pc_model_name ctx, rm_request_id = pc_request_id ctx\<rparr>"

section \<open>The reporter\<close>

record completion_reporter =
  cr_meta :: request_meta
  cr_backend_id :: i64
  cr_backend_name :: string
  cr_stream :: bool
  cr_pre_forward_ms :: u64
  cr_ttfb_ms :: u64
  cr_reservation :: "budget_reservation option"
  cr_concurrency :: "concurrency_guard option"
  cr_estimated_input_tokens :: u64
  cr_lease :: backend_lease
  cr_finished :: bool

definition reporter_new ::
  "proxy_context \<Rightarrow> i64 \<Rightarrow> string \<Rightarrow> u64 \<Rightarrow> u64 \<Rightarrow> budget_reservation option \<Rightarrow> concurrency_guard option \<Rightarrow> backend_lease
   \<Rightarrow> completion_reporter" where
  "reporter_new ctx backend_id backend_name pre_forward_ms ttfb_ms reservation concurrency lease =
     \<lparr>cr_meta = meta_from_ctx ctx, cr_backend_id = backend_id, cr_backend_name = backend_name, cr_stream = pc_stream ctx,
      cr_pre_forward_ms = pre_forward_ms, cr_ttfb_ms = ttfb_ms, cr_reservation = reservation, cr_concurrency = concurrency,
      cr_estimated_input_tokens = pc_estimated_input_tokens ctx, cr_lease = lease, cr_finished = False\<rparr>"

text \<open>What the clocks show when an event is written.\<close>

record clocks =
  clk_now_secs :: i64
  clk_total_ms :: u64
  clk_now_millis :: u64

record completion =
  co_status :: u16
  co_input_tokens :: u64
  co_output_tokens :: u64
  co_estimated :: bool
  co_client_aborted :: bool
  co_error_class :: "string option"

definition usage_event_of :: "completion_reporter \<Rightarrow> clocks \<Rightarrow> completion \<Rightarrow> usage_event" where
  "usage_event_of r clk c =
     \<lparr>ev_ts = clk_now_secs clk, ev_request_id = rm_request_id (cr_meta r), ev_key_id = rm_key_id (cr_meta r),
      ev_team_id = rm_team_id (cr_meta r), ev_model = rm_model (cr_meta r), ev_backend_id = cr_backend_id r,
      ev_status = co_status c, ev_input_tokens = co_input_tokens c, ev_output_tokens = co_output_tokens c,
      ev_estimated = co_estimated c, ev_ttfb_ms = cr_ttfb_ms r, ev_total_ms = clk_total_ms clk,
      ev_router_overhead_ms = cr_pre_forward_ms r, ev_completed_at_ms = clk_now_millis clk, ev_stream = cr_stream r,
      ev_client_aborted = co_client_aborted c, ev_error_class = co_error_class c\<rparr>"

text \<open>A missing usage report is charged as the estimated input, at least one token.\<close>

definition charge_estimate :: "completion_reporter \<Rightarrow> completion \<Rightarrow> completion" where
  "charge_estimate r c =
     (if co_estimated c \<and> sat_add (co_input_tokens c) (co_output_tokens c) = 0
      then c\<lparr>co_input_tokens := max (cr_estimated_input_tokens r) 1, co_output_tokens := 0\<rparr> else c)"

definition finish_metrics :: "completion_reporter \<Rightarrow> completion \<Rightarrow> metric list" where
  "finish_metrics r c =
     (let m = cr_meta r; b = cr_backend_name r in
      [RequestTotal (rm_team_id m) (rm_key_id m) (rm_model m) b (co_status c)]
      @ (if co_input_tokens c > 0
         then [TokensTotal (rm_team_id m) (rm_key_id m) (rm_model m) b ''input'' (co_estimated c) (co_input_tokens c)] else [])
      @ (if co_output_tokens c > 0
         then [TokensTotal (rm_team_id m) (rm_key_id m) (rm_model m) b ''output'' (co_estimated c) (co_output_tokens c)] else [])
      @ [ObserveTtfb (rm_model m) b (cr_stream r) (cr_ttfb_ms r),
         ObserveOverhead (rm_model m) b (cr_stream r) (cr_pre_forward_ms r)])"

definition drop_guard :: "concurrency_guard option \<Rightarrow> ram_budget_store \<Rightarrow> ram_budget_store" where
  "drop_guard g store = (case g of None \<Rightarrow> store | Some g \<Rightarrow> guard_drop store g)"

definition reporter_finish ::
  "clocks \<Rightarrow> completion \<Rightarrow> app_state \<times> completion_reporter \<Rightarrow> app_state \<times> completion_reporter" where
  "reporter_finish clk c0 = (\<lambda>(st, r).
     if cr_finished r then (st, r)
     else
       (let c = charge_estimate r c0;
            actual = sat_add (co_input_tokens c) (co_output_tokens c);
            store1 = (case cr_reservation r of None \<Rightarrow> as_store st | Some res \<Rightarrow> reservation_commit (as_store st) res actual);
            store2 = drop_guard (cr_concurrency r) store1
        in (emit (finish_metrics r c)
              (st\<lparr>as_store := store2, as_ledger := try_record (as_ledger st) (usage_event_of r clk c)\<rparr>),
            r\<lparr>cr_finished := True, cr_reservation := None, cr_concurrency := None\<rparr>)))"

definition aborted_completion :: completion where
  "aborted_completion = \<lparr>co_status = 0, co_input_tokens = 0, co_output_tokens = 0, co_estimated = True,
     co_client_aborted = True, co_error_class = Some ''client_aborted''\<rparr>"

text \<open>The body of \<open>Drop\<close>, then the fields are dropped in the order of the declaration.\<close>

definition abort_unfinished :: "clocks \<Rightarrow> app_state \<times> completion_reporter \<Rightarrow> app_state \<times> completion_reporter" where
  "abort_unfinished clk = (\<lambda>(st, r).
     if cr_finished r then (st, r)
     else
       (let store1 = (case cr_reservation r of None \<Rightarrow> as_store st | Some res \<Rightarrow> reservation_rollback (as_store st) res);
            store2 = drop_guard (cr_concurrency r) store1;
            m = cr_meta r
        in (emit [RequestTotal (rm_team_id m) (rm_key_id m) (rm_model m) (cr_backend_name r) 0]
              (st\<lparr>as_store := store2, as_ledger := try_record (as_ledger st) (usage_event_of r clk aborted_completion)\<rparr>),
            r\<lparr>cr_finished := True, cr_reservation := None, cr_concurrency := None\<rparr>)))"

definition reporter_drop :: "clocks \<Rightarrow> app_state \<times> completion_reporter \<Rightarrow> app_state" where
  "reporter_drop clk s =
     (case abort_unfinished clk s of (st, r) \<Rightarrow>
        (let store1 = (case cr_reservation r of None \<Rightarrow> as_store st | Some res \<Rightarrow> reservation_drop (as_store st) res);
             store2 = drop_guard (cr_concurrency r) store1
         in st\<lparr>as_store := store2, as_pool := lease_drop (as_pool st) (cr_lease r)\<rparr>))"

section \<open>Settled exactly once\<close>

text \<open>The life of a reporter: any number of calls of \<open>finish\<close>, then its destructor.\<close>

definition reporter_life :: "(clocks \<times> completion) list \<Rightarrow> clocks \<Rightarrow> app_state \<Rightarrow> completion_reporter \<Rightarrow> app_state" where
  "reporter_life calls clk st r = reporter_drop clk (foldl (\<lambda>s (k, c). reporter_finish k c s) (st, r) calls)"

lemma finish_finished: "cr_finished r \<Longrightarrow> foldl (\<lambda>s (k, c). reporter_finish k c s) (st, r) calls = (st, r)"
  by (induction calls) (auto simp: reporter_finish_def)

lemma charge_estimate_pos:
  assumes "co_estimated c"
  shows "sat_add (co_input_tokens (charge_estimate r c)) (co_output_tokens (charge_estimate r c)) \<ge> 1"
proof (cases "sat_add (co_input_tokens c) (co_output_tokens c) = 0")
  case True
  have "sat_add x 0 = x" for x :: u64 using unsigned_less [where 'a = nat, of x] by (simp add: sat_add_def)
  then show ?thesis using True assms by (simp add: charge_estimate_def)
next
  case False
  then show ?thesis by (simp add: charge_estimate_def word_le_nat_alt unat_eq_0 Suc_le_eq unat_gt_0)
qed

text \<open>
  A forwarded request is settled exactly once, however often \<open>finish\<close> is called and whether or not it is called
  before the reporter is dropped: one event goes to the ledger, the reservation is committed with the tokens of that event
  (rolled back if \<open>finish\<close> was never called), the concurrency slot and the backend lease are released once. When the usage had to
  be estimated, at least one token is charged.
\<close>

theorem completion_settles_once:
  assumes "\<not> cr_finished r" and "cr_reservation r = Some res" and "cr_concurrency r = Some g"
    and "st' = reporter_life calls clk st r"
  shows "as_pool st' = lease_drop (as_pool st) (cr_lease r)
    \<and> (case calls of
         [] \<Rightarrow> as_store st' = guard_drop (reservation_rollback (as_store st) res) g
           \<and> as_ledger st' = try_record (as_ledger st) (usage_event_of r clk aborted_completion)
       | (k, c) # _ \<Rightarrow> \<exists>ev. ev_status ev = co_status c \<and> ev_request_id ev = rm_request_id (cr_meta r)
           \<and> as_store st' = guard_drop (reservation_commit (as_store st) res (sat_add (ev_input_tokens ev) (ev_output_tokens ev))) g
           \<and> as_ledger st' = try_record (as_ledger st) ev
           \<and> (if co_estimated c then sat_add (ev_input_tokens ev) (ev_output_tokens ev) \<ge> 1
              else ev_input_tokens ev = co_input_tokens c \<and> ev_output_tokens ev = co_output_tokens c))"
proof (cases calls)
  case Nil
  then show ?thesis using assms
    by (simp add: reporter_life_def reporter_drop_def abort_unfinished_def emit_def drop_guard_def Let_def)
next
  case (Cons kc rest)
  obtain k c where kc: "kc = (k, c)" by (cases kc)
  let ?c = "charge_estimate r c"
  let ?ev = "usage_event_of r k ?c"
  let ?s = "reporter_finish k c (st, r)"
  have fin: "cr_finished (snd ?s)" using assms(1) by (simp add: reporter_finish_def Let_def)
  have st': "st' = reporter_drop clk ?s"
    using assms(4) Cons kc finish_finished [OF fin, of "fst ?s" rest] by (simp add: reporter_life_def)
  have keep: "co_status ?c = co_status c" "\<not> co_estimated c \<Longrightarrow> ?c = c" by (simp_all add: charge_estimate_def)
  have "as_store st' = guard_drop (reservation_commit (as_store st) res (sat_add (ev_input_tokens ?ev) (ev_output_tokens ?ev))) g
      \<and> as_ledger st' = try_record (as_ledger st) ?ev \<and> as_pool st' = lease_drop (as_pool st) (cr_lease r)"
    using assms(1-3) by (simp add: st' reporter_drop_def abort_unfinished_def reporter_finish_def emit_def drop_guard_def
        usage_event_of_def Let_def)
  moreover have "co_estimated c \<Longrightarrow> sat_add (ev_input_tokens ?ev) (ev_output_tokens ?ev) \<ge> 1"
    using charge_estimate_pos [of c r] by (simp add: usage_event_of_def)
  ultimately show ?thesis using keep
    by (auto simp: Cons kc usage_event_of_def intro!: exI [of _ ?ev])
qed

theorem completion_settles_once_witness:
  "\<exists>r st. as_ledger (reporter_life [(\<lparr>clk_now_secs = 9, clk_total_ms = 5, clk_now_millis = 9000\<rparr>,
      \<lparr>co_status = 200, co_input_tokens = 3, co_output_tokens = 4, co_estimated = False, co_client_aborted = False,
       co_error_class = None\<rparr>)] \<lparr>clk_now_secs = 9, clk_total_ms = 6, clk_now_millis = 9001\<rparr> st r) \<noteq> as_ledger st"
proof -
  let ?clk = "\<lparr>clk_now_secs = 9, clk_total_ms = 5, clk_now_millis = 9000\<rparr>"
  let ?fin = "\<lparr>clk_now_secs = 9, clk_total_ms = 6, clk_now_millis = 9001\<rparr>"
  let ?c = "\<lparr>co_status = 200, co_input_tokens = 3, co_output_tokens = 4, co_estimated = False, co_client_aborted = False,
    co_error_class = None\<rparr>"
  let ?ch = "\<lparr>ch_queue = [], ch_capacity = 8, ch_closed = False\<rparr>"
  let ?st = "\<lparr>as_store = store_new, as_pool = demo_pool 0, as_counters = demo_db,
    as_ledger = \<lparr>ls_primary = ?ch, ls_overflow = ?ch, ls_dropped = []\<rparr>, as_metrics = []\<rparr>"
  let ?r = "\<lparr>cr_meta = \<lparr>rm_key_id = 1, rm_team_id = 1, rm_model = ''m'', rm_request_id = ''r''\<rparr>, cr_backend_id = 1,
    cr_backend_name = ''b'', cr_stream = False, cr_pre_forward_ms = 1, cr_ttfb_ms = 2,
    cr_reservation = Some \<lparr>br_scopes = [], br_consumed = False\<rparr>, cr_concurrency = Some \<lparr>cg_key_id = None\<rparr>,
    cr_estimated_input_tokens = 1, cr_lease = \<lparr>bl_backend_id = 1\<rparr>, cr_finished = False\<rparr>"
  have "\<exists>ev. as_ledger (reporter_life [(?clk, ?c)] ?fin ?st ?r) = try_record (as_ledger ?st) ev"
    using completion_settles_once [of ?r "\<lparr>br_scopes = [], br_consumed = False\<rparr>" "\<lparr>cg_key_id = None\<rparr>"
        "reporter_life [(?clk, ?c)] ?fin ?st ?r" "[(?clk, ?c)]" ?fin ?st] by auto
  then have "as_ledger (reporter_life [(?clk, ?c)] ?fin ?st ?r) \<noteq> as_ledger ?st"
    by (auto simp: try_record_def try_send_def)
  then show ?thesis by blast
qed

end
