(* ===== verification/Splice.thy ===== *)
theory Splice
  imports Json
begin

text \<open>
  The byte-level edits of request bodies in \<open>src/proxy/mod.rs\<close>: finding the value of the top-level
  \<open>"model"\<close> key without parsing, replacing it, inserting \<open>stream_options\<close>, and the target URL.
  Indices are positions in the body; \<open>byte_at\<close> is \<open>body.get(i)\<close>. The scanners are related to a
  grammar of JSON texts: what they skip is exactly one value.
\<close>

definition byte_at :: "bytes \<Rightarrow> nat \<Rightarrow> char option" where
  "byte_at body i = (if i < length body then Some (body ! i) else None)"

definition chunk_may_have_usage :: "bytes \<Rightarrow> bool" where
  "chunk_may_have_usage chunk = (find_sub ''\"usage\"'' chunk \<noteq> None)"

definition is_stream_request :: "bytes \<Rightarrow> bool" where
  "is_stream_request body \<longleftrightarrow>
     find_sub ''\"stream\":true'' body \<noteq> None \<or> find_sub ''\"stream\": true'' body \<noteq> None"

definition rposition :: "char \<Rightarrow> bytes \<Rightarrow> nat option" where
  "rposition c body = map_option (\<lambda>(a, b). length b) (split_at_char c (rev body))"

definition STREAM_OPTIONS :: bytes where
  "STREAM_OPTIONS = '',\"stream_options\":{\"include_usage\":true}''"

definition splice_include_usage :: "bytes \<Rightarrow> bytes option" where
  "splice_include_usage body =
     (if body = [] then None
      else map_option (\<lambda>last_brace. take last_brace body @ STREAM_OPTIONS @ drop last_brace body)
             (rposition (CHR ''}'') body))"

section \<open>Scanners\<close>

definition is_json_ws :: "char \<Rightarrow> bool" where
  "is_json_ws c \<longleftrightarrow> c \<in> {CHR '' '', CHR 0x0A, CHR 0x0D, CHR 0x09}"

function skip_ws :: "bytes \<Rightarrow> nat \<Rightarrow> nat" where
  "skip_ws body i = (if i < length body \<and> is_json_ws (body ! i) then skip_ws body (i + 1) else i)"
  by pat_completeness auto
termination by (relation "measure (\<lambda>(body, i). length body - i)") auto

declare skip_ws.simps [simp del]

function string_end_from :: "bytes \<Rightarrow> nat \<Rightarrow> nat option" where
  "string_end_from body i =
     (if i < length body then
        (if body ! i = CHR 0x5C then string_end_from body (i + 2)
         else if body ! i = CHR 0x22 then Some i
         else string_end_from body (i + 1))
      else None)"
  by pat_completeness auto
termination by (relation "measure (\<lambda>(body, i). length body - i)") auto

declare string_end_from.simps [simp del]

definition scan_json_string_end :: "bytes \<Rightarrow> nat \<Rightarrow> nat option" where
  "scan_json_string_end body quote_pos =
     (if byte_at body quote_pos \<noteq> Some (CHR 0x22) then None else string_end_from body (quote_pos + 1))"

lemma string_end_from_bounds: "string_end_from body i = Some j \<Longrightarrow> i \<le> j \<and> j < length body"
  by (induction body i rule: string_end_from.induct) (subst (asm) (2) string_end_from.simps, auto split: if_splits)

lemma scan_end_bounds: "scan_json_string_end body q = Some j \<Longrightarrow> q < j \<and> j < length body"
  by (auto simp: scan_json_string_end_def split: if_splits dest: string_end_from_bounds)

lemma skip_ws_ge: "i \<le> skip_ws body i"
  by (induction body i rule: skip_ws.induct) (subst skip_ws.simps, auto)

definition is_open :: "char \<Rightarrow> bool" where "is_open c \<longleftrightarrow> c = CHR ''{'' \<or> c = CHR ''[''"
definition is_close :: "char \<Rightarrow> bool" where "is_close c \<longleftrightarrow> c = CHR ''}'' \<or> c = CHR '']''"

text \<open>The loop over a bracketed value; \<open>checked_sub\<close> fails on a close bracket at depth zero.\<close>

function skip_brackets :: "bytes \<Rightarrow> nat \<Rightarrow> nat \<Rightarrow> nat option" where
  "skip_brackets body depth i =
     (if i < length body then
        (if body ! i = CHR 0x22 then
           (case scan_json_string_end body i of
              None \<Rightarrow> None
            | Some e \<Rightarrow> skip_brackets body depth (e + 1))
         else if is_open (body ! i) then skip_brackets body (depth + 1) (i + 1)
         else if is_close (body ! i) then
           (if depth = 0 then None
            else if depth - 1 = 0 then Some (i + 1)
            else skip_brackets body (depth - 1) (i + 1))
         else skip_brackets body depth (i + 1))
      else None)"
  by pat_completeness auto
termination
  by (relation "measure (\<lambda>(body, depth, i). length body - i)") (auto dest: scan_end_bounds)

declare skip_brackets.simps [simp del]

definition ends_scalar :: "char \<Rightarrow> bool" where
  "ends_scalar c \<longleftrightarrow> c = CHR '','' \<or> is_close c \<or> is_json_ws c"

function skip_scalar :: "bytes \<Rightarrow> nat \<Rightarrow> nat" where
  "skip_scalar body i = (if i < length body \<and> \<not> ends_scalar (body ! i) then skip_scalar body (i + 1) else i)"
  by pat_completeness auto
termination by (relation "measure (\<lambda>(body, i). length body - i)") auto

declare skip_scalar.simps [simp del]

definition skip_json_value :: "bytes \<Rightarrow> nat \<Rightarrow> nat option" where
  "skip_json_value body i0 =
     (let i = skip_ws body i0 in
      case byte_at body i of
        None \<Rightarrow> None
      | Some c \<Rightarrow>
          if c = CHR 0x22 then map_option (\<lambda>e. e + 1) (scan_json_string_end body i)
          else if is_open c then skip_brackets body 0 i
          else Some (skip_scalar body i))"

lemma skip_brackets_end: "\<not> i < length body \<Longrightarrow> skip_brackets body d i = None"
  by (subst skip_brackets.simps) simp

lemma skip_brackets_quote:
  "i < length body \<Longrightarrow> body ! i = CHR 0x22 \<Longrightarrow> skip_brackets body d i =
    (case scan_json_string_end body i of None \<Rightarrow> None | Some e \<Rightarrow> skip_brackets body d (e + 1))"
  by (subst skip_brackets.simps) simp

lemma skip_brackets_open:
  "i < length body \<Longrightarrow> is_open (body ! i) \<Longrightarrow> skip_brackets body d i = skip_brackets body (d + 1) (i + 1)"
  by (subst skip_brackets.simps) (auto simp: is_open_def)

lemma skip_brackets_close:
  "i < length body \<Longrightarrow> is_close (body ! i) \<Longrightarrow> skip_brackets body d i =
    (if d = 0 then None else if d - 1 = 0 then Some (i + 1) else skip_brackets body (d - 1) (i + 1))"
  by (subst skip_brackets.simps) (auto simp: is_open_def is_close_def)

lemma skip_brackets_other:
  "i < length body \<Longrightarrow> body ! i \<noteq> CHR 0x22 \<Longrightarrow> \<not> is_open (body ! i) \<Longrightarrow> \<not> is_close (body ! i) \<Longrightarrow>
   skip_brackets body d i = skip_brackets body d (i + 1)"
  by (subst skip_brackets.simps) simp

lemma skip_brackets_ge: "skip_brackets body d i = Some j \<Longrightarrow> i < j"
proof (induction "length body - i" arbitrary: d i rule: less_induct)
  case less
  have lt: "i < length body" using less.prems skip_brackets_end by fastforce
  have dec: "length body - (i + 1) < length body - i" using lt by simp
  consider (quote) "body ! i = CHR 0x22" | (opn) "is_open (body ! i)" | (cls) "is_close (body ! i)"
    | (other) "body ! i \<noteq> CHR 0x22" "\<not> is_open (body ! i)" "\<not> is_close (body ! i)" by blast
  then show ?case
  proof cases
    case quote
    with less.prems lt obtain e where e: "scan_json_string_end body i = Some e" "skip_brackets body d (e + 1) = Some j"
      by (auto simp: skip_brackets_quote split: option.splits)
    with scan_end_bounds [OF e(1)] less.hyps [OF _ e(2)] show ?thesis by fastforce
  next
    case opn
    with less.prems lt less.hyps [OF dec, of "d + 1"] show ?thesis by (simp add: skip_brackets_open)
  next
    case cls
    with less.prems lt less.hyps [OF dec, of "d - 1"] show ?thesis by (auto simp: skip_brackets_close split: if_splits)
  next
    case other
    with less.prems lt less.hyps [OF dec, of d] show ?thesis by (simp add: skip_brackets_other)
  qed
qed

lemma skip_scalar_ge: "i \<le> skip_scalar body i"
  by (induction body i rule: skip_scalar.induct) (subst skip_scalar.simps, auto)

lemma skip_json_value_ge: "skip_json_value body i = Some j \<Longrightarrow> i \<le> j"
  using skip_ws_ge [of i body] skip_scalar_ge [of "skip_ws body i" body]
  by (auto simp: skip_json_value_def Let_def split: option.splits if_splits dest!: skip_brackets_ge scan_end_bounds)

section \<open>The model field\<close>

text \<open>One round of the loop over the members: the span of the model's value, or the next member's index.\<close>

datatype member_scan = ModelAt nat nat | NextMember nat

definition scan_member :: "bytes \<Rightarrow> nat \<Rightarrow> member_scan option" where
  "scan_member body i0 =
     (let i = skip_ws body i0 in
      if byte_at body i \<noteq> Some (CHR 0x22) then None
      else case scan_json_string_end body i of
        None \<Rightarrow> None
      | Some key_end \<Rightarrow>
          (let key_start = i + 1;
               is_model_key = (take (key_end - key_start) (drop key_start body) = ''model'');
               i2 = skip_ws body (key_end + 1)
           in if byte_at body i2 \<noteq> Some (CHR '':'') then None
              else (let i3 = skip_ws body (i2 + 1) in
                if is_model_key then
                  (if byte_at body i3 \<noteq> Some (CHR 0x22) then None
                   else map_option (\<lambda>value_end. ModelAt (i3 + 1) value_end) (scan_json_string_end body i3))
                else case skip_json_value body i3 of
                  None \<Rightarrow> None
                | Some i4 \<Rightarrow>
                    (let i5 = skip_ws body i4 in
                     if byte_at body i5 = Some (CHR '','') then Some (NextMember (i5 + 1)) else None))))"

lemma scan_member_next: "scan_member body i = Some (NextMember j) \<Longrightarrow> i < j \<and> j \<le> length body"
proof -
  assume a: "scan_member body i = Some (NextMember j)"
  then obtain key_end i4 where k: "scan_json_string_end body (skip_ws body i) = Some key_end"
    and v: "skip_json_value body (skip_ws body (skip_ws body (key_end + 1) + 1)) = Some i4"
    and j: "j = skip_ws body i4 + 1" "byte_at body (skip_ws body i4) = Some (CHR '','')"
    by (auto simp: scan_member_def Let_def split: if_splits option.splits)
  have "i < key_end" using skip_ws_ge [of i body] scan_end_bounds [OF k] by linarith
  also have "key_end < skip_ws body (skip_ws body (key_end + 1) + 1)"
    using skip_ws_ge [of "key_end + 1" body] skip_ws_ge [of "skip_ws body (key_end + 1) + 1" body] by linarith
  also have "\<dots> \<le> i4" using skip_json_value_ge [OF v] .
  also have "\<dots> \<le> skip_ws body i4" by (rule skip_ws_ge)
  finally show ?thesis using j by (auto simp: byte_at_def split: if_splits)
qed

function find_member :: "bytes \<Rightarrow> nat \<Rightarrow> (nat \<times> nat) option" where
  "find_member body i =
     (case scan_member body i of
        None \<Rightarrow> None
      | Some (ModelAt s e) \<Rightarrow> Some (s, e)
      | Some (NextMember j) \<Rightarrow> find_member body j)"
  by pat_completeness auto
termination
  by (relation "measure (\<lambda>(body, i). length body - i)") (auto dest: scan_member_next)

declare find_member.simps [simp del]

definition find_top_level_model_string_span :: "bytes \<Rightarrow> (nat \<times> nat) option" where
  "find_top_level_model_string_span body =
     (let i = skip_ws body 0 in
      if byte_at body i \<noteq> Some (CHR ''{'') then None else find_member body (i + 1))"

text \<open>The new name is escaped by the serialiser; its quotes are cut off.\<close>

definition rewrite_top_level_model_chunks :: "serde \<Rightarrow> bytes \<Rightarrow> string \<Rightarrow> bytes list option" where
  "rewrite_top_level_model_chunks sd body provider_model_name =
     (case find_top_level_model_string_span body of
        None \<Rightarrow> None
      | Some (value_start, value_end) \<Rightarrow>
          if take (value_end - value_start) (drop value_start body) = provider_model_name then Some [body]
          else (let quoted = to_string sd (JString provider_model_name) in
                if length quoted < 2 then None
                else Some [take value_start body, take (length quoted - 2) (drop 1 quoted), drop value_end body]))"

definition materialize_chunks :: "bytes list \<Rightarrow> bytes option" where
  "materialize_chunks chunks = Some (concat chunks)"

definition build_target_url :: "string \<Rightarrow> string \<Rightarrow> string" where
  "build_target_url base_url path_and_query =
     (let trimmed = rev (dropWhile (\<lambda>c. c = CHR ''/'') (rev base_url));
          has_path_prefix = (case find_sub ''://'' trimmed of
            None \<Rightarrow> False
          | Some i \<Rightarrow> split_at_char (CHR ''/'') (drop (i + 3) trimmed) \<noteq> None);
          path = (if has_path_prefix then unwrap_or path_and_query (strip_prefix path_and_query ''/v1'')
                  else path_and_query)
      in if starts_with path ''/'' then trimmed @ path else trimmed @ ''/'' @ path)"

section \<open>A grammar of JSON texts\<close>

text \<open>
  The inside of a string literal, bracketed text, and values. Bracketed text is what stands between the brackets of
  an object or an array: string literals, nested brackets, and any other bytes.
\<close>

inductive str_body :: "bytes \<Rightarrow> bool" where
  str_nil: "str_body []"
| str_plain: "c \<noteq> CHR 0x22 \<Longrightarrow> c \<noteq> CHR 0x5C \<Longrightarrow> str_body s \<Longrightarrow> str_body (c # s)"
| str_escape: "str_body s \<Longrightarrow> str_body (CHR 0x5C # c # s)"

inductive balanced :: "bytes \<Rightarrow> bool" where
  bal_nil: "balanced []"
| bal_other: "c \<noteq> CHR 0x22 \<Longrightarrow> \<not> is_open c \<Longrightarrow> \<not> is_close c \<Longrightarrow> balanced s \<Longrightarrow> balanced (c # s)"
| bal_string: "str_body k \<Longrightarrow> balanced s \<Longrightarrow> balanced (CHR 0x22 # k @ CHR 0x22 # s)"
| bal_nested: "is_open l \<Longrightarrow> balanced s \<Longrightarrow> is_close r \<Longrightarrow> balanced t \<Longrightarrow> balanced (l # s @ r # t)"

inductive json_text :: "bytes \<Rightarrow> bool" where
  text_string: "str_body s \<Longrightarrow> json_text (CHR 0x22 # s @ [CHR 0x22])"
| text_brackets: "is_open l \<Longrightarrow> balanced s \<Longrightarrow> is_close r \<Longrightarrow> json_text (l # s @ [r])"
| text_scalar: "list_all (\<lambda>c. \<not> ends_scalar c) (c # s) \<Longrightarrow> c \<noteq> CHR 0x22 \<Longrightarrow> \<not> is_open c \<Longrightarrow> json_text (c # s)"

definition ws_text :: "bytes \<Rightarrow> bool" where "ws_text w \<longleftrightarrow> list_all is_json_ws w"

lemma skip_ws_over:
  assumes "ws_text w" and "post = [] \<or> \<not> is_json_ws (hd post)"
  shows "skip_ws (pre @ w @ post) (length pre) = length pre + length w"
  using assms
proof (induction w arbitrary: pre)
  case Nil
  then show ?case by (subst skip_ws.simps) (auto simp: nth_append hd_conv_nth)
next
  case (Cons c w)
  have "skip_ws (pre @ (c # w) @ post) (length pre) = skip_ws ((pre @ [c]) @ w @ post) (length (pre @ [c]))"
    using Cons.prems(1) by (subst skip_ws.simps) (simp add: nth_append ws_text_def)
  then show ?case using Cons.IH [of "pre @ [c]"] Cons.prems by (simp add: ws_text_def)
qed

lemma string_end_over:
  "str_body s \<Longrightarrow> string_end_from (pre @ s @ CHR 0x22 # post) (length pre) = Some (length pre + length s)"
proof (induction s arbitrary: pre rule: str_body.induct)
  case str_nil
  show ?case by (subst string_end_from.simps) (simp add: nth_append)
next
  case (str_plain c s)
  then show ?case using str_plain.IH [of "pre @ [c]"]
    by (subst string_end_from.simps) (simp add: nth_append)
next
  case (str_escape s c)
  then show ?case using str_escape.IH [of "pre @ [CHR 0x5C, c]"]
    by (subst string_end_from.simps) (simp add: nth_append)
qed

lemma scan_string_over:
  assumes "str_body s"
  shows "scan_json_string_end (pre @ CHR 0x22 # s @ CHR 0x22 # post) (length pre) = Some (length pre + 1 + length s)"
  using string_end_over [OF assms, of "pre @ [CHR 0x22]" post]
  by (simp add: scan_json_string_end_def byte_at_def nth_append)

lemma skip_balanced_over:
  assumes "balanced s" and "d > 0"
  shows "skip_brackets (pre @ s @ post) d (length pre) = skip_brackets (pre @ s @ post) d (length pre + length s)"
  using assms
proof (induction s arbitrary: pre post d rule: balanced.induct)
  case bal_nil
  show ?case by simp
next
  case (bal_other c s)
  have "skip_brackets (pre @ (c # s) @ post) d (length pre) = skip_brackets (pre @ (c # s) @ post) d (length pre + 1)"
    using bal_other by (intro skip_brackets_other) (auto simp: nth_append)
  then show ?case using bal_other.IH [of d "pre @ [c]" post] bal_other.prems by simp
next
  case (bal_string k s)
  let ?b = "pre @ (CHR 0x22 # k @ CHR 0x22 # s) @ post"
  have "skip_brackets ?b d (length pre) = skip_brackets ?b d (length pre + length k + 2)"
    using scan_string_over [OF bal_string(1), of pre "s @ post"]
    by (subst skip_brackets_quote) (auto simp: nth_append)
  then show ?case using bal_string.IH [of d "pre @ CHR 0x22 # k @ [CHR 0x22]" post] bal_string.prems
    by (simp add: add.assoc add.commute add.left_commute)
next
  case (bal_nested l s r t)
  let ?b = "pre @ (l # s @ r # t) @ post"
  have "skip_brackets ?b d (length pre) = skip_brackets ?b (d + 1) (length pre + 1)"
    using bal_nested by (intro skip_brackets_open) (auto simp: nth_append)
  also have "\<dots> = skip_brackets ?b (d + 1) (length pre + 1 + length s)"
    using bal_nested.IH(1) [of "d + 1" "pre @ [l]" "r # t @ post"] by simp
  also have "\<dots> = skip_brackets ?b d (length pre + 1 + length s + 1)"
    using bal_nested by (subst skip_brackets_close) (auto simp: nth_append)
  also have "\<dots> = skip_brackets ?b d (length pre + length (l # s @ r # t))"
    using bal_nested.IH(2) [of d "pre @ l # s @ [r]" post] bal_nested.prems by (simp add: add.assoc)
  finally show ?case .
qed

lemma skip_scalar_over:
  assumes "list_all (\<lambda>c. \<not> ends_scalar c) s" and "post = [] \<or> ends_scalar (hd post)"
  shows "skip_scalar (pre @ s @ post) (length pre) = length pre + length s"
  using assms
proof (induction s arbitrary: pre)
  case Nil
  then show ?case by (subst skip_scalar.simps) (auto simp: nth_append hd_conv_nth)
next
  case (Cons c s)
  then show ?case using Cons.IH [of "pre @ [c]"] by (subst skip_scalar.simps) (simp add: nth_append)
qed

lemma json_text_start: "json_text v \<Longrightarrow> v \<noteq> [] \<and> \<not> is_json_ws (hd v)"
  by (induction rule: json_text.induct) (auto simp: is_json_ws_def is_open_def ends_scalar_def)

text \<open>The skipper passes over exactly one value, whatever is nested in it.\<close>

lemma skip_value_over:
  assumes "json_text v" and "ws_text w" and "post = [] \<or> ends_scalar (hd post)"
  shows "skip_json_value (pre @ w @ v @ post) (length pre) = Some (length pre + length w + length v)"
proof -
  let ?b = "pre @ w @ v @ post" and ?i = "length pre + length w"
  have i: "skip_ws ?b (length pre) = ?i"
    using json_text_start [OF assms(1)] by (intro skip_ws_over assms) auto
  from assms(1) show ?thesis
  proof cases
    case (text_string s)
    then show ?thesis using i scan_string_over [of s "pre @ w" post]
      by (simp add: skip_json_value_def byte_at_def nth_append)
  next
    case (text_scalar c s)
    then show ?thesis using i skip_scalar_over [of v post "pre @ w"] assms(3)
      by (simp add: skip_json_value_def byte_at_def nth_append)
  next
    case (text_brackets l s r)
    have "skip_brackets ?b 0 ?i = skip_brackets ?b 1 (?i + 1)"
      using text_brackets by (subst skip_brackets_open) (auto simp: nth_append)
    also have "\<dots> = skip_brackets ?b 1 (?i + 1 + length s)"
      using skip_balanced_over [OF text_brackets(3), of 1 "pre @ w @ [l]" "r # post"] text_brackets(1) by simp
    also have "\<dots> = Some (?i + 1 + length s + 1)"
      using text_brackets by (subst skip_brackets_close) (auto simp: nth_append)
    finally show ?thesis using i text_brackets
      by (auto simp: skip_json_value_def byte_at_def nth_append is_open_def)
  qed
qed

text \<open>A member of an object with the white space around its parts, and the comma after it.\<close>

record member =
  mb_ws1 :: bytes
  mb_key :: bytes
  mb_ws2 :: bytes
  mb_ws3 :: bytes
  mb_value :: bytes
  mb_ws4 :: bytes

definition member_wf :: "member \<Rightarrow> bool" where
  "member_wf m \<longleftrightarrow> ws_text (mb_ws1 m) \<and> str_body (mb_key m) \<and> ws_text (mb_ws2 m) \<and> ws_text (mb_ws3 m)
     \<and> json_text (mb_value m) \<and> ws_text (mb_ws4 m)"

definition member_text :: "member \<Rightarrow> bytes" where
  "member_text m = mb_ws1 m @ CHR 0x22 # mb_key m @ CHR 0x22 # mb_ws2 m @ CHR '':'' # mb_ws3 m @ mb_value m
     @ mb_ws4 m @ '',''"

lemmas no_ws = is_json_ws_def

lemma key_over:
  assumes "ws_text w1" and "str_body k" and "ws_text w2" and "ws_text w3" and "post \<noteq> []" and "\<not> is_json_ws (hd post)"
    and body_def: "body = pre @ w1 @ CHR 0x22 # k @ CHR 0x22 # w2 @ CHR '':'' # w3 @ post"
    and i_def: "i = length pre + length w1" and ke_def: "ke = i + 1 + length k"
    and i2_def: "i2 = ke + 1 + length w2" and i3_def: "i3 = i2 + 1 + length w3"
  shows "skip_ws body (length pre) = i" "byte_at body i = Some (CHR 0x22)" "scan_json_string_end body i = Some ke"
    "take (ke - (i + 1)) (drop (i + 1) body) = k" "skip_ws body (ke + 1) = i2" "byte_at body i2 = Some (CHR '':'')"
    "skip_ws body (i2 + 1) = i3"
proof -
  show "skip_ws body (length pre) = i"
    unfolding body_def i_def by (rule skip_ws_over [OF assms(1)]) (simp add: no_ws)
  show "byte_at body i = Some (CHR 0x22)" by (simp add: body_def i_def byte_at_def nth_append)
  show "scan_json_string_end body i = Some ke"
    using scan_string_over [OF assms(2), of "pre @ w1" "w2 @ CHR '':'' # w3 @ post"] by (simp add: body_def i_def ke_def add.assoc)
  show "take (ke - (i + 1)) (drop (i + 1) body) = k" by (simp add: body_def i_def ke_def)
  show "skip_ws body (ke + 1) = i2"
    using skip_ws_over [OF assms(3), of "CHR '':'' # w3 @ post" "pre @ w1 @ CHR 0x22 # k @ [CHR 0x22]"]
    by (simp add: body_def i_def ke_def i2_def no_ws add.assoc)
  show "byte_at body i2 = Some (CHR '':'')" by (simp add: body_def i_def ke_def i2_def byte_at_def nth_append)
  show "skip_ws body (i2 + 1) = i3"
    using skip_ws_over [OF assms(4), of post "pre @ w1 @ CHR 0x22 # k @ CHR 0x22 # w2 @ '':''"] assms(5,6)
    by (simp add: body_def i_def ke_def i2_def i3_def add.assoc)
qed

lemma scan_member_over:
  assumes "member_wf m" and "mb_key m \<noteq> ''model''"
  shows "scan_member (pre @ member_text m @ post) (length pre) = Some (NextMember (length pre + length (member_text m)))"
proof -
  let ?v = "mb_value m @ mb_ws4 m @ CHR '','' # post"
  define pv where "pv = pre @ mb_ws1 m @ CHR 0x22 # mb_key m @ CHR 0x22 # mb_ws2 m @ CHR '':'' # mb_ws3 m"
  define body where "body = pre @ mb_ws1 m @ CHR 0x22 # mb_key m @ CHR 0x22 # mb_ws2 m @ CHR '':'' # mb_ws3 m @ ?v"
  define i where "i = length pre + length (mb_ws1 m)"
  define ke where "ke = i + 1 + length (mb_key m)"
  define i2 where "i2 = ke + 1 + length (mb_ws2 m)"
  define i3 where "i3 = i2 + 1 + length (mb_ws3 m)"
  define i5 where "i5 = i3 + length (mb_value m) + length (mb_ws4 m)"
  have wf: "ws_text (mb_ws1 m)" "str_body (mb_key m)" "ws_text (mb_ws2 m)" "ws_text (mb_ws3 m)"
      "json_text (mb_value m)" "ws_text (mb_ws4 m)" using assms(1) by (auto simp: member_wf_def)
  have v: "?v \<noteq> []" "\<not> is_json_ws (hd ?v)" using json_text_start [OF wf(5)] by auto
  note K = key_over [OF wf(1-4) v body_def i_def ke_def i2_def i3_def]
  have pv: "length pv = i3" by (simp add: pv_def i_def ke_def i2_def i3_def)
  have bodypv: "body = pv @ mb_value m @ mb_ws4 m @ CHR '','' # post" by (simp add: body_def pv_def)
  have "ends_scalar (hd (mb_ws4 m @ CHR '','' # post))"
    using wf(6) by (cases "mb_ws4 m") (auto simp: ends_scalar_def ws_text_def)
  then have val: "skip_json_value body i3 = Some (i3 + length (mb_value m))"
    using skip_value_over [OF wf(5), of "[]" "mb_ws4 m @ CHR '','' # post" pv] pv
    by (simp add: ws_text_def bodypv)
  have ws4: "skip_ws body (i3 + length (mb_value m)) = i5"
    using skip_ws_over [OF wf(6), of "CHR '','' # post" "pv @ mb_value m"] pv
    by (simp add: no_ws bodypv i5_def)
  have comma: "byte_at body i5 = Some (CHR '','')"
    using pv by (simp add: byte_at_def nth_append bodypv i5_def)
  have body: "pre @ member_text m @ post = body" by (simp add: member_text_def body_def)
  have len: "length pre + length (member_text m) = i5 + 1"
    by (simp add: member_text_def i_def ke_def i2_def i3_def i5_def)
  show ?thesis unfolding body len using K val ws4 comma assms(2) by (simp add: scan_member_def Let_def)
qed

lemma scan_model_over:
  assumes "ws_text w1" and "ws_text w2" and "ws_text w3" and "str_body v"
    and body: "body = pre @ w1 @ ''\"model\"'' @ w2 @ CHR '':'' # w3 @ CHR 0x22 # v @ CHR 0x22 # post"
    and st: "st = length pre + length w1 + 7 + length w2 + 1 + length w3 + 1"
  shows "scan_member body (length pre) = Some (ModelAt st (st + length v))"
proof -
  let ?v = "CHR 0x22 # v @ CHR 0x22 # post"
  define i where "i = length pre + length w1"
  define ke where "ke = i + 1 + length ''model''"
  define i2 where "i2 = ke + 1 + length w2"
  define i3 where "i3 = i2 + 1 + length w3"
  have bd: "body = pre @ w1 @ CHR 0x22 # ''model'' @ CHR 0x22 # w2 @ CHR '':'' # w3 @ ?v" by (simp add: body)
  have sb: "str_body ''model''" by (intro str_body.intros) simp_all
  have v: "?v \<noteq> []" "\<not> is_json_ws (hd ?v)" by (simp_all add: no_ws)
  note K = key_over [OF assms(1) sb assms(2,3) v bd i_def ke_def i2_def i3_def]
  have st': "st = i3 + 1" by (simp add: st i_def ke_def i2_def i3_def)
  have q: "byte_at body i3 = Some (CHR 0x22)"
    by (simp add: bd byte_at_def nth_append i_def ke_def i2_def i3_def)
  have sc: "scan_json_string_end body i3 = Some (st + length v)"
    using scan_string_over [OF assms(4), of "pre @ w1 @ ''\"model\"'' @ w2 @ CHR '':'' # w3" post]
    by (simp add: bd st' i_def ke_def i2_def i3_def add.assoc)
  show ?thesis using K q sc by (simp add: scan_member_def Let_def st')
qed

lemma find_member_over:
  assumes "list_all member_wf ms" and "list_all (\<lambda>m. mb_key m \<noteq> ''model'') ms"
    and "ws_text w1" and "ws_text w2" and "ws_text w3" and "str_body v"
    and "head = pre @ concat (map member_text ms) @ w1 @ ''\"model\"'' @ w2 @ CHR '':'' # w3 @ ''\"''"
  shows "find_member (head @ v @ CHR 0x22 # post) (length pre) = Some (length head, length head + length v)"
  using assms
proof (induction ms arbitrary: pre)
  case Nil
  have "scan_member (head @ v @ CHR 0x22 # post) (length pre) = Some (ModelAt (length head) (length head + length v))"
    by (rule scan_model_over [OF Nil(3-6)]) (simp_all add: Nil(7))
  then show ?case by (subst find_member.simps) simp
next
  case (Cons m ms)
  let ?rest = "concat (map member_text ms) @ w1 @ ''\"model\"'' @ w2 @ CHR '':'' # w3 @ ''\"'' @ v @ CHR 0x22 # post"
  have body: "head @ v @ CHR 0x22 # post = pre @ member_text m @ ?rest" by (simp add: Cons.prems(7))
  have "scan_member (head @ v @ CHR 0x22 # post) (length pre) = Some (NextMember (length pre + length (member_text m)))"
    unfolding body by (rule scan_member_over) (use Cons.prems in simp_all)
  moreover have "find_member (head @ v @ CHR 0x22 # post) (length (pre @ member_text m)) = Some (length head, length head + length v)"
    by (rule Cons.IH) (use Cons.prems in simp_all)
  ultimately show ?case by (subst find_member.simps) simp
qed

section \<open>The edits are exact\<close>

text \<open>A request object up to the opening quote of its model's value: white space, members with other keys, the model key.\<close>

definition model_head :: "bytes \<Rightarrow> member list \<Rightarrow> bytes \<Rightarrow> bytes \<Rightarrow> bytes \<Rightarrow> bytes" where
  "model_head w0 ms w1 w2 w3 =
     w0 @ CHR ''{'' # concat (map member_text ms) @ w1 @ ''\"model\"'' @ w2 @ CHR '':'' # w3 @ ''\"''"

text \<open>
  C29. The model rewrite touches nothing but the model: in a request object whose members before the
  top-level \<open>"model"\<close> key hold any JSON values, however deeply nested and whatever strings they contain
  (a \<open>"model"\<close> inside a message or a tool schema included), with any white space, the bytes
  between the quotes of the model's value are replaced by the escaped provider name and all
  others are kept; a body that already names the provider's model is passed on unchanged. The
  hypothesis on the serialiser is that a string is written between two quotes.
\<close>

theorem model_rewrite_exact:
  assumes "list_all member_wf ms" and "list_all (\<lambda>m. mb_key m \<noteq> ''model'') ms"
    and "ws_text w0" and "ws_text w1" and "ws_text w2" and "ws_text w3" and "str_body v"
    and "to_string sd (JString name) = CHR 0x22 # esc @ [CHR 0x22]"
  shows "map_option concat (rewrite_top_level_model_chunks sd (model_head w0 ms w1 w2 w3 @ v @ CHR 0x22 # post) name)
    = Some (if v = name then model_head w0 ms w1 w2 w3 @ v @ CHR 0x22 # post
            else model_head w0 ms w1 w2 w3 @ esc @ CHR 0x22 # post)"
proof -
  let ?h = "model_head w0 ms w1 w2 w3"
  let ?body = "?h @ v @ CHR 0x22 # post"
  obtain rest where rest: "?body = [] @ w0 @ CHR ''{'' # rest" by (simp add: model_head_def)
  have ws: "skip_ws ?body 0 = length w0"
    using skip_ws_over [OF assms(3), of "CHR ''{'' # rest" "[]"] by (simp add: rest no_ws)
  have "byte_at ?body (length w0) = Some (CHR ''{'')" unfolding rest by (simp add: byte_at_def nth_append)
  moreover have "find_member ?body (length (w0 @ ''{'')) = Some (length ?h, length ?h + length v)"
    by (rule find_member_over [OF assms(1,2,4-7)]) (simp add: model_head_def)
  ultimately have span: "find_top_level_model_string_span ?body = Some (length ?h, length ?h + length v)"
    by (simp add: find_top_level_model_string_span_def ws)
  show ?thesis
    by (simp add: rewrite_top_level_model_chunks_def span assms(8) Let_def)
qed

theorem model_rewrite_exact_witness:
  "\<exists>sd. map_option concat (rewrite_top_level_model_chunks sd
      ''{\"x\":{\"model\":\"no\"}, \"model\" : \"gpt\",\"stream\":true}'' ''qwen'')
    = Some ''{\"x\":{\"model\":\"no\"}, \"model\" : \"qwen\",\"stream\":true}''"
proof -
  define sd :: serde where "sd = \<lparr>from_slice = (\<lambda>_. Inl []), to_string = (\<lambda>j. case j of JString s \<Rightarrow> CHR 0x22 # s @ [CHR 0x22] | _ \<Rightarrow> [])\<rparr>"
  let ?m = "\<lparr>mb_ws1 = [], mb_key = ''x'', mb_ws2 = [], mb_ws3 = [], mb_value = ''{\"model\":\"no\"}'', mb_ws4 = []\<rparr>"
  have str: "str_body ''model''" "str_body ''no''" "str_body ''x''" "str_body ''gpt''"
    by (intro str_body.intros; simp)+
  have "balanced (CHR 0x22 # ''model'' @ CHR 0x22 # CHR '':'' # (CHR 0x22 # ''no'' @ CHR 0x22 # []))"
    by (intro balanced.intros str) (simp_all add: is_open_def is_close_def)
  from text_brackets [OF _ this, of "CHR ''{''" "CHR ''}''"] have "json_text ''{\"model\":\"no\"}''"
    by (simp add: is_open_def is_close_def)
  then have "list_all member_wf [?m]" by (simp add: member_wf_def ws_text_def str)
  from model_rewrite_exact [OF this _ _ _ _ _ str(4), of "[]" "'' ''" "'' ''" "'' ''" sd "''qwen''" "''qwen''"
      "'',\"stream\":true}''"]
  show ?thesis
    by (intro exI [of _ sd]) (simp add: sd_def ws_text_def is_json_ws_def model_head_def member_text_def)
qed

lemma balanced_append: "balanced s \<Longrightarrow> balanced t \<Longrightarrow> balanced (s @ t)"
  by (induction rule: balanced.induct) (auto intro: balanced.intros)

lemma balanced_stream_options: "balanced STREAM_OPTIONS"
proof -
  have str: "str_body ''stream_options''" "str_body ''include_usage''" by (intro str_body.intros; simp)+
  have inner: "balanced (CHR 0x22 # ''include_usage'' @ CHR 0x22 # '':true'')"
    by (intro balanced.intros str) (simp_all add: is_open_def is_close_def)
  have obj: "balanced (CHR ''{'' # (CHR 0x22 # ''include_usage'' @ CHR 0x22 # '':true'') @ CHR ''}'' # [])"
    by (rule bal_nested [OF _ inner _ bal_nil]) (simp_all add: is_open_def is_close_def)
  have "balanced (CHR '','' # CHR 0x22 # ''stream_options'' @ CHR 0x22 # CHR '':'' # CHR ''{'' # (CHR 0x22 # ''include_usage'' @ CHR 0x22 # '':true'') @ CHR ''}'' # [])"
    by (rule bal_other [OF _ _ _ bal_string [OF str(1) bal_other [OF _ _ _ obj]]]) (simp_all add: is_open_def is_close_def)
  then show ?thesis by (simp add: STREAM_OPTIONS_def)
qed

text \<open>
  The usage splice adds exactly one member at the end of the object: the body up to the closing brace, the
  \<open>stream_options\<close> member, the brace and what followed it; bracketed text stays bracketed.
\<close>

theorem splice_include_usage_exact:
  assumes "balanced s" and "CHR ''}'' \<notin> set w"
  shows "splice_include_usage (CHR ''{'' # s @ CHR ''}'' # w) = Some (CHR ''{'' # (s @ STREAM_OPTIONS) @ CHR ''}'' # w)
    \<and> balanced (s @ STREAM_OPTIONS)"
proof -
  have "rposition (CHR ''}'') (CHR ''{'' # s @ CHR ''}'' # w) = Some (length s + 1)"
    using split_at_char_append_None [of "CHR ''}''" "rev w" "rev s @ ''{''"] assms(2) by (simp add: rposition_def)
  then show ?thesis
    using balanced_append [OF assms(1) balanced_stream_options] by (simp add: splice_include_usage_def)
qed

theorem splice_include_usage_exact_witness:
  "splice_include_usage ''{\"stream\":true}'' = Some ''{\"stream\":true,\"stream_options\":{\"include_usage\":true}}''"
proof -
  have "str_body ''stream''" by (intro str_body.intros; simp)
  then have "balanced (CHR 0x22 # ''stream'' @ CHR 0x22 # '':true'')"
    by (intro balanced.intros) (simp_all add: is_open_def is_close_def)
  from splice_include_usage_exact [OF this, of "[]"] show ?thesis by (simp add: STREAM_OPTIONS_def)
qed

end
