(* ===== verification/Net.thy ===== *)
theory Net
  imports Prelude
begin

text \<open>
  IP address literals as the standard library parses them (\<open>Ipv4Addr::from_str\<close>,
  \<open>Ipv6Addr::from_str\<close>): a cursor over the bytes, where a reader that fails leaves the
  cursor where it was. Used for the health checks of local backends.
\<close>

type_synonym ipv4 = "nat list"
type_synonym ipv6 = "nat list"

definition digit_val :: "nat \<Rightarrow> char \<Rightarrow> nat option" where
  "digit_val radix c =
     (let b = byte_val c;
          v = (if 48 \<le> b \<and> b \<le> 57 then Some (b - 48)
               else if 97 \<le> b \<and> b \<le> 102 then Some (b - 87)
               else if 65 \<le> b \<and> b \<le> 70 then Some (b - 55) else None)
      in filter_opt (\<lambda>d. d < radix) v)"

fun read_digits :: "nat \<Rightarrow> string \<Rightarrow> nat list \<times> string" where
  "read_digits radix [] = ([], [])"
| "read_digits radix (c # cs) =
     (case digit_val radix c of
        None \<Rightarrow> ([], c # cs)
      | Some d \<Rightarrow> (case read_digits radix cs of (ds, rest) \<Rightarrow> (d # ds, rest)))"

text \<open>A number of at most \<open>max_digits\<close> digits that fits below \<open>bound\<close>.\<close>

definition read_number :: "nat \<Rightarrow> nat \<Rightarrow> bool \<Rightarrow> nat \<Rightarrow> string \<Rightarrow> (nat \<times> string) option" where
  "read_number radix max_digits allow_zero_prefix bound s =
     (case read_digits radix s of (ds, rest) \<Rightarrow>
        (let v = foldl (\<lambda>a d. a * radix + d) 0 ds in
         if ds = [] \<or> length ds > max_digits \<or> v \<ge> bound then None
         else if \<not> allow_zero_prefix \<and> hd ds = 0 \<and> length ds > 1 then None
         else Some (v, rest)))"

definition read_separator :: "char \<Rightarrow> nat \<Rightarrow> (string \<Rightarrow> ('a \<times> string) option) \<Rightarrow> string \<Rightarrow> ('a \<times> string) option" where
  "read_separator sep i f s =
     (if i = 0 then f s
      else case s of [] \<Rightarrow> None | c # cs \<Rightarrow> if c = sep then f cs else None)"

fun read_octets :: "nat \<Rightarrow> nat \<Rightarrow> string \<Rightarrow> (ipv4 \<times> string) option" where
  "read_octets 0 i s = Some ([], s)"
| "read_octets (Suc n) i s =
     (case read_separator (CHR ''.'') i (read_number 10 3 False 256) s of
        None \<Rightarrow> None
      | Some (o1, rest) \<Rightarrow> map_option (\<lambda>(os, r). (o1 # os, r)) (read_octets n (i + 1) rest))"

definition read_ipv4 :: "string \<Rightarrow> (ipv4 \<times> string) option" where
  "read_ipv4 s = read_octets 4 0 s"

definition parse_ipv4 :: "string \<Rightarrow> ipv4 option" where
  "parse_ipv4 s = (if length s > 15 then None
     else case read_ipv4 s of Some (a, []) \<Rightarrow> Some a | _ \<Rightarrow> None)"

text \<open>Groups of an IPv6 address, up to \<open>n\<close> of them: the groups, whether the last two came from an embedded IPv4 address, the rest.\<close>

fun read_groups :: "nat \<Rightarrow> nat \<Rightarrow> string \<Rightarrow> nat list \<times> bool \<times> string" where
  "read_groups 0 i s = ([], False, s)"
| "read_groups (Suc n) i s =
     (case (if n > 0 then read_separator (CHR '':'') i read_ipv4 s else None) of
        Some ([a, b, c, d], rest) \<Rightarrow> ([a * 256 + b, c * 256 + d], True, rest)
      | _ \<Rightarrow>
          (case read_separator (CHR '':'') i (read_number 16 4 True 65536) s of
             None \<Rightarrow> ([], False, s)
           | Some (g, rest) \<Rightarrow>
               (case read_groups n (i + 1) rest of (gs, v4, r) \<Rightarrow> (g # gs, v4, r))))"

definition parse_ipv6 :: "string \<Rightarrow> ipv6 option" where
  "parse_ipv6 s =
     (case read_groups 8 0 s of (head, head_v4, rest) \<Rightarrow>
        if length head = 8 then (if rest = [] then Some head else None)
        else if head_v4 then None
        else (case rest of
          c1 # c2 # rest2 \<Rightarrow>
            if c1 = CHR '':'' \<and> c2 = CHR '':'' then
              (case read_groups (8 - (length head + 1)) 0 rest2 of (tail, _, rest3) \<Rightarrow>
                 if rest3 = [] then Some (head @ replicate (8 - length head - length tail) 0 @ tail) else None)
            else None
        | _ \<Rightarrow> None))"

definition v4_loopback :: "ipv4 \<Rightarrow> bool" where
  "v4_loopback a = (a ! 0 = 127)"

definition v4_private :: "ipv4 \<Rightarrow> bool" where
  "v4_private a = (a ! 0 = 10 \<or> a ! 0 = 172 \<and> 16 \<le> a ! 1 \<and> a ! 1 \<le> 31 \<or> a ! 0 = 192 \<and> a ! 1 = 168)"

definition v4_unspecified :: "ipv4 \<Rightarrow> bool" where
  "v4_unspecified a = (a = [0, 0, 0, 0])"

definition v6_loopback :: "ipv6 \<Rightarrow> bool" where
  "v6_loopback a = (a = [0, 0, 0, 0, 0, 0, 0, 1])"

definition v6_unspecified :: "ipv6 \<Rightarrow> bool" where
  "v6_unspecified a = (a = [0, 0, 0, 0, 0, 0, 0, 0])"

lemma read_digits_bound: "read_digits radix s = (ds, rest) \<Longrightarrow> \<forall>d \<in> set ds. d < radix"
  by (induction s arbitrary: ds rest) (auto simp: digit_val_def Let_def split: option.splits prod.splits if_splits)

lemma read_number_bound: "read_number radix n z bound s = Some (v, rest) \<Longrightarrow> v < bound"
  by (auto simp: read_number_def Let_def split: prod.splits if_splits)

lemma read_separator_Some:
  "read_separator sep i f s = Some r \<Longrightarrow> \<exists>t. f t = Some r"
  by (auto simp: read_separator_def split: if_splits list.splits)

lemma read_octets_bound:
  "read_octets n i s = Some (a, rest) \<Longrightarrow> length a = n \<and> (\<forall>x \<in> set a. x < 256)"
proof (induction n arbitrary: i s a rest)
  case (Suc n)
  then show ?case
    by (auto split: option.splits prod.splits dest!: read_separator_Some read_number_bound)
qed auto

lemma parse_ipv4_wf: "parse_ipv4 s = Some a \<Longrightarrow> length a = 4 \<and> (\<forall>x \<in> set a. x < 256)"
  by (auto simp: parse_ipv4_def read_ipv4_def split: if_splits option.splits prod.splits list.splits
      dest!: read_octets_bound)

lemma read_groups_bound:
  "read_groups n i s = (gs, v4, rest) \<Longrightarrow> length gs \<le> n \<and> (\<forall>g \<in> set gs. g < 65536)"
proof (induction n arbitrary: i s gs v4 rest)
  case (Suc n)
  show ?case
  proof (cases "\<exists>a b c d r. (if n > 0 then read_separator (CHR '':'') i read_ipv4 s else None) = Some ([a, b, c, d], r)")
    case True
    then obtain a b c d r where v: "(if n > 0 then read_separator (CHR '':'') i read_ipv4 s else None) = Some ([a, b, c, d], r)"
      by blast
    then have "a < 256 \<and> b < 256 \<and> c < 256 \<and> d < 256" and "n > 0"
      by (auto simp: read_ipv4_def dest!: read_separator_Some read_octets_bound split: if_splits)
    then show ?thesis using Suc.prems v by auto
  next
    case False
    then have eq: "read_groups (Suc n) i s = (case read_separator (CHR '':'') i (read_number 16 4 True 65536) s of
             None \<Rightarrow> ([], False, s)
           | Some (g, rest) \<Rightarrow> (case read_groups n (i + 1) rest of (gs, v4, r) \<Rightarrow> (g # gs, v4, r)))"
      by (cases "n > 0"; subst read_groups.simps) (auto split: option.splits list.splits)
    show ?thesis
    proof (cases "read_separator (CHR '':'') i (read_number 16 4 True 65536) s")
      case None
      then show ?thesis using Suc.prems eq by simp
    next
      case (Some x)
      obtain g r where x: "x = (g, r)" by force
      obtain gs' v4' r' where rec: "read_groups n (i + 1) r = (gs', v4', r')" by (metis prod_cases3)
      have "g < 65536" using Some x by (auto dest!: read_separator_Some read_number_bound)
      moreover have "length gs' \<le> n \<and> (\<forall>g \<in> set gs'. g < 65536)"
        using Suc.IH [OF rec] .
      ultimately show ?thesis using Suc.prems eq Some x rec by auto
    qed
  qed
qed auto

text \<open>A parsed IPv6 address has eight groups of sixteen bits, however it was abbreviated.\<close>

lemma parse_ipv6_wf: "parse_ipv6 s = Some a \<Longrightarrow> length a = 8 \<and> (\<forall>g \<in> set a. g < 65536)"
  by (fastforce simp: parse_ipv6_def split: prod.splits if_splits list.splits dest!: read_groups_bound)

end
