(* ===== verification/Health.thy ===== *)
theory Health
  imports Lease Net
begin

text \<open>
  The active health checks of \<open>src/route/mod.rs\<close> (\<open>is_local_host\<close>, \<open>model_probe_urls\<close>,
  \<open>check_backend_health\<close>, \<open>health_check_all\<close>) and the report of why no backend could be picked
  (\<open>unavailable_report\<close>). The HTTP client is a parameter: a function from the probed URL to the
  status it answered, \<open>None\<close> for no answer.
\<close>

section \<open>Local hosts\<close>

text \<open>\<open>rsplit_once\<close> splits at the last occurrence.\<close>

definition rsplit_at_char :: "char \<Rightarrow> string \<Rightarrow> (string \<times> string) option" where
  "rsplit_at_char c s = map_option (\<lambda>(a, b). (rev b, rev a)) (split_at_char c (rev s))"

definition split_scheme :: "string \<Rightarrow> (string \<times> string) option" where
  "split_scheme s = map_option (\<lambda>i. (take i s, drop (i + 3) s)) (find_sub ''://'' s)"

definition host_part :: "string \<Rightarrow> string" where
  "host_part u =
     (let host0 = (case split_scheme u of Some (_, rest) \<Rightarrow> hd (split_char (CHR ''/'') rest) | None \<Rightarrow> []);
          host1 = dropWhile (\<lambda>c. c = CHR ''['') host0
      in case split_at_char (CHR '']'') host1 of
           Some (inside, _) \<Rightarrow> inside
         | None \<Rightarrow> (case rsplit_at_char (CHR '':'') host1 of
             Some (h, port) \<Rightarrow> if port \<noteq> [] \<and> CHR '':'' \<notin> set h then h else host1
           | None \<Rightarrow> host1))"

definition is_local_host :: "string \<Rightarrow> bool" where
  "is_local_host base_url =
     (let host = host_part (to_ascii_lowercase (trim base_url)) in
      case parse_ipv4 host of
        Some ip \<Rightarrow> v4_loopback ip \<or> v4_private ip \<or> v4_unspecified ip
      | None \<Rightarrow> (case parse_ipv6 host of
          Some ip \<Rightarrow> v6_loopback ip \<or> v6_unspecified ip \<or> 0xfc00 \<le> ip ! 0 \<and> ip ! 0 \<le> 0xfdff
        | None \<Rightarrow> host \<noteq> [] \<and> (CHR ''.'' \<notin> set host \<or> ends_with host ''.local''
            \<or> ends_with host ''.lan'' \<or> ends_with host ''.internal'')))"

section \<open>Probes\<close>

definition trim_slashes :: "string \<Rightarrow> string" where
  "trim_slashes s = rev (dropWhile (\<lambda>c. c = CHR ''/'') (rev s))"

definition model_probe_urls :: "string \<Rightarrow> string list" where
  "model_probe_urls base_url =
     (let base = trim_slashes base_url in
      if ends_with base ''/v1'' then [base @ ''/models'']
      else [base @ ''/v1/models'', base @ ''/models''])"

datatype health_probe_result = Healthy | Unhealthy | AuthRequired | Unknown

record probe_flags =
  pf_auth_required :: bool
  pf_probe_unsupported :: bool
  pf_server_error :: bool

text \<open>The status match shared by both probes: healthy at once, or a flag raised.\<close>

definition probe_status :: "nat \<Rightarrow> probe_flags \<Rightarrow> unit + probe_flags" where
  "probe_status st f =
     (if 200 \<le> st \<and> st \<le> 299 then Inl ()
      else if st = 401 \<or> st = 403 then Inr (f\<lparr>pf_auth_required := True\<rparr>)
      else if st = 404 \<or> st = 405 then Inr (f\<lparr>pf_probe_unsupported := True\<rparr>)
      else if st \<ge> 500 \<or> st = 429 then Inr (f\<lparr>pf_server_error := True\<rparr>)
      else Inr (f\<lparr>pf_probe_unsupported := True\<rparr>))"

fun probe_all :: "(string \<Rightarrow> nat option) \<Rightarrow> probe_flags \<Rightarrow> string list \<Rightarrow> unit + probe_flags" where
  "probe_all get f [] = Inr f"
| "probe_all get f (u # us) =
     (case get u of
        None \<Rightarrow> probe_all get f us
      | Some st \<Rightarrow> try_res (probe_status st f) (\<lambda>f'. probe_all get f' us))"

definition check_backend_health :: "(string \<Rightarrow> nat option) \<Rightarrow> string \<Rightarrow> health_probe_result" where
  "check_backend_health get base_url =
     (let base = trim_slashes base_url;
          start = \<lparr>pf_auth_required = False, pf_probe_unsupported = False, pf_server_error = False\<rparr>
      in case probe_all get start ((base @ ''/health'') # model_probe_urls base) of
           Inl _ \<Rightarrow> Healthy
         | Inr f \<Rightarrow>
             if pf_auth_required f then AuthRequired
             else if pf_probe_unsupported f \<and> \<not> pf_server_error f then Unknown
             else Unhealthy)"

definition health_targets :: "ram_backend_pool \<Rightarrow> (i64 \<times> string) list" where
  "health_targets p = concat (map (\<lambda>(b, s).
     if \<not> bs_enabled s then []
     else (let base = unwrap_or [] (bs_base_url s)
           in if base = [] \<or> \<not> is_local_host base then [] else [(b, base)])) (bp_states p))"

definition health_check_all :: "ram_backend_pool \<Rightarrow> (string \<Rightarrow> nat option) \<Rightarrow> instant \<Rightarrow> ram_backend_pool" where
  "health_check_all p get now =
     foldl (\<lambda>p (b, base). case check_backend_health get base of
              Healthy \<Rightarrow> note_result p b True now
            | Unhealthy \<Rightarrow> note_result p b False now
            | AuthRequired \<Rightarrow> p
            | Unknown \<Rightarrow> p) p (health_targets p)"

section \<open>The report\<close>

definition report_line :: "ram_backend_pool \<Rightarrow> model_route \<Rightarrow> instant \<Rightarrow> i64 \<Rightarrow> string" where
  "report_line p route now b =
     ''backend '' @ idec b @
     (if \<not> endpoint_enabled route b then '': route endpoint disabled''
      else case hm_get (bp_states p) b of
        None \<Rightarrow> '': not loaded in runtime snapshot''
      | Some s \<Rightarrow>
          if \<not> bs_enabled s then '': provider disabled''
          else if bs_circuit s = CIRCUIT_OPEN then
            (let remaining_ms = (case bs_opened_until s of None \<Rightarrow> 0 | Some i \<Rightarrow> i - now)
             in if remaining_ms > 0 then '': circuit open '' @ dec remaining_ms @ ''ms''
                else '': circuit open, retry window ready'')
          else if bs_circuit s = CIRCUIT_HALF_OPEN then
            (if bs_half_open_probe s then '': half-open probe available'' else '': half-open probe in flight'')
          else if bs_circuit s \<noteq> CIRCUIT_CLOSED then '': invalid circuit state''
          else
            (let mx = effective_max (bs_max_inflight s) (endpoint_max_inflight route b)
             in if mx > 0 \<and> bs_inflight s \<ge> mx
                then '': max_inflight full '' @ dec (unat (bs_inflight s)) @ ''/'' @ dec (unat mx)
                else '': eligible but not selected''))"

definition report_ids :: "model_route \<Rightarrow> i64 list" where
  "report_ids route =
     (case rt_fallback_backend_id route of
        None \<Rightarrow> rt_backend_ids route
      | Some f \<Rightarrow> if f \<in> set (rt_backend_ids route) then rt_backend_ids route else rt_backend_ids route @ [f])"

definition unavailable_report :: "ram_backend_pool \<Rightarrow> model_route \<Rightarrow> instant \<Rightarrow> string" where
  "unavailable_report p route now =
     (if report_ids route = [] then ''route has no backend ids''
      else join ''; '' (map (report_line p route now) (report_ids route)))"

section \<open>Facts\<close>

text \<open>The result of a health check by the statuses that came back.\<close>

definition answered :: "(string \<Rightarrow> nat option) \<Rightarrow> string list \<Rightarrow> nat set" where
  "answered get urls = {st. \<exists>u \<in> set urls. get u = Some st}"

definition ok_status :: "nat \<Rightarrow> bool" where "ok_status st \<longleftrightarrow> 200 \<le> st \<and> st \<le> 299"
definition auth_status :: "nat \<Rightarrow> bool" where "auth_status st \<longleftrightarrow> st = 401 \<or> st = 403"
definition error_status :: "nat \<Rightarrow> bool" where "error_status st \<longleftrightarrow> st \<ge> 500 \<or> st = 429"

lemma answered_Cons:
  "answered get (u # us) = (case get u of None \<Rightarrow> answered get us | Some st \<Rightarrow> insert st (answered get us))"
  by (auto simp: answered_def split: option.splits)

lemma probe_all_spec:
  "case probe_all get f urls of
     Inl _ \<Rightarrow> \<exists>st \<in> answered get urls. ok_status st
   | Inr g \<Rightarrow> (\<forall>st \<in> answered get urls. \<not> ok_status st)
       \<and> (pf_auth_required g \<longleftrightarrow> pf_auth_required f \<or> (\<exists>st \<in> answered get urls. auth_status st))
       \<and> (pf_server_error g \<longleftrightarrow> pf_server_error f \<or> (\<exists>st \<in> answered get urls. error_status st))
       \<and> (pf_probe_unsupported g \<longleftrightarrow> pf_probe_unsupported f
            \<or> (\<exists>st \<in> answered get urls. \<not> auth_status st \<and> \<not> error_status st))"
proof (induction urls arbitrary: f)
  case (Cons u us)
  show ?case
  proof (cases "get u")
    case None
    then show ?thesis using Cons.IH [of f] by (simp add: answered_Cons split: sum.splits)
  next
    case (Some st)
    show ?thesis
    proof (cases "probe_status st f")
      case (Inl x)
      then show ?thesis using Some by (auto simp: answered_Cons probe_status_def ok_status_def split: if_splits)
    next
      case (Inr g)
      then have "\<not> ok_status st" "pf_auth_required g \<longleftrightarrow> pf_auth_required f \<or> auth_status st"
        "pf_server_error g \<longleftrightarrow> pf_server_error f \<or> error_status st"
        "pf_probe_unsupported g \<longleftrightarrow> pf_probe_unsupported f \<or> \<not> auth_status st \<and> \<not> error_status st"
        by (auto simp: probe_status_def ok_status_def auth_status_def error_status_def split: if_splits)
      then show ?thesis using Cons.IH [of g] Some Inr by (auto simp: answered_Cons split: sum.splits)
    qed
  qed
qed (simp add: answered_def)

text \<open>
  What a health check concludes from the statuses of its two or three probes (\<open>/health\<close> and the model
  lists): healthy as soon as one answers with success; never unhealthy when one asks for credentials;
  unhealthy exactly when none of them answers with success or asks for credentials and either a server error or
  a 429 came back or nothing answered at all.
\<close>

theorem check_backend_health_exact:
  "let seen = answered get ((trim_slashes base @ ''/health'') # model_probe_urls (trim_slashes base)) in
   (check_backend_health get base = Healthy \<longleftrightarrow> (\<exists>st \<in> seen. ok_status st))
   \<and> (check_backend_health get base = AuthRequired \<longleftrightarrow>
        \<not> (\<exists>st \<in> seen. ok_status st) \<and> (\<exists>st \<in> seen. auth_status st))
   \<and> (check_backend_health get base = Unhealthy \<longleftrightarrow>
        \<not> (\<exists>st \<in> seen. ok_status st \<or> auth_status st) \<and> (seen = {} \<or> (\<exists>st \<in> seen. error_status st)))"
  using probe_all_spec [where get = get and urls = "(trim_slashes base @ ''/health'') # model_probe_urls (trim_slashes base)"
      and f = "\<lparr>pf_auth_required = False, pf_probe_unsupported = False, pf_server_error = False\<rparr>"]
  by (auto simp: check_backend_health_def Let_def simp del: probe_all.simps split: sum.splits if_splits)

lemma note_other: "c \<noteq> b \<Longrightarrow> hm_get (bp_states (note_result p c ok now)) b = hm_get (bp_states p) b"
  by (auto simp: note_result_def Let_def split: option.splits)

lemma health_targets_local:
  assumes "(b, base) \<in> set (health_targets p)" and "distinct (map fst (bp_states p))"
  shows "\<exists>s. hm_get (bp_states p) b = Some s \<and> bs_enabled s \<and> bs_base_url s = Some base \<and> is_local_host base"
  using assms by (auto simp: health_targets_def Let_def split: if_splits) (metis map_of_eq_Some_iff option.exhaust unwrap_or_simps)

text \<open>
  The active health check never touches a backend that is disabled or not local: its circuit, failure count
  and probe stay as real requests left them, whatever the probes answer.
\<close>

theorem health_check_only_local:
  assumes "distinct (map fst (bp_states p))" and "hm_get (bp_states p) b = Some s"
    and "\<not> (bs_enabled s \<and> is_local_host (unwrap_or [] (bs_base_url s)))"
  shows "hm_get (bp_states (health_check_all p get now)) b = Some s"
proof -
  have keep: "hm_get (bp_states (foldl (\<lambda>p (b, base). case check_backend_health get base of
              Healthy \<Rightarrow> note_result p b True now | Unhealthy \<Rightarrow> note_result p b False now
            | AuthRequired \<Rightarrow> p | Unknown \<Rightarrow> p) q ts)) b = hm_get (bp_states q) b" if "b \<notin> fst ` set ts" for q ts
    using that
  proof (induction ts arbitrary: q)
    case (Cons t ts)
    obtain c base where t: "t = (c, base)" by force
    with Cons show ?case by (auto simp: note_other split: health_probe_result.split)
  qed simp
  have "b \<notin> fst ` set (health_targets p)"
    using health_targets_local [OF _ assms(1)] assms(2,3) by fastforce
  with assms(2) show ?thesis by (simp add: health_check_all_def keep)
qed

theorem health_check_only_local_witness:
  "hm_get (bp_states (health_check_all ((demo_pool 0)\<lparr>bp_states := [(1, (demo_state 1 0)\<lparr>bs_enabled := False\<rparr>)]\<rparr>) (\<lambda>_. None) 0)) 1
   = Some ((demo_state 1 0)\<lparr>bs_enabled := False\<rparr>)"
  by (rule health_check_only_local) (simp_all add: demo_pool_def)

text \<open>
  The report of an unavailable route is truthful: a backend's line says that it was eligible exactly when the
  backend is eligible with a closed circuit and nothing excluded.
\<close>

theorem report_line_eligible:
  "report_line p route now b = ''backend '' @ idec b @ '': eligible but not selected'' \<longleftrightarrow>
     eligible p route exclusions_default now b
     \<and> map_option bs_circuit (hm_get (bp_states p) b) = Some CIRCUIT_CLOSED"
proof (cases "hm_get (bp_states p) b")
  case None
  then show ?thesis by (simp add: report_line_def eligible_def)
next
  case (Some s)
  have gate: "gate_open s now" if "bs_circuit s = CIRCUIT_CLOSED" using that by (simp add: gate_open_def circuit_gate_def)
  show ?thesis
  proof (cases "bs_circuit s = CIRCUIT_CLOSED")
    case True
    then show ?thesis using Some gate
      by (auto simp: report_line_def eligible_def has_slot_def excl.has_none circuit_defs Let_def)
  next
    case False
    then show ?thesis using Some
      by (auto simp: report_line_def eligible_def Let_def split: option.splits)
  qed
qed

end
