(* ===== verification/Forward.thy ===== *)
theory Forward
  imports Reporter Splice Health
begin

text \<open>
  The forwarding of a request to a backend, \<open>proxy_forward\<close> of \<open>src/proxy/mod.rs\<close>: which headers and which
  credential a backend receives, the body it is sent, and the loop that retries on other backends until the first byte of a
  response. The HTTP client is outside: whether a header value or a URL is accepted and what a backend answers are arguments. The requests
  sent are kept as a trace.
\<close>

section \<open>Requests and responses\<close>

type_synonym header_map = "(string \<times> string) list"

text \<open>\<open>HeaderMap::insert\<close> replaces all values of the name.\<close>

definition hdr_insert :: "string \<Rightarrow> string \<Rightarrow> header_map \<Rightarrow> header_map" where
  "hdr_insert n v h = filter (\<lambda>(k, _). k \<noteq> n) h @ [(n, v)]"

definition hdr_values :: "header_map \<Rightarrow> string \<Rightarrow> string list" where
  "hdr_values h n = map snd (filter (\<lambda>(k, _). k = n) h)"

datatype request_body = FullBody bytes | UploadBody exact_length_upload_body | ChunksBody exact_length_chunks_body

record reqwest_request =
  rq_method :: string
  rq_url :: string
  rq_headers :: header_map
  rq_body :: request_body

datatype body_event = BodyChunk bytes | BodyFailed string | BodyIdle

record upstream_response =
  up_status :: u16
  up_headers :: header_map
  up_content_length :: "u64 option"
  up_events :: "body_event list"

datatype upstream_answer = Answered upstream_response | ConnectionFailed string | FirstByteTimeout

record http_response =
  rs_status :: u16
  rs_headers :: header_map
  rs_body :: "bytes list"

record http_client =
  hc_value_ok :: "string \<Rightarrow> bool"
  hc_url_ok :: "string \<Rightarrow> bool"
  hc_text_ok :: "string \<Rightarrow> bool"

section \<open>The backend request\<close>

definition must_drop_header :: "string \<Rightarrow> bool" where
  "must_drop_header name = (to_ascii_lowercase name \<in>
     {''authorization'', ''x-api-key'', ''host'', ''content-length'', ''accept-encoding'', ''connection'', ''transfer-encoding'',
      ''keep-alive'', ''upgrade'', ''te'', ''trailer'', ''proxy-authorization'', ''proxy-connection''})"

definition forwarded_headers :: "header_map \<Rightarrow> header_map" where
  "forwarded_headers headers =
     foldl (\<lambda>h (name, v). if must_drop_header name then h else hdr_insert name v h) [] headers"

definition inject_auth :: "http_client \<Rightarrow> backend_format \<Rightarrow> string \<Rightarrow> header_map \<Rightarrow> unit + header_map" where
  "inject_auth hc fmt key h =
     (case fmt of
        FmtOpenAi \<Rightarrow>
          if key \<noteq> [] then
            (if hc_value_ok hc (''Bearer '' @ key) then Inr (hdr_insert ''authorization'' (''Bearer '' @ key) h) else Inl ())
          else Inr h
      | FmtAnthropic \<Rightarrow>
          if key \<noteq> [] then
            (if hc_value_ok hc key then
               (let h1 = hdr_insert ''x-api-key'' key h in
                Inr (if hdr_values h1 ''anthropic-version'' = [] then hdr_insert ''anthropic-version'' ''2023-06-01'' h1 else h1))
             else Inl ())
          else Inr h)"

definition build_reqwest_request ::
  "http_client \<Rightarrow> string \<Rightarrow> string \<Rightarrow> header_map \<Rightarrow> request_body \<Rightarrow> backend_format \<Rightarrow> string \<Rightarrow> string \<Rightarrow> unit + reqwest_request" where
  "build_reqwest_request hc method url headers body fmt auth_key request_id =
     try_res (inject_auth hc fmt auth_key (forwarded_headers headers)) (\<lambda>h.
       if \<not> hc_value_ok hc request_id then Inl ()
       else
         (let h1 = hdr_insert ''x-request-id'' request_id h;
              h2 = hdr_insert ''accept-encoding'' ''identity'' h1
          in if hc_url_ok hc url then Inr \<lparr>rq_method = method, rq_url = url, rq_headers = h2, rq_body = body\<rparr> else Inl ()))"

text \<open>The endpoint's key wins; \<open>none\<close> sends no credential at all.\<close>

definition auth_key_for :: "effective_model_endpoint \<Rightarrow> backend \<Rightarrow> string" where
  "auth_key_for endpoint backend =
     (if eff_auth_mode endpoint = ''none'' then []
      else unwrap_or [] (or_else (eff_provider_key endpoint) (be_api_key backend)))"

section \<open>The body of an attempt\<close>

datatype proxy_request_body = Buffered bytes | Streaming bytes "stream_item list" u64

definition into_reqwest_body :: "proxy_request_body \<Rightarrow> request_body" where
  "into_reqwest_body body =
     (case body of
        Buffered b \<Rightarrow> FullBody b
      | Streaming prefix rest content_length \<Rightarrow> UploadBody (upload_new prefix rest content_length))"

definition reqwest_body_from_chunks :: "bytes list \<Rightarrow> request_body" where
  "reqwest_body_from_chunks chunks =
     (case chunks of [c] \<Rightarrow> FullBody c | _ \<Rightarrow> ChunksBody (chunks_new chunks))"

definition wants_usage :: "proxy_context \<Rightarrow> backend \<Rightarrow> bool" where
  "wants_usage ctx backend \<longleftrightarrow> be_format backend = FmtOpenAi \<and> pc_stream ctx \<and> \<not> pc_stream_options_present ctx
     \<and> pc_protocol ctx \<noteq> OpenAiResponses"

text \<open>The body to send and what is left for another attempt, or the status and message of an early return.\<close>

definition prepare_body ::
  "serde \<Rightarrow> proxy_context \<Rightarrow> backend \<Rightarrow> effective_model_endpoint \<Rightarrow> proxy_request_body
   \<Rightarrow> (u16 \<times> string) + (request_body \<times> proxy_request_body option)" where
  "prepare_body sd ctx backend endpoint upload =
     (case upload of
        Buffered body \<Rightarrow>
          (let rewrite = pc_rewrite_model_in_proxy ctx \<and> eff_provider_model_name endpoint \<noteq> pc_model_name ctx;
               rewritten = rewrite_top_level_model_chunks sd body (eff_provider_model_name endpoint)
           in if rewrite \<and> rewritten = None then Inl (400, ''could not rewrite endpoint model field'')
              else
                (let chunks = (if rewrite then rewritten else None) in
                 Inr (if wants_usage ctx backend
                      then FullBody (unwrap_or body (Option.bind (case chunks of Some cs \<Rightarrow> materialize_chunks cs | None \<Rightarrow> Some body)
                                                       splice_include_usage))
                      else (case chunks of Some cs \<Rightarrow> reqwest_body_from_chunks cs | None \<Rightarrow> FullBody body),
                      Some (Buffered body))))
      | Streaming prefix rest n \<Rightarrow>
          if wants_usage ctx backend then Inl (500, ''streaming upload cannot mutate request body'')
          else Inr (into_reqwest_body upload, None))"

section \<open>Responses of the router itself\<close>

definition build_response :: "u16 \<Rightarrow> header_map \<Rightarrow> bytes list \<Rightarrow> http_response" where
  "build_response status headers body =
     \<lparr>rs_status = status, rs_headers = filter (\<lambda>(k, _). k \<noteq> ''content-length'') headers, rs_body = body\<rparr>"

definition proxy_error_response :: "serde \<Rightarrow> http_client \<Rightarrow> proxy_context \<Rightarrow> u16 \<Rightarrow> string \<Rightarrow> http_response" where
  "proxy_error_response sd hc ctx status message =
     (if anthropic_errors ctx then
        \<lparr>rs_status = status,
         rs_headers = (''content-type'', ''application/json'')
           # (if hc_value_ok hc (pc_request_id ctx) then [(''request-id'', pc_request_id ctx)] else []),
         rs_body = [anthropic_error_body sd status message]\<rparr>
      else build_response status [] [message])"

definition tag_router_headers :: "http_client \<Rightarrow> http_response \<Rightarrow> string \<Rightarrow> string option \<Rightarrow> u64 \<Rightarrow> http_response" where
  "tag_router_headers hc resp request_id backend_name overhead_ms =
     (let put = (\<lambda>n v h. if hc_value_ok hc v then hdr_insert n v h else h);
          h1 = put ''x-router-request-id'' request_id (rs_headers resp);
          h2 = (case backend_name of None \<Rightarrow> h1 | Some name \<Rightarrow> put ''x-router-backend'' name h1);
          h3 = put ''x-router-overhead-ms'' (dec (unat overhead_ms)) h2
      in resp\<lparr>rs_headers := h3\<rparr>)"

definition request_total_for :: "proxy_context \<Rightarrow> string \<Rightarrow> u16 \<Rightarrow> metric" where
  "request_total_for ctx backend status =
     RequestTotal (ak_team_id (pc_api_key ctx)) (ak_id (pc_api_key ctx)) (pc_model_name ctx) backend status"

section \<open>The loop\<close>

text \<open>What the outside contributes to an attempt: other requests, the configuration, clocks and the backend's answer.\<close>

record attempt_env =
  ae_acquire :: "nat \<Rightarrow> round_env"
  ae_backends :: "(i64, backend) hmap"
  ae_now :: instant
  ae_pre_forward_ms :: u64
  ae_elapsed_ms :: u64
  ae_answer :: "reqwest_request \<Rightarrow> upstream_answer"

record client_request =
  cq_method :: string
  cq_path_and_query :: string
  cq_headers :: header_map

datatype proxy_outcome =
    Rejected http_response
  | Forwarding upstream_response backend_format string u64 completion_reporter

definition router_error ::
  "serde \<Rightarrow> http_client \<Rightarrow> proxy_context \<Rightarrow> u16 \<Rightarrow> string \<Rightarrow> string option \<Rightarrow> u64 \<Rightarrow> proxy_outcome" where
  "router_error sd hc ctx status message backend_name ms =
     Rejected (tag_router_headers hc (proxy_error_response sd hc ctx status message) (pc_request_id ctx) backend_name ms)"

definition release :: "backend_lease \<Rightarrow> app_state \<Rightarrow> app_state" where
  "release l st = st\<lparr>as_pool := lease_drop (as_pool st) l\<rparr>"

definition note_pool :: "i64 \<Rightarrow> bool \<Rightarrow> instant \<Rightarrow> app_state \<Rightarrow> app_state" where
  "note_pool b ok now st = st\<lparr>as_pool := note_result (as_pool st) b ok now\<rparr>"

text \<open>
  An attempt up to the built request. An early return carries the status of the metric and of the response, the message and
  the backend's name; otherwise the request, if it could be built, and the body left for a retry.
\<close>

definition begin_attempt ::
  "serde \<Rightarrow> http_client \<Rightarrow> attempt_env \<Rightarrow> proxy_context \<Rightarrow> client_request \<Rightarrow> i64 \<Rightarrow> proxy_request_body option
   \<Rightarrow> (u16 \<times> string \<times> string option) + (backend \<times> (unit + reqwest_request) \<times> proxy_request_body option)" where
  "begin_attempt sd hc ae ctx cq backend_id upload_body =
     (case filter_opt be_enabled (hm_get (ae_backends ae) backend_id) of
        None \<Rightarrow> Inl (503, ''backend not available'', None)
      | Some backend \<Rightarrow>
          (let endpoint = endpoint_for (pc_route ctx) backend_id;
               endpoint_protocol = protocol_parse (eff_protocol endpoint)
           in if pc_bridge ctx \<noteq> None \<and> (be_format backend \<noteq> FmtOpenAi \<or> \<not> is_openai_chat_family endpoint_protocol)
              then Inl (502, ''Claude bridge requires an OpenAI Chat backend; backend '' @ [CHR 0x27] @ be_name backend @ [CHR 0x27] @ '' is ''
                     @ (case be_format backend of FmtOpenAi \<Rightarrow> ''OpenAi'' | FmtAnthropic \<Rightarrow> ''Anthropic'') @ ''/''
                     @ protocol_as_str endpoint_protocol, Some (be_name backend))
              else
                (case upload_body of
                   None \<Rightarrow> Inl (502, ''request body already consumed'', Some (be_name backend))
                 | Some body \<Rightarrow>
                     (case prepare_body sd ctx backend endpoint body of
                        Inl (status, message) \<Rightarrow> Inl (status, message, Some (be_name backend))
                      | Inr (request_body, left) \<Rightarrow>
                          Inr (backend,
                               build_reqwest_request hc (cq_method cq) (build_target_url (be_base_url backend) (cq_path_and_query cq))
                                 (cq_headers cq) request_body (be_format backend) (auth_key_for endpoint backend) (pc_request_id ctx),
                               left)))))"

text \<open>Executing the request; a failure before the first byte has the status and the message the client would see.\<close>

definition execute_attempt :: "attempt_env \<Rightarrow> unit + reqwest_request \<Rightarrow> (u16 \<times> string) + upstream_response" where
  "execute_attempt ae built =
     (case built of
        Inl _ \<Rightarrow> Inl (502, ''request build failed'')
      | Inr req \<Rightarrow>
          (case ae_answer ae req of
             Answered resp \<Rightarrow> Inr resp
           | ConnectionFailed e \<Rightarrow> Inl (502, ''backend connection failed: '' @ e)
           | FirstByteTimeout \<Rightarrow> Inl (504, ''first byte timeout'')))"

definition is_retryable_status :: "u16 \<Rightarrow> bool" where
  "is_retryable_status status \<longleftrightarrow> status \<ge> 500 \<or> status = 429"

datatype retry = RetryWith backend_lease | RetryFailed string | NoRetry

definition acquire_retry ::
  "attempt_env \<Rightarrow> model_route \<Rightarrow> bool \<Rightarrow> app_state \<Rightarrow> backend_exclusions \<Rightarrow> app_state \<times> backend_exclusions \<times> retry" where
  "acquire_retry ae route replayable st tried =
     (if \<not> replayable then (st, tried, NoRetry)
      else
        (case acquire_excluding (ae_acquire ae) (as_pool st) (as_counters st) route tried of
           (p, db, tried', r) \<Rightarrow>
             (st\<lparr>as_pool := p, as_counters := db\<rparr>, tried',
              case r of Inr (Some l) \<Rightarrow> RetryWith l | Inr None \<Rightarrow> NoRetry | Inl (CounterUnavailable msg) \<Rightarrow> RetryFailed msg)))"

text \<open>Which backends a retry can lead to, and that every attempt excludes one more of them.\<close>

definition route_backends :: "model_route \<Rightarrow> i64 list" where
  "route_backends route = rt_backend_ids route @ (case rt_fallback_backend_id route of None \<Rightarrow> [] | Some f \<Rightarrow> [f])"

lemma acquire_primary_granted:
  assumes "acquire_primary env n p db route ids e = (q, db', e', n', r)"
  shows "(\<forall>b. ex_contains e b \<longrightarrow> ex_contains e' b)
    \<and> (\<forall>l. r = Inr (Some l) \<longrightarrow> bl_backend_id l \<in> set ids \<and> \<not> ex_contains e' (bl_backend_id l))"
  using assms
proof (induction env n p db route ids e rule: acquire_primary.induct)
  case (1 env n p db route ids e)
  obtain p1 db1 r1 where ch: "choose_candidate p db route ids e (re_now (env n)) (re_rnd (env n)) = (p1, db1, r1)" by (metis prod_cases3)
  show ?case
  proof (cases "\<exists>c. r1 = Inr (Some c)")
    case False
    then consider x where "r1 = Inl x" | "r1 = Inr None" by (metis obj_sumE option.exhaust)
    then show ?thesis using "1.prems" ch by cases (auto simp: acquire_primary.simps [of env n])
  next
    case True
    then obtain c where c: "r1 = Inr (Some c)" ..
    obtain p2 db2 where o: "re_others (env n) (p1, db1) = (p2, db2)" by force
    obtain p3 ok where cl: "claim_candidate p2 route c = (p3, ok)" by force
    have el: "cd_backend_id c \<in> set ids \<and> \<not> ex_contains e (cd_backend_id c)"
      using choose_candidate_sound [OF ch] c by (auto simp: eligible_def)
    show ?thesis
    proof (cases ok)
      case True
      then show ?thesis using "1.prems" ch c o cl el by (auto simp: acquire_primary.simps [of env n])
    next
      case False
      have "acquire_primary env (n + 1) p3 db2 route ids (ex_insert e (cd_backend_id c)) = (q, db', e', n', r)"
        using "1.prems" ch c o cl False by (simp add: acquire_primary.simps [of env n])
      from "1.IH" [OF ch [symmetric] refl _ _ o [symmetric] cl [symmetric] _ this] c False show ?thesis
        by (auto simp: excl.has_add)
    qed
  qed
qed

lemma acquire_excluding_granted:
  assumes "acquire_excluding env p db route e = (q, db', e', r)"
  shows "(\<forall>b. ex_contains e b \<longrightarrow> ex_contains e' b)
    \<and> (\<forall>l. r = Inr (Some l) \<longrightarrow> bl_backend_id l \<in> set (route_backends route) \<and> \<not> ex_contains e' (bl_backend_id l))"
proof -
  obtain p1 db1 e1 n r1 where a1: "acquire_primary env 0 p db route (rt_backend_ids route) e = (p1, db1, e1, n, r1)"
    by (metis prod_cases5)
  note S1 = acquire_primary_granted [OF a1]
  show ?thesis
  proof (cases "r1 = Inr None \<and> (\<exists>f. rt_fallback_backend_id route = Some f \<and> \<not> ex_contains e1 f)")
    case True
    then obtain f where f: "rt_fallback_backend_id route = Some f" "\<not> ex_contains e1 f" "r1 = Inr None" by auto
    obtain p2 db2 e2 n2 r2 where a2: "acquire_primary env (n + 1) p1 db1 route [f] e1 = (p2, db2, e2, n2, r2)"
      by (metis prod_cases5)
    show ?thesis using assms a1 a2 f S1 acquire_primary_granted [OF a2]
      by (auto simp: acquire_excluding_def route_backends_def)
  next
    case False
    then show ?thesis using assms a1 S1
      by (auto simp: acquire_excluding_def route_backends_def split: sum.splits option.splits if_splits)
  qed
qed

lemma acquire_retry_granted:
  assumes "acquire_retry ae route replayable st tried = (st', tried', RetryWith l)"
  shows "(\<forall>b. ex_contains tried b \<longrightarrow> ex_contains tried' b) \<and> bl_backend_id l \<in> set (route_backends route)
    \<and> \<not> ex_contains tried' (bl_backend_id l) \<and> replayable"
proof -
  obtain p db e r where a: "acquire_excluding (ae_acquire ae) (as_pool st) (as_counters st) route tried = (p, db, e, r)"
    by (metis prod_cases4)
  show ?thesis using assms a acquire_excluding_granted [OF a]
    by (auto simp: acquire_retry_def split: if_splits sum.splits option.splits acquire_error.splits)
qed

text \<open>The backends that neither were tried nor are being tried.\<close>

definition untried :: "model_route \<Rightarrow> backend_exclusions \<Rightarrow> backend_lease \<Rightarrow> i64 set" where
  "untried route tried l = {b \<in> set (route_backends route). \<not> ex_contains tried b \<and> b \<noteq> bl_backend_id l}"

lemma untried_decreases:
  assumes "acquire_retry ae route replayable st (ex_insert tried (bl_backend_id l)) = (st', tried', RetryWith l')"
  shows "card (untried route tried' l') < card (untried route tried l)"
proof (rule psubset_card_mono)
  show "finite (untried route tried l)" by (simp add: untried_def)
  note g = acquire_retry_granted [OF assms]
  then have "bl_backend_id l' \<in> untried route tried l" by (auto simp: untried_def excl.has_add)
  moreover have "bl_backend_id l' \<notin> untried route tried' l'" by (simp add: untried_def)
  moreover have "untried route tried' l' \<subseteq> untried route tried l" using g by (auto simp: untried_def excl.has_add)
  ultimately show "untried route tried' l' \<subset> untried route tried l" by blast
qed

text \<open>
  The loop with a lease in hand; the reservation and the guard travel to the reporter. The second component of the result
  is the trace of the requests sent.
\<close>

type_synonym sent = "(i64 \<times> reqwest_request) list"

definition sent_by :: "i64 \<Rightarrow> unit + reqwest_request \<Rightarrow> sent" where
  "sent_by b built = (case built of Inl _ \<Rightarrow> [] | Inr req \<Rightarrow> [(b, req)])"

definition forwarding ::
  "attempt_env \<Rightarrow> proxy_context \<Rightarrow> budget_reservation option \<Rightarrow> concurrency_guard option \<Rightarrow> backend \<Rightarrow> backend_lease \<Rightarrow> upstream_response
   \<Rightarrow> proxy_outcome" where
  "forwarding ae ctx res guard backend l resp =
     Forwarding resp (be_format backend) (be_name backend) (ae_pre_forward_ms ae)
       (reporter_new ctx (bl_backend_id l) (be_name backend) (ae_pre_forward_ms ae) (ae_elapsed_ms ae) res guard l)"

text \<open>One round: a final result, or the state, the trace and the lease with which the loop continues.\<close>

definition proxy_attempt ::
  "serde \<Rightarrow> http_client \<Rightarrow> attempt_env \<Rightarrow> proxy_context \<Rightarrow> client_request \<Rightarrow> bool \<Rightarrow> budget_reservation option
   \<Rightarrow> concurrency_guard option \<Rightarrow> app_state \<Rightarrow> backend_exclusions \<Rightarrow> backend_lease \<Rightarrow> proxy_request_body option
   \<Rightarrow> (app_state \<times> sent \<times> proxy_outcome) + (app_state \<times> sent \<times> backend_exclusions \<times> backend_lease \<times> proxy_request_body option)" where
  "proxy_attempt sd hc ae ctx cq replayable res guard st tried l upload_body =
     (let b = bl_backend_id l; tried1 = ex_insert tried b in
      case begin_attempt sd hc ae ctx cq b upload_body of
        Inl (status, message, name) \<Rightarrow>
          Inl (emit [request_total_for ctx (unwrap_or [] name) status] (release l st), [],
               router_error sd hc ctx status message name (ae_elapsed_ms ae))
      | Inr (backend, built, left) \<Rightarrow>
          (case execute_attempt ae built of
             Inr resp \<Rightarrow>
               if \<not> is_retryable_status (up_status resp)
               then Inl (note_pool b True (ae_now ae) st, sent_by b built, forwarding ae ctx res guard backend l resp)
               else
                 (case acquire_retry ae (pc_route ctx) replayable (note_pool b False (ae_now ae) st) tried1 of
                    (st2, tried2, RetryWith l2) \<Rightarrow> Inr (release l st2, sent_by b built, tried2, l2, left)
                  | (st2, tried2, RetryFailed msg) \<Rightarrow>
                      Inl (emit [request_total_for ctx [] 503] (release l st2), sent_by b built,
                           router_error sd hc ctx 503 msg None (ae_elapsed_ms ae))
                  | (st2, tried2, NoRetry) \<Rightarrow> Inl (st2, sent_by b built, forwarding ae ctx res guard backend l resp))
           | Inl (status, message) \<Rightarrow>
               (case acquire_retry ae (pc_route ctx) replayable
                       (emit [request_total_for ctx (be_name backend) status] (release l (note_pool b False (ae_now ae) st))) tried1 of
                  (st2, tried2, RetryWith l2) \<Rightarrow> Inr (st2, sent_by b built, tried2, l2, left)
                | (st2, tried2, RetryFailed msg) \<Rightarrow>
                    Inl (emit [request_total_for ctx [] 503] st2, sent_by b built,
                         router_error sd hc ctx 503 msg None (ae_elapsed_ms ae))
                | (st2, tried2, NoRetry) \<Rightarrow>
                    Inl (st2, sent_by b built,
                         router_error sd hc ctx status message (Some (be_name backend)) (ae_pre_forward_ms ae)))))"

text \<open>What a round that continues has done: it acquired another backend, before or after releasing its own.\<close>

lemma proxy_attempt_again:
  assumes "proxy_attempt sd hc ae ctx cq replayable res guard st tried l ub = Inr (st', tr, tried', l', left)"
  obtains backend built st1 st2 where "begin_attempt sd hc ae ctx cq (bl_backend_id l) ub = Inr (backend, built, left)"
    "tr = sent_by (bl_backend_id l) built"
    "acquire_retry ae (pc_route ctx) replayable st1 (ex_insert tried (bl_backend_id l)) = (st2, tried', RetryWith l')"
    "let n = note_pool (bl_backend_id l) False (ae_now ae) st in
       (st1 = n \<and> st' = release l st2) \<or> (\<exists>ms. st1 = emit ms (release l n) \<and> st' = st2)"
  using assms that
  by (auto simp: proxy_attempt_def Let_def split: sum.splits prod.splits if_splits retry.splits)

lemma attempt_decreases:
  assumes "proxy_attempt sd hc ae ctx cq replayable res guard st tried l ub = Inr (st', tr, tried', l', left)"
  shows "card (untried (pc_route ctx) tried' l') < card (untried (pc_route ctx) tried l)"
  using assms by (rule proxy_attempt_again) (erule untried_decreases)

lemma emit_Nil [simp]: "emit [] st = st"
  by (simp add: emit_def)

lemma proxy_attempt_final:
  assumes "proxy_attempt sd hc ae ctx cq replayable res guard st tried l ub = Inl (st', tr, out)"
  obtains (early) ms resp where "tr = []" "out = Rejected resp" "st' = emit ms (release l st)"
  | (forwarded) backend built left resp st1 ok where
      "begin_attempt sd hc ae ctx cq (bl_backend_id l) ub = Inr (backend, built, left)" "tr = sent_by (bl_backend_id l) built"
      "out = forwarding ae ctx res guard backend l resp" "execute_attempt ae built = Inr resp"
      "st1 = note_pool (bl_backend_id l) ok (ae_now ae) st" "ok \<longleftrightarrow> \<not> is_retryable_status (up_status resp)"
      "if ok then st' = st1
       else \<exists>tried'. acquire_retry ae (pc_route ctx) replayable st1 (ex_insert tried (bl_backend_id l)) = (st', tried', NoRetry)"
  | (rejected) backend built left resp st1 st2 tried' x ms where
      "begin_attempt sd hc ae ctx cq (bl_backend_id l) ub = Inr (backend, built, left)" "tr = sent_by (bl_backend_id l) built"
      "out = Rejected resp" "x = NoRetry \<or> (\<exists>m. x = RetryFailed m)"
      "acquire_retry ae (pc_route ctx) replayable st1 (ex_insert tried (bl_backend_id l)) = (st2, tried', x)"
      "let n = note_pool (bl_backend_id l) False (ae_now ae) st in
         (st1 = n \<and> st' = emit ms (release l st2)) \<or> (\<exists>ns. st1 = emit ns (release l n) \<and> st' = emit ms st2)"
proof (cases "begin_attempt sd hc ae ctx cq (bl_backend_id l) ub")
  case (Inl x)
  obtain status message name where "x = (status, message, name)" by (cases x)
  then show ?thesis using assms Inl by (intro early) (auto simp: proxy_attempt_def router_error_def Let_def)
next
  case (Inr y)
  obtain backend built left where y: "y = (backend, built, left)" by (cases y)
  let ?b = "bl_backend_id l"
  let ?n = "note_pool ?b False (ae_now ae) st"
  show ?thesis
  proof (cases "execute_attempt ae built")
    case (Inl z)
    obtain status message where z: "z = (status, message)" by (cases z)
    let ?st1 = "emit [request_total_for ctx (be_name backend) status] (release l ?n)"
    obtain st2 tried2 x where a: "acquire_retry ae (pc_route ctx) replayable ?st1 (ex_insert tried ?b) = (st2, tried2, x)"
      by (metis prod_cases3)
    have x: "x = NoRetry \<or> (\<exists>m. x = RetryFailed m)"
      using assms Inr y Inl z a by (cases x) (auto simp: proxy_attempt_def Let_def)
    have "tr = sent_by ?b built" "\<exists>ms. st' = emit ms st2" "\<exists>resp. out = Rejected resp"
      using assms Inr y Inl z a x
      by (auto simp: proxy_attempt_def router_error_def Let_def intro: exI [of _ "[]"] exI [of _ "[request_total_for ctx [] 503]"])
    then obtain ms resp where "tr = sent_by ?b built" "st' = emit ms st2" "out = Rejected resp" by blast
    then show ?thesis
      by (intro rejected [OF Inr [unfolded y] _ _ x a, of resp ms]) (auto simp: Let_def)
  next
    case r: (Inr resp)
    show ?thesis
    proof (cases "is_retryable_status (up_status resp)")
      case False
      then show ?thesis using assms Inr y r
        by (intro forwarded [OF Inr [unfolded y] _ _ r, where ok = True]) (auto simp: proxy_attempt_def Let_def)
    next
      case True
      obtain st2 tried2 x where a: "acquire_retry ae (pc_route ctx) replayable ?n (ex_insert tried ?b) = (st2, tried2, x)"
        by (metis prod_cases3)
      show ?thesis
      proof (cases x)
        case (RetryWith l2)
        then show ?thesis using assms Inr y r True a by (simp add: proxy_attempt_def Let_def)
      next
        case (RetryFailed m)
        then have "tr = sent_by ?b built" "st' = emit [request_total_for ctx [] 503] (release l st2)"
            "out = router_error sd hc ctx 503 m None (ae_elapsed_ms ae)"
          using assms Inr y r True a by (auto simp: proxy_attempt_def Let_def)
        then show ?thesis
          by (intro rejected [OF Inr [unfolded y] _ _ _ a]) (auto simp: router_error_def RetryFailed Let_def)
      next
        case NoRetry
        then have "tr = sent_by ?b built" "st' = st2" "out = forwarding ae ctx res guard backend l resp"
          using assms Inr y r True a by (auto simp: proxy_attempt_def Let_def)
        then show ?thesis using True a NoRetry
          by (intro forwarded [OF Inr [unfolded y] _ _ r, where ok = False]) auto
      qed
    qed
  qed
qed

function proxy_loop ::
  "serde \<Rightarrow> http_client \<Rightarrow> (nat \<Rightarrow> attempt_env) \<Rightarrow> proxy_context \<Rightarrow> client_request \<Rightarrow> bool \<Rightarrow> budget_reservation option
   \<Rightarrow> concurrency_guard option \<Rightarrow> nat \<Rightarrow> app_state \<Rightarrow> backend_exclusions \<Rightarrow> backend_lease \<Rightarrow> proxy_request_body option
   \<Rightarrow> app_state \<times> sent \<times> proxy_outcome" where
  "proxy_loop sd hc env ctx cq replayable res guard k st tried l upload_body =
     (case proxy_attempt sd hc (env k) ctx cq replayable res guard st tried l upload_body of
        Inl final \<Rightarrow> final
      | Inr (st1, tr1, tried1, l1, left) \<Rightarrow>
          (case proxy_loop sd hc env ctx cq replayable res guard (k + 1) st1 tried1 l1 left of
             (st', tr, out) \<Rightarrow> (st', tr1 @ tr, out)))"
  by pat_completeness auto
termination
proof (relation "measure (\<lambda>(sd, hc, env, ctx, cq, replayable, res, guard, k, st, tried, l, ub). card (untried (pc_route ctx) tried l))",
    goal_cases)
  case 1
  show ?case by simp
next
  case (2 sd hc env ctx cq replayable res guard k st tried l ub)
  then show ?case by (auto dest: attempt_decreases)
qed

declare proxy_loop.simps [simp del]

definition settle_rejected :: "budget_reservation option \<Rightarrow> concurrency_guard option \<Rightarrow> app_state \<Rightarrow> app_state" where
  "settle_rejected res guard st =
     (let store1 = drop_guard guard (as_store st);
          store2 = (case res of None \<Rightarrow> store1 | Some r \<Rightarrow> reservation_drop store1 r)
      in st\<lparr>as_store := store2\<rparr>)"

text \<open>On every early return the guard and the reservation are dropped, in that order.\<close>

definition proxy_forward ::
  "serde \<Rightarrow> http_client \<Rightarrow> (nat \<Rightarrow> attempt_env) \<Rightarrow> app_state \<Rightarrow> client_request \<Rightarrow> proxy_request_body \<Rightarrow> proxy_context
   \<Rightarrow> app_state \<times> sent \<times> proxy_outcome" where
  "proxy_forward sd hc env st cq body ctx =
     (let ae = env 0; res = pc_reservation ctx; guard = pc_concurrency ctx;
          replayable = (case body of Buffered _ \<Rightarrow> True | Streaming _ _ _ \<Rightarrow> False)
      in case acquire_excluding (ae_acquire ae) (as_pool st) (as_counters st) (pc_route ctx) exclusions_default of
           (p, db, tried, r) \<Rightarrow>
             (let st1 = st\<lparr>as_pool := p, as_counters := db\<rparr> in
              case r of
                Inl (CounterUnavailable msg) \<Rightarrow>
                  (settle_rejected res guard (emit [request_total_for ctx [] 503] st1), [],
                   router_error sd hc ctx 503 msg None (ae_elapsed_ms ae))
              | Inr None \<Rightarrow>
                  (settle_rejected res guard (emit [request_total_for ctx [] 503] st1), [],
                   router_error sd hc ctx 503 (''no healthy backend available: '' @ unavailable_report p (pc_route ctx) (ae_now ae))
                     None (ae_elapsed_ms ae))
              | Inr (Some l) \<Rightarrow>
                  (case proxy_loop sd hc env ctx cq replayable res guard 1 st1 tried l (Some body) of
                     (st2, tr, Rejected resp) \<Rightarrow> (settle_rejected res guard st2, tr, Rejected resp)
                   | (st2, tr, out) \<Rightarrow> (st2, tr, out))))"

section \<open>What a backend receives\<close>

lemma hdr_values_insert [simp]: "hdr_values (hdr_insert n v h) m = (if m = n then [v] else hdr_values h m)"
  by (auto simp: hdr_values_def hdr_insert_def filter_empty_conv intro: arg_cong [where f = "map snd"] filter_cong)

lemma forwarded_values:
  "hdr_values (forwarded_headers hs) n =
     (if must_drop_header n then [] else case rev (hdr_values hs n) of [] \<Rightarrow> [] | v # _ \<Rightarrow> [v])"
proof (induction hs rule: rev_induct)
  case Nil
  then show ?case by (simp add: forwarded_headers_def hdr_values_def)
next
  case (snoc nv hs)
  obtain m v where nv: "nv = (m, v)" by (cases nv)
  have "forwarded_headers (hs @ [nv]) = (if must_drop_header m then forwarded_headers hs else hdr_insert m v (forwarded_headers hs))"
    by (simp add: forwarded_headers_def nv)
  moreover have "hdr_values (hs @ [nv]) n = hdr_values hs n @ (if m = n then [v] else [])"
    by (simp add: hdr_values_def nv)
  ultimately show ?case using snoc by auto
qed

lemma must_drop_credentials [simp]: "must_drop_header ''authorization''" "must_drop_header ''x-api-key''"
    "\<not> must_drop_header ''anthropic-version''"
  by code_simp+

lemma inject_auth_values:
  assumes "inject_auth hc fmt key (forwarded_headers headers) = Inr h"
  shows "hdr_values h n =
    (if n = ''authorization'' then (if fmt = FmtOpenAi \<and> key \<noteq> [] then [''Bearer '' @ key] else [])
     else if n = ''x-api-key'' then (if fmt = FmtAnthropic \<and> key \<noteq> [] then [key] else [])
     else if must_drop_header n then []
     else case rev (hdr_values headers n) of
            [] \<Rightarrow> if n = ''anthropic-version'' \<and> fmt = FmtAnthropic \<and> key \<noteq> [] then [''2023-06-01''] else []
          | v # _ \<Rightarrow> [v])"
proof (cases fmt)
  case FmtOpenAi
  then show ?thesis using assms by (auto simp: inject_auth_def forwarded_values split: if_splits list.splits)
next
  case FmtAnthropic
  let ?h1 = "hdr_insert ''x-api-key'' key (forwarded_headers headers)"
  have av: "hdr_values ?h1 ''anthropic-version'' = (case rev (hdr_values headers ''anthropic-version'') of [] \<Rightarrow> [] | v # _ \<Rightarrow> [v])"
    by (simp add: forwarded_values)
  show ?thesis
  proof (cases "key = []")
    case True
    then show ?thesis using assms FmtAnthropic by (auto simp: inject_auth_def forwarded_values split: list.splits)
  next
    case False
    have "h = (if hdr_values ?h1 ''anthropic-version'' = [] then hdr_insert ''anthropic-version'' ''2023-06-01'' ?h1 else ?h1)"
      using assms FmtAnthropic False by (auto simp: inject_auth_def Let_def split: if_splits)
    then show ?thesis using FmtAnthropic False av by (auto simp: forwarded_values split: list.splits)
  qed
qed

text \<open>
  C31. Exactly which headers a backend receives: the router's own credential for it, in the one header of its format, and no
  credential of the client (\<open>Authorization\<close>, \<open>X-Api-Key\<close>, \<open>Proxy-Authorization\<close>), no hop-by-hop header; the request id
  and \<open>identity\<close> as the accepted encoding; the client's \<open>anthropic-version\<close> or the default; of any other header the
  last value the client sent.
\<close>

theorem backend_headers_exact:
  assumes "build_reqwest_request hc method url headers body fmt key rid = Inr req"
  shows "hdr_values (rq_headers req) n =
    (if n = ''accept-encoding'' then [''identity''] else if n = ''x-request-id'' then [rid]
     else if n = ''authorization'' then (if fmt = FmtOpenAi \<and> key \<noteq> [] then [''Bearer '' @ key] else [])
     else if n = ''x-api-key'' then (if fmt = FmtAnthropic \<and> key \<noteq> [] then [key] else [])
     else if must_drop_header n then []
     else case rev (hdr_values headers n) of
            [] \<Rightarrow> if n = ''anthropic-version'' \<and> fmt = FmtAnthropic \<and> key \<noteq> [] then [''2023-06-01''] else []
          | v # _ \<Rightarrow> [v])"
proof -
  obtain h where h: "inject_auth hc fmt key (forwarded_headers headers) = Inr h"
      "rq_headers req = hdr_insert ''accept-encoding'' ''identity'' (hdr_insert ''x-request-id'' rid h)"
    using assms by (auto simp: build_reqwest_request_def try_res_Inr_iff Let_def split: if_splits)
  show ?thesis using inject_auth_values [OF h(1), of n] by (simp add: h(2))
qed

theorem backend_headers_exact_witness:
  "\<exists>req. build_reqwest_request \<lparr>hc_value_ok = \<lambda>_. True, hc_url_ok = \<lambda>_. True, hc_text_ok = \<lambda>_. True\<rparr> ''POST'' ''http://b/v1'' [(''authorization'', ''Bearer client'')]
      (FullBody ''{}'') FmtOpenAi ''k'' ''r'' = Inr req \<and> hdr_values (rq_headers req) ''authorization'' = [''Bearer k'']"
proof -
  let ?hc = "\<lparr>hc_value_ok = \<lambda>_. True, hc_url_ok = \<lambda>_. True, hc_text_ok = \<lambda>_. True\<rparr>"
  obtain req where r: "build_reqwest_request ?hc ''POST'' ''http://b/v1'' [(''authorization'', ''Bearer client'')] (FullBody ''{}'')
      FmtOpenAi ''k'' ''r'' = Inr req"
    by (simp add: build_reqwest_request_def inject_auth_def Let_def)
  then show ?thesis using backend_headers_exact [OF r, of "''authorization''"] by simp
qed

section \<open>Retries\<close>

text \<open>A request of the trace went to an enabled backend of the snapshot of its attempt, with that backend's credential.\<close>

definition credential_of :: "backend_format \<Rightarrow> string \<Rightarrow> header_map" where
  "credential_of fmt key = (if key = [] then [] else case fmt of
     FmtOpenAi \<Rightarrow> [(''authorization'', ''Bearer '' @ key)] | FmtAnthropic \<Rightarrow> [(''x-api-key'', key)])"

definition sent_properly :: "(nat \<Rightarrow> attempt_env) \<Rightarrow> proxy_context \<Rightarrow> i64 \<times> reqwest_request \<Rightarrow> bool" where
  "sent_properly env ctx = (\<lambda>(b, req). \<exists>k backend. hm_get (ae_backends (env k)) b = Some backend \<and> be_enabled backend
     \<and> (\<forall>n \<in> {''authorization'', ''x-api-key''}. hdr_values (rq_headers req) n
          = hdr_values (credential_of (be_format backend) (auth_key_for (endpoint_for (pc_route ctx) b) backend)) n))"

lemma built_values:
  assumes "build_reqwest_request hc method url headers body fmt key rid = Inr req" and "n \<in> {''authorization'', ''x-api-key''}"
  shows "hdr_values (rq_headers req) n = hdr_values (credential_of fmt key) n"
proof -
  obtain h where h: "inject_auth hc fmt key (forwarded_headers headers) = Inr h"
      "rq_headers req = hdr_insert ''accept-encoding'' ''identity'' (hdr_insert ''x-request-id'' rid h)"
    using assms(1) by (auto simp: build_reqwest_request_def try_res_Inr_iff Let_def split: if_splits)
  have "hdr_values (rq_headers req) n = hdr_values h n" using assms(2) by (auto simp: h(2))
  moreover have "hdr_values (credential_of fmt key) ''authorization'' = (if fmt = FmtOpenAi \<and> key \<noteq> [] then [''Bearer '' @ key] else [])"
    "hdr_values (credential_of fmt key) ''x-api-key'' = (if fmt = FmtAnthropic \<and> key \<noteq> [] then [key] else [])"
    by (cases fmt; simp add: credential_of_def hdr_values_def)+
  moreover have "hdr_values h ''authorization'' = (if fmt = FmtOpenAi \<and> key \<noteq> [] then [''Bearer '' @ key] else [])"
    "hdr_values h ''x-api-key'' = (if fmt = FmtAnthropic \<and> key \<noteq> [] then [key] else [])"
    by (subst inject_auth_values [OF h(1)], simp)+
  ultimately show ?thesis using assms(2) by auto
qed

lemma begin_attempt_sent:
  assumes "begin_attempt sd hc (env k) ctx cq b ub = Inr (backend, built, left)" and "x \<in> set (sent_by b built)"
  shows "sent_properly env ctx x"
proof -
  obtain req where x: "x = (b, req)" "built = Inr req" using assms(2) by (auto simp: sent_by_def split: sum.splits)
  obtain bk where bk: "filter_opt be_enabled (hm_get (ae_backends (env k)) b) = Some bk"
    using assms(1) by (cases "filter_opt be_enabled (hm_get (ae_backends (env k)) b)") (simp_all add: begin_attempt_def)
  obtain body where body: "ub = Some body" using assms(1) bk by (cases ub) (simp_all add: begin_attempt_def Let_def split: if_splits)
  obtain rb lf where pb: "prepare_body sd ctx bk (endpoint_for (pc_route ctx) b) body = Inr (rb, lf)"
    using assms(1) bk body
    by (cases "prepare_body sd ctx bk (endpoint_for (pc_route ctx) b) body") (auto simp: begin_attempt_def Let_def split: if_splits)
  have be: "hm_get (ae_backends (env k)) b = Some backend" "be_enabled backend"
    and bu: "built = build_reqwest_request hc (cq_method cq) (build_target_url (be_base_url backend) (cq_path_and_query cq))
        (cq_headers cq) rb (be_format backend) (auth_key_for (endpoint_for (pc_route ctx) b) backend) (pc_request_id ctx)"
    using assms(1) bk body pb by (auto simp: begin_attempt_def Let_def split: if_splits)
  from built_values [OF trans [OF sym [OF bu] x(2)]] be show ?thesis by (auto simp: sent_properly_def x(1))
qed

lemma fst_sent_by: "x \<in> set (sent_by b built) \<Longrightarrow> fst x = b" "length (sent_by b built) \<le> Suc 0" "distinct (map fst (sent_by b built))"
  by (auto simp: sent_by_def split: sum.splits)

lemma proxy_loop_trace:
  assumes "proxy_loop sd hc env ctx cq replayable res guard k st tried l ub = (st', tr, out)"
  shows "distinct (map fst tr)
    \<and> (\<forall>b \<in> fst ` set tr. b = bl_backend_id l \<or> b \<in> untried (pc_route ctx) tried l)
    \<and> (replayable \<or> length tr \<le> 1) \<and> (\<forall>x \<in> set tr. sent_properly env ctx x)"
  using assms
proof (induction sd hc env ctx cq replayable res guard k st tried l ub arbitrary: tr rule: proxy_loop.induct)
  case (1 sd hc env ctx cq replayable res guard k st tried l ub)
  let ?a = "proxy_attempt sd hc (env k) ctx cq replayable res guard st tried l ub"
  show ?case
  proof (cases ?a)
    case (Inl f)
    then have "?a = Inl (st', tr, out)" using "1.prems" by (simp add: proxy_loop.simps [of sd hc env])
    then show ?thesis by (cases rule: proxy_attempt_final) (auto dest: fst_sent_by(1) begin_attempt_sent simp: fst_sent_by)
  next
    case (Inr g)
    obtain st1 tr1 tried1 l1 left where g: "g = (st1, tr1, tried1, l1, left)" by (metis prod_cases5)
    obtain tr2 where r: "proxy_loop sd hc env ctx cq replayable res guard (k + 1) st1 tried1 l1 left = (st', tr2, out)"
        and tr: "tr = tr1 @ tr2"
      using "1.prems" Inr g by (auto simp: proxy_loop.simps [of sd hc env] split: prod.splits)
    note IH = "1.IH" [OF Inr g [symmetric] refl refl refl r]
    from Inr g have "?a = Inr (st1, tr1, tried1, l1, left)" by simp
    then show ?thesis
    proof (cases rule: proxy_attempt_again)
      case (1 backend built st3 st4)
      note gr = acquire_retry_granted [OF 1(3)]
      have sub: "b \<in> untried (pc_route ctx) tried l" if "b = bl_backend_id l1 \<or> b \<in> untried (pc_route ctx) tried1 l1" for b
        using that gr by (auto simp: untried_def excl.has_add)
      then have "\<forall>b \<in> fst ` set tr2. b \<in> untried (pc_route ctx) tried l" using IH by blast
      moreover from this have "fst ` set (sent_by (bl_backend_id l) built) \<inter> fst ` set tr2 = {}"
        by (auto simp: untried_def dest!: fst_sent_by(1))
      ultimately show ?thesis using IH 1(2) gr begin_attempt_sent [where env = env and k = k, OF 1(1)]
          fst_sent_by(3) [of "bl_backend_id l" built]
        by (auto simp: tr dest: fst_sent_by(1))
    qed
  qed
qed

text \<open>
  C32. The retry loop ends (it is total) and contacts every backend at most once: only backends of the route or its
  fallback, only ones enabled in the configuration at that time, each with its own credential and no other; a streamed
  upload, whose body is gone after the first attempt, is sent at most once.
\<close>

theorem retries_never_revisit:
  assumes "proxy_forward sd hc env st cq body ctx = (st', tr, out)"
  shows "distinct (map fst tr) \<and> fst ` set tr \<subseteq> set (route_backends (pc_route ctx))
    \<and> (\<forall>x \<in> set tr. sent_properly env ctx x)
    \<and> (case body of Buffered _ \<Rightarrow> True | Streaming _ _ _ \<Rightarrow> length tr \<le> 1)"
proof -
  obtain p db tried r where a: "acquire_excluding (ae_acquire (env 0)) (as_pool st) (as_counters st) (pc_route ctx) exclusions_default
      = (p, db, tried, r)" by (metis prod_cases4)
  show ?thesis
  proof (cases "\<exists>l. r = Inr (Some l)")
    case False
    then have "tr = []" using assms a
      by (auto simp: proxy_forward_def Let_def split: sum.splits option.splits acquire_error.splits)
    then show ?thesis by (simp split: proxy_request_body.splits)
  next
    case True
    then obtain l where l: "r = Inr (Some l)" ..
    let ?rep = "case body of Buffered _ \<Rightarrow> True | Streaming _ _ _ \<Rightarrow> False"
    obtain st2 out2 where lp: "proxy_loop sd hc env ctx cq ?rep (pc_reservation ctx) (pc_concurrency ctx) 1
        (st\<lparr>as_pool := p, as_counters := db\<rparr>) tried l (Some body) = (st2, tr, out2)"
      using assms a l by (auto simp: proxy_forward_def Let_def split: prod.splits proxy_outcome.splits)
    show ?thesis using proxy_loop_trace [OF lp] acquire_excluding_granted [OF a] l
      by (auto simp: untried_def split: proxy_request_body.splits)
  qed
qed

section \<open>Leases\<close>

lemma inflight_note_pool [simp]: "inflight (as_pool (note_pool b ok now st)) = inflight (as_pool st)"
  by (auto simp: note_pool_def note_result_def inflight_def fun_eq_iff Let_def split: option.splits)

lemma inflight_emit [simp]: "as_pool (emit ms st) = as_pool st" "as_store (emit ms st) = as_store st" "as_ledger (emit ms st) = as_ledger st"
  by (simp_all add: emit_def)

lemma kept_note_pool [simp]: "as_store (note_pool b ok now st) = as_store st" "as_ledger (note_pool b ok now st) = as_ledger st"
  by (simp_all add: note_pool_def)

lemma kept_release [simp]: "as_store (release l st) = as_store st" "as_ledger (release l st) = as_ledger st"
  by (simp_all add: release_def)

definition plus_one :: "i64 \<Rightarrow> (i64 \<Rightarrow> u32) \<Rightarrow> i64 \<Rightarrow> u32" where
  "plus_one b G = G(b := G b + 1)"

lemma inflight_release:
  assumes "inflight (as_pool st) = plus_one (bl_backend_id l) G" and "G (bl_backend_id l) \<noteq> - 1"
  shows "inflight (as_pool (release l st)) = G"
proof -
  have "unat (G (bl_backend_id l)) \<noteq> unat (- 1 :: u32)" using assms(2) by (metis unsigned_word_eqI)
  then have "unat (G (bl_backend_id l)) + unat (1 :: u32) < 2 ^ LENGTH(32)"
    using unsigned_less [where 'a = nat, of "G (bl_backend_id l)"] by (simp add: unat_neg_one)
  then have "sat_sub (G (bl_backend_id l) + 1) 1 = G (bl_backend_id l)" by (rule sat_sub_of_add)
  moreover have "inflight (as_pool (release l st)) c
      = (if c = bl_backend_id l then sat_sub (inflight (as_pool st) c) 1 else inflight (as_pool st) c)" for c
    by (auto simp: release_def lease_drop_def dec_inflight_def inflight_def sat_sub_def split: option.splits)
  ultimately show ?thesis using assms(1) by (auto simp: plus_one_def fun_eq_iff)
qed

lemma acquire_excluding_gauges:
  assumes "quiet env now" and "acquire_excluding env p db route e = (q, db', e', r)"
  shows "inflight q = (case r of Inr (Some l) \<Rightarrow> plus_one (bl_backend_id l) (inflight p) | _ \<Rightarrow> inflight p)"
proof -
  obtain p1 db1 e1 n r1 where a1: "acquire_primary env 0 p db route (rt_backend_ids route) e = (p1, db1, e1, n, r1)"
    by (metis prod_cases5)
  note S1 = acquire_primary_quiet [OF assms(1) a1]
  have g: "inflight q = (case r of Inr (Some l) \<Rightarrow> plus_one (bl_backend_id l) (inflight p) | _ \<Rightarrow> inflight p)"
    if "case r of Inl _ \<Rightarrow> settled now p q \<and> P1 | Inr None \<Rightarrow> settled now p q \<and> P2
      | Inr (Some l) \<Rightarrow> P3 l \<and> P4 l \<and> (\<forall>b. inflight q b = inflight p b + (if b = bl_backend_id l then 1 else 0))"
    for p q r P1 P2 P3 P4
    using that by (auto simp: plus_one_def fun_eq_iff settled_inflight split: sum.splits option.splits)
  show ?thesis
  proof (cases "r1 = Inr None \<and> (\<exists>f. rt_fallback_backend_id route = Some f \<and> \<not> ex_contains e1 f)")
    case True
    then obtain f where f: "rt_fallback_backend_id route = Some f" "\<not> ex_contains e1 f" "r1 = Inr None" by auto
    obtain p2 db2 e2 n2 r2 where a2: "acquire_primary env (n + 1) p1 db1 route [f] e1 = (p2, db2, e2, n2, r2)"
      by (metis prod_cases5)
    have "q = p2" "r = r2" using assms(2) a1 a2 f by (auto simp: acquire_excluding_def)
    moreover have "inflight p1 = inflight p" using S1 f(3) by (auto simp: settled_inflight fun_eq_iff)
    ultimately show ?thesis using acquire_primary_quiet [OF assms(1) a2] by (auto simp: plus_one_def fun_eq_iff settled_inflight split: sum.splits option.splits)
  next
    case False
    then have "q = p1" "r = r1" using assms(2) a1
      by (auto simp: acquire_excluding_def split: sum.splits option.splits if_splits)
    then show ?thesis using S1 by (auto simp: plus_one_def fun_eq_iff settled_inflight split: sum.splits option.splits)
  qed
qed

lemma acquire_retry_gauges:
  assumes "acquire_retry ae route replayable st tried = (st', tried', r)" and "quiet (ae_acquire ae) now"
  shows "inflight (as_pool st') = (case r of RetryWith l \<Rightarrow> plus_one (bl_backend_id l) (inflight (as_pool st)) | _ \<Rightarrow> inflight (as_pool st))
    \<and> as_store st' = as_store st \<and> as_ledger st' = as_ledger st"
proof -
  obtain p db e x where a: "acquire_excluding (ae_acquire ae) (as_pool st) (as_counters st) route tried = (p, db, e, x)"
    by (metis prod_cases4)
  show ?thesis using assms(1) a acquire_excluding_gauges [OF assms(2) a]
    by (auto simp: acquire_retry_def split: if_splits sum.splits option.splits acquire_error.splits)
qed

text \<open>What the loop keeps: with \<open>G\<close> the gauges without the lease in hand, it ends with that lease returned or in the reporter.\<close>

definition handed_over :: "proxy_context \<Rightarrow> budget_reservation option \<Rightarrow> concurrency_guard option \<Rightarrow> (i64 \<Rightarrow> u32) \<Rightarrow> app_state \<Rightarrow> app_state
    \<Rightarrow> proxy_outcome \<Rightarrow> bool" where
  "handed_over ctx res guard G st st' out \<longleftrightarrow> as_store st' = as_store st \<and> as_ledger st' = as_ledger st
     \<and> (case out of
          Rejected _ \<Rightarrow> inflight (as_pool st') = G
        | Forwarding _ _ _ _ r \<Rightarrow> inflight (as_pool st') = plus_one (bl_backend_id (cr_lease r)) G
            \<and> cr_reservation r = res \<and> cr_concurrency r = guard \<and> \<not> cr_finished r \<and> cr_meta r = meta_from_ctx ctx)"

lemma proxy_attempt_handover:
  assumes q: "quiet (ae_acquire ae) now" and G: "\<And>b. G b \<noteq> - 1" and l: "inflight (as_pool st) = plus_one (bl_backend_id l) G"
  shows "proxy_attempt sd hc ae ctx cq rep res guard st tried l ub = Inl (st', tr, out) \<Longrightarrow> handed_over ctx res guard G st st' out"
    and "proxy_attempt sd hc ae ctx cq rep res guard st tried l ub = Inr (st', tr, tried', l', left) \<Longrightarrow>
      as_store st' = as_store st \<and> as_ledger st' = as_ledger st \<and> inflight (as_pool st') = plus_one (bl_backend_id l') G"
proof -
  let ?n = "note_pool (bl_backend_id l) False (ae_now ae) st"
  note rel = inflight_release [OF _ G]
  assume "proxy_attempt sd hc ae ctx cq rep res guard st tried l ub = Inl (st', tr, out)"
  then show "handed_over ctx res guard G st st' out"
  proof (cases rule: proxy_attempt_final)
    case (early ms resp)
    then show ?thesis using rel [OF l] by (simp add: handed_over_def)
  next
    case (forwarded backend built left resp st1 ok)
    then have "inflight (as_pool st') = inflight (as_pool st) \<and> as_store st' = as_store st \<and> as_ledger st' = as_ledger st"
      by (auto split: if_splits dest!: acquire_retry_gauges [OF _ q])
    then show ?thesis using forwarded(3) l by (simp add: handed_over_def forwarding_def reporter_new_def)
  next
    case (rejected backend built left resp st1 st2 tried' x ms)
    have same: "inflight (as_pool st2) = inflight (as_pool st1) \<and> as_store st2 = as_store st1 \<and> as_ledger st2 = as_ledger st1"
      using acquire_retry_gauges [OF rejected(5) q] rejected(4) by auto
    consider "st1 = ?n" "st' = emit ms (release l st2)" | ns where "st1 = emit ns (release l ?n)" "st' = emit ms st2"
      using rejected(6) by (auto simp: Let_def)
    then show ?thesis
    proof cases
      case 1
      then show ?thesis using same l rel [of st2 l] rejected(3) by (simp add: handed_over_def)
    next
      case 2
      then show ?thesis using same l rel [of ?n l] rejected(3) by (simp add: handed_over_def)
    qed
  qed
next
  let ?n = "note_pool (bl_backend_id l) False (ae_now ae) st"
  note rel = inflight_release [OF _ G]
  assume "proxy_attempt sd hc ae ctx cq rep res guard st tried l ub = Inr (st', tr, tried', l', left)"
  then show "as_store st' = as_store st \<and> as_ledger st' = as_ledger st \<and> inflight (as_pool st') = plus_one (bl_backend_id l') G"
  proof (cases rule: proxy_attempt_again)
    case (1 backend built st1 st2)
    note g = acquire_retry_gauges [OF 1(3) q]
    have ne: "bl_backend_id l' \<noteq> bl_backend_id l" using acquire_retry_granted [OF 1(3)] by (auto simp: excl.has_add)
    consider "st1 = ?n" "st' = release l st2" | ms where "st1 = emit ms (release l ?n)" "st' = st2"
      using 1(4) by (auto simp: Let_def)
    then show ?thesis
    proof cases
      case 1
      have "inflight (as_pool st2) = plus_one (bl_backend_id l) (plus_one (bl_backend_id l') G)"
        using g 1 l ne by (auto simp: plus_one_def fun_eq_iff)
      moreover have "plus_one (bl_backend_id l') G (bl_backend_id l) \<noteq> - 1" using ne G by (simp add: plus_one_def)
      ultimately have "inflight (as_pool (release l st2)) = plus_one (bl_backend_id l') G" by (rule inflight_release)
      then show ?thesis using g 1 by simp
    next
      case 2
      then show ?thesis using g l rel [of ?n l] by simp
    qed
  qed
qed

lemma proxy_loop_handover:
  assumes "proxy_loop sd hc env ctx cq rep res guard k st tried l ub = (st', tr, out)"
    and "\<forall>k. \<exists>now. quiet (ae_acquire (env k)) now" and G: "\<And>b. G b \<noteq> - 1"
    and "inflight (as_pool st) = plus_one (bl_backend_id l) G"
  shows "handed_over ctx res guard G st st' out"
  using assms(1,2,4)
proof (induction sd hc env ctx cq rep res guard k st tried l ub arbitrary: tr rule: proxy_loop.induct)
  case (1 sd hc env ctx cq rep res guard k st tried l ub)
  let ?a = "proxy_attempt sd hc (env k) ctx cq rep res guard st tried l ub"
  obtain now where q: "quiet (ae_acquire (env k)) now" using "1.prems"(2) by blast
  show ?case
  proof (cases ?a)
    case (Inl f)
    then have "?a = Inl (st', tr, out)" using "1.prems"(1) by (simp add: proxy_loop.simps [of sd hc env])
    then show ?thesis by (rule proxy_attempt_handover(1) [OF q G "1.prems"(3)])
  next
    case (Inr g)
    obtain st1 tr1 tried1 l1 left where g: "g = (st1, tr1, tried1, l1, left)" by (metis prod_cases5)
    obtain tr2 where r: "proxy_loop sd hc env ctx cq rep res guard (k + 1) st1 tried1 l1 left = (st', tr2, out)"
      using "1.prems"(1) Inr g by (auto simp: proxy_loop.simps [of sd hc env] split: prod.splits)
    have h: "as_store st1 = as_store st \<and> as_ledger st1 = as_ledger st \<and> inflight (as_pool st1) = plus_one (bl_backend_id l1) G"
      by (rule proxy_attempt_handover(2) [OF q G "1.prems"(3) Inr [unfolded g]])
    from "1.IH" [OF Inr g [symmetric] refl refl refl r "1.prems"(2)] h show ?thesis by (simp add: handed_over_def)
  qed
qed

lemma proxy_forward_handover:
  assumes "proxy_forward sd hc env st cq body ctx = (st', tr, out)"
    and "\<forall>k. \<exists>now. quiet (ae_acquire (env k)) now" and "\<forall>b. inflight (as_pool st) b \<noteq> - 1"
  shows "as_ledger st' = as_ledger st
    \<and> (case out of
         Rejected _ \<Rightarrow> inflight (as_pool st') = inflight (as_pool st)
           \<and> as_store st' = (case pc_reservation ctx of None \<Rightarrow> drop_guard (pc_concurrency ctx) (as_store st)
                | Some res \<Rightarrow> reservation_drop (drop_guard (pc_concurrency ctx) (as_store st)) res)
       | Forwarding _ _ _ _ r \<Rightarrow> as_store st' = as_store st
           \<and> inflight (as_pool st') = plus_one (bl_backend_id (cr_lease r)) (inflight (as_pool st))
           \<and> cr_reservation r = pc_reservation ctx \<and> cr_concurrency r = pc_concurrency ctx \<and> \<not> cr_finished r \<and> cr_meta r = meta_from_ctx ctx)"
proof -
  obtain now where q: "quiet (ae_acquire (env 0)) now" using assms(2) by blast
  obtain p db tried r where a: "acquire_excluding (ae_acquire (env 0)) (as_pool st) (as_counters st) (pc_route ctx) exclusions_default
      = (p, db, tried, r)" by (metis prod_cases4)
  note g = acquire_excluding_gauges [OF q a]
  let ?st1 = "st\<lparr>as_pool := p, as_counters := db\<rparr>"
  show ?thesis
  proof (cases "\<exists>l. r = Inr (Some l)")
    case False
    then have "inflight p = inflight (as_pool st)" using g by (auto split: sum.splits option.splits)
    then show ?thesis using assms(1) a False
      by (auto simp: proxy_forward_def router_error_def settle_rejected_def Let_def split: sum.splits option.splits acquire_error.splits)
  next
    case True
    then obtain l where l: "r = Inr (Some l)" ..
    let ?rep = "case body of Buffered _ \<Rightarrow> True | Streaming _ _ _ \<Rightarrow> False"
    obtain st2 tr2 out2 where lp: "proxy_loop sd hc env ctx cq ?rep (pc_reservation ctx) (pc_concurrency ctx) 1
        ?st1 tried l (Some body) = (st2, tr2, out2)" by (metis prod_cases3)
    have h: "handed_over ctx (pc_reservation ctx) (pc_concurrency ctx) (inflight (as_pool st)) ?st1 st2 out2"
      by (rule proxy_loop_handover [OF lp assms(2)]) (use assms(3) g l in simp_all)
    have "out = out2 \<and> st' = (case out2 of Rejected _ \<Rightarrow> settle_rejected (pc_reservation ctx) (pc_concurrency ctx) st2 | _ \<Rightarrow> st2)"
      using assms(1) a l lp by (auto simp: proxy_forward_def Let_def split: proxy_outcome.splits)
    then show ?thesis using h
      by (cases out2) (auto simp: handed_over_def settle_rejected_def Let_def split: option.splits)
  qed
qed

text \<open>
  C6. Nothing a request holds leaks: when no other request interferes, \<open>proxy_forward\<close> either rejects the request, with
  every in-flight gauge as before, the concurrency slot and the reservation given back and no ledger event written; or it
  hands exactly one lease, the reservation and the slot to the reporter, with every gauge but that backend's as before, whatever
  the backends answered and however many were tried.
\<close>

theorem proxy_forward_leaks_nothing:
  assumes "proxy_forward sd hc env st cq body ctx = (st', tr, out)"
    and "\<forall>k. \<exists>now. quiet (ae_acquire (env k)) now" and "\<forall>b. inflight (as_pool st) b \<noteq> - 1"
  shows "as_ledger st' = as_ledger st
    \<and> (case out of
         Rejected _ \<Rightarrow> inflight (as_pool st') = inflight (as_pool st)
           \<and> as_store st' = (case pc_reservation ctx of None \<Rightarrow> drop_guard (pc_concurrency ctx) (as_store st)
                | Some res \<Rightarrow> reservation_drop (drop_guard (pc_concurrency ctx) (as_store st)) res)
       | Forwarding _ _ _ _ r \<Rightarrow> as_store st' = as_store st
           \<and> inflight (as_pool st') = plus_one (bl_backend_id (cr_lease r)) (inflight (as_pool st))
           \<and> cr_reservation r = pc_reservation ctx \<and> cr_concurrency r = pc_concurrency ctx \<and> \<not> cr_finished r)"
  using proxy_forward_handover [OF assms] by (auto split: proxy_outcome.splits)

section \<open>A concrete request\<close>

definition demo_key :: api_key where
  "demo_key = \<lparr>ak_id = 7, ak_key_hash = [], ak_key_prefix = [], ak_team_id = 1, ak_owner = [], ak_allowed_models = [],
     ak_budget = None, ak_rpm_limit = None, ak_concurrency_limit = None, ak_expires_at = None, ak_enabled = True\<rparr>"

definition demo_context :: proxy_context where
  "demo_context = \<lparr>pc_api_key = demo_key, pc_model_name = ''m'', pc_route = demo_route RoundRobin, pc_request_id = ''r'', pc_stream = False,
     pc_stream_options_present = False, pc_protocol = OpenAiChat, pc_rewrite_model_in_proxy = False, pc_bridge = None,
     pc_response_dialect = DialectOpenAi, pc_reservation = Some \<lparr>br_scopes = [], br_consumed = False\<rparr>,
     pc_concurrency = Some \<lparr>cg_key_id = None\<rparr>, pc_estimated_input_tokens = 1\<rparr>"

definition demo_app :: app_state where
  "demo_app = (let ch = \<lparr>ch_queue = [], ch_capacity = 8, ch_closed = False\<rparr> in
     \<lparr>as_store = store_new, as_pool = demo_pool 7, as_counters = demo_db,
      as_ledger = \<lparr>ls_primary = ch, ls_overflow = ch, ls_dropped = []\<rparr>, as_metrics = []\<rparr>)"

definition demo_env :: "nat \<Rightarrow> attempt_env" where
  "demo_env k = \<lparr>ae_acquire = (\<lambda>_. \<lparr>re_now = 0, re_rnd = (\<lambda>_ _. 0), re_others = (\<lambda>x. x)\<rparr>), ae_backends = [], ae_now = 0,
     ae_pre_forward_ms = 1, ae_elapsed_ms = 2, ae_answer = (\<lambda>_. FirstByteTimeout)\<rparr>"

definition demo_http :: http_client where
  "demo_http = \<lparr>hc_value_ok = \<lambda>_. True, hc_url_ok = \<lambda>_. True, hc_text_ok = \<lambda>_. True\<rparr>"

definition demo_client :: client_request where
  "demo_client = \<lparr>cq_method = ''POST'', cq_path_and_query = ''/v1/chat/completions'', cq_headers = []\<rparr>"

abbreviation demo_forward :: "serde \<Rightarrow> app_state \<times> sent \<times> proxy_outcome" where
  "demo_forward sd \<equiv> proxy_forward sd demo_http demo_env demo_app demo_client (Buffered ''{}'') demo_context"

theorem retries_never_revisit_witness:
  "\<exists>sd. case demo_forward sd of (st', tr, out) \<Rightarrow> distinct (map fst tr) \<and> fst ` set tr \<subseteq> {1, 2}"
proof -
  let ?sd = "\<lparr>from_slice = (\<lambda>_. Inl []), to_string = (\<lambda>_. [])\<rparr>"
  obtain st' tr out where f: "demo_forward ?sd = (st', tr, out)" by (metis prod_cases3)
  have "set (route_backends (pc_route demo_context)) = {1, 2}" by (simp add: route_backends_def demo_context_def demo_route_def)
  then show ?thesis using f retries_never_revisit [OF f] by (intro exI [of _ ?sd]) simp
qed

theorem proxy_forward_leaks_nothing_witness:
  "\<exists>sd. case demo_forward sd of (st', tr, out) \<Rightarrow> as_ledger st' = as_ledger demo_app"
proof -
  let ?sd = "\<lparr>from_slice = (\<lambda>_. Inl []), to_string = (\<lambda>_. [])\<rparr>"
  obtain st' tr out where f: "demo_forward ?sd = (st', tr, out)" by (metis prod_cases3)
  have "\<forall>k. \<exists>now. quiet (ae_acquire (demo_env k)) now" by (auto simp: demo_env_def quiet_def)
  moreover have "\<forall>b. inflight (as_pool demo_app) b \<noteq> - 1" by (simp add: demo_app_def inflight_def demo_defs Let_def)
  ultimately show ?thesis using f proxy_forward_leaks_nothing [OF f] by (intro exI [of _ ?sd]) simp
qed

end
