(* ===== verification/Usage.thy ===== *)
theory Usage
  imports Contract Splice
begin

text \<open>
  Token accounting from upstream responses in \<open>src/proxy/mod.rs\<close>: the usage fields of JSON bodies and of
  server-sent events, and the tap that reads events from HTTP frames cut at arbitrary places. The
  tap is shown equal to reading the whole stream line by line.
\<close>

definition is_ascii_ws :: "char \<Rightarrow> bool" where
  "is_ascii_ws c \<longleftrightarrow> c \<in> {CHR '' '', CHR 0x09, CHR 0x0A, CHR 0x0C, CHR 0x0D}"

definition trim_ascii_start :: "bytes \<Rightarrow> bytes" where
  "trim_ascii_start s = dropWhile is_ascii_ws s"

definition parse_openai_usage_from_line :: "serde \<Rightarrow> bytes \<Rightarrow> (u64 \<times> u64) option" where
  "parse_openai_usage_from_line sd line =
     (case strip_prefix line ''data:'' of
        None \<Rightarrow> None
      | Some d \<Rightarrow>
          (let data = trim_ascii_start d in
           if starts_with data ''[DONE]'' then None
           else case from_slice sd data of
             Inl _ \<Rightarrow> None
           | Inr v \<Rightarrow>
               (case or_else (jget v ''usage'') (pointer v [''response'', ''usage'']) of
                  None \<Rightarrow> None
                | Some usage \<Rightarrow>
                    (case Option.bind (or_else (jget usage ''prompt_tokens'') (jget usage ''input_tokens'')) as_u64 of
                       None \<Rightarrow> None
                     | Some pt \<Rightarrow>
                         (case Option.bind (or_else (jget usage ''completion_tokens'') (jget usage ''output_tokens'')) as_u64 of
                            None \<Rightarrow> None
                          | Some ct \<Rightarrow> Some (pt, ct))))))"

definition parse_anthropic_usage_from_line :: "serde \<Rightarrow> bytes \<Rightarrow> (u64 option \<times> u64 option) option" where
  "parse_anthropic_usage_from_line sd line =
     (case strip_prefix line ''data:'' of
        None \<Rightarrow> None
      | Some d \<Rightarrow>
          (case from_slice sd (trim_ascii_start d) of
             Inl _ \<Rightarrow> None
           | Inr v \<Rightarrow>
               (case Option.bind (jget v ''type'') as_str of
                  None \<Rightarrow> None
                | Some event_type \<Rightarrow>
                    if event_type = ''message_start'' then
                      map_option (\<lambda>i. (Some i, None))
                        (Option.bind (pointer v [''message'', ''usage'', ''input_tokens'']) as_u64)
                    else if event_type = ''message_delta'' then
                      map_option (\<lambda>o1. (None, Some o1)) (Option.bind (pointer v [''usage'', ''output_tokens'']) as_u64)
                    else None)))"

record usage_accumulator =
  ua_input_tokens :: u64
  ua_output_tokens :: u64
  ua_seen_usage :: bool

definition usage_default :: usage_accumulator where
  "usage_default = \<lparr>ua_input_tokens = 0, ua_output_tokens = 0, ua_seen_usage = False\<rparr>"

definition process_sse_line :: "serde \<Rightarrow> bytes \<Rightarrow> backend_format \<Rightarrow> usage_accumulator \<Rightarrow> usage_accumulator" where
  "process_sse_line sd line fmt acc =
     (case fmt of
        FmtOpenAi \<Rightarrow>
          (case parse_openai_usage_from_line sd line of
             None \<Rightarrow> acc
           | Some (pt, ct) \<Rightarrow>
               acc\<lparr>ua_input_tokens := max (ua_input_tokens acc) pt,
                   ua_output_tokens := max (ua_output_tokens acc) ct, ua_seen_usage := True\<rparr>)
      | FmtAnthropic \<Rightarrow>
          (case parse_anthropic_usage_from_line sd line of
             None \<Rightarrow> acc
           | Some (inp, outp) \<Rightarrow>
               (let acc1 = (case inp of None \<Rightarrow> acc | Some i \<Rightarrow> acc\<lparr>ua_input_tokens := i, ua_seen_usage := True\<rparr>)
                in case outp of None \<Rightarrow> acc1 | Some o1 \<Rightarrow> acc1\<lparr>ua_output_tokens := o1, ua_seen_usage := True\<rparr>)))"

definition strip_cr :: "bytes \<Rightarrow> bytes" where
  "strip_cr line = unwrap_or line (strip_suffix line [CHR 0x0D])"

definition extract_usage_from_sse_chunk :: "serde \<Rightarrow> bytes \<Rightarrow> backend_format \<Rightarrow> usage_accumulator \<Rightarrow> usage_accumulator" where
  "extract_usage_from_sse_chunk sd chunk fmt acc =
     foldl (\<lambda>acc line0. let line = strip_cr line0 in
              if starts_with line ''data:'' then process_sse_line sd line fmt acc else acc)
       acc (split_char (CHR 0x0A) chunk)"

section \<open>The tap\<close>

record sse_usage_tap =
  tap_pending :: bytes
  tap_skipping :: bool

definition tap_default :: sse_usage_tap where
  "tap_default = \<lparr>tap_pending = [], tap_skipping = False\<rparr>"

definition TAP_LIMIT :: usize where
  "TAP_LIMIT = 1024 * 1024"

definition inspect :: "serde \<Rightarrow> bytes \<Rightarrow> backend_format \<Rightarrow> usage_accumulator \<Rightarrow> usage_accumulator" where
  "inspect sd line0 fmt acc =
     (if length line0 \<le> TAP_LIMIT \<and> chunk_may_have_usage line0 then
        (let line = strip_cr line0
         in if starts_with line ''data:'' then process_sse_line sd line fmt acc else acc)
      else acc)"

text \<open>One complete line of a frame, and the rest after the last newline.\<close>

definition tap_line ::
  "serde \<Rightarrow> backend_format \<Rightarrow> sse_usage_tap \<times> usage_accumulator \<Rightarrow> bytes \<Rightarrow> sse_usage_tap \<times> usage_accumulator" where
  "tap_line sd fmt = (\<lambda>(tap, acc) part.
     (let acc1 =
        (if tap_skipping tap then acc
         else if tap_pending tap = [] then inspect sd part fmt acc
         else if usat_add (length (tap_pending tap)) (length part) \<le> TAP_LIMIT
         then inspect sd (tap_pending tap @ part) fmt acc
         else acc)
      in (\<lparr>tap_pending = [], tap_skipping = False\<rparr>, acc1)))"

definition tap_tail :: "sse_usage_tap \<Rightarrow> bytes \<Rightarrow> sse_usage_tap" where
  "tap_tail tap tail =
     (if tap_skipping tap then tap
      else if usat_add (length (tap_pending tap)) (length tail) \<le> TAP_LIMIT
      then tap\<lparr>tap_pending := tap_pending tap @ tail\<rparr>
      else \<lparr>tap_pending = [], tap_skipping = True\<rparr>)"

definition tap_feed ::
  "serde \<Rightarrow> backend_format \<Rightarrow> sse_usage_tap \<times> usage_accumulator \<Rightarrow> bytes \<Rightarrow> sse_usage_tap \<times> usage_accumulator" where
  "tap_feed sd fmt s chunk =
     (let parts = split_char (CHR 0x0A) chunk;
          (tap1, acc1) = foldl (tap_line sd fmt) s (butlast parts)
      in (tap_tail tap1 (last parts), acc1))"

definition tap_finish :: "serde \<Rightarrow> backend_format \<Rightarrow> sse_usage_tap \<times> usage_accumulator \<Rightarrow> usage_accumulator" where
  "tap_finish sd fmt = (\<lambda>(tap, acc). if tap_skipping tap then acc else inspect sd (tap_pending tap) fmt acc)"

definition parse_usage_from_body :: "serde \<Rightarrow> bytes \<Rightarrow> backend_format \<Rightarrow> usage_accumulator" where
  "parse_usage_from_body sd body fmt =
     (case from_slice sd body of
        Inl _ \<Rightarrow> usage_default
      | Inr v \<Rightarrow>
          (case jget v ''usage'' of
             None \<Rightarrow> usage_default
           | Some usage \<Rightarrow>
               (let (inp, outp) = (case fmt of
                      FmtOpenAi \<Rightarrow> (Option.bind (or_else (jget usage ''prompt_tokens'') (jget usage ''input_tokens'')) as_u64,
                                    Option.bind (or_else (jget usage ''completion_tokens'') (jget usage ''output_tokens'')) as_u64)
                    | FmtAnthropic \<Rightarrow> (Option.bind (jget usage ''input_tokens'') as_u64,
                                       Option.bind (jget usage ''output_tokens'') as_u64));
                    acc1 = (case inp of None \<Rightarrow> usage_default
                            | Some i \<Rightarrow> usage_default\<lparr>ua_input_tokens := i, ua_seen_usage := True\<rparr>)
                in case outp of None \<Rightarrow> acc1 | Some o1 \<Rightarrow> acc1\<lparr>ua_output_tokens := o1, ua_seen_usage := True\<rparr>)))"

section \<open>Frames do not matter\<close>

lemma split_char_append:
  "split_char c (a @ b) =
     butlast (split_char c a) @ (last (split_char c a) @ hd (split_char c b)) # tl (split_char c b)"
proof (induction a)
  case Nil
  then show ?case by (simp add: neq_Nil_conv)
next
  case (Cons x a)
  then show ?case by (cases "split_char c a"; cases "x = c") (auto simp: neq_Nil_conv)
qed

lemma split_char_single: "c \<notin> set s \<Longrightarrow> split_char c s = [s]"
  by (induction s) auto

text \<open>What the tap remembers of the line it is in.\<close>

definition tap_holds :: "sse_usage_tap \<Rightarrow> bytes \<Rightarrow> bool" where
  "tap_holds tap line \<longleftrightarrow>
     (if length line \<le> TAP_LIMIT then \<not> tap_skipping tap \<and> tap_pending tap = line else tap_skipping tap)"

lemma inspect_long: "\<not> length line \<le> TAP_LIMIT \<Longrightarrow> inspect sd line fmt acc = acc"
  by (simp add: inspect_def)

lemma tap_limit_lt: "TAP_LIMIT < usize_max"
  by (simp add: TAP_LIMIT_def usize_max_def)

lemma tap_line_spec:
  assumes "tap_holds tap line"
  shows "tap_line sd fmt (tap, acc) part = (tap_default, inspect sd (line @ part) fmt acc)"
  using assms usat_add_le_iff [OF tap_limit_lt, of "length line" "length part"]
  by (auto simp: tap_line_def tap_holds_def tap_default_def Let_def inspect_long split: if_splits)

lemma tap_tail_spec: "tap_holds tap line \<Longrightarrow> tap_holds (tap_tail tap tail) (line @ tail)"
  using usat_add_le_iff [OF tap_limit_lt, of "length line" "length tail"]
  by (auto simp: tap_tail_def tap_holds_def split: if_splits)

lemma tap_default_holds: "tap_holds tap_default []"
  by (simp add: tap_holds_def tap_default_def TAP_LIMIT_def)

lemma tap_lines_spec:
  assumes "tap_holds tap line" and "parts \<noteq> []"
  shows "foldl (tap_line sd fmt) (tap, acc) parts =
    (tap_default, foldl (\<lambda>acc l. inspect sd l fmt acc) acc ((line @ hd parts) # tl parts))"
proof -
  have rest: "foldl (tap_line sd fmt) (tap_default, acc) ps = (tap_default, foldl (\<lambda>acc l. inspect sd l fmt acc) acc ps)" for ps acc
    by (induction ps arbitrary: acc) (simp_all add: tap_line_spec [OF tap_default_holds])
  obtain p ps where "parts = p # ps" using assms(2) by (cases parts) auto
  then show ?thesis using tap_line_spec [OF assms(1)] rest by simp
qed

lemma tap_feed_spec:
  assumes "tap_holds tap line" and line: "CHR 0x0A \<notin> set line"
    and parts_def: "parts = split_char (CHR 0x0A) (line @ chunk)"
  shows "\<exists>tap'. tap_feed sd fmt (tap, acc) chunk = (tap', foldl (\<lambda>acc l. inspect sd l fmt acc) acc (butlast parts))
    \<and> tap_holds tap' (last parts)"
proof -
  have "split_char (CHR 0x0A) line = [line]" using line by (rule split_char_single)
  then have parts: "parts = (line @ hd (split_char (CHR 0x0A) chunk)) # tl (split_char (CHR 0x0A) chunk)"
    by (simp add: parts_def split_char_append)
  obtain q qs where q: "split_char (CHR 0x0A) chunk = q # qs" by (meson list.exhaust split_char_not_Nil)
  show ?thesis
  proof (cases "qs = []")
    case True
    then show ?thesis using assms(1) parts q by (auto simp: tap_feed_def intro: tap_tail_spec)
  next
    case False
    then have ne: "butlast (q # qs) \<noteq> []" by simp
    have f: "foldl (tap_line sd fmt) (tap, acc) (butlast (q # qs)) =
        (tap_default, foldl (\<lambda>acc l. inspect sd l fmt acc) acc (butlast parts))"
      using tap_lines_spec [OF assms(1) ne, of sd fmt acc] False parts q by (simp add: butlast.simps)
    have "tap_holds (tap_tail tap_default (last qs)) (last qs)" using tap_tail_spec [OF tap_default_holds] by simp
    with f False parts q show ?thesis by (simp add: tap_feed_def)
  qed
qed

lemma last_split_no_newline: "c \<notin> set (last (split_char c s))"
proof (induction s)
  case (Cons x s)
  then show ?case by (cases "split_char c s") (auto split: if_splits)
qed simp

lemma tap_frames:
  "tap_finish sd fmt (foldl (tap_feed sd fmt) (tap_default, acc) chunks) =
     foldl (\<lambda>acc l. inspect sd l fmt acc) acc (split_char (CHR 0x0A) (concat chunks))"
proof -
  have run: "\<exists>tap'. foldl (tap_feed sd fmt) (tap, acc) chunks =
        (tap', foldl (\<lambda>acc l. inspect sd l fmt acc) acc (butlast (split_char (CHR 0x0A) (line @ concat chunks))))
      \<and> tap_holds tap' (last (split_char (CHR 0x0A) (line @ concat chunks)))"
    if "tap_holds tap line" "CHR 0x0A \<notin> set line" for tap line acc
    using that
  proof (induction chunks arbitrary: tap line acc)
    case Nil
    have "split_char (CHR 0x0A) line = [line]" using Nil(2) by (rule split_char_single)
    then show ?case using Nil by simp
  next
    case (Cons c cs)
    let ?p = "split_char (CHR 0x0A) (line @ c)"
    obtain tap1 where t1: "tap_feed sd fmt (tap, acc) c = (tap1, foldl (\<lambda>acc l. inspect sd l fmt acc) acc (butlast ?p))"
        "tap_holds tap1 (last ?p)"
      using tap_feed_spec [OF Cons.prems refl] by blast
    have one: "split_char (CHR 0x0A) (last ?p) = [last ?p]"
      by (rule split_char_single [OF last_split_no_newline])
    have "split_char (CHR 0x0A) ((line @ c) @ concat cs) = butlast ?p @ split_char (CHR 0x0A) (last ?p @ concat cs)"
      unfolding split_char_append [of _ "line @ c"] split_char_append [of _ "last ?p"] one by simp
    with Cons.IH [OF t1(2) last_split_no_newline] t1 show ?case by (simp add: butlast_append)
  qed
  let ?s = "split_char (CHR 0x0A) (concat chunks)"
  obtain tap' where t: "foldl (tap_feed sd fmt) (tap_default, acc) chunks = (tap', foldl (\<lambda>acc l. inspect sd l fmt acc) acc (butlast ?s))"
      "tap_holds tap' (last ?s)"
    using run [OF tap_default_holds, of acc] by auto
  have "tap_finish sd fmt (tap', a) = inspect sd (last ?s) fmt a" for a
    using t(2) by (auto simp: tap_finish_def tap_holds_def inspect_long split: if_splits)
  then have "tap_finish sd fmt (foldl (tap_feed sd fmt) (tap_default, acc) chunks)
      = foldl (\<lambda>acc l. inspect sd l fmt acc) acc (butlast ?s @ [last ?s])"
    by (simp only: t(1) foldl_append foldl.simps)
  then show ?thesis by simp
qed

text \<open>
  C30. The usage tap does not depend on how the stream is cut into frames: feeding any frames and finishing gives the
  same accounting as inspecting the lines of the whole stream one by one, the last unfinished line
  included; only lines longer than the limit are left out, wherever the frames cut them.
\<close>

theorem tap_independent_of_frames:
  "tap_finish sd fmt (foldl (tap_feed sd fmt) (tap_default, acc) chunks) =
     foldl (\<lambda>acc l. inspect sd l fmt acc) acc (split_char (CHR 0x0A) (concat chunks))"
  by (rule tap_frames)

end
