(* ===== verification/Bridge_Response.thy ===== *)
theory Bridge_Response
  imports Bridge
begin

text \<open>
  The translation of a complete OpenAI chat completion into an Anthropic message, \<open>src/bridge/response.rs\<close>, and the
  local token estimate of \<open>src/bridge/tokens.rs\<close>.
\<close>

section \<open>Parts of a completion\<close>

definition stop_reason :: "string option \<Rightarrow> bool \<Rightarrow> string" where
  "stop_reason finish has_tools =
     (if finish = Some ''length'' \<or> finish = Some ''max_tokens'' then ''max_tokens''
      else if finish = Some ''content_filter'' then ''end_turn''
      else if has_tools then ''tool_use'' else ''end_turn'')"

definition usage_from :: "json \<Rightarrow> u64 \<times> u64" where
  "usage_from v =
     (let usage = unwrap_or v (jget v ''usage'') in
      (unwrap_or 0 (Option.bind (or_else (jget usage ''prompt_tokens'') (jget usage ''input_tokens'')) as_u64),
       unwrap_or 0 (Option.bind (or_else (jget usage ''completion_tokens'') (jget usage ''output_tokens'')) as_u64)))"

definition part_text :: "json \<Rightarrow> string option" where
  "part_text part =
     (case as_object part of
        None \<Rightarrow> None
      | Some m \<Rightarrow>
          (let kind = unwrap_or ''text'' (get_str m ''type'') in
           if kind \<in> {''text'', ''output_text'', ''refusal''} then get_str m ''text'' else None))"

definition extract_text_blocks :: "json option \<Rightarrow> bridge_error + string list" where
  "extract_text_blocks content =
     (case content of
        None \<Rightarrow> Inr []
      | Some c \<Rightarrow>
          if is_null c then Inr []
          else (case as_str c of
             Some text \<Rightarrow> Inr [text]
           | None \<Rightarrow>
               (case as_array c of
                  None \<Rightarrow> Inl (Upstream ''upstream message content is not text'')
                | Some parts \<Rightarrow> Inr (List.map_filter part_text parts))))"

definition synthetic_tool_id :: "string \<Rightarrow> usize \<Rightarrow> string" where
  "synthetic_tool_id request_id index =
     (let safe = take 32 (filter is_ascii_alnum request_id) in
      if safe = [] then ''toolu_bridge_'' @ dec index else ''toolu_bridge_'' @ safe @ ''_'' @ dec index)"

definition tool_input :: "serde \<Rightarrow> json option \<Rightarrow> bridge_error + json" where
  "tool_input sd arguments =
     try_res (case arguments of
                None \<Rightarrow> Inr ''{}''
              | Some JNull \<Rightarrow> Inr ''{}''
              | Some (JString text) \<Rightarrow> Inr text
              | Some (JObject m) \<Rightarrow> Inr (to_string sd (JObject m))
              | Some _ \<Rightarrow> Inl (Upstream ''upstream tool arguments must be a JSON string or object''))
       (\<lambda>raw0. let raw = trim raw0 in
          if raw = [] then Inr (jobj [])
          else (case from_slice sd raw of
             Inl e \<Rightarrow> Inl (Upstream (''upstream tool arguments are not valid JSON: '' @ e))
           | Inr v \<Rightarrow> (case as_object v of
                Some m \<Rightarrow> Inr (JObject m)
              | None \<Rightarrow> Inl (Upstream ''upstream tool arguments must be a JSON object''))))"

definition tool_use_block :: "string \<Rightarrow> string \<Rightarrow> json \<Rightarrow> json" where
  "tool_use_block i name input =
     jobj [(''type'', JString ''tool_use''), (''id'', JString i), (''name'', JString name), (''input'', input)]"

definition tool_block :: "serde \<Rightarrow> json_map \<Rightarrow> usize \<Rightarrow> string \<Rightarrow> bridge_error + json" where
  "tool_block sd call index request_id =
     try_res (ok_or (Upstream ''upstream tool call has no function'') (Option.bind (map_of call ''function'') as_object)) (\<lambda>function.
     try_res (ok_or (Upstream ''upstream tool call has no name'') (get_nonempty_str function ''name'')) (\<lambda>name.
     let i = unwrap_or (synthetic_tool_id request_id index) (get_nonempty_str call ''id'') in
     try_res (tool_input sd (map_of function ''arguments'')) (\<lambda>input. Inr (tool_use_block i name input))))"

definition extract_tool_calls :: "serde \<Rightarrow> json_map \<Rightarrow> string \<Rightarrow> bridge_error + json list" where
  "extract_tool_calls sd message request_id =
     try_res
       (case Option.bind (map_of message ''tool_calls'') as_array of
          None \<Rightarrow> Inr []
        | Some calls \<Rightarrow>
            fold_res (\<lambda>out (index, call).
              try_res (ok_or (Upstream ''upstream tool call must be an object'') (as_object call)) (\<lambda>m.
              try_res (tool_block sd m index request_id) (\<lambda>b. Inr (out @ [b])))) [] (enumerate 0 calls))
       (\<lambda>out.
          if out \<noteq> [] then Inr out
          else (case Option.bind (map_of message ''function_call'') as_object of
             None \<Rightarrow> Inr out
           | Some call \<Rightarrow> try_res (tool_block sd [(''function'', JObject call)] 0 request_id) (\<lambda>b. Inr [b])))"

definition error_message :: "json \<Rightarrow> string" where
  "error_message error =
     unwrap_or ''upstream returned an error'' (or_else (jget_str error ''message'') (as_str error))"

section \<open>The message\<close>

definition text_block :: "string \<Rightarrow> json" where
  "text_block text = jobj [(''type'', JString ''text''), (''text'', JString text)]"

definition thinking_block :: "string \<Rightarrow> json" where
  "thinking_block text = jobj [(''type'', JString ''thinking''), (''thinking'', JString text), (''signature'', JString (thinking_signature text))]"

definition first_choice :: "json_map \<Rightarrow> json_map option" where
  "first_choice m = Option.bind (Option.bind (map_of m ''choices'') as_array)
     (\<lambda>cs. case cs of [] \<Rightarrow> None | c # _ \<Rightarrow> as_object c)"

definition reasoning_of :: "json_map \<Rightarrow> string option" where
  "reasoning_of message =
     filter_opt (\<lambda>t. t \<noteq> []) (Option.bind
       (or_else (or_else (map_of message ''reasoning_content'') (map_of message ''reasoning'')) (map_of message ''thinking'')) as_str)"

definition message_content :: "serde \<Rightarrow> bridge_context \<Rightarrow> json_map \<Rightarrow> bridge_error + (json list \<times> bool)" where
  "message_content sd ctx message =
     (let thinking = (case reasoning_of message of None \<Rightarrow> [] | Some t \<Rightarrow> [thinking_block t]) in
      try_res (extract_text_blocks (map_of message ''content'')) (\<lambda>texts0.
      let texts = (if texts0 = [] then (case get_nonempty_str message ''refusal'' of None \<Rightarrow> [] | Some r \<Rightarrow> [r]) else texts0) in
      try_res (extract_tool_calls sd message (bc_request_id ctx)) (\<lambda>tools.
      let content = thinking @ map text_block (filter (\<lambda>t. t \<noteq> []) texts) @ tools in
      Inr (if content = [] then [text_block []] else content, tools \<noteq> []))))"

definition build_message :: "serde \<Rightarrow> bytes \<Rightarrow> bridge_context \<Rightarrow> bridge_error + json" where
  "build_message sd body ctx =
     (case from_slice sd body of
        Inl e \<Rightarrow> Inl (Upstream (''invalid upstream JSON: '' @ e))
      | Inr v \<Rightarrow>
          try_res (ok_or (Upstream ''upstream response must be a JSON object'') (as_object v)) (\<lambda>m.
          case map_of m ''error'' of
            Some e \<Rightarrow> Inl (Upstream (error_message e))
          | None \<Rightarrow>
              try_res (ok_or (Upstream ''upstream response has no choices'') (first_choice m)) (\<lambda>choice.
              try_res (ok_or (Upstream ''upstream choice has no message'') (Option.bind (map_of choice ''message'') as_object)) (\<lambda>message.
              try_res (message_content sd ctx message) (\<lambda>(content, has_tools).
              let (prompt_tokens, completion_tokens) = usage_from v;
                  input_tokens = (if prompt_tokens > 0 then prompt_tokens else bc_estimated_input_tokens ctx)
              in Inr (jobj
                 [(''id'', JString (bridge_message_id (bc_request_id ctx) (get_str m ''id''))),
                  (''type'', JString ''message''), (''role'', JString ''assistant''), (''model'', JString (bc_public_model ctx)),
                  (''content'', JArray content), (''stop_reason'', JString (stop_reason (get_str choice ''finish_reason'') has_tools)),
                  (''stop_sequence'', JNull),
                  (''usage'', jobj [(''input_tokens'', jnum input_tokens), (''output_tokens'', jnum completion_tokens),
                      (''cache_creation_input_tokens'', jnum 0), (''cache_read_input_tokens'', jnum 0)])]))))))"

section \<open>Token estimate\<close>

definition IMAGE_TOKENS :: u64 where "IMAGE_TOKENS = 1000"
definition MESSAGE_OVERHEAD :: u64 where "MESSAGE_OVERHEAD = 4"
definition DEFAULT_CHARS_PER_TOKEN :: rat where "DEFAULT_CHARS_PER_TOKEN = 7 / 2"

record token_counter =
  tc_chars :: u64
  tc_extra_tokens :: u64
  tc_overhead :: u64

definition counter_zero :: token_counter where
  "counter_zero = \<lparr>tc_chars = 0, tc_extra_tokens = 0, tc_overhead = 0\<rparr>"

definition add_chars :: "string \<Rightarrow> token_counter \<Rightarrow> token_counter" where
  "add_chars text c = c\<lparr>tc_chars := sat_add (tc_chars c) (of_nat (char_count text))\<rparr>"

definition count_str :: "string option \<Rightarrow> token_counter \<Rightarrow> token_counter" where
  "count_str text c = (case text of None \<Rightarrow> c | Some t \<Rightarrow> add_chars t c)"

definition count_system :: "json \<Rightarrow> token_counter \<Rightarrow> token_counter" where
  "count_system system c =
     (case as_str system of
        Some text \<Rightarrow> add_chars text c
      | None \<Rightarrow>
          (case as_array system of
             None \<Rightarrow> c
           | Some blocks \<Rightarrow> foldl (\<lambda>c block. count_str (jget_str block ''text'') c) c blocks))"

function count_content :: "serde \<Rightarrow> json \<Rightarrow> token_counter \<Rightarrow> token_counter" where
  "count_content sd content c =
     (case as_str content of
        Some text \<Rightarrow> add_chars text c
      | None \<Rightarrow>
          (case as_array content of
             None \<Rightarrow> c
           | Some blocks \<Rightarrow>
               foldl (\<lambda>c block.
                 let kind = unwrap_or [] (jget_str block ''type'') in
                 if kind = ''text'' \<or> kind = ''thinking''
                 then count_str (Option.bind (or_else (jget block ''text'') (jget block ''thinking'')) as_str) c
                 else if kind = ''tool_use''
                 then (let c1 = count_str (jget_str block ''name'') c in
                       case jget block ''input'' of None \<Rightarrow> c1 | Some input \<Rightarrow> add_chars (to_string sd input) c1)
                 else if kind = ''tool_result''
                 then (case jget block ''content'' of None \<Rightarrow> c | Some inner \<Rightarrow> count_content sd inner c)
                 else if kind = ''image'' then c\<lparr>tc_extra_tokens := sat_add (tc_extra_tokens c) IMAGE_TOKENS\<rparr>
                 else c) c blocks))"
  by pat_completeness auto
termination
  by (relation "measure (\<lambda>(sd, content, c). size content)") (auto dest!: size_as_array size_jget)

declare count_content.simps [simp del]

definition count_tool :: "serde \<Rightarrow> json \<Rightarrow> token_counter \<Rightarrow> token_counter" where
  "count_tool sd tool c =
     (let c1 = count_str (jget_str tool ''name'') c;
          c2 = count_str (jget_str tool ''description'') c1
      in case jget tool ''input_schema'' of None \<Rightarrow> c2 | Some schema \<Rightarrow> add_chars (to_string sd schema) c2)"

definition count_request :: "serde \<Rightarrow> json_map \<Rightarrow> token_counter" where
  "count_request sd m =
     (let c1 = (case map_of m ''system'' of None \<Rightarrow> counter_zero | Some s \<Rightarrow> count_system s counter_zero);
          c2 = (case Option.bind (map_of m ''messages'') as_array of
                  None \<Rightarrow> c1
                | Some messages \<Rightarrow>
                    foldl (\<lambda>c message. case jget message ''content'' of None \<Rightarrow> c | Some content \<Rightarrow> count_content sd content c)
                      (c1\<lparr>tc_overhead := sat_add (tc_overhead c1) (sat_mul (of_nat (length messages)) MESSAGE_OVERHEAD)\<rparr>) messages)
      in case Option.bind (map_of m ''tools'') as_array of
           None \<Rightarrow> c2
         | Some tools \<Rightarrow> foldl (\<lambda>c tool. count_tool sd tool c) c2 tools)"

text \<open>The quotient of two doubles, rounded up and cast with saturation.\<close>

definition text_tokens :: "u64 \<Rightarrow> rat \<Rightarrow> u64" where
  "text_tokens chars divisor =
     (let q = \<lceil>f64_round (f64_round (of_nat (unat chars)) / divisor)\<rceil> in
      if q \<ge> 2 ^ 64 then - 1 else word_of_int q)"

definition divisor_of :: "f64 \<Rightarrow> rat" where
  "divisor_of chars_per_token =
     (case chars_per_token of Fin q \<Rightarrow> if q \<ge> 1 then q else DEFAULT_CHARS_PER_TOKEN | _ \<Rightarrow> DEFAULT_CHARS_PER_TOKEN)"

definition estimate_input_tokens :: "serde \<Rightarrow> bytes \<Rightarrow> f64 \<Rightarrow> bridge_error + u64" where
  "estimate_input_tokens sd body chars_per_token =
     (case from_slice sd body of
        Inl e \<Rightarrow> Inl (InvalidRequest (''invalid JSON: '' @ e))
      | Inr v \<Rightarrow>
          (case as_object v of
             None \<Rightarrow> Inl (InvalidRequest ''request body must be a JSON object'')
           | Some m \<Rightarrow>
               (let c = count_request sd m;
                    total = sat_add (sat_add (text_tokens (tc_chars c) (divisor_of chars_per_token)) (tc_extra_tokens c)) (tc_overhead c)
                in Inr (max total 1))))"

end
