(* ===== verification/Bridge_Stream.thy ===== *)
theory Bridge_Stream
  imports Bridge_Response
begin

text \<open>
  The translation of an OpenAI event stream into an Anthropic one, \<open>SseTranslator\<close> of \<open>src/bridge/stream.rs\<close>. The operations
  append events to a list; the bytes the code sends are the rendering of that list.
\<close>

section \<open>Lossy decoding\<close>

text \<open>
  \<open>String::from_utf8_lossy\<close>: the length of the sequence at the head of the input and whether it is a character; an ill-formed
  sequence, cut at its first offending byte, becomes the replacement character.
\<close>

definition in_range :: "nat \<Rightarrow> nat \<Rightarrow> bytes \<Rightarrow> nat \<Rightarrow> bool" where
  "in_range lo hi s i \<longleftrightarrow> i < length s \<and> lo \<le> byte_val (s ! i) \<and> byte_val (s ! i) \<le> hi"

definition utf8_step :: "bytes \<Rightarrow> nat \<times> bool" where
  "utf8_step s =
     (let b = byte_val (hd s); cont = in_range 0x80 0xBF s in
      if b < 0x80 then (1, True)
      else if 0xC2 \<le> b \<and> b \<le> 0xDF then (if cont 1 then (2, True) else (1, False))
      else if 0xE0 \<le> b \<and> b \<le> 0xEF then
        (let ok = (if b = 0xE0 then in_range 0xA0 0xBF s 1 else if b = 0xED then in_range 0x80 0x9F s 1 else cont 1) in
         if \<not> ok then (1, False) else if \<not> cont 2 then (2, False) else (3, True))
      else if 0xF0 \<le> b \<and> b \<le> 0xF4 then
        (let ok = (if b = 0xF0 then in_range 0x90 0xBF s 1 else if b = 0xF4 then in_range 0x80 0x8F s 1 else cont 1) in
         if \<not> ok then (1, False) else if \<not> cont 2 then (2, False) else if \<not> cont 3 then (3, False) else (4, True))
      else (1, False))"

definition replacement :: string where
  "replacement = [char_of (0xEF :: nat), char_of (0xBF :: nat), char_of (0xBD :: nat)]"

lemma utf8_step_pos: "0 < fst (utf8_step s)"
  by (simp add: utf8_step_def Let_def)

function from_utf8_lossy :: "bytes \<Rightarrow> string" where
  "from_utf8_lossy s =
     (if s = [] then []
      else case utf8_step s of (n, ok) \<Rightarrow> (if ok then take n s else replacement) @ from_utf8_lossy (drop n s))"
  by pat_completeness auto
termination
proof (relation "measure length", goal_cases)
  case (2 s n ok)
  then have "0 < n" using utf8_step_pos [of s] by (metis fst_conv)
  then show ?case using 2 by (cases s) auto
qed simp

declare from_utf8_lossy.simps [simp del]

section \<open>State\<close>

record tool_call_state =
  tk_id :: "string option"
  tk_name :: "string option"
  tk_arguments :: string

definition tool_default :: tool_call_state where
  "tool_default = \<lparr>tk_id = None, tk_name = None, tk_arguments = []\<rparr>"

datatype open_block = OpenText u32 | OpenThinking u32 string

record sse_translator =
  tr_ctx :: bridge_context
  tr_buffer :: bytes
  tr_started :: bool
  tr_finished :: bool
  tr_upstream_id :: "string option"
  tr_next_index :: u32
  tr_open :: "open_block option"
  tr_tools :: "(nat \<times> tool_call_state) list"
  tr_finish_reason :: "string option"
  tr_usage_input :: u64
  tr_usage_output :: u64
  tr_emitted_block :: bool
  tr_error :: "bridge_error option"

definition translator_new :: "bridge_context \<Rightarrow> sse_translator" where
  "translator_new ctx =
     \<lparr>tr_ctx = ctx, tr_buffer = [], tr_started = False, tr_finished = False, tr_upstream_id = None, tr_next_index = 0,
      tr_open = None, tr_tools = [], tr_finish_reason = None, tr_usage_input = 0, tr_usage_output = 0,
      tr_emitted_block = False, tr_error = None\<rparr>"

section \<open>Events\<close>

type_synonym event = "string \<times> json"
type_synonym running = "sse_translator \<times> event list"

definition jindex :: "u32 \<Rightarrow> json" where
  "jindex i = jnum (ucast i)"

definition block_start :: "u32 \<Rightarrow> json \<Rightarrow> event" where
  "block_start index content_block =
     (''content_block_start'', jobj [(''type'', JString ''content_block_start''), (''index'', jindex index), (''content_block'', content_block)])"

definition block_delta :: "u32 \<Rightarrow> json \<Rightarrow> event" where
  "block_delta index delta =
     (''content_block_delta'', jobj [(''type'', JString ''content_block_delta''), (''index'', jindex index), (''delta'', delta)])"

definition block_stop :: "u32 \<Rightarrow> event" where
  "block_stop index = (''content_block_stop'', jobj [(''type'', JString ''content_block_stop''), (''index'', jindex index)])"

definition empty_text :: json where
  "empty_text = jobj [(''type'', JString ''text''), (''text'', JString [])]"

definition empty_thinking :: json where
  "empty_thinking = jobj [(''type'', JString ''thinking''), (''thinking'', JString [])]"

definition tool_start :: "string \<Rightarrow> string \<Rightarrow> json" where
  "tool_start i name = jobj [(''type'', JString ''tool_use''), (''id'', JString i), (''name'', JString name), (''input'', jobj [])]"

definition text_delta :: "string \<Rightarrow> json" where
  "text_delta text = jobj [(''type'', JString ''text_delta''), (''text'', JString text)]"

definition thinking_delta :: "string \<Rightarrow> json" where
  "thinking_delta text = jobj [(''type'', JString ''thinking_delta''), (''thinking'', JString text)]"

definition signature_delta :: "string \<Rightarrow> json" where
  "signature_delta signature = jobj [(''type'', JString ''signature_delta''), (''signature'', JString signature)]"

definition json_delta :: "string \<Rightarrow> json" where
  "json_delta partial_json = jobj [(''type'', JString ''input_json_delta''), (''partial_json'', JString partial_json)]"

definition message_start :: "string \<Rightarrow> string \<Rightarrow> u64 \<Rightarrow> event" where
  "message_start i model input_tokens =
     (''message_start'', jobj [(''type'', JString ''message_start''), (''message'', jobj
        [(''id'', JString i), (''type'', JString ''message''), (''role'', JString ''assistant''), (''model'', JString model),
         (''content'', JArray []), (''stop_reason'', JNull), (''stop_sequence'', JNull),
         (''usage'', jobj [(''input_tokens'', jnum input_tokens), (''output_tokens'', jnum 0),
            (''cache_creation_input_tokens'', jnum 0), (''cache_read_input_tokens'', jnum 0)])])])"

definition message_delta :: "string \<Rightarrow> u64 \<Rightarrow> event" where
  "message_delta reason output_tokens =
     (''message_delta'', jobj [(''type'', JString ''message_delta''),
        (''delta'', jobj [(''stop_reason'', JString reason), (''stop_sequence'', JNull)]),
        (''usage'', jobj [(''output_tokens'', jnum output_tokens)])])"

definition message_stop :: event where
  "message_stop = (''message_stop'', jobj [(''type'', JString ''message_stop'')])"

definition render :: "serde \<Rightarrow> event list \<Rightarrow> bytes" where
  "render sd out = concat (map (\<lambda>(name, v). sse_event sd name v) out)"

section \<open>Blocks\<close>

definition ensure_started :: "running \<Rightarrow> running" where
  "ensure_started = (\<lambda>(t, out).
     if tr_started t then (t, out)
     else
       (let i = bridge_message_id (bc_request_id (tr_ctx t)) (tr_upstream_id t);
            input_tokens = (if tr_usage_input t > 0 then tr_usage_input t else bc_estimated_input_tokens (tr_ctx t))
        in (t\<lparr>tr_started := True\<rparr>, out @ [message_start i (bc_public_model (tr_ctx t)) input_tokens])))"

definition close_open :: "running \<Rightarrow> running" where
  "close_open = (\<lambda>(t, out).
     case tr_open t of
       None \<Rightarrow> (t, out)
     | Some (OpenText index) \<Rightarrow> (t\<lparr>tr_open := None\<rparr>, out @ [block_stop index])
     | Some (OpenThinking index text) \<Rightarrow>
         (t\<lparr>tr_open := None\<rparr>, out @ [block_delta index (signature_delta (thinking_signature text)), block_stop index]))"

definition open_text :: "running \<Rightarrow> running \<times> u32" where
  "open_text r =
     (case tr_open (fst r) of
        Some (OpenText index) \<Rightarrow> (r, index)
      | _ \<Rightarrow>
          (case close_open (ensure_started r) of (t, out) \<Rightarrow>
             (let index = tr_next_index t in
              ((t\<lparr>tr_next_index := index + 1, tr_open := Some (OpenText index), tr_emitted_block := True\<rparr>,
                out @ [block_start index empty_text]), index))))"

definition open_thinking :: "running \<Rightarrow> running \<times> u32" where
  "open_thinking r =
     (case tr_open (fst r) of
        Some (OpenThinking index _) \<Rightarrow> (r, index)
      | _ \<Rightarrow>
          (case close_open (ensure_started r) of (t, out) \<Rightarrow>
             (let index = tr_next_index t in
              ((t\<lparr>tr_next_index := index + 1, tr_open := Some (OpenThinking index []), tr_emitted_block := True\<rparr>,
                out @ [block_start index empty_thinking]), index))))"

definition emit_text :: "string \<Rightarrow> running \<Rightarrow> running" where
  "emit_text text r =
     (if text = [] then r
      else case open_text r of ((t, out), index) \<Rightarrow>
        (t\<lparr>tr_emitted_block := True\<rparr>, out @ [block_delta index (text_delta text)]))"

definition emit_thinking :: "string \<Rightarrow> running \<Rightarrow> running" where
  "emit_thinking text r =
     (if text = [] then r
      else case open_thinking r of ((t, out), index) \<Rightarrow>
        (let opened = (case tr_open t of Some (OpenThinking i acc) \<Rightarrow> Some (OpenThinking i (acc @ text)) | x \<Rightarrow> x) in
         (t\<lparr>tr_open := opened, tr_emitted_block := True\<rparr>, out @ [block_delta index (thinking_delta text)])))"

definition emit_part :: "json \<Rightarrow> running \<Rightarrow> running" where
  "emit_part part r =
     (let kind = unwrap_or ''text'' (jget_str part ''type'') in
      if kind \<in> {''text'', ''output_text''}
      then (case jget_str part ''text'' of None \<Rightarrow> r | Some text \<Rightarrow> emit_text text r) else r)"

definition emit_content :: "json \<Rightarrow> running \<Rightarrow> running" where
  "emit_content content r =
     (case as_str content of
        Some text \<Rightarrow> emit_text text r
      | None \<Rightarrow>
          (case as_array content of
             None \<Rightarrow> r
           | Some parts \<Rightarrow> foldl (\<lambda>r part. emit_part part r) r parts))"

section \<open>Tool calls\<close>

definition append_tool_arguments :: "serde \<Rightarrow> json \<Rightarrow> tool_call_state \<Rightarrow> tool_call_state" where
  "append_tool_arguments sd arguments s =
     (case arguments of
        JString text \<Rightarrow> s\<lparr>tk_arguments := tk_arguments s @ text\<rparr>
      | JObject _ \<Rightarrow> s\<lparr>tk_arguments := to_string sd arguments\<rparr>
      | _ \<Rightarrow> s)"

text \<open>\<open>if x.is_none() { x = y }\<close> is \<open>or_else x y\<close>.\<close>

definition tool_delta :: "serde \<Rightarrow> json_map \<Rightarrow> usize \<Rightarrow> sse_translator \<Rightarrow> sse_translator" where
  "tool_delta sd call position t =
     (let index = (case Option.bind (map_of call ''index'') as_u64 of None \<Rightarrow> position | Some v \<Rightarrow> unat v);
          s0 = unwrap_or tool_default (map_of (tr_tools t) index);
          s1 = s0\<lparr>tk_id := or_else (tk_id s0) (get_nonempty_str call ''id'')\<rparr>;
          s2 = (case Option.bind (map_of call ''function'') as_object of
                  Some function \<Rightarrow>
                    (let s = s1\<lparr>tk_name := or_else (tk_name s1) (get_nonempty_str function ''name'')\<rparr> in
                     case map_of function ''arguments'' of None \<Rightarrow> s | Some a \<Rightarrow> append_tool_arguments sd a s)
                | None \<Rightarrow> s1\<lparr>tk_name := or_else (tk_name s1) (get_nonempty_str call ''name'')\<rparr>)
      in t\<lparr>tr_tools := bt_insert index s2 (tr_tools t)\<rparr>)"

definition legacy_tool_delta :: "serde \<Rightarrow> json_map \<Rightarrow> sse_translator \<Rightarrow> sse_translator" where
  "legacy_tool_delta sd call t =
     (let s0 = unwrap_or tool_default (map_of (tr_tools t) 0);
          s1 = s0\<lparr>tk_name := or_else (tk_name s0) (get_nonempty_str call ''name'')\<rparr>;
          s2 = (case map_of call ''arguments'' of None \<Rightarrow> s1 | Some a \<Rightarrow> append_tool_arguments sd a s1)
      in t\<lparr>tr_tools := bt_insert 0 s2 (tr_tools t)\<rparr>)"

text \<open>\<open>process_delta\<close> and \<open>process_message\<close> have the same body.\<close>

definition process_delta :: "serde \<Rightarrow> json_map \<Rightarrow> running \<Rightarrow> running" where
  "process_delta sd delta r0 =
     (let r1 = (case Option.bind (or_else (map_of delta ''reasoning_content'') (map_of delta ''reasoning'')) as_str of
                  None \<Rightarrow> r0 | Some reasoning \<Rightarrow> emit_thinking reasoning r0);
          r2 = (case map_of delta ''content'' of None \<Rightarrow> r1 | Some content \<Rightarrow> emit_content content r1);
          t3 = (case Option.bind (map_of delta ''tool_calls'') as_array of
                  None \<Rightarrow> fst r2
                | Some calls \<Rightarrow> foldl (\<lambda>t (position, call). case as_object call of None \<Rightarrow> t | Some c \<Rightarrow> tool_delta sd c position t)
                                  (fst r2) (enumerate 0 calls));
          t4 = (case Option.bind (map_of delta ''function_call'') as_object of
                  None \<Rightarrow> t3 | Some call \<Rightarrow> legacy_tool_delta sd call t3)
      in (t4, snd r2))"

definition process_message :: "serde \<Rightarrow> json_map \<Rightarrow> running \<Rightarrow> running" where
  "process_message sd message r = process_delta sd message r"

section \<open>Chunks and lines\<close>

definition process_choice :: "serde \<Rightarrow> json_map \<Rightarrow> running \<Rightarrow> running" where
  "process_choice sd choice r0 =
     (let r1 = (case Option.bind (map_of choice ''delta'') as_object of
                  Some delta \<Rightarrow> process_delta sd delta r0
                | None \<Rightarrow> (case Option.bind (map_of choice ''message'') as_object of
                     Some message \<Rightarrow> process_message sd message r0 | None \<Rightarrow> r0))
      in case get_str choice ''finish_reason'' of
           None \<Rightarrow> r1
         | Some reason \<Rightarrow> close_open ((fst r1)\<lparr>tr_finish_reason := Some reason\<rparr>, snd r1))"

definition note_chunk :: "json_map \<Rightarrow> json \<Rightarrow> sse_translator \<Rightarrow> sse_translator" where
  "note_chunk m v t =
     (case usage_from v of (input, output) \<Rightarrow>
        t\<lparr>tr_upstream_id := or_else (tr_upstream_id t) (get_nonempty_str m ''id''),
          tr_usage_input := (if input > 0 then input else tr_usage_input t),
          tr_usage_output := (if output > 0 then output else tr_usage_output t)\<rparr>)"

definition upstream_error_message :: "json \<Rightarrow> string" where
  "upstream_error_message error =
     unwrap_or ''upstream returned an error'' (or_else (jget_str error ''message'') (as_str error))"

definition process_value :: "serde \<Rightarrow> json \<Rightarrow> running \<Rightarrow> running \<times> (bridge_error + unit)" where
  "process_value sd v r =
     (case as_object v of
        None \<Rightarrow> (r, Inl (Upstream ''upstream SSE chunk is not an object''))
      | Some m \<Rightarrow>
          (case filter_opt (\<lambda>e. \<not> is_null e) (map_of m ''error'') of
             Some e \<Rightarrow> (r, Inl (Upstream (upstream_error_message e)))
           | None \<Rightarrow>
               (let r1 = (note_chunk m v (fst r), snd r) in
                case first_choice m of
                  None \<Rightarrow> (r1, Inr ())
                | Some choice \<Rightarrow> (process_choice sd choice r1, Inr ()))))"

fun finalize_tools :: "serde \<Rightarrow> usize \<Rightarrow> tool_call_state list \<Rightarrow> running \<Rightarrow> running \<times> (bridge_error + unit)" where
  "finalize_tools sd order [] r = (r, Inr ())"
| "finalize_tools sd order (s # rest) (t, out) =
     (case tk_name s of
        None \<Rightarrow> ((t, out), Inl (Upstream ''upstream tool call is missing a function name''))
      | Some name \<Rightarrow>
          (case tool_input sd (Some (JString (tk_arguments s))) of
             Inl e \<Rightarrow> ((t, out), Inl e)
           | Inr input \<Rightarrow>
               (let i = unwrap_or (synthetic_tool_id (bc_request_id (tr_ctx t)) order) (tk_id s);
                    index = tr_next_index t
                in finalize_tools sd (order + 1) rest
                     (t\<lparr>tr_next_index := index + 1, tr_emitted_block := True\<rparr>,
                      out @ [block_start index (tool_start i name), block_delta index (json_delta (to_string sd input)), block_stop index]))))"

definition finalize :: "serde \<Rightarrow> running \<Rightarrow> running \<times> (bridge_error + unit)" where
  "finalize sd r0 =
     (if tr_finished (fst r0) then (r0, Inr ())
      else
        (case close_open (ensure_started r0) of (t1, out1) \<Rightarrow>
           (let has_tools = (tr_tools t1 \<noteq> []) in
            case finalize_tools sd 0 (map snd (tr_tools t1)) (t1\<lparr>tr_tools := []\<rparr>, out1) of
              (r2, Inl e) \<Rightarrow> (r2, Inl e)
            | ((t2, out2), Inr _) \<Rightarrow>
                (let index = tr_next_index t2;
                     (t3, out3) =
                       (if tr_emitted_block t2 then (t2, out2)
                        else (t2\<lparr>tr_next_index := index + 1, tr_emitted_block := True\<rparr>,
                              out2 @ [block_start index empty_text, block_stop index]))
                 in ((t3\<lparr>tr_finished := True\<rparr>,
                      out3 @ [message_delta (stop_reason (tr_finish_reason t3) has_tools) (tr_usage_output t3), message_stop]),
                     Inr ())))))"

definition fail :: "serde \<Rightarrow> bridge_error \<Rightarrow> running \<Rightarrow> running" where
  "fail sd error r =
     (if tr_finished (fst r) then r
      else case close_open r of (t, out) \<Rightarrow>
        (t\<lparr>tr_error := Some error, tr_finished := True\<rparr>,
         out @ [(''error'', sse_error_value sd (bridge_error_status error) (bridge_error_message error))]))"

definition trim_cr :: "string \<Rightarrow> string" where
  "trim_cr line = rev (dropWhile (\<lambda>c. c = CHR 0x0D) (rev line))"

definition sse_data :: "string \<Rightarrow> string option" where
  "sse_data line0 =
     (let line = trim_cr line0 in
      case strip_prefix line ''data:'' of
        Some data \<Rightarrow> Some (trim data)
      | None \<Rightarrow> (let trimmed = trim line in if starts_with trimmed ''{'' then Some trimmed else None))"

definition process_line :: "serde \<Rightarrow> string \<Rightarrow> running \<Rightarrow> running \<times> (bridge_error + bool)" where
  "process_line sd line r =
     (case sse_data line of
        None \<Rightarrow> (r, Inr False)
      | Some data \<Rightarrow>
          if data = [] then (r, Inr False)
          else if data = ''[DONE]'' then
            (case finalize sd r of (r1, Inl e) \<Rightarrow> (r1, Inl e) | (r1, Inr _) \<Rightarrow> (r1, Inr True))
          else
            (case from_slice sd data of
               Inl e \<Rightarrow> (r, Inl (Upstream (''invalid upstream SSE JSON: '' @ e)))
             | Inr v \<Rightarrow>
                 (case process_value sd v r of
                    (r1, Inl e) \<Rightarrow> (r1, Inl e)
                  | (r1, Inr _) \<Rightarrow> (r1, Inr (tr_finished (fst r1))))))"

text \<open>None of these touches the buffer.\<close>

lemma buffer_close_open [simp]: "tr_buffer (fst (close_open r)) = tr_buffer (fst r)"
  by (cases r) (auto simp: close_open_def split: option.splits open_block.splits)

lemma buffer_ensure_started [simp]: "tr_buffer (fst (ensure_started r)) = tr_buffer (fst r)"
  by (cases r) (auto simp: ensure_started_def Let_def)

lemma buffer_opened: "close_open r = (t, out) \<Longrightarrow> tr_buffer t = tr_buffer (fst r)"
  using buffer_close_open [of r] by (metis fst_conv)

lemma buffer_opening: "tr_buffer (fst (fst (open_text r))) = tr_buffer (fst r)" "tr_buffer (fst (fst (open_thinking r))) = tr_buffer (fst r)"
  by (auto simp: open_text_def open_thinking_def Let_def dest!: buffer_opened split: option.splits open_block.splits prod.splits)

lemma buffer_emit [simp]: "tr_buffer (fst (emit_text text r)) = tr_buffer (fst r)" "tr_buffer (fst (emit_thinking text r)) = tr_buffer (fst r)"
  using buffer_opening [of r] by (auto simp: emit_text_def emit_thinking_def Let_def split: prod.splits)

lemma buffer_fold: "(\<And>r x. tr_buffer (fst (f r x)) = tr_buffer (fst r)) \<Longrightarrow> tr_buffer (fst (foldl f r xs)) = tr_buffer (fst r)"
  by (induction xs arbitrary: r) auto

lemma buffer_emit_content [simp]: "tr_buffer (fst (emit_content content r)) = tr_buffer (fst r)"
  by (auto simp: emit_content_def emit_part_def Let_def split: option.splits intro!: buffer_fold)

lemma buffer_tools [simp]: "tr_buffer (tool_delta sd call p t) = tr_buffer t" "tr_buffer (legacy_tool_delta sd call t) = tr_buffer t"
  by (simp_all add: tool_delta_def legacy_tool_delta_def Let_def)

lemma buffer_tool_calls [simp]:
  "tr_buffer (foldl (\<lambda>t (p, call). case as_object call of None \<Rightarrow> t | Some c \<Rightarrow> tool_delta sd c p t) t calls) = tr_buffer t"
  by (induction calls arbitrary: t) (auto split: option.splits)

lemma buffer_process_delta [simp]: "tr_buffer (fst (process_delta sd delta r)) = tr_buffer (fst r)"
  by (auto simp: process_delta_def Let_def split: option.splits)

lemma buffer_process_choice [simp]: "tr_buffer (fst (process_choice sd choice r)) = tr_buffer (fst r)"
  by (auto simp: process_choice_def process_message_def Let_def split: option.splits)

lemma buffer_process_value [simp]: "tr_buffer (fst (fst (process_value sd v r))) = tr_buffer (fst r)"
  by (auto simp: process_value_def note_chunk_def Let_def split: option.splits prod.splits)

lemma buffer_finalize_tools [simp]: "tr_buffer (fst (fst (finalize_tools sd order tools r))) = tr_buffer (fst r)"
  by (induction sd order tools r rule: finalize_tools.induct) (auto simp: Let_def split: option.splits sum.splits)

lemma buffer_finalize [simp]: "tr_buffer (fst (fst (finalize sd r))) = tr_buffer (fst r)"
proof -
  obtain t1 out1 where c: "close_open (ensure_started r) = (t1, out1)" by force
  obtain t2 out2 x where f: "finalize_tools sd 0 (map snd (tr_tools t1)) (t1\<lparr>tr_tools := []\<rparr>, out1) = ((t2, out2), x)"
    by (metis prod.collapse)
  have "tr_buffer t1 = tr_buffer (fst r)" using buffer_close_open [of "ensure_started r"] c by simp
  moreover have "tr_buffer t2 = tr_buffer t1"
    using buffer_finalize_tools [of sd 0 "map snd (tr_tools t1)" "(t1\<lparr>tr_tools := []\<rparr>, out1)"] f by simp
  ultimately show ?thesis using c f by (auto simp: finalize_def Let_def split: sum.splits)
qed

lemma buffer_fail [simp]: "tr_buffer (fst (fail sd e r)) = tr_buffer (fst r)"
  by (auto simp: fail_def dest!: buffer_opened split: prod.splits)

lemma buffer_process_line [simp]: "tr_buffer (fst (fst (process_line sd line r))) = tr_buffer (fst r)"
proof -
  have f: "finalize sd r = ((t, out), x) \<Longrightarrow> tr_buffer t = tr_buffer (fst r)" for t out x using buffer_finalize [of sd r] by (metis fst_conv)
  have v: "process_value sd v r = ((t, out), x) \<Longrightarrow> tr_buffer t = tr_buffer (fst r)" for v t out x
    using buffer_process_value [of sd v r] by (metis fst_conv)
  show ?thesis
    by (auto simp: process_line_def dest!: f v split: option.split sum.split prod.split)
qed

lemma buffer_processed: "(r1, x) = process_line sd line r \<Longrightarrow> tr_buffer (fst r1) = tr_buffer (fst r)"
  using buffer_process_line [of sd line r] by (metis fst_conv)

section \<open>Feeding\<close>

function feed_lines :: "serde \<Rightarrow> running \<Rightarrow> running" where
  "feed_lines sd r =
     (case split_at_char newline (tr_buffer (fst r)) of
        None \<Rightarrow> r
      | Some (line, rest) \<Rightarrow>
          (case process_line sd (from_utf8_lossy line) ((fst r)\<lparr>tr_buffer := rest\<rparr>, snd r) of
             (r1, Inr True) \<Rightarrow> r1
           | (r1, Inr False) \<Rightarrow> feed_lines sd r1
           | (r1, Inl error) \<Rightarrow> fail sd error r1))"
  by pat_completeness auto
termination
proof (relation "measure (\<lambda>(sd, r). length (tr_buffer (fst r)))", goal_cases)
  case (2 sd r x line rest)
  then show ?case by (auto simp: split_at_char_Some dest!: buffer_processed)
qed simp

declare feed_lines.simps [simp del]

definition check_line_limit :: "serde \<Rightarrow> running \<Rightarrow> running" where
  "check_line_limit sd r =
     (if tr_finished (fst r) then ((fst r)\<lparr>tr_buffer := []\<rparr>, snd r)
      else if length (tr_buffer (fst r)) > SSE_LINE_LIMIT
      then fail sd (Upstream ''upstream SSE line exceeded 1 MiB'') r
      else r)"

definition translator_feed :: "serde \<Rightarrow> bytes \<Rightarrow> sse_translator \<Rightarrow> sse_translator \<times> event list" where
  "translator_feed sd chunk t =
     (if tr_finished t then (t, [])
      else check_line_limit sd (feed_lines sd (t\<lparr>tr_buffer := tr_buffer t @ chunk\<rparr>, [])))"

fun finish_lines :: "serde \<Rightarrow> string list \<Rightarrow> running \<Rightarrow> running" where
  "finish_lines sd [] r = r"
| "finish_lines sd (line # rest) r =
     (if tr_finished (fst r) then r
      else case process_line sd line r of
        (r1, Inl error) \<Rightarrow> fail sd error r1
      | (r1, Inr _) \<Rightarrow> finish_lines sd rest r1)"

definition translator_finish :: "serde \<Rightarrow> sse_translator \<Rightarrow> sse_translator \<times> event list" where
  "translator_finish sd t =
     (if tr_finished t then (t, [])
      else
        (let r1 = (if tr_buffer t = [] then (t, [])
                   else finish_lines sd (split_char newline (from_utf8_lossy (tr_buffer t))) (t\<lparr>tr_buffer := []\<rparr>, []))
         in if tr_finished (fst r1) then r1
            else case finalize sd r1 of (r2, Inl error) \<Rightarrow> fail sd error r2 | (r2, Inr _) \<Rightarrow> r2))"

definition translator_abort :: "serde \<Rightarrow> u16 \<Rightarrow> string \<Rightarrow> sse_translator \<Rightarrow> sse_translator \<times> event list" where
  "translator_abort sd status message t =
     (if tr_finished t then (t, [])
      else case close_open (t, []) of (t1, out) \<Rightarrow>
        (t1\<lparr>tr_error := Some (Upstream message), tr_finished := True\<rparr>, out @ [(''error'', sse_error_value sd status message)]))"

section \<open>A complete message as a stream\<close>

definition block_events :: "serde \<Rightarrow> json \<Rightarrow> u32 \<Rightarrow> event list option" where
  "block_events sd block index =
     (let kind = unwrap_or [] (jget_str block ''type'') in
      if kind = ''text'' then
        (let text = unwrap_or [] (jget_str block ''text'') in
         Some ([block_start index empty_text] @ (if text \<noteq> [] then [block_delta index (text_delta text)] else []) @ [block_stop index]))
      else if kind = ''thinking'' then
        (let thinking = unwrap_or [] (jget_str block ''thinking'');
             signature = unwrap_or (thinking_signature thinking) (jget_str block ''signature'')
         in Some ([block_start index empty_thinking]
              @ (if thinking \<noteq> [] then [block_delta index (thinking_delta thinking)] else [])
              @ [block_delta index (signature_delta signature), block_stop index]))
      else if kind = ''tool_use'' then
        (let tool_id = unwrap_or [] (jget_str block ''id'');
             name = unwrap_or ''tool'' (jget_str block ''name'');
             input = unwrap_or (jobj []) (jget block ''input'')
         in Some [block_start index (tool_start tool_id name), block_delta index (json_delta (to_string sd input)), block_stop index])
      else None)"

fun blocks_events :: "serde \<Rightarrow> json list \<Rightarrow> u32 \<Rightarrow> event list" where
  "blocks_events sd [] index = []"
| "blocks_events sd (block # rest) index =
     (case block_events sd block index of
        None \<Rightarrow> blocks_events sd rest index
      | Some evs \<Rightarrow> evs @ blocks_events sd rest (index + 1))"

definition message_events :: "serde \<Rightarrow> json \<Rightarrow> bridge_context \<Rightarrow> event list" where
  "message_events sd message ctx =
     (let i = unwrap_or (bridge_message_id (bc_request_id ctx) None) (filter_opt (\<lambda>v. v \<noteq> []) (jget_str message ''id''));
          model = unwrap_or (bc_public_model ctx) (jget_str message ''model'');
          usage = jget message ''usage'';
          input_tokens = unwrap_or (bc_estimated_input_tokens ctx) (Option.bind usage (\<lambda>u. jget_u64 u ''input_tokens''));
          output_tokens = unwrap_or 0 (Option.bind usage (\<lambda>u. jget_u64 u ''output_tokens''));
          blocks = (case Option.bind (jget message ''content'') as_array of None \<Rightarrow> [] | Some bs \<Rightarrow> blocks_events sd bs 0);
          reason = unwrap_or ''end_turn'' (jget_str message ''stop_reason'')
      in [message_start i model input_tokens]
         @ (if blocks = [] then [block_start 0 empty_text, block_stop 0] else blocks)
         @ [message_delta reason output_tokens, message_stop])"

definition message_to_sse :: "serde \<Rightarrow> json \<Rightarrow> bridge_context \<Rightarrow> bytes" where
  "message_to_sse sd message ctx = render sd (message_events sd message ctx)"

end
