(* ===== verification/Bridge_Grammar.thy ===== *)
theory Bridge_Grammar
  imports Bridge_Stream
begin

text \<open>
  The contract of the translated stream: the grammar of Anthropic events as an automaton, and that whatever bytes the upstream
  sends, in whatever pieces, the client receives a complete sequence of it.
\<close>

section \<open>The grammar\<close>

datatype phase = Fresh | Between u32 bool | Inside u32 string | Closing | Complete | Broken

definition typed :: "event \<Rightarrow> bool" where
  "typed ev \<longleftrightarrow> jget_str (snd ev) ''type'' = Some (fst ev)"

definition has_index :: "event \<Rightarrow> u32 \<Rightarrow> bool" where
  "has_index ev i \<longleftrightarrow> jget_u64 (snd ev) ''index'' = Some (ucast i)"

definition block_type :: "event \<Rightarrow> string option" where
  "block_type ev = Option.bind (pointer (snd ev) [''content_block'', ''type'']) as_str"

definition delta_type :: "event \<Rightarrow> string option" where
  "delta_type ev = Option.bind (pointer (snd ev) [''delta'', ''type'']) as_str"

definition delta_fits :: "string \<Rightarrow> string option \<Rightarrow> bool" where
  "delta_fits ty d \<longleftrightarrow> (ty, d) \<in> {(''text'', Some ''text_delta''), (''thinking'', Some ''thinking_delta''),
     (''thinking'', Some ''signature_delta''), (''tool_use'', Some ''input_json_delta'')}"

text \<open>Blocks are numbered from 0 without gaps, do not nest, and a message has at least one before it stops.\<close>

definition advance :: "phase \<Rightarrow> event \<Rightarrow> phase option" where
  "advance ph ev =
     (let name = fst ev in
      case ph of
        Fresh \<Rightarrow>
          if name = ''message_start'' \<and> typed ev then Some (Between 0 False)
          else if name = ''error'' then Some Broken else None
      | Between n some \<Rightarrow>
          if name = ''content_block_start'' \<and> typed ev \<and> has_index ev n then map_option (Inside n) (block_type ev)
          else if name = ''message_delta'' \<and> typed ev \<and> some then Some Closing
          else if name = ''error'' then Some Broken else None
      | Inside n ty \<Rightarrow>
          if name = ''content_block_delta'' \<and> typed ev \<and> has_index ev n \<and> delta_fits ty (delta_type ev) then Some (Inside n ty)
          else if name = ''content_block_stop'' \<and> typed ev \<and> has_index ev n then Some (Between (n + 1) True) else None
      | Closing \<Rightarrow> if name = ''message_stop'' \<and> typed ev then Some Complete else None
      | _ \<Rightarrow> None)"

fun advances :: "phase \<Rightarrow> event list \<Rightarrow> phase option" where
  "advances ph [] = Some ph"
| "advances ph (ev # evs) = Option.bind (advance ph ev) (\<lambda>ph'. advances ph' evs)"

lemma advances_append: "advances ph (a @ b) = Option.bind (advances ph a) (\<lambda>ph'. advances ph' b)"
proof (induction a arbitrary: ph)
  case (Cons ev a)
  then show ?case by (cases "advance ph ev") simp_all
qed simp

lemma advance_events [simp]:
  "advance Fresh (message_start i m n) = Some (Between 0 False)"
  "advance (Between k s) (block_start k empty_text) = Some (Inside k ''text'')"
  "advance (Between k s) (block_start k empty_thinking) = Some (Inside k ''thinking'')"
  "advance (Between k s) (block_start k (tool_start i nm)) = Some (Inside k ''tool_use'')"
  "advance (Inside k ''text'') (block_delta k (text_delta t)) = Some (Inside k ''text'')"
  "advance (Inside k ''thinking'') (block_delta k (thinking_delta t)) = Some (Inside k ''thinking'')"
  "advance (Inside k ''thinking'') (block_delta k (signature_delta t)) = Some (Inside k ''thinking'')"
  "advance (Inside k ''tool_use'') (block_delta k (json_delta t)) = Some (Inside k ''tool_use'')"
  "advance (Inside k ty) (block_stop k) = Some (Between (k + 1) True)"
  "advance (Between k True) (message_delta r u) = Some Closing"
  "advance Closing message_stop = Some Complete"
  "advance Fresh (''error'', v) = Some Broken"
  "advance (Between k s) (''error'', v) = Some Broken"
  by (simp_all add: advance_def typed_def has_index_def block_type_def delta_type_def delta_fits_def json_simps jget_u64_def jindex_def
      message_start_def block_start_def block_delta_def block_stop_def message_delta_def message_stop_def
      empty_text_def empty_thinking_def tool_start_def text_delta_def thinking_delta_def signature_delta_def json_delta_def)

section \<open>The translator follows it\<close>

definition tracks :: "sse_translator \<Rightarrow> phase \<Rightarrow> bool" where
  "tracks t ph \<longleftrightarrow>
     (if tr_finished t then ph = (if tr_error t = None then Complete else Broken)
      else tr_error t = None \<and>
        (if \<not> tr_started t then ph = Fresh \<and> tr_open t = None \<and> tr_next_index t = 0 \<and> \<not> tr_emitted_block t
         else case tr_open t of
             None \<Rightarrow> ph = Between (tr_next_index t) (tr_emitted_block t)
           | Some (OpenText i) \<Rightarrow> ph = Inside i ''text'' \<and> tr_next_index t = i + 1 \<and> tr_emitted_block t
           | Some (OpenThinking i _) \<Rightarrow> ph = Inside i ''thinking'' \<and> tr_next_index t = i + 1 \<and> tr_emitted_block t))"

definition good :: "phase \<Rightarrow> running \<Rightarrow> bool" where
  "good p0 r \<longleftrightarrow> (\<exists>ph. advances p0 (snd r) = Some ph \<and> tracks (fst r) ph)"

definition live :: "phase \<Rightarrow> running \<Rightarrow> bool" where
  "live p0 r \<longleftrightarrow> \<not> tr_finished (fst r) \<and> good p0 r"

definition done_well :: "phase \<Rightarrow> running \<Rightarrow> bool" where
  "done_well p0 r \<longleftrightarrow> tr_finished (fst r) \<and> good p0 r"

text \<open>Appending events: enough to run the automaton from the phase reached.\<close>

lemma live_append:
  assumes "live p0 (t, out)"
    and "\<And>ph. tracks t ph \<Longrightarrow> \<not> tr_finished t \<Longrightarrow> \<exists>ph'. advances ph evs = Some ph' \<and> tracks t' ph' \<and> \<not> tr_finished t'"
  shows "live p0 (t', out @ evs)"
  using assms by (fastforce simp: live_def good_def advances_append)

lemma live_same: "live p0 (t, out) \<Longrightarrow> (\<And>ph. tracks t ph \<Longrightarrow> tracks t' ph) \<Longrightarrow> tr_finished t' = tr_finished t \<Longrightarrow> live p0 (t', out)"
  by (auto simp: live_def good_def)

lemma done_append:
  assumes "live p0 (t, out)"
    and "\<And>ph. tracks t ph \<Longrightarrow> \<not> tr_finished t \<Longrightarrow> \<exists>ph'. advances ph evs = Some ph' \<and> tracks t' ph' \<and> tr_finished t'"
  shows "done_well p0 (t', out @ evs)"
  using assms by (fastforce simp: live_def done_well_def good_def advances_append)

lemma live_ensure_started: "live p0 r \<Longrightarrow> live p0 (ensure_started r) \<and> tr_started (fst (ensure_started r))"
proof (cases r)
  case (Pair t out)
  assume "live p0 r"
  then show ?thesis
    unfolding Pair ensure_started_def Let_def
    by (cases "tr_started t") (auto intro!: live_append simp: tracks_def)
qed

lemma live_close_open:
  assumes "live p0 r"
  shows "live p0 (close_open r)" "tr_open (fst (close_open r)) = None" "tr_started (fst (close_open r)) = tr_started (fst r)"
proof -
  obtain t out where r: "r = (t, out)" by (cases r)
  show "tr_open (fst (close_open r)) = None" "tr_started (fst (close_open r)) = tr_started (fst r)"
    by (auto simp: r close_open_def split: option.splits open_block.splits)
  show "live p0 (close_open r)"
  proof (cases "tr_open t")
    case None
    then show ?thesis using assms by (simp add: r close_open_def)
  next
    case (Some b)
    then show ?thesis using assms
      by (cases b) (auto intro!: live_append [of p0 t out] simp: r close_open_def tracks_def split: if_splits)
  qed
qed

text \<open>After \<open>ensure_started\<close> and \<open>close_open\<close> the next block can be opened.\<close>

lemma ready:
  assumes "live p0 r" and "close_open (ensure_started r) = (t, out)"
  shows "live p0 (t, out)" "tr_open t = None" "tr_started t"
proof -
  have e: "live p0 (ensure_started r)" "tr_started (fst (ensure_started r))" using live_ensure_started [OF assms(1)] by auto
  show "live p0 (t, out)" "tr_open t = None" "tr_started t"
    using live_close_open [OF e(1)] e(2) assms(2) by auto
qed

lemma live_opened:
  assumes "live p0 (t, out)" and "tr_open t = None" and "tr_started t"
  shows "live p0 (t\<lparr>tr_next_index := tr_next_index t + 1, tr_open := Some (OpenText (tr_next_index t)), tr_emitted_block := True\<rparr>,
      out @ [block_start (tr_next_index t) empty_text])"
    and "live p0 (t\<lparr>tr_next_index := tr_next_index t + 1, tr_open := Some (OpenThinking (tr_next_index t) []), tr_emitted_block := True\<rparr>,
      out @ [block_start (tr_next_index t) empty_thinking])"
  using assms(2,3) by (auto intro!: live_append [OF assms(1)] simp: tracks_def)

lemma open_started: "live p0 r \<Longrightarrow> tr_open (fst r) \<noteq> None \<Longrightarrow> tr_started (fst r)"
  by (auto simp: live_def good_def tracks_def split: if_splits)

lemma live_open_text:
  assumes "live p0 r" and "open_text r = (r', i)"
  shows "live p0 r' \<and> tr_started (fst r') \<and> tr_open (fst r') = Some (OpenText i)"
proof (cases "\<exists>k. tr_open (fst r) = Some (OpenText k)")
  case True
  then show ?thesis using assms open_started [OF assms(1)] by (auto simp: open_text_def)
next
  case False
  obtain t out where c: "close_open (ensure_started r) = (t, out)" by force
  have "r' = (t\<lparr>tr_next_index := tr_next_index t + 1, tr_open := Some (OpenText (tr_next_index t)), tr_emitted_block := True\<rparr>,
      out @ [block_start (tr_next_index t) empty_text])" "i = tr_next_index t"
    using assms(2) False c by (auto simp: open_text_def Let_def split: option.splits open_block.splits)
  then show ?thesis using live_opened(1) [OF ready [OF assms(1) c]] ready [OF assms(1) c] by simp
qed

lemma live_open_thinking:
  assumes "live p0 r" and "open_thinking r = (r', i)"
  shows "live p0 r' \<and> tr_started (fst r') \<and> (\<exists>acc. tr_open (fst r') = Some (OpenThinking i acc))"
proof (cases "\<exists>k acc. tr_open (fst r) = Some (OpenThinking k acc)")
  case True
  then show ?thesis using assms open_started [OF assms(1)] by (auto simp: open_thinking_def)
next
  case False
  obtain t out where c: "close_open (ensure_started r) = (t, out)" by force
  have "r' = (t\<lparr>tr_next_index := tr_next_index t + 1, tr_open := Some (OpenThinking (tr_next_index t) []), tr_emitted_block := True\<rparr>,
      out @ [block_start (tr_next_index t) empty_thinking])" "i = tr_next_index t"
    using assms(2) False c by (auto simp: open_thinking_def Let_def split: option.splits open_block.splits)
  then show ?thesis using live_opened(2) [OF ready [OF assms(1) c]] ready [OF assms(1) c] by simp
qed

lemma live_emit_text: "live p0 r \<Longrightarrow> live p0 (emit_text text r)"
proof -
  assume l: "live p0 r"
  obtain t out i where o: "open_text r = ((t, out), i)" by (metis prod.collapse)
  from live_open_text [OF l o] show ?thesis
    using l o by (auto intro!: live_append [of p0 t out] simp: emit_text_def tracks_def)
qed

lemma live_emit_thinking: "live p0 r \<Longrightarrow> live p0 (emit_thinking text r)"
proof -
  assume l: "live p0 r"
  obtain t out i where o: "open_thinking r = ((t, out), i)" by (metis prod.collapse)
  from live_open_thinking [OF l o] show ?thesis
    using l o by (auto intro!: live_append [of p0 t out] simp: emit_thinking_def tracks_def Let_def)
qed

lemma live_foldl: "live p0 r \<Longrightarrow> (\<And>r x. live p0 r \<Longrightarrow> live p0 (f r x)) \<Longrightarrow> live p0 (foldl f r xs)"
  by (induction xs arbitrary: r) auto

lemma live_emit_content: "live p0 r \<Longrightarrow> live p0 (emit_content content r)"
  by (auto simp: emit_content_def emit_part_def Let_def intro!: live_emit_text live_foldl split: option.splits)

text \<open>Bookkeeping that emits nothing.\<close>

definition same_blocks :: "sse_translator \<Rightarrow> sse_translator \<Rightarrow> bool" where
  "same_blocks t t' \<longleftrightarrow> tr_started t' = tr_started t \<and> tr_finished t' = tr_finished t \<and> tr_open t' = tr_open t
     \<and> tr_next_index t' = tr_next_index t \<and> tr_emitted_block t' = tr_emitted_block t \<and> tr_error t' = tr_error t"

lemma same_blocks_refl [simp]: "same_blocks t t"
  by (simp add: same_blocks_def)

lemma same_blocks_tracks: "same_blocks t t' \<Longrightarrow> tracks t' ph = tracks t ph"
  by (simp add: same_blocks_def tracks_def split: option.split open_block.split)

lemma tracks_buffer [simp]: "tracks (t\<lparr>tr_buffer := b\<rparr>) ph = tracks t ph"
  by (rule same_blocks_tracks) (simp add: same_blocks_def)

lemma live_same_blocks: "live p0 r \<Longrightarrow> same_blocks (fst r) t' \<Longrightarrow> live p0 (t', snd r)"
  using live_same [of p0 "fst r" "snd r" t'] by (simp add: same_blocks_tracks) (simp add: same_blocks_def)

lemma same_blocks_tools [simp]: "same_blocks t (tool_delta sd c p t)" "same_blocks t (legacy_tool_delta sd c t)"
  by (simp_all add: same_blocks_def tool_delta_def legacy_tool_delta_def Let_def)

lemma same_blocks_trans: "same_blocks a b \<Longrightarrow> same_blocks b c \<Longrightarrow> same_blocks a c"
  by (simp add: same_blocks_def)

lemma same_blocks_calls:
  "same_blocks t (foldl (\<lambda>t (p, call). case as_object call of None \<Rightarrow> t | Some c \<Rightarrow> tool_delta sd c p t) t calls)"
proof (induction calls arbitrary: t)
  case (Cons x calls)
  have "same_blocks t (case x of (p, call) \<Rightarrow> (case as_object call of None \<Rightarrow> t | Some c \<Rightarrow> tool_delta sd c p t))"
    by (auto split: prod.splits option.splits)
  then show ?case using Cons.IH same_blocks_trans by fastforce
qed simp

lemma live_process_delta: "live p0 r \<Longrightarrow> live p0 (process_delta sd delta r)"
proof -
  assume l: "live p0 r"
  let ?r1 = "case Option.bind (or_else (map_of delta ''reasoning_content'') (map_of delta ''reasoning'')) as_str of
                  None \<Rightarrow> r | Some reasoning \<Rightarrow> emit_thinking reasoning r"
  let ?r2 = "case map_of delta ''content'' of None \<Rightarrow> ?r1 | Some content \<Rightarrow> emit_content content ?r1"
  have "live p0 ?r1" using l by (auto intro: live_emit_thinking split: option.splits)
  then have l2: "live p0 ?r2" by (auto intro: live_emit_content split: option.splits)
  show ?thesis
    unfolding process_delta_def Let_def
    by (rule live_same_blocks [OF l2])
      (auto split: option.split intro: same_blocks_calls same_blocks_trans [OF same_blocks_calls same_blocks_tools(2)])
qed

lemma live_process_choice: "live p0 r \<Longrightarrow> live p0 (process_choice sd choice r)"
proof -
  assume l: "live p0 r"
  let ?r1 = "case Option.bind (map_of choice ''delta'') as_object of
                  Some delta \<Rightarrow> process_delta sd delta r
                | None \<Rightarrow> (case Option.bind (map_of choice ''message'') as_object of
                     Some message \<Rightarrow> process_message sd message r | None \<Rightarrow> r)"
  have l1: "live p0 ?r1" using l by (auto intro: live_process_delta simp: process_message_def split: option.splits)
  have "live p0 ((fst ?r1)\<lparr>tr_finish_reason := x\<rparr>, snd ?r1)" for x
    by (rule live_same_blocks [OF l1]) (simp add: same_blocks_def)
  then show ?thesis using l1 unfolding process_choice_def Let_def
    by (auto intro: live_close_open(1) simp del: fst_conv snd_conv split: option.split)
qed

lemma live_process_value: "live p0 r \<Longrightarrow> live p0 (fst (process_value sd v r))"
proof -
  assume l: "live p0 r"
  have "live p0 (note_chunk m v (fst r), snd r)" for m
    by (rule live_same_blocks [OF l]) (simp add: same_blocks_def note_chunk_def split: prod.splits)
  then show ?thesis using l by (auto simp: process_value_def Let_def intro: live_process_choice split: option.splits)
qed

section \<open>Ends\<close>

lemma live_finalize_tools:
  "live p0 r \<Longrightarrow> tr_open (fst r) = None \<Longrightarrow> tr_started (fst r) \<Longrightarrow> finalize_tools sd k tools r = (r', x) \<Longrightarrow>
    live p0 r' \<and> tr_open (fst r') = None \<and> tr_started (fst r')"
proof (induction sd k tools r arbitrary: r' x rule: finalize_tools.induct)
  case (2 sd order s rest t out)
  show ?case
  proof (cases "tk_name s")
    case None
    then show ?thesis using 2 by auto
  next
    case (Some name)
    show ?thesis
    proof (cases "tool_input sd (Some (JString (tk_arguments s)))")
      case (Inl e)
      then show ?thesis using 2 Some by auto
    next
      case (Inr input)
      let ?n = "tr_next_index t"
      let ?r = "(t\<lparr>tr_next_index := ?n + 1, tr_emitted_block := True\<rparr>,
        out @ [block_start ?n (tool_start (unwrap_or (synthetic_tool_id (bc_request_id (tr_ctx t)) order) (tk_id s)) name),
          block_delta ?n (json_delta (to_string sd input)), block_stop ?n])"
      have "live p0 ?r" using 2(2-4) by (auto intro!: live_append [of p0 t out] simp: tracks_def)
      then show ?thesis using "2.IH" [OF Some Inr refl refl, of r' x] 2(2-5) Some Inr by (simp add: Let_def)
    qed
  qed
qed auto

lemma finalize_grammar:
  assumes "live p0 r" and "finalize sd r = (r', x)"
  shows "case x of Inl _ \<Rightarrow> live p0 r' | Inr _ \<Rightarrow> done_well p0 r'"
proof -
  obtain t1 out1 where c: "close_open (ensure_started r) = (t1, out1)" by force
  note rd = ready [OF assms(1) c]
  obtain t2 out2 y where f: "finalize_tools sd 0 (map snd (tr_tools t1)) (t1\<lparr>tr_tools := []\<rparr>, out1) = ((t2, out2), y)"
    by (metis prod.collapse)
  have "live p0 (t1\<lparr>tr_tools := []\<rparr>, out1)" using live_same_blocks [OF rd(1), of "t1\<lparr>tr_tools := []\<rparr>"] by (simp add: same_blocks_def)
  from live_finalize_tools [OF this _ _ f] rd have l2: "live p0 (t2, out2)" "tr_open t2 = None" "tr_started t2" by auto
  have nf: "\<not> tr_finished (fst r)" using assms(1) by (simp add: live_def)
  show ?thesis
  proof (cases y)
    case (Inl e)
    then show ?thesis using assms(2) c f l2 nf by (auto simp: finalize_def Let_def)
  next
    case (Inr u)
    let ?t3 = "if tr_emitted_block t2 then t2 else t2\<lparr>tr_next_index := tr_next_index t2 + 1, tr_emitted_block := True\<rparr>"
    let ?e3 = "if tr_emitted_block t2 then [] else [block_start (tr_next_index t2) empty_text, block_stop (tr_next_index t2)]"
    let ?m = "message_delta (stop_reason (tr_finish_reason ?t3) (tr_tools t1 \<noteq> [])) (tr_usage_output ?t3)"
    have "r' = (?t3\<lparr>tr_finished := True\<rparr>, out2 @ ?e3 @ [?m, message_stop]) \<and> x = Inr ()"
      using assms(2) c f nf Inr by (auto simp: finalize_def Let_def)
    moreover have "done_well p0 (?t3\<lparr>tr_finished := True\<rparr>, out2 @ ?e3 @ [?m, message_stop])"
      by (rule done_append [OF l2(1)]) (use l2(2,3) in \<open>auto simp: tracks_def\<close>)
    ultimately show ?thesis by simp
  qed
qed

lemma fail_grammar: "live p0 r \<Longrightarrow> done_well p0 (fail sd e r)"
proof -
  assume l: "live p0 r"
  obtain t out where c: "close_open r = (t, out)" by force
  have l1: "live p0 (t, out)" "tr_open t = None" using live_close_open [OF l] c by auto
  have "done_well p0 (t\<lparr>tr_error := Some e, tr_finished := True\<rparr>,
      out @ [(''error'', sse_error_value sd (bridge_error_status e) (bridge_error_message e))])"
    by (rule done_append [OF l1(1)]) (use l1(2) in \<open>auto simp: tracks_def split: if_splits\<close>)
  then show ?thesis using l c by (simp add: fail_def live_def)
qed

lemma process_line_grammar:
  assumes "live p0 r" and "process_line sd line r = (r', x)"
  shows "case x of Inr True \<Rightarrow> done_well p0 r' | _ \<Rightarrow> live p0 r'"
proof -
  have fin: "case y of Inl _ \<Rightarrow> live p0 r1 | Inr _ \<Rightarrow> done_well p0 r1" if "finalize sd r = (r1, y)" for r1 y
    by (rule finalize_grammar [OF assms(1) that])
  have val: "live p0 r1 \<and> \<not> tr_finished (fst r1)" if "process_value sd v r = (r1, y)" for r1 y v
    using live_process_value [OF assms(1), of sd v] that by (auto simp: live_def)
  show ?thesis using assms
    by (auto simp: process_line_def dest: fin val split: option.splits if_splits sum.splits prod.splits bool.splits)
qed

section \<open>Whole streams\<close>

lemma feed_lines_grammar: "live p0 r \<Longrightarrow> good p0 (feed_lines sd r)"
proof (induction sd r rule: feed_lines.induct)
  case (1 sd r)
  show ?case
  proof (cases "split_at_char newline (tr_buffer (fst r))")
    case None
    then show ?thesis using "1.prems" by (simp add: feed_lines.simps [of sd r] live_def)
  next
    case (Some x)
    obtain line rest where x: "x = (line, rest)" by (cases x)
    let ?r = "((fst r)\<lparr>tr_buffer := rest\<rparr>, snd r)"
    have l: "live p0 ?r" using live_same_blocks [OF "1.prems", of "(fst r)\<lparr>tr_buffer := rest\<rparr>"] by (simp add: same_blocks_def)
    obtain r1 y where p: "process_line sd (from_utf8_lossy line) ?r = (r1, y)" by (metis surj_pair)
    note g = process_line_grammar [OF l p]
    have e: "feed_lines sd r = (case y of Inr True \<Rightarrow> r1 | Inr False \<Rightarrow> feed_lines sd r1 | Inl error \<Rightarrow> fail sd error r1)"
      using Some x p by (simp add: feed_lines.simps [of sd r])
    show ?thesis
    proof (cases y)
      case (Inl err)
      then show ?thesis using g e fail_grammar [of p0 r1 sd err] by (simp add: done_well_def)
    next
      case (Inr b)
      show ?thesis
      proof (cases b)
        case True
        then show ?thesis using g e Inr by (simp add: done_well_def)
      next
        case False
        then have "good p0 (feed_lines sd r1)" using "1.IH" [OF Some x [symmetric] p [symmetric] _ _] g Inr by simp
        then show ?thesis using e Inr False by simp
      qed
    qed
  qed
qed

lemma good_live: "good p0 r \<Longrightarrow> \<not> tr_finished (fst r) \<Longrightarrow> live p0 r"
  by (simp add: live_def)

lemma feed_grammar:
  assumes "tracks t p0"
  shows "good p0 (translator_feed sd chunk t)"
proof (cases "tr_finished t")
  case True
  then show ?thesis using assms by (simp add: translator_feed_def good_def)
next
  case False
  let ?r = "feed_lines sd (t\<lparr>tr_buffer := tr_buffer t @ chunk\<rparr>, [])"
  have "live p0 (t\<lparr>tr_buffer := tr_buffer t @ chunk\<rparr>, [])" using False assms by (simp add: live_def good_def)
  from feed_lines_grammar [OF this] have g: "good p0 ?r" .
  have "good p0 ((fst ?r)\<lparr>tr_buffer := []\<rparr>, snd ?r)"
    using g by (simp add: good_def)
  then show ?thesis using False g fail_grammar [OF good_live [OF g]]
    by (auto simp: translator_feed_def check_line_limit_def done_well_def)
qed

lemma finish_lines_grammar: "good p0 r \<Longrightarrow> good p0 (finish_lines sd lines r)"
proof (induction lines arbitrary: r)
  case (Cons line rest)
  show ?case
  proof (cases "tr_finished (fst r)")
    case False
    obtain r1 y where p: "process_line sd line r = (r1, y)" by (metis surj_pair)
    note g = process_line_grammar [OF good_live [OF Cons.prems False] p]
    show ?thesis using False p g Cons.IH [of r1] fail_grammar [of p0 r1 sd]
      by (cases y) (auto simp: done_well_def live_def split: bool.splits)
  qed (use Cons.prems in simp)
qed simp

lemma finish_grammar:
  assumes "tracks t p0"
  shows "done_well p0 (translator_finish sd t)"
proof (cases "tr_finished t")
  case True
  then show ?thesis using assms by (simp add: translator_finish_def done_well_def good_def)
next
  case False
  let ?r = "if tr_buffer t = [] then (t, []) else finish_lines sd (split_char newline (from_utf8_lossy (tr_buffer t))) (t\<lparr>tr_buffer := []\<rparr>, [])"
  have g: "good p0 ?r" using assms finish_lines_grammar [of p0 "(t\<lparr>tr_buffer := []\<rparr>, [])"] by (simp add: good_def)
  have e: "translator_finish sd t = (if tr_finished (fst ?r) then ?r
      else case finalize sd ?r of (r2, Inl error) \<Rightarrow> fail sd error r2 | (r2, Inr _) \<Rightarrow> r2)"
    using False by (simp add: translator_finish_def Let_def)
  show ?thesis
  proof (cases "tr_finished (fst ?r)")
    case True
    then show ?thesis using e g by (simp add: done_well_def)
  next
    case nf: False
    obtain r2 y where f: "finalize sd ?r = (r2, y)" by (metis surj_pair)
    from finalize_grammar [OF good_live [OF g nf] f] have "done_well p0 (case y of Inl error \<Rightarrow> fail sd error r2 | Inr _ \<Rightarrow> r2)"
      by (cases y) (auto intro: fail_grammar)
    moreover have "translator_finish sd t = (case y of Inl error \<Rightarrow> fail sd error r2 | Inr _ \<Rightarrow> r2)"
      using e f nf by (simp split: sum.splits)
    ultimately show ?thesis by simp
  qed
qed

lemma abort_grammar:
  assumes "tracks t p0"
  shows "done_well p0 (translator_abort sd status message t)"
proof (cases "tr_finished t")
  case True
  then show ?thesis using assms by (simp add: translator_abort_def done_well_def good_def)
next
  case False
  have l: "live p0 (t, [])" using False assms by (simp add: live_def good_def)
  obtain t1 out where c: "close_open (t, []) = (t1, out)" by force
  have l1: "live p0 (t1, out)" "tr_open t1 = None" using live_close_open [OF l] c by auto
  have "done_well p0 (t1\<lparr>tr_error := Some (Upstream message), tr_finished := True\<rparr>, out @ [(''error'', sse_error_value sd status message)])"
    by (rule done_append [OF l1(1)]) (use l1(2) in \<open>auto simp: tracks_def split: if_splits\<close>)
  then show ?thesis using False c by (simp add: translator_abort_def)
qed

text \<open>A stream: the chunks fed one after the other, then the end of the body or a failure of the connection.\<close>

definition feed_all :: "serde \<Rightarrow> bytes list \<Rightarrow> sse_translator \<times> event list \<Rightarrow> sse_translator \<times> event list" where
  "feed_all sd chunks r = foldl (\<lambda>(t, out) c. case translator_feed sd c t of (t', o1) \<Rightarrow> (t', out @ o1)) r chunks"

definition end_stream :: "serde \<Rightarrow> (u16 \<times> string) option \<Rightarrow> sse_translator \<Rightarrow> sse_translator \<times> event list" where
  "end_stream sd failure t =
     (case failure of None \<Rightarrow> translator_finish sd t | Some (status, message) \<Rightarrow> translator_abort sd status message t)"

definition translate_stream :: "serde \<Rightarrow> bridge_context \<Rightarrow> bytes list \<Rightarrow> (u16 \<times> string) option \<Rightarrow> sse_translator \<times> event list" where
  "translate_stream sd ctx chunks failure =
     (case feed_all sd chunks (translator_new ctx, []) of (t, out) \<Rightarrow>
        (case end_stream sd failure t of (t', o1) \<Rightarrow> (t', out @ o1)))"

lemma good_append: "good p0 (t, out) \<Longrightarrow> (\<And>ph. tracks t ph \<Longrightarrow> good ph (t', o1)) \<Longrightarrow> good p0 (t', out @ o1)"
  by (auto simp: good_def advances_append)

lemma feed_all_grammar: "good p0 r \<Longrightarrow> good p0 (feed_all sd chunks r)"
proof (induction chunks arbitrary: r)
  case (Cons c chunks)
  obtain t out where r: "r = (t, out)" by (cases r)
  obtain t' o1 where f: "translator_feed sd c t = (t', o1)" by force
  have "good p0 (t', out @ o1)"
    using Cons.prems feed_grammar [of t _ sd c] f r by (auto intro: good_append)
  then show ?case using Cons.IH [of "(t', out @ o1)"] r f by (simp add: feed_all_def)
qed (simp add: feed_all_def)

lemma translate_stream_grammar:
  "advances Fresh (snd (translate_stream sd ctx chunks failure))
   = Some (if tr_error (fst (translate_stream sd ctx chunks failure)) = None then Complete else Broken)"
proof -
  obtain t out where f: "feed_all sd chunks (translator_new ctx, []) = (t, out)" by force
  obtain t' o1 where e: "end_stream sd failure t = (t', o1)" by force
  have "good Fresh (translator_new ctx, [])" by (simp add: good_def tracks_def translator_new_def)
  from feed_all_grammar [OF this, of sd chunks] have g: "good Fresh (t, out)" using f by simp
  have d: "done_well ph (t', o1)" if "tracks t ph" for ph
    using finish_grammar [OF that, of sd] abort_grammar [OF that, of sd] e by (cases failure) (auto simp: end_stream_def, metis)
  then have "good Fresh (t', out @ o1)" "tr_finished t'"
    using g by (auto intro!: good_append simp: done_well_def) (auto simp: good_def)
  then show ?thesis using f e by (auto simp: translate_stream_def good_def tracks_def)
qed

section \<open>A complete message follows it\<close>

lemma block_events_grammar:
  "block_events sd block n = Some evs \<Longrightarrow> evs \<noteq> [] \<and> advances (Between n some) evs = Some (Between (n + 1) True)"
  by (auto simp: block_events_def Let_def split: if_splits)

lemma blocks_events_grammar:
  "\<exists>n' s'. advances (Between n some) (blocks_events sd blocks n) = Some (Between n' s') \<and> (s' \<longleftrightarrow> some \<or> blocks_events sd blocks n \<noteq> [])"
proof (induction blocks arbitrary: n some)
  case (Cons block blocks)
  show ?case
  proof (cases "block_events sd block n")
    case None
    then show ?thesis using Cons.IH [of n some] by simp
  next
    case (Some evs)
    then show ?thesis using block_events_grammar [OF Some, of some] Cons.IH [of "n + 1" True] by (auto simp: advances_append)
  qed
qed simp

lemma message_events_grammar: "advances Fresh (message_events sd message ctx) = Some Complete"
proof -
  have "advances (Between 0 False) (blocks_events sd bs 0 @ [message_delta r u, message_stop]) = Some Complete"
    if "blocks_events sd bs 0 \<noteq> []" for bs r u
    using blocks_events_grammar [of 0 False sd bs] that by (auto simp: advances_append)
  then show ?thesis by (auto simp: message_events_def Let_def split: option.splits)
qed

text \<open>
  C4. Whatever bytes the upstream sends and however they are cut, the client of a bridged stream receives one complete
  sequence of Anthropic events: the start of the message, content blocks that are numbered without gaps, opened and closed in
  turn and filled with deltas of their own type, at least one of them, then the final delta and the stop; or a prefix of such a
  sequence with every block closed, followed by a single error event exactly when an error was recorded.
\<close>

theorem bridged_stream_wellformed:
  "advances Fresh (snd (translate_stream sd ctx chunks failure))
   = Some (if tr_error (fst (translate_stream sd ctx chunks failure)) = None then Complete else Broken)"
  by (rule translate_stream_grammar)

end
