(* ===== verification/Bridge_Chunks.thy ===== *)
theory Bridge_Chunks
  imports Bridge_Grammar
begin

text \<open>
  The translator does not depend on how the network cuts the stream: feeding the pieces gives the same events as feeding
  everything at once, as long as no line is longer than the limit.
\<close>

section \<open>The buffer is only read by the line splitter\<close>

definition rebuf :: "bytes \<Rightarrow> event list \<Rightarrow> running \<Rightarrow> running" where
  "rebuf b pre r = ((fst r)\<lparr>tr_buffer := b\<rparr>, pre @ snd r)"

lemma rebuf_simps [simp]: "fst (rebuf b pre r) = (fst r)\<lparr>tr_buffer := b\<rparr>" "snd (rebuf b pre r) = pre @ snd r"
  "rebuf b pre (rebuf c pre' r) = rebuf b (pre @ pre') r" "rebuf b pre (t, out) = (t\<lparr>tr_buffer := b\<rparr>, pre @ out)"
  "rebuf (tr_buffer (fst r)) [] r = r"
  by (simp_all add: rebuf_def)

lemma buffer_last:
  "t\<lparr>tr_buffer := b, tr_finish_reason := x\<rparr> = t\<lparr>tr_finish_reason := x, tr_buffer := b\<rparr>"
  "t\<lparr>tr_buffer := b, tr_tools := ts\<rparr> = t\<lparr>tr_tools := ts, tr_buffer := b\<rparr>"
  "t\<lparr>tr_buffer := b, tr_next_index := n, tr_emitted_block := e\<rparr> = t\<lparr>tr_next_index := n, tr_emitted_block := e, tr_buffer := b\<rparr>"
  by simp_all

named_theorems rebuf_ops \<open>operations commute with a change of the buffer and of the events already sent\<close>

lemma rebuf_started [rebuf_ops]: "ensure_started (rebuf b pre r) = rebuf b pre (ensure_started r)"
  by (cases r) (simp add: ensure_started_def Let_def)

lemma rebuf_close [rebuf_ops]: "close_open (rebuf b pre r) = rebuf b pre (close_open r)"
  by (cases r) (simp add: close_open_def split: option.split open_block.split)

lemma rebuf_opening [rebuf_ops]: "open_text (rebuf b pre r) = apfst (rebuf b pre) (open_text r)"
  "open_thinking (rebuf b pre r) = apfst (rebuf b pre) (open_thinking r)"
  by (simp_all add: open_text_def open_thinking_def rebuf_ops Let_def split: option.split open_block.split prod.split)

lemma rebuf_emit [rebuf_ops]: "emit_text text (rebuf b pre r) = rebuf b pre (emit_text text r)"
  "emit_thinking text (rebuf b pre r) = rebuf b pre (emit_thinking text r)"
  by (simp_all add: emit_text_def emit_thinking_def rebuf_ops Let_def split: prod.split)

lemma rebuf_fold: "(\<And>r x. f (rebuf b pre r) x = rebuf b pre (f r x)) \<Longrightarrow> foldl f (rebuf b pre r) xs = rebuf b pre (foldl f r xs)"
  by (induction xs arbitrary: r) auto

lemma rebuf_part [rebuf_ops]: "emit_part part (rebuf b pre r) = rebuf b pre (emit_part part r)"
  by (simp add: emit_part_def rebuf_ops Let_def split: option.split)

lemma rebuf_content [rebuf_ops]: "emit_content content (rebuf b pre r) = rebuf b pre (emit_content content r)"
  by (simp add: emit_content_def rebuf_ops rebuf_fold split: option.split)

lemma rebuf_tools [rebuf_ops]: "tool_delta sd call p (t\<lparr>tr_buffer := b\<rparr>) = (tool_delta sd call p t)\<lparr>tr_buffer := b\<rparr>"
  "legacy_tool_delta sd call (t\<lparr>tr_buffer := b\<rparr>) = (legacy_tool_delta sd call t)\<lparr>tr_buffer := b\<rparr>"
  by (simp_all add: tool_delta_def legacy_tool_delta_def Let_def)

lemma rebuf_calls [rebuf_ops]:
  "foldl (\<lambda>t (p, call). case as_object call of None \<Rightarrow> t | Some c \<Rightarrow> tool_delta sd c p t) (t\<lparr>tr_buffer := b\<rparr>) calls
   = (foldl (\<lambda>t (p, call). case as_object call of None \<Rightarrow> t | Some c \<Rightarrow> tool_delta sd c p t) t calls)\<lparr>tr_buffer := b\<rparr>"
proof (induction calls arbitrary: t)
  case (Cons x calls)
  obtain p call where x: "x = (p, call)" by (cases x)
  show ?case by (cases "as_object call") (simp_all add: x Cons rebuf_ops)
qed simp

lemma rebuf_delta [rebuf_ops]: "process_delta sd delta (rebuf b pre r) = rebuf b pre (process_delta sd delta r)"
  by (simp add: process_delta_def rebuf_ops Let_def rebuf_def [of b pre "(_, _)"] split: option.split)

lemma rebuf_choice [rebuf_ops]: "process_choice sd choice (rebuf b pre r) = rebuf b pre (process_choice sd choice r)"
proof -
  have c: "close_open ((fst q)\<lparr>tr_buffer := b, tr_finish_reason := x\<rparr>, pre @ snd q) = rebuf b pre (close_open ((fst q)\<lparr>tr_finish_reason := x\<rparr>, snd q))" for q x
    using rebuf_close [of b pre "((fst q)\<lparr>tr_finish_reason := x\<rparr>, snd q)"] by (simp add: buffer_last)
  show ?thesis
    by (simp add: process_choice_def process_message_def rebuf_ops Let_def c split: option.split)
qed

lemma rebuf_value [rebuf_ops]: "process_value sd v (rebuf b pre r) = apfst (rebuf b pre) (process_value sd v r)"
proof -
  have n: "(note_chunk m v ((fst r)\<lparr>tr_buffer := b\<rparr>), pre @ snd r) = rebuf b pre (note_chunk m v (fst r), snd r)" for m
    by (simp add: note_chunk_def split: prod.split)
  have "process_choice sd c (note_chunk m v ((fst r)\<lparr>tr_buffer := b\<rparr>), pre @ snd r) = rebuf b pre (process_choice sd c (note_chunk m v (fst r), snd r))" for c m
    by (simp only: n rebuf_choice)
  then show ?thesis using n by (simp add: process_value_def Let_def split: option.split)
qed

lemma rebuf_finalize_tools [rebuf_ops]:
  "finalize_tools sd k tools (rebuf b pre r) = apfst (rebuf b pre) (finalize_tools sd k tools r)"
  by (induction sd k tools r rule: finalize_tools.induct) (simp_all add: Let_def buffer_last split: option.split sum.split)

lemma rebuf_finalize [rebuf_ops]: "finalize sd (rebuf b pre r) = apfst (rebuf b pre) (finalize sd r)"
proof -
  obtain t1 out1 where c: "close_open (ensure_started r) = (t1, out1)" by force
  obtain t2 out2 y where f: "finalize_tools sd 0 (map snd (tr_tools t1)) (t1\<lparr>tr_tools := []\<rparr>, out1) = ((t2, out2), y)"
    by (metis prod.collapse)
  have c': "close_open (ensure_started (rebuf b pre r)) = (t1\<lparr>tr_buffer := b\<rparr>, pre @ out1)" by (simp add: rebuf_ops c)
  have f': "finalize_tools sd 0 (map snd (tr_tools t1)) (t1\<lparr>tr_buffer := b, tr_tools := []\<rparr>, pre @ out1) = ((t2\<lparr>tr_buffer := b\<rparr>, pre @ out2), y)"
    using rebuf_finalize_tools [of sd 0 "map snd (tr_tools t1)" b pre "(t1\<lparr>tr_tools := []\<rparr>, out1)"] f by (simp add: buffer_last)
  show ?thesis by (simp add: finalize_def c c' f f' Let_def split: sum.split)
qed

lemma rebuf_fail [rebuf_ops]: "fail sd e (rebuf b pre r) = rebuf b pre (fail sd e r)"
  by (simp add: fail_def rebuf_ops split: prod.split)

lemma rebuf_line: "process_line sd line (rebuf b pre r) = apfst (rebuf b pre) (process_line sd line r)"
  by (simp add: process_line_def rebuf_ops split: option.split sum.split prod.split)

section \<open>Feeding in pieces\<close>

text \<open>One line of the loop, for any later bytes and earlier events.\<close>

lemma feed_lines_line:
  assumes "tr_buffer (fst r) = line @ newline # rest" and "newline \<notin> set line"
    and "process_line sd (from_utf8_lossy line) r = (r1, x)"
  shows "feed_lines sd (rebuf (line @ newline # rest @ y) pre r)
    = (case x of Inr True \<Rightarrow> rebuf (rest @ y) pre r1 | Inr False \<Rightarrow> feed_lines sd (rebuf (rest @ y) pre r1)
       | Inl error \<Rightarrow> rebuf (rest @ y) pre (fail sd error r1))"
proof -
  let ?r = "rebuf (line @ newline # rest @ y) pre r"
  have "split_at_char newline (tr_buffer (fst ?r)) = Some (line, rest @ y)" using assms(2) by (simp add: split_at_char_Some)
  moreover have "process_line sd (from_utf8_lossy line) ((fst ?r)\<lparr>tr_buffer := rest @ y\<rparr>, snd ?r) = (rebuf (rest @ y) pre r1, x)"
    using rebuf_line [of sd "from_utf8_lossy line" "rest @ y" pre r] assms(3) by (simp add: rebuf_def)
  ultimately show ?thesis by (simp add: feed_lines.simps [of sd ?r] rebuf_fail split: sum.split bool.split)
qed

lemma feed_lines_step:
  assumes "split_at_char newline (tr_buffer (fst r)) = Some (line, rest)"
  obtains r1 x where "process_line sd (from_utf8_lossy line) r = (r1, x)" "tr_buffer (fst r1) = tr_buffer (fst r)"
    "\<And>y pre. feed_lines sd (rebuf (tr_buffer (fst r) @ y) pre r)
      = (case x of Inr True \<Rightarrow> rebuf (rest @ y) pre r1 | Inr False \<Rightarrow> feed_lines sd (rebuf (rest @ y) pre r1)
         | Inl error \<Rightarrow> rebuf (rest @ y) pre (fail sd error r1))"
proof -
  obtain r1 x where p: "process_line sd (from_utf8_lossy line) r = (r1, x)" by (metis surj_pair)
  have b: "tr_buffer (fst r) = line @ newline # rest" "newline \<notin> set line" using assms by (auto simp: split_at_char_Some)
  show thesis using that [OF p buffer_processed [OF p [symmetric]]] feed_lines_line [OF b p] b(1) by simp
qed

lemma feed_lines_split:
  "live p0 r \<Longrightarrow>
    (if tr_finished (fst (feed_lines sd r)) then \<exists>b. feed_lines sd (rebuf (tr_buffer (fst r) @ y) pre r) = rebuf b pre (feed_lines sd r)
     else feed_lines sd (rebuf (tr_buffer (fst r) @ y) pre r)
       = feed_lines sd (rebuf (tr_buffer (fst (feed_lines sd r)) @ y) pre (feed_lines sd r)))"
proof (induction "length (tr_buffer (fst r))" arbitrary: r rule: less_induct)
  case less
  show ?case
  proof (cases "split_at_char newline (tr_buffer (fst r))")
    case None
    then have "feed_lines sd r = r" by (simp add: feed_lines.simps [of sd r])
    then show ?thesis using less.prems by (simp add: live_def)
  next
    case (Some a)
    obtain line rest where a: "a = (line, rest)" by (cases a)
    obtain r1 x where p: "process_line sd (from_utf8_lossy line) r = (r1, x)" and bf: "tr_buffer (fst r1) = tr_buffer (fst r)"
      and f: "\<And>y pre. feed_lines sd (rebuf (tr_buffer (fst r) @ y) pre r)
      = (case x of Inr True \<Rightarrow> rebuf (rest @ y) pre r1 | Inr False \<Rightarrow> feed_lines sd (rebuf (rest @ y) pre r1)
         | Inl error \<Rightarrow> rebuf (rest @ y) pre (fail sd error r1))"
      using feed_lines_step [OF Some [unfolded a]] by blast
    have f0: "feed_lines sd r = (case x of Inr True \<Rightarrow> rebuf rest [] r1 | Inr False \<Rightarrow> feed_lines sd (rebuf rest [] r1)
         | Inl error \<Rightarrow> rebuf rest [] (fail sd error r1))" using f [of "[]" "[]"] by (simp split: sum.splits bool.splits)
    note g = process_line_grammar [OF less.prems p]
    show ?thesis
    proof (cases x)
      case (Inl e)
      then have "tr_finished (fst (fail sd e r1))" using fail_grammar [of p0 r1 sd e] g by (simp add: done_well_def)
      then show ?thesis using f f0 Inl by (auto intro: exI [of _ "rest @ y"])
    next
      case (Inr b)
      show ?thesis
      proof (cases b)
        case True
        then show ?thesis using f f0 Inr g by (auto simp: done_well_def intro: exI [of _ "rest @ y"])
      next
        case False
        let ?r = "rebuf rest [] r1"
        have l: "live p0 ?r" using g Inr False live_same_blocks [of p0 r1 "(fst r1)\<lparr>tr_buffer := rest\<rparr>"]
          by (simp add: rebuf_def same_blocks_def)
        have len: "length (tr_buffer (fst ?r)) < length (tr_buffer (fst r))" using Some a by (auto simp: split_at_char_Some)
        have e: "feed_lines sd (rebuf (tr_buffer (fst r) @ y) pre r) = feed_lines sd (rebuf (tr_buffer (fst ?r) @ y) pre ?r)"
          "feed_lines sd r = feed_lines sd ?r" using f f0 Inr False by simp_all
        show ?thesis using less.hyps [OF len l] unfolding e .
      qed
    qed
  qed
qed

lemma feed_lines_no_newline: "live p0 r \<Longrightarrow> \<not> tr_finished (fst (feed_lines sd r)) \<Longrightarrow>
    newline \<notin> set (tr_buffer (fst (feed_lines sd r))) \<and> (\<exists>pre. tr_buffer (fst r) = pre @ tr_buffer (fst (feed_lines sd r)) \<and> (pre = [] \<or> last pre = newline))"
proof (induction "length (tr_buffer (fst r))" arbitrary: r rule: less_induct)
  case less
  show ?case
  proof (cases "split_at_char newline (tr_buffer (fst r))")
    case None
    then have "feed_lines sd r = r" by (simp add: feed_lines.simps [of sd r])
    then show ?thesis using None by (simp add: split_at_char_None)
  next
    case (Some a)
    obtain line rest where a: "a = (line, rest)" by (cases a)
    obtain r1 x where p: "process_line sd (from_utf8_lossy line) r = (r1, x)" and bf: "tr_buffer (fst r1) = tr_buffer (fst r)"
      and f: "\<And>y pre. feed_lines sd (rebuf (tr_buffer (fst r) @ y) pre r)
      = (case x of Inr True \<Rightarrow> rebuf (rest @ y) pre r1 | Inr False \<Rightarrow> feed_lines sd (rebuf (rest @ y) pre r1)
         | Inl error \<Rightarrow> rebuf (rest @ y) pre (fail sd error r1))"
      using feed_lines_step [OF Some [unfolded a]] by blast
    have f0: "feed_lines sd r = (case x of Inr True \<Rightarrow> rebuf rest [] r1 | Inr False \<Rightarrow> feed_lines sd (rebuf rest [] r1)
         | Inl error \<Rightarrow> rebuf rest [] (fail sd error r1))" using f [of "[]" "[]"] by (simp split: sum.splits bool.splits)
    note g = process_line_grammar [OF less.prems(1) p]
    have x: "x = Inr False"
      using less.prems(2) f0 g fail_grammar [of p0 r1 sd] by (cases x) (auto simp: done_well_def split: bool.splits)
    let ?r = "rebuf rest [] r1"
    have l: "live p0 ?r" using g x live_same_blocks [of p0 r1 "(fst r1)\<lparr>tr_buffer := rest\<rparr>"]
      by (simp add: rebuf_def same_blocks_def)
    have b: "tr_buffer (fst r) = (line @ [newline]) @ rest" using Some a by (auto simp: split_at_char_Some)
    have e: "feed_lines sd r = feed_lines sd ?r" using f0 x by simp
    have len: "length (tr_buffer (fst ?r)) < length (tr_buffer (fst r))" using b by simp
    have nf: "\<not> tr_finished (fst (feed_lines sd ?r))" using less.prems(2) unfolding e .
    have "tr_buffer (fst ?r) = rest" by simp
    with less.hyps [OF len l nf] obtain pre where
      "newline \<notin> set (tr_buffer (fst (feed_lines sd r)))" "rest = pre @ tr_buffer (fst (feed_lines sd r))" "pre = [] \<or> last pre = newline"
      unfolding e by metis
    then show ?thesis using b by (intro conjI exI [of _ "line @ [newline] @ pre"]) auto
  qed
qed

text \<open>Earlier events do not matter; a buffer without a newline stays.\<close>

lemma feed_lines_idle: "newline \<notin> set (tr_buffer (fst r)) \<Longrightarrow> feed_lines sd r = r"
  by (subst feed_lines.simps) (simp add: split_at_char_None [THEN iffD2])

lemma feed_lines_prefix:
  assumes "live p0 r"
  obtains b where "feed_lines sd (rebuf (tr_buffer (fst r)) pre r) = rebuf b pre (feed_lines sd r)"
    "\<not> tr_finished (fst (feed_lines sd r)) \<Longrightarrow> b = tr_buffer (fst (feed_lines sd r))"
proof (cases "tr_finished (fst (feed_lines sd r))")
  case True
  then show ?thesis using that feed_lines_split [OF assms, of sd "[]" pre] by auto
next
  case False
  let ?F = "feed_lines sd r"
  have "feed_lines sd (rebuf (tr_buffer (fst ?F)) pre ?F) = rebuf (tr_buffer (fst ?F)) pre ?F"
    by (rule feed_lines_idle) (use feed_lines_no_newline [OF assms False] in simp)
  then show ?thesis using that [of "tr_buffer (fst ?F)"] feed_lines_split [OF assms, of sd "[]" pre] False by simp
qed

definition short_lines :: "bytes \<Rightarrow> bool" where
  "short_lines bs \<longleftrightarrow> (\<forall>pre line post. bs = pre @ line @ post \<and> newline \<notin> set line \<longrightarrow> length line \<le> SSE_LINE_LIMIT)"

lemma short_lines_prefix: "short_lines (a @ b) \<Longrightarrow> short_lines a"
  by (auto simp: short_lines_def) (metis append.assoc)

text \<open>The state after the chunks depends on their concatenation only.\<close>

definition settled_feed :: "running \<Rightarrow> running" where
  "settled_feed r = (if tr_finished (fst r) then rebuf [] [] r else r)"

lemma feed_all_concat:
  assumes "short_lines (concat chunks)"
  shows "feed_all sd chunks (translator_new ctx, []) = settled_feed (feed_lines sd ((translator_new ctx)\<lparr>tr_buffer := concat chunks\<rparr>, []))"
  using assms
proof (induction chunks rule: rev_induct)
  case Nil
  have "feed_lines sd (translator_new ctx, []) = (translator_new ctx, [])" by (rule feed_lines_idle) (simp add: translator_new_def)
  then show ?case by (simp add: feed_all_def settled_feed_def translator_new_def)
next
  case (snoc c cs)
  let ?t0 = "translator_new ctx"
  let ?r = "(?t0\<lparr>tr_buffer := concat cs\<rparr>, []) :: running"
  let ?R = "feed_lines sd ?r"
  have live: "live Fresh ?r" by (simp add: live_def good_def tracks_def translator_new_def)
  have IH: "feed_all sd cs (?t0, []) = settled_feed ?R" using snoc short_lines_prefix [of "concat cs" c] by simp
  have all: "feed_all sd (cs @ [c]) (?t0, []) = (case settled_feed ?R of (t, out) \<Rightarrow> case translator_feed sd c t of (t', o1) \<Rightarrow> (t', out @ o1))"
    using IH by (simp add: feed_all_def split: prod.split)
  have buf: "(?t0\<lparr>tr_buffer := concat (cs @ [c])\<rparr>, []) = rebuf (tr_buffer (fst ?r) @ c) [] ?r" by simp
  show ?case
  proof (cases "tr_finished (fst ?R)")
    case True
    then obtain b where "feed_lines sd (rebuf (tr_buffer (fst ?r) @ c) [] ?r) = rebuf b [] ?R"
      using feed_lines_split [OF live, of sd c "[]"] by auto
    then have "settled_feed (feed_lines sd (rebuf (tr_buffer (fst ?r) @ c) [] ?r)) = rebuf [] [] ?R"
      using True by (simp add: settled_feed_def del: rebuf_simps(4))
    moreover have "feed_all sd (cs @ [c]) (?t0, []) = rebuf [] [] ?R"
      using all True by (simp add: settled_feed_def translator_feed_def rebuf_def)
    ultimately show ?thesis unfolding buf by simp
  next
    case nf: False
    obtain t out where R: "?R = (t, out)" by force
    have lR: "live Fresh ?R" using feed_lines_grammar [OF live, of sd] nf by (simp add: live_def)
    let ?q = "(t\<lparr>tr_buffer := tr_buffer t @ c\<rparr>, []) :: running"
    let ?F = "feed_lines sd ?q"
    obtain ph where ph: "tracks t ph" using lR R by (auto simp: live_def good_def)
    have lq: "live ph ?q" using ph nf R by (simp add: live_def good_def)
    obtain b where b: "feed_lines sd (rebuf (tr_buffer (fst ?q)) out ?q) = rebuf b out ?F"
        "\<not> tr_finished (fst ?F) \<Longrightarrow> b = tr_buffer (fst ?F)" using feed_lines_prefix [OF lq] by metis
    have G: "feed_lines sd (?t0\<lparr>tr_buffer := concat (cs @ [c])\<rparr>, []) = rebuf b out ?F"
      using feed_lines_split [OF live, of sd c "[]"] nf R b(1) unfolding buf by simp
    have lim: "length (tr_buffer (fst ?F)) \<le> SSE_LINE_LIMIT" if "\<not> tr_finished (fst ?F)"
    proof -
      let ?g = "(?t0\<lparr>tr_buffer := concat (cs @ [c])\<rparr>, []) :: running"
      have lg: "live Fresh ?g" by (simp add: live_def good_def tracks_def translator_new_def)
      have "\<not> tr_finished (fst (feed_lines sd ?g))" "tr_buffer (fst (feed_lines sd ?g)) = tr_buffer (fst ?F)"
        using G b(2) that by simp_all
      then obtain pre where "newline \<notin> set (tr_buffer (fst ?F))" "concat (cs @ [c]) = pre @ tr_buffer (fst ?F) @ []"
        using feed_lines_no_newline [OF lg, of sd] by auto
      then show ?thesis using snoc.prems unfolding short_lines_def by blast
    qed
    have "translator_feed sd c t = settled_feed ?F"
      using nf R lim by (auto simp: translator_feed_def check_line_limit_def settled_feed_def rebuf_def)
    moreover have "settled_feed (rebuf b out ?F) = (fst (settled_feed ?F), out @ snd (settled_feed ?F))"
      using b(2) by (auto simp: settled_feed_def rebuf_def)
    moreover have "settled_feed ?R = (t, out)" using R nf by (simp add: settled_feed_def)
    ultimately have "feed_all sd (cs @ [c]) (?t0, []) = settled_feed (rebuf b out ?F)"
      unfolding all by (simp split: prod.split)
    then show ?thesis unfolding G .
  qed
qed



end
