(* ===== verification/Response.thy ===== *)
theory Response
  imports Forward Usage Bridge_Chunks
begin

text \<open>
  What happens after a backend's first byte, \<open>forward_backend_response\<close> and \<open>forward_bridge_response\<close> of
  \<open>src/proxy/mod.rs\<close>: the body is relayed while its usage is read, or translated to an Anthropic answer, and the reporter
  settles the request. The client is a function that says whether it takes the next frame; the tasks the code spawns are run to
  their end.
\<close>

section \<open>Bodies\<close>

definition item_of :: "body_event \<Rightarrow> stream_item list" where
  "item_of ev = (case ev of BodyChunk b \<Rightarrow> [Chunk b] | BodyFailed e \<Rightarrow> [StreamError e] | BodyIdle \<Rightarrow> [])"

text \<open>\<open>response.bytes()\<close> waits through idle periods and fails with the first error.\<close>

fun read_bytes :: "bytes \<Rightarrow> body_event list \<Rightarrow> string + bytes" where
  "read_bytes out [] = Inr out"
| "read_bytes out (BodyChunk b # evs) = read_bytes (out @ b) evs"
| "read_bytes out (BodyFailed e # evs) = Inl e"
| "read_bytes out (BodyIdle # evs) = read_bytes out evs"

definition NONSTREAM_USAGE_BUFFER_LIMIT :: u64 where "NONSTREAM_USAGE_BUFFER_LIMIT = 1024 * 1024"

text \<open>Why a relay ended: the client is gone, or the error recorded, or neither.\<close>

record relay_end =
  re_client_aborted :: bool
  re_error_class :: "string option"

definition relay_done :: relay_end where "relay_done = \<lparr>re_client_aborted = False, re_error_class = None\<rparr>"
definition relay_aborted :: relay_end where "relay_aborted = \<lparr>re_client_aborted = True, re_error_class = None\<rparr>"
definition relay_error :: "string \<Rightarrow> relay_end" where "relay_error e = \<lparr>re_client_aborted = False, re_error_class = Some e\<rparr>"

section \<open>Relaying a stream\<close>

fun pump_stream ::
  "serde \<Rightarrow> backend_format \<Rightarrow> (nat \<Rightarrow> bool) \<Rightarrow> body_event list \<Rightarrow> sse_usage_tap \<times> usage_accumulator \<Rightarrow> bytes list
   \<Rightarrow> bytes list \<times> (sse_usage_tap \<times> usage_accumulator) \<times> relay_end" where
  "pump_stream sd fmt takes [] ta sent = (sent, ta, relay_done)"
| "pump_stream sd fmt takes (BodyChunk b # evs) ta sent =
     (let ta' = tap_feed sd fmt ta b in
      if takes (length sent) then pump_stream sd fmt takes evs ta' (sent @ [b]) else (sent, ta', relay_aborted))"
| "pump_stream sd fmt takes (BodyFailed e # evs) ta sent = (sent, ta, relay_error e)"
| "pump_stream sd fmt takes (BodyIdle # evs) ta sent = (sent, ta, relay_error ''idle timeout'')"

text \<open>A body that is not a stream is kept for its usage up to a limit.\<close>

fun pump_body ::
  "(nat \<Rightarrow> bool) \<Rightarrow> body_event list \<Rightarrow> bytes option \<Rightarrow> bytes list \<Rightarrow> bytes list \<times> bytes option \<times> relay_end" where
  "pump_body takes [] buf sent = (sent, buf, relay_done)"
| "pump_body takes (BodyChunk b # evs) buf sent =
     (let buf' = (case buf of None \<Rightarrow> None | Some x \<Rightarrow>
                    if sat_add (of_nat (length x)) (of_nat (length b)) \<le> NONSTREAM_USAGE_BUFFER_LIMIT then Some (x @ b) else None)
      in if takes (length sent) then pump_body takes evs buf' (sent @ [b]) else (sent, buf', relay_aborted))"
| "pump_body takes (BodyFailed e # evs) buf sent = (sent, buf, relay_error e)"
| "pump_body takes (BodyIdle # evs) buf sent = (sent, buf, relay_error ''idle timeout'')"

section \<open>Finishing\<close>

definition completion_of :: "u16 \<Rightarrow> usage_accumulator \<Rightarrow> relay_end \<Rightarrow> completion" where
  "completion_of status acc e =
     \<lparr>co_status = status, co_input_tokens = ua_input_tokens acc, co_output_tokens = ua_output_tokens acc,
      co_estimated = \<not> ua_seen_usage acc, co_client_aborted = re_client_aborted e, co_error_class = re_error_class e\<rparr>"

text \<open>The reporter's last call and its destructor.\<close>

definition complete :: "clocks \<Rightarrow> completion \<Rightarrow> app_state \<Rightarrow> completion_reporter \<Rightarrow> app_state" where
  "complete clk c st r = reporter_drop clk (reporter_finish clk c (st, r))"

definition forward_plain_response ::
  "serde \<Rightarrow> clocks \<Rightarrow> (nat \<Rightarrow> bool) \<Rightarrow> upstream_response \<Rightarrow> backend_format \<Rightarrow> app_state \<Rightarrow> completion_reporter
   \<Rightarrow> app_state \<times> http_response" where
  "forward_plain_response sd clk takes resp fmt st r =
     (let status = up_status resp in
      if cr_stream r then
        (case pump_stream sd fmt takes (up_events resp) (tap_default, usage_default) [] of (sent, ta, e) \<Rightarrow>
           (complete clk (completion_of status (tap_finish sd fmt ta) e) st r, build_response status (up_headers resp) sent))
      else if (case up_content_length resp of Some len \<Rightarrow> len \<le> NONSTREAM_USAGE_BUFFER_LIMIT | None \<Rightarrow> False) then
        (case read_bytes [] (up_events resp) of
           Inr body \<Rightarrow>
             (complete clk (completion_of status (parse_usage_from_body sd body fmt) relay_done) st r,
              build_response status (up_headers resp) [body])
         | Inl e \<Rightarrow>
             (complete clk (completion_of status usage_default (relay_error e)) st r,
              build_response 502 [] [''backend read failed'']))
      else
        (case pump_body takes (up_events resp) (Some []) [] of (sent, buf, e) \<Rightarrow>
           (let acc = (case buf of Some body \<Rightarrow> parse_usage_from_body sd body fmt | None \<Rightarrow> usage_default) in
            (complete clk (completion_of status acc e) st r, build_response status (up_headers resp) sent))))"

section \<open>Bridged responses\<close>

definition bridge_json_response :: "http_client \<Rightarrow> u16 \<Rightarrow> bytes \<Rightarrow> string \<Rightarrow> http_response" where
  "bridge_json_response hc status body request_id =
     \<lparr>rs_status = status,
      rs_headers = [(''content-type'', ''application/json; charset=utf-8''), (''cache-control'', ''no-store'')]
        @ (if hc_value_ok hc request_id then [(''request-id'', request_id)] else []),
      rs_body = [body]\<rparr>"

definition bridge_sse_response :: "http_client \<Rightarrow> u16 \<Rightarrow> bytes list \<Rightarrow> string \<Rightarrow> http_response" where
  "bridge_sse_response hc status body request_id =
     \<lparr>rs_status = status,
      rs_headers = [(''content-type'', ''text/event-stream; charset=utf-8''), (''cache-control'', ''no-cache''), (''x-accel-buffering'', ''no'')]
        @ (if hc_value_ok hc request_id then [(''request-id'', request_id)] else []),
      rs_body = body\<rparr>"

text \<open>The loop of the translating task; an empty output is not sent.\<close>

definition bridge_send :: "serde \<Rightarrow> event list \<Rightarrow> bytes list \<Rightarrow> bytes list" where
  "bridge_send sd evs sent = (if render sd evs = [] then sent else sent @ [render sd evs])"

fun pump_bridge ::
  "serde \<Rightarrow> (nat \<Rightarrow> bool) \<Rightarrow> body_event list \<Rightarrow> sse_usage_tap \<times> usage_accumulator \<Rightarrow> sse_translator \<Rightarrow> bytes list
   \<Rightarrow> bytes list \<times> (sse_usage_tap \<times> usage_accumulator) \<times> sse_translator \<times> relay_end" where
  "pump_bridge sd takes [] ta t sent =
     (case translator_finish sd t of (t', evs) \<Rightarrow>
        (if takes (length sent) then bridge_send sd evs sent else sent, ta, t', relay_done))"
| "pump_bridge sd takes (BodyChunk b # rest) ta t sent =
     (let ta' = tap_feed sd FmtOpenAi ta b in
      case translator_feed sd b t of (t', evs) \<Rightarrow>
        if render sd evs \<noteq> [] \<and> \<not> takes (length sent) then (sent, ta', t', relay_aborted)
        else if tr_finished t' then (bridge_send sd evs sent, ta', t', relay_done)
        else pump_bridge sd takes rest ta' t' (bridge_send sd evs sent))"
| "pump_bridge sd takes (BodyFailed e # rest) ta t sent =
     (case translator_abort sd 502 (''upstream stream failed: '' @ e) t of (t', evs) \<Rightarrow>
        (if takes (length sent) then bridge_send sd evs sent else sent, ta, t', relay_error e))"
| "pump_bridge sd takes (BodyIdle # rest) ta t sent =
     (case translator_abort sd 504 ''upstream stream idle timeout'' t of (t', evs) \<Rightarrow>
        (if takes (length sent) then bridge_send sd evs sent else sent, ta, t', relay_error ''upstream stream idle timeout''))"

definition content_type_of :: "http_client \<Rightarrow> upstream_response \<Rightarrow> string" where
  "content_type_of hc resp =
     to_ascii_lowercase (unwrap_or [] (filter_opt (hc_text_ok hc)
       (case hdr_values (up_headers resp) ''content-type'' of [] \<Rightarrow> None | v # _ \<Rightarrow> Some v)))"

definition items_of :: "upstream_response \<Rightarrow> stream_item list" where
  "items_of resp = concat (map item_of (up_events resp))"

definition forward_bridged_body ::
  "serde \<Rightarrow> http_client \<Rightarrow> clocks \<Rightarrow> upstream_response \<Rightarrow> bridge_context \<Rightarrow> app_state \<Rightarrow> completion_reporter \<Rightarrow> app_state \<times> http_response" where
  "forward_bridged_body sd hc clk resp bridge st r =
     (case read_body_limited (up_content_length resp) (items_of resp) NONSTREAM_RESPONSE_LIMIT of
        Inl err \<Rightarrow>
          (complete clk (completion_of 502 usage_default (relay_error (bridge_error_message err))) st r,
           bridge_json_response hc 502 (anthropic_error_body sd 502 (bridge_error_message err)) (bc_request_id bridge))
      | Inr body \<Rightarrow>
          (let acc = parse_usage_from_body sd body FmtOpenAi in
           case build_message sd body bridge of
             Inl err \<Rightarrow>
               (complete clk (completion_of 502 acc (relay_error (bridge_error_message err))) st r,
                bridge_json_response hc 502 (anthropic_error_body sd 502 (bridge_error_message err)) (bc_request_id bridge))
           | Inr message \<Rightarrow>
               (complete clk (completion_of (up_status resp) acc relay_done) st r,
                if cr_stream r then bridge_sse_response hc (up_status resp) [message_to_sse sd message bridge] (bc_request_id bridge)
                else bridge_json_response hc (up_status resp) (to_string sd message) (bc_request_id bridge))))"

definition forward_bridge_response ::
  "serde \<Rightarrow> http_client \<Rightarrow> clocks \<Rightarrow> (nat \<Rightarrow> bool) \<Rightarrow> upstream_response \<Rightarrow> bridge_context \<Rightarrow> app_state \<Rightarrow> completion_reporter
   \<Rightarrow> app_state \<times> http_response" where
  "forward_bridge_response sd hc clk takes resp bridge st r =
     (let status = up_status resp; content_type = content_type_of hc resp in
      if status \<ge> 400 then
        (let fallback = ''upstream returned HTTP '' @ dec (unat status);
             body = (case read_body_limited (up_content_length resp) (items_of resp) ERROR_BODY_LIMIT of Inr b \<Rightarrow> b | Inl _ \<Rightarrow> [])
         in (complete clk (completion_of status usage_default (relay_error fallback)) st r,
             bridge_json_response hc status (translate_upstream_error sd status body fallback) (bc_request_id bridge)))
      else if \<not> cr_stream r \<or> str_contains content_type ''application/json'' \<or> str_contains content_type ''+json''
      then forward_bridged_body sd hc clk resp bridge st r
      else
        (case pump_bridge sd takes (up_events resp) (tap_default, usage_default) (translator_new bridge) [] of (sent, ta, t, e) \<Rightarrow>
           (let e' = (case tr_error t of None \<Rightarrow> e | Some err \<Rightarrow> e\<lparr>re_error_class := Some (bridge_error_message err)\<rparr>) in
            (complete clk (completion_of status (tap_finish sd FmtOpenAi ta) e') st r,
             bridge_sse_response hc status sent (bc_request_id bridge)))))"

definition forward_backend_response ::
  "serde \<Rightarrow> http_client \<Rightarrow> clocks \<Rightarrow> (nat \<Rightarrow> bool) \<Rightarrow> upstream_response \<Rightarrow> backend_format \<Rightarrow> bridge_context option
   \<Rightarrow> app_state \<Rightarrow> completion_reporter \<Rightarrow> app_state \<times> http_response" where
  "forward_backend_response sd hc clk takes resp fmt bridge st r =
     (case bridge of
        Some b \<Rightarrow> forward_bridge_response sd hc clk takes resp b st r
      | None \<Rightarrow> forward_plain_response sd clk takes resp fmt st r)"

text \<open>A request from the first backend to the last byte.\<close>

definition serve ::
  "serde \<Rightarrow> http_client \<Rightarrow> (nat \<Rightarrow> attempt_env) \<Rightarrow> clocks \<Rightarrow> (nat \<Rightarrow> bool) \<Rightarrow> app_state \<Rightarrow> client_request \<Rightarrow> proxy_request_body \<Rightarrow> proxy_context
   \<Rightarrow> app_state \<times> http_response" where
  "serve sd hc env clk takes st cq body ctx =
     (case proxy_forward sd hc env st cq body ctx of
        (st', _, Rejected resp) \<Rightarrow> (st', resp)
      | (st', _, Forwarding resp fmt name pre_ms r) \<Rightarrow>
          (case forward_backend_response sd hc clk takes resp fmt (pc_bridge ctx) st' r of (st2, out) \<Rightarrow>
             (st2, tag_router_headers hc out (pc_request_id ctx) (Some name) pre_ms)))"

section \<open>Relays are faithful\<close>

text \<open>The frames of a body up to its end, failure or first idle timeout.\<close>

fun body_chunks :: "body_event list \<Rightarrow> bytes list" where
  "body_chunks (BodyChunk b # evs) = b # body_chunks evs"
| "body_chunks _ = []"

lemma pump_stream_relays:
  assumes "pump_stream sd fmt takes evs ta sent = (sent', ta', e)"
  shows "\<exists>n m. sent' = sent @ take n (body_chunks evs) \<and> ta' = foldl (tap_feed sd fmt) ta (take m (body_chunks evs))
    \<and> n \<le> m \<and> (if re_client_aborted e then m = n + 1 \<and> n < length (body_chunks evs) else n = length (body_chunks evs))
    \<and> (re_client_aborted e \<longrightarrow> (\<exists>k. \<not> takes k))"
  using assms
proof (induction sd fmt takes evs ta sent rule: pump_stream.induct)
  case (2 sd fmt takes b evs ta sent)
  show ?case
  proof (cases "takes (length sent)")
    case True
    then obtain n m where "sent' = (sent @ [b]) @ take n (body_chunks evs)"
        "ta' = foldl (tap_feed sd fmt) (tap_feed sd fmt ta b) (take m (body_chunks evs))"
        "n \<le> m" "if re_client_aborted e then m = n + 1 \<and> n < length (body_chunks evs) else n = length (body_chunks evs)"
        "re_client_aborted e \<longrightarrow> (\<exists>k. \<not> takes k)"
      using 2 by (auto simp: Let_def)
    then show ?thesis by (intro exI [of _ "Suc n"] exI [of _ "Suc m"]) (auto split: if_splits)
  next
    case False
    then have "sent' = sent" "ta' = tap_feed sd fmt ta b" "e = relay_aborted" using 2 by (auto simp: Let_def)
    then show ?thesis using False by (intro exI [of _ 0] exI [of _ 1]) (auto simp: relay_aborted_def)
  qed
qed (auto simp: relay_done_def relay_error_def)

lemma complete_ledger:
  assumes "\<not> cr_finished r"
  shows "as_ledger (complete clk c st r) = try_record (as_ledger st) (usage_event_of r clk (charge_estimate r c))"
  using assms by (simp add: complete_def reporter_drop_def abort_unfinished_def reporter_finish_def emit_def Let_def)

text \<open>
  C20. A streamed response is relayed faithfully: the client gets the backend's status and headers (but the length) and exactly the
  backend's frames in order, all of them unless it goes away; one usage event is recorded, and the usage in it is
  the one the lines of the frames read so far report, however they were cut.
\<close>

theorem stream_relayed_faithfully:
  assumes "cr_stream r" and "\<not> cr_finished r" and "forward_plain_response sd clk takes resp fmt st r = (st', out)"
  shows "rs_status out = up_status resp \<and> rs_headers out = filter (\<lambda>(k, _). k \<noteq> ''content-length'') (up_headers resp)
    \<and> (\<exists>n m c. rs_body out = take n (body_chunks (up_events resp))
        \<and> ((\<forall>k. takes k) \<longrightarrow> n = length (body_chunks (up_events resp)))
        \<and> as_ledger st' = try_record (as_ledger st) (usage_event_of r clk (charge_estimate r c))
        \<and> co_status c = up_status resp
        \<and> (let acc = foldl (\<lambda>acc l. inspect sd l fmt acc) usage_default (split_char newline (concat (take m (body_chunks (up_events resp)))))
           in co_input_tokens c = ua_input_tokens acc \<and> co_output_tokens c = ua_output_tokens acc \<and> co_estimated c = (\<not> ua_seen_usage acc))
        \<and> (n = m \<or> co_client_aborted c \<and> m = n + 1))"
proof -
  let ?ch = "body_chunks (up_events resp)"
  obtain sent tap acc e where p: "pump_stream sd fmt takes (up_events resp) (tap_default, usage_default) [] = (sent, (tap, acc), e)"
    by (metis surj_pair)
  have out: "out = build_response (up_status resp) (up_headers resp) sent"
    and st': "st' = complete clk (completion_of (up_status resp) (tap_finish sd fmt (tap, acc)) e) st r"
    using assms(1,3) p by (auto simp: forward_plain_response_def Let_def)
  obtain n m where nm: "sent = take n ?ch" "(tap, acc) = foldl (tap_feed sd fmt) (tap_default, usage_default) (take m ?ch)"
      "n \<le> m" "if re_client_aborted e then m = n + 1 \<and> n < length ?ch else n = length ?ch"
      "re_client_aborted e \<longrightarrow> (\<exists>k. \<not> takes k)"
    using pump_stream_relays [OF p] by auto
  have take_m: "take (if re_client_aborted e then n + 1 else n) ?ch = take m ?ch" using nm(3,4) by (auto split: if_splits)
  have tap: "tap_finish sd fmt (tap, acc)
      = foldl (\<lambda>acc l. inspect sd l fmt acc) usage_default (split_char newline (concat (take m ?ch)))"
    by (simp only: nm(2) tap_frames newline_def)
  show ?thesis
    using nm(1,4,5) take_m
    by (intro conjI exI [of _ n] exI [of _ "if re_client_aborted e then n + 1 else n"]
          exI [of _ "completion_of (up_status resp) (tap_finish sd fmt (tap, acc)) e"])
      (auto simp: out st' build_response_def complete_ledger [OF assms(2)] completion_of_def Let_def tap split: if_splits)
qed

definition demo_clocks :: clocks where
  "demo_clocks = \<lparr>clk_now_secs = 0, clk_total_ms = 0, clk_now_millis = 0\<rparr>"

definition demo_reporter :: completion_reporter where
  "demo_reporter = reporter_new (demo_context\<lparr>pc_stream := True\<rparr>) 1 ''b1'' 1 2 None None \<lparr>bl_backend_id = 1\<rparr>"

definition demo_upstream :: upstream_response where
  "demo_upstream = \<lparr>up_status = 200, up_headers = [(''content-type'', ''text/event-stream''), (''content-length'', ''3'')],
     up_content_length = None, up_events = [BodyChunk ''ab'', BodyChunk ''c'']\<rparr>"

lemmas demo_response_defs = demo_reporter_def demo_upstream_def demo_http_def reporter_new_def demo_context_def

theorem stream_relayed_faithfully_witness:
  "\<exists>sd. let out = snd (forward_plain_response sd demo_clocks (\<lambda>_. True) demo_upstream FmtOpenAi demo_app demo_reporter)
    in rs_headers out = [(''content-type'', ''text/event-stream'')] \<and> rs_body out = [''ab'', ''c'']"
proof -
  let ?sd = "\<lparr>from_slice = (\<lambda>_. Inl []), to_string = (\<lambda>_. [])\<rparr>"
  let ?f = "forward_plain_response ?sd demo_clocks (\<lambda>_. True) demo_upstream FmtOpenAi demo_app demo_reporter"
  obtain st' out where f: "?f = (st', out)" by (cases ?f)
  have "cr_stream demo_reporter" "\<not> cr_finished demo_reporter" by (simp_all add: demo_response_defs)
  from stream_relayed_faithfully [OF this f] show ?thesis
    using f by (intro exI [of _ ?sd]) (auto simp: demo_upstream_def)
qed

section \<open>A bridged stream, from the backend's frames to the client\<close>

lemma concat_bridge_send [simp]: "concat (bridge_send sd evs sent) = concat sent @ render sd evs"
  by (simp add: bridge_send_def)

lemma render_append [simp]: "render sd (a @ b) = render sd a @ render sd b"
  by (simp add: render_def)

lemma end_stream_finished: "tr_finished t \<Longrightarrow> end_stream sd failure t = (t, [])"
  by (simp add: end_stream_def translator_finish_def translator_abort_def split: option.split)

lemma feed_all_prefix: "feed_all sd cs (t, o1 @ out) = (case feed_all sd cs (t, out) of (t', out') \<Rightarrow> (t', o1 @ out'))"
proof (induction cs arbitrary: t out)
  case (Cons c cs)
  obtain t' o2 where "translator_feed sd c t = (t', o2)" by force
  then show ?case using Cons.IH [of t' "out @ o2"] by (simp add: feed_all_def)
qed (simp add: feed_all_def)

lemma feed_all_Cons:
  "translator_feed sd c t = (t', o1) \<Longrightarrow> feed_all sd (c # cs) (t, []) = (case feed_all sd cs (t', []) of (t2, out) \<Rightarrow> (t2, o1 @ out))"
  using feed_all_prefix [of sd cs t' o1 "[]"] by (simp add: feed_all_def)

definition continued :: "serde \<Rightarrow> bytes list \<Rightarrow> (u16 \<times> string) option \<Rightarrow> sse_translator \<Rightarrow> sse_translator \<times> event list" where
  "continued sd cs failure t =
     (case feed_all sd cs (t, []) of (t1, out) \<Rightarrow> (case end_stream sd failure t1 of (t2, o1) \<Rightarrow> (t2, out @ o1)))"

lemma continued_Cons:
  "translator_feed sd c t = (t', o1) \<Longrightarrow>
   continued sd (c # cs) failure t = (fst (continued sd cs failure t'), o1 @ snd (continued sd cs failure t'))"
  by (simp add: continued_def feed_all_Cons split: prod.split)

lemma continued_Nil: "continued sd [] failure t = end_stream sd failure t"
  by (simp add: continued_def feed_all_def split: prod.split)

lemma abort_recorded: "\<not> tr_finished t \<Longrightarrow> tr_error (fst (translator_abort sd status msg t)) \<noteq> None"
  by (simp add: translator_abort_def split: prod.split)

lemma pump_bridge_translates:
  assumes "pump_bridge sd takes evs ta t sent = (sent', ta', t', e)" and "\<forall>k. takes k" and "\<not> tr_finished t"
  shows "\<exists>n failure. t' = fst (continued sd (take n (body_chunks evs)) failure t)
    \<and> concat sent' = concat sent @ render sd (snd (continued sd (take n (body_chunks evs)) failure t))
    \<and> ta' = foldl (tap_feed sd FmtOpenAi) ta (take n (body_chunks evs))
    \<and> \<not> re_client_aborted e \<and> (re_error_class e \<noteq> None \<longrightarrow> tr_error t' \<noteq> None)"
  using assms
proof (induction sd takes evs ta t sent rule: pump_bridge.induct)
  case (1 sd takes ta t sent)
  then show ?case
    by (intro exI [of _ 0] exI [of _ None]) (auto simp: continued_Nil end_stream_def relay_done_def split: prod.splits)
next
  case (2 sd takes b rest ta t sent)
  obtain t1 o1 where f: "translator_feed sd b t = (t1, o1)" by force
  show ?case
  proof (cases "tr_finished t1")
    case True
    then show ?thesis using 2 f
      by (intro exI [of _ 1] exI [of _ None]) (auto simp: continued_Cons continued_Nil end_stream_finished relay_done_def Let_def)
  next
    case False
    have "pump_bridge sd takes rest (tap_feed sd FmtOpenAi ta b) t1 (bridge_send sd o1 sent) = (sent', ta', t', e)"
      using 2(2) 2(3) [rule_format, of "length sent"] f False by (simp add: Let_def)
    note ih = 2(1) [OF refl f [symmetric] _ False this 2(3) False]
    obtain n failure where "t' = fst (continued sd (take n (body_chunks rest)) failure t1)"
        "concat sent' = (concat sent @ render sd o1) @ render sd (snd (continued sd (take n (body_chunks rest)) failure t1))"
        "ta' = foldl (tap_feed sd FmtOpenAi) (tap_feed sd FmtOpenAi ta b) (take n (body_chunks rest))"
        "\<not> re_client_aborted e \<and> (re_error_class e \<noteq> None \<longrightarrow> tr_error t' \<noteq> None)"
      using ih 2(3) by auto
    then show ?thesis using f by (intro exI [of _ "Suc n"] exI [of _ failure]) (simp add: continued_Cons)
  qed
next
  case (3 sd takes err rest ta t sent)
  then show ?case using abort_recorded [of t sd 502 "''upstream stream failed: '' @ err"]
    by (intro exI [of _ 0] exI [of _ "Some (502, ''upstream stream failed: '' @ err)"])
      (auto simp: continued_Nil end_stream_def relay_error_def split: prod.splits)
next
  case (4 sd takes rest ta t sent)
  then show ?case using abort_recorded [of t sd 504 "''upstream stream idle timeout''"]
    by (intro exI [of _ 0] exI [of _ "Some (504, ''upstream stream idle timeout'')"])
      (auto simp: continued_Nil end_stream_def relay_error_def split: prod.splits)
qed

lemma continued_new: "continued sd cs failure (translator_new ctx) = translate_stream sd ctx cs failure"
  by (simp add: continued_def translate_stream_def)

lemma bridged_relay:
  assumes "pump_bridge sd takes evs (tap_default, usage_default) (translator_new ctx) [] = (sent, ta, t, e)" and "\<forall>k. takes k"
  shows "\<exists>events. concat sent = render sd events \<and> advances Fresh events = Some (if tr_error t = None then Complete else Broken)
    \<and> (re_error_class e \<noteq> None \<longrightarrow> tr_error t \<noteq> None)"
  using pump_bridge_translates [OF assms] translate_stream_grammar [of sd ctx] continued_new [of sd]
  by (force simp: translator_new_def)

definition envelope_outcome :: "serde \<Rightarrow> upstream_response \<Rightarrow> completion \<Rightarrow> http_response \<Rightarrow> bool" where
  "envelope_outcome sd resp c out \<longleftrightarrow> rs_status out \<ge> 400 \<and> co_error_class c \<noteq> None
     \<and> ((\<exists>body msg. rs_body out = [translate_upstream_error sd (up_status resp) body msg]) \<or> (\<exists>msg. rs_body out = [anthropic_error_body sd 502 msg]))"

definition stream_outcome :: "serde \<Rightarrow> upstream_response \<Rightarrow> completion \<Rightarrow> http_response \<Rightarrow> bool" where
  "stream_outcome sd resp c out \<longleftrightarrow> rs_status out = up_status resp
     \<and> (\<exists>events. concat (rs_body out) = render sd events
          \<and> advances Fresh events = Some (if co_error_class c = None then Complete else Broken))"

lemma upstream_envelope_outcome:
  assumes "up_status resp \<ge> 400"
  shows "envelope_outcome sd resp (completion_of (up_status resp) acc (relay_error msg))
    (bridge_json_response hc (up_status resp) (translate_upstream_error sd (up_status resp) body fallback) rid)"
  using assms unfolding envelope_outcome_def bridge_json_response_def completion_of_def relay_error_def by simp blast

lemma bridged_document_outcome:
  assumes "forward_bridged_body sd hc clk resp bridge st r = (st', out)" and "cr_stream r"
  shows "\<exists>c. st' = complete clk c st r \<and> rs_status out = co_status c \<and> (envelope_outcome sd resp c out \<or> stream_outcome sd resp c out)"
proof (cases "read_body_limited (up_content_length resp) (items_of resp) NONSTREAM_RESPONSE_LIMIT")
  case (Inl err)
  then show ?thesis using assms
    by (intro exI [of _ "completion_of 502 usage_default (relay_error (bridge_error_message err))"])
      (auto simp: forward_bridged_body_def bridge_json_response_def envelope_outcome_def completion_of_def relay_error_def)
next
  case (Inr body)
  let ?acc = "parse_usage_from_body sd body FmtOpenAi"
  show ?thesis
  proof (cases "build_message sd body bridge")
    case (Inl err)
    then show ?thesis using assms Inr
      by (intro exI [of _ "completion_of 502 ?acc (relay_error (bridge_error_message err))"])
        (auto simp: forward_bridged_body_def Let_def bridge_json_response_def envelope_outcome_def completion_of_def relay_error_def)
  next
    case (Inr message)
    then show ?thesis using assms \<open>read_body_limited _ _ _ = Inr body\<close> message_events_grammar [of sd message bridge]
      by (intro exI [of _ "completion_of (up_status resp) ?acc relay_done"])
        (auto simp: forward_bridged_body_def Let_def bridge_sse_response_def stream_outcome_def completion_of_def relay_done_def
          message_to_sse_def)
  qed
qed

lemma bridged_stream_outcome:
  assumes "pump_bridge sd takes (up_events resp) (tap_default, usage_default) (translator_new bridge) [] = (sent, ta, t, e)"
    and "\<forall>k. takes k"
    and "e' = (case tr_error t of None \<Rightarrow> e | Some err \<Rightarrow> e\<lparr>re_error_class := Some (bridge_error_message err)\<rparr>)"
  shows "stream_outcome sd resp (completion_of (up_status resp) acc e') (bridge_sse_response hc (up_status resp) sent rid)"
  using bridged_relay [OF assms(1,2)] assms(3)
  by (auto simp: stream_outcome_def bridge_sse_response_def completion_of_def split: option.splits)

text \<open>
  C7. What a client that asked for a bridged stream gets: an error envelope (the backend failed, or its document could not
  be read or translated), or a rendered sequence of Anthropic events that follows the protocol to its end, complete exactly when
  no error is recorded for the request and closed by one error event otherwise. That holds for an event stream and for a JSON
  document sent in its place; a client that stays to the end is assumed.
\<close>

theorem bridged_client_sees_protocol:
  assumes "cr_stream r" and "\<not> cr_finished r" and "\<forall>k. takes k"
    and "forward_bridge_response sd hc clk takes resp bridge st r = (st', out)"
  shows "\<exists>c. as_ledger st' = try_record (as_ledger st) (usage_event_of r clk (charge_estimate r c)) \<and> rs_status out = co_status c
    \<and> (envelope_outcome sd resp c out \<or> stream_outcome sd resp c out)"
proof -
  let ?json = "str_contains (content_type_of hc resp) ''application/json'' \<or> str_contains (content_type_of hc resp) ''+json''"
  have "\<exists>c. st' = complete clk c st r \<and> rs_status out = co_status c \<and> (envelope_outcome sd resp c out \<or> stream_outcome sd resp c out)"
  proof (cases "up_status resp \<ge> 400")
    case True
    let ?msg = "''upstream returned HTTP '' @ dec (unat (up_status resp))"
    have "st' = complete clk (completion_of (up_status resp) usage_default (relay_error ?msg)) st r"
        "\<exists>body. out = bridge_json_response hc (up_status resp) (translate_upstream_error sd (up_status resp) body ?msg) (bc_request_id bridge)"
      using True assms(4) unfolding forward_bridge_response_def Let_def by (auto simp only: if_True prod.inject)
    then show ?thesis using upstream_envelope_outcome [OF True]
      by (intro exI [of _ "completion_of (up_status resp) usage_default (relay_error ?msg)"])
        (auto simp: bridge_json_response_def completion_of_def)
  next
    case ok: False
    show ?thesis
    proof (cases ?json)
      case True
      then show ?thesis using assms(1,4) ok bridged_document_outcome by (auto simp: forward_bridge_response_def Let_def)
    next
      case False
      obtain sent tap acc t e where p:
          "pump_bridge sd takes (up_events resp) (tap_default, usage_default) (translator_new bridge) [] = (sent, (tap, acc), t, e)"
        by (metis surj_pair)
      let ?e = "case tr_error t of None \<Rightarrow> e | Some err \<Rightarrow> e\<lparr>re_error_class := Some (bridge_error_message err)\<rparr>"
      let ?c = "completion_of (up_status resp) (tap_finish sd FmtOpenAi (tap, acc)) ?e"
      have "st' = complete clk ?c st r" "out = bridge_sse_response hc (up_status resp) sent (bc_request_id bridge)"
        using assms(1,4) ok False p by (auto simp: forward_bridge_response_def Let_def)
      then show ?thesis using bridged_stream_outcome [OF p assms(3) refl]
        by (intro exI [of _ ?c]) (simp add: bridge_sse_response_def completion_of_def)
    qed
  qed
  then show ?thesis using complete_ledger [OF assms(2)] by blast
qed

theorem bridged_client_sees_protocol_witness:
  "\<exists>sd c. let out = snd (forward_bridge_response sd demo_http demo_clocks (\<lambda>_. True) demo_upstream
          \<lparr>bc_public_model = ''m'', bc_request_id = ''r'', bc_estimated_input_tokens = 3\<rparr> demo_app demo_reporter)
    in envelope_outcome sd demo_upstream c out \<or> stream_outcome sd demo_upstream c out"
proof -
  let ?sd = "\<lparr>from_slice = (\<lambda>_. Inl []), to_string = (\<lambda>_. [])\<rparr>"
  let ?f = "forward_bridge_response ?sd demo_http demo_clocks (\<lambda>_. True) demo_upstream
      \<lparr>bc_public_model = ''m'', bc_request_id = ''r'', bc_estimated_input_tokens = 3\<rparr> demo_app demo_reporter"
  obtain st' out where f: "?f = (st', out)" by (cases ?f)
  have "cr_stream demo_reporter" "\<not> cr_finished demo_reporter" "\<forall>k::nat. (\<lambda>_. True) k" by (simp_all add: demo_response_defs)
  from bridged_client_sees_protocol [OF this f] show ?thesis
    using f by (intro exI [of _ ?sd]) auto
qed

end
