(* ===== verification/Bridge_Request.thy ===== *)
theory Bridge_Request
  imports Bridge_Response
begin

text \<open>
  The translation of an Anthropic Messages request into an OpenAI chat completion request, \<open>src/bridge/request.rs\<close>: the
  conversion of every kind of block, the collection of system texts and the errors for what cannot be represented.
\<close>

section \<open>Blocks\<close>

definition invalid :: "string \<Rightarrow> 'a option \<Rightarrow> bridge_error + 'a" where
  "invalid message x = ok_or (InvalidRequest message) x"

definition quoted :: "string \<Rightarrow> string" where
  "quoted s = [CHR 0x27] @ s @ [CHR 0x27]"

abbreviation block_sep :: string where
  "block_sep \<equiv> [newline, newline]"

definition expect_block_type :: "json_map \<Rightarrow> string \<Rightarrow> bridge_error + unit" where
  "expect_block_type m role =
     (if get_str m ''type'' = None then Inl (InvalidRequest (role @ '' content block type is missing'')) else Inr ())"

definition text_part :: "string \<Rightarrow> json" where
  "text_part text = jobj [(''type'', JString ''text''), (''text'', JString text)]"

definition image_url :: "json_map \<Rightarrow> string \<Rightarrow> bridge_error + string" where
  "image_url source kind =
     (if kind = ''base64'' then
        try_res (invalid ''base64 image media_type is missing'' (get_nonempty_str source ''media_type'')) (\<lambda>media_type.
        try_res (invalid ''base64 image data is missing'' (get_str source ''data'')) (\<lambda>data.
        Inr (''data:'' @ media_type @ '';base64,'' @ data)))
      else if kind = ''url'' then invalid ''image url is missing'' (get_nonempty_str source ''url'')
      else Inl (Unsupported (''image source type '' @ quoted kind @ '' is not supported'')))"

definition convert_image :: "json_map \<Rightarrow> bridge_error + json" where
  "convert_image m =
     try_res (invalid ''image source is missing'' (Option.bind (map_of m ''source'') as_object)) (\<lambda>source.
     try_res (invalid ''image source type is missing'' (get_str source ''type'')) (\<lambda>kind.
     try_res (image_url source kind) (\<lambda>url.
     Inr (jobj [(''type'', JString ''image_url''), (''image_url'', jobj [(''url'', JString url)])]))))"

text \<open>A single part that has a text is sent as that text.\<close>

definition single_text :: "json list \<Rightarrow> string option" where
  "single_text parts = (case parts of [part] \<Rightarrow> jget_str part ''text'' | _ \<Rightarrow> None)"

definition tool_result_part :: "json \<Rightarrow> bridge_error + json" where
  "tool_result_part block =
     try_res (invalid ''tool_result block must be an object'' (as_object block)) (\<lambda>m.
     try_res (invalid ''tool_result block type is missing'' (get_str m ''type'')) (\<lambda>kind.
     if kind = ''text'' then try_res (invalid ''tool_result text block is missing text'' (get_str m ''text'')) (\<lambda>text. Inr (text_part text))
     else if kind = ''image'' then convert_image m
     else Inl (Unsupported (''tool_result block type '' @ quoted kind @ '' is not supported''))))"

definition convert_tool_result_content :: "json \<Rightarrow> bool \<Rightarrow> bridge_error + json" where
  "convert_tool_result_content content is_error =
     (case as_str content of
        Some text \<Rightarrow> Inr (JString (if is_error then ''Error: '' @ text else text))
      | None \<Rightarrow>
          try_res (invalid ''tool_result content must be a string or an array'' (as_array content)) (\<lambda>blocks.
          try_res (fold_res (\<lambda>parts block. try_res (tool_result_part block) (\<lambda>p. Inr (parts @ [p])))
                     (if is_error then [text_part ''Error:''] else []) blocks) (\<lambda>parts.
          Inr (case single_text parts of Some text \<Rightarrow> JString text | None \<Rightarrow> JArray parts))))"

definition convert_tool_result :: "json_map \<Rightarrow> bridge_error + json" where
  "convert_tool_result m =
     try_res (invalid ''tool_result tool_use_id is missing'' (get_nonempty_str m ''tool_use_id'')) (\<lambda>tool_use_id.
     let is_error = unwrap_or False (Option.bind (map_of m ''is_error'') as_bool) in
     try_res (invalid ''tool_result content is missing'' (map_of m ''content'')) (\<lambda>content0.
     try_res (convert_tool_result_content content0 is_error) (\<lambda>content.
     Inr (jobj [(''role'', JString ''tool''), (''tool_call_id'', JString tool_use_id), (''content'', content)]))))"

section \<open>Messages\<close>

text \<open>The loop over the blocks of a user message collects tool messages and parts.\<close>

definition user_block :: "json list \<times> json list \<Rightarrow> json \<Rightarrow> bridge_error + (json list \<times> json list)" where
  "user_block = (\<lambda>(tool_messages, parts) block.
     try_res (invalid ''content block must be an object'' (as_object block)) (\<lambda>m.
     try_res (expect_block_type m ''user'') (\<lambda>_.
     try_res (invalid ''content block type is missing'' (get_str m ''type'')) (\<lambda>kind.
     if kind = ''text'' then
       try_res (invalid ''text block is missing text'' (get_str m ''text'')) (\<lambda>text. Inr (tool_messages, parts @ [text_part text]))
     else if kind = ''image'' then try_res (convert_image m) (\<lambda>p. Inr (tool_messages, parts @ [p]))
     else if kind = ''tool_result'' then try_res (convert_tool_result m) (\<lambda>t. Inr (tool_messages @ [t], parts))
     else if kind = ''thinking'' \<or> kind = ''redacted_thinking'' then Inr (tool_messages, parts)
     else Inl (Unsupported (''user content block type '' @ quoted kind @ '' is not supported''))))))"

definition role_message :: "string \<Rightarrow> json \<Rightarrow> json" where
  "role_message role content = jobj [(''role'', JString role), (''content'', content)]"

definition convert_user_message :: "json \<Rightarrow> json list \<Rightarrow> bridge_error + json list" where
  "convert_user_message content out =
     (case as_str content of
        Some text \<Rightarrow> Inr (out @ [role_message ''user'' (JString text)])
      | None \<Rightarrow>
          try_res (invalid ''user content must be a string or an array'' (as_array content)) (\<lambda>blocks.
          try_res (fold_res user_block ([], []) blocks) (\<lambda>(tool_messages, parts).
          Inr (out @ tool_messages @
            (if parts = [] then []
             else case single_text parts of
                 Some text \<Rightarrow> [role_message ''user'' (JString text)]
               | None \<Rightarrow> [role_message ''user'' (JArray parts)])))))"

definition tool_call_json :: "string \<Rightarrow> string \<Rightarrow> string \<Rightarrow> json" where
  "tool_call_json i name arguments =
     jobj [(''id'', JString i), (''type'', JString ''function''),
       (''function'', jobj [(''name'', JString name), (''arguments'', JString arguments)])]"

definition tool_use_call :: "serde \<Rightarrow> json_map \<Rightarrow> bridge_error + json" where
  "tool_use_call sd m =
     try_res (invalid ''tool_use id is missing'' (get_nonempty_str m ''id'')) (\<lambda>i.
     try_res (invalid ''tool_use name is missing'' (get_nonempty_str m ''name'')) (\<lambda>name.
     try_res (invalid ''tool_use input must be an object'' (Option.bind (map_of m ''input'') as_object)) (\<lambda>input.
     Inr (tool_call_json i name (to_string sd (JObject input))))))"

definition assistant_block :: "serde \<Rightarrow> string list \<times> json list \<Rightarrow> json \<Rightarrow> bridge_error + (string list \<times> json list)" where
  "assistant_block sd = (\<lambda>(text_parts, tool_calls) block.
     try_res (invalid ''content block must be an object'' (as_object block)) (\<lambda>m.
     try_res (expect_block_type m ''assistant'') (\<lambda>_.
     try_res (invalid ''content block type is missing'' (get_str m ''type'')) (\<lambda>kind.
     if kind = ''text'' then
       try_res (invalid ''text block is missing text'' (get_str m ''text'')) (\<lambda>text. Inr (text_parts @ [text], tool_calls))
     else if kind = ''tool_use'' then try_res (tool_use_call sd m) (\<lambda>c. Inr (text_parts, tool_calls @ [c]))
     else if kind = ''thinking'' \<or> kind = ''redacted_thinking'' then Inr (text_parts, tool_calls)
     else Inl (Unsupported (''assistant content block type '' @ quoted kind @ '' is not supported''))))))"

definition convert_assistant_message :: "serde \<Rightarrow> json \<Rightarrow> json list \<Rightarrow> bridge_error + json list" where
  "convert_assistant_message sd content out =
     (case as_str content of
        Some text \<Rightarrow> Inr (if text \<noteq> [] then out @ [role_message ''assistant'' (JString text)] else out)
      | None \<Rightarrow>
          try_res (invalid ''assistant content must be a string or an array'' (as_array content)) (\<lambda>blocks.
          try_res (fold_res (assistant_block sd) ([], []) blocks) (\<lambda>(text_parts, tool_calls).
          if text_parts = [] \<and> tool_calls = [] then Inr out
          else
            (let text = (if text_parts = [] then JNull else JString (join block_sep text_parts)) in
             Inr (out @ [jobj ([(''role'', JString ''assistant''), (''content'', text)]
               @ (if tool_calls \<noteq> [] then [(''tool_calls'', JArray tool_calls)] else []))])))))"

definition convert_message :: "serde \<Rightarrow> json \<Rightarrow> json list \<Rightarrow> bridge_error + json list" where
  "convert_message sd message out =
     try_res (invalid ''message must be an object'' (as_object message)) (\<lambda>m.
     try_res (invalid ''message role is missing'' (get_str m ''role'')) (\<lambda>role.
     try_res (invalid ''message content is missing'' (map_of m ''content'')) (\<lambda>content.
     if role = ''user'' then convert_user_message content out
     else if role = ''assistant'' then convert_assistant_message sd content out
     else if role = ''system'' then Inl (InvalidRequest ''system-role message must be handled before conversion'')
     else Inl (InvalidRequest (''unsupported message role '' @ quoted role)))))"

section \<open>System texts\<close>

definition system_block :: "string list \<Rightarrow> json \<Rightarrow> bridge_error + string list" where
  "system_block parts block =
     try_res (invalid ''system block must be an object'' (as_object block)) (\<lambda>m.
     try_res (expect_block_type m ''system'') (\<lambda>_.
     try_res (invalid ''system block type is missing'' (get_str m ''type'')) (\<lambda>kind.
     if kind \<noteq> ''text'' then Inl (Unsupported (''system block type '' @ quoted kind @ '' is not supported''))
     else try_res (invalid ''system text block is missing text'' (get_str m ''text'')) (\<lambda>text. Inr (parts @ [text])))))"

definition parse_system :: "json option \<Rightarrow> bridge_error + string option" where
  "parse_system system0 =
     (case filter_opt (\<lambda>v. \<not> is_null v) system0 of
        None \<Rightarrow> Inr None
      | Some system \<Rightarrow>
          (case as_str system of
             Some text \<Rightarrow> Inr (Some text)
           | None \<Rightarrow>
               try_res (invalid ''system must be a string or an array of text blocks'' (as_array system)) (\<lambda>blocks.
               try_res (fold_res system_block [] blocks) (\<lambda>parts. Inr (Some (join block_sep parts))))))"

definition system_content_block :: "string list \<Rightarrow> json \<Rightarrow> bridge_error + string list" where
  "system_content_block parts block =
     try_res (invalid ''system content block must be an object'' (as_object block)) (\<lambda>m.
     try_res (invalid ''system content block type is missing'' (get_str m ''type'')) (\<lambda>kind.
     if kind \<noteq> ''text'' then Inl (Unsupported (''system-role content block type '' @ quoted kind @ '' is not supported''))
     else try_res (invalid ''system text block is missing text'' (get_str m ''text'')) (\<lambda>text. Inr (parts @ [text]))))"

definition system_message_text :: "json \<Rightarrow> bridge_error + string option" where
  "system_message_text content =
     try_res (case as_str content of
                Some text \<Rightarrow> Inr text
              | None \<Rightarrow>
                  try_res (invalid ''system content must be a string or an array'' (as_array content)) (\<lambda>blocks.
                  try_res (fold_res system_content_block [] blocks) (\<lambda>parts. Inr (join block_sep parts))))
       (\<lambda>text. Inr (if trim text = [] then None else Some text))"

section \<open>Tools\<close>

definition convert_tool :: "json \<Rightarrow> bridge_error + json" where
  "convert_tool tool =
     try_res (invalid ''tool must be an object'' (as_object tool)) (\<lambda>m.
     try_res (invalid ''tool name is missing'' (get_nonempty_str m ''name'')) (\<lambda>name.
     try_res (invalid ''tool input_schema must be an object'' (Option.bind (map_of m ''input_schema'') as_object)) (\<lambda>schema.
     Inr (jobj [(''type'', JString ''function''), (''function'', jobj ([(''name'', JString name)]
       @ (case get_str m ''description'' of None \<Rightarrow> [] | Some description \<Rightarrow> [(''description'', JString description)])
       @ [(''parameters'', JObject schema)]))]))))"

definition convert_tools :: "json \<Rightarrow> bridge_error + json" where
  "convert_tools tools =
     try_res (invalid ''tools must be an array'' (as_array tools)) (\<lambda>ts.
     try_res (fold_res (\<lambda>out tool. try_res (convert_tool tool) (\<lambda>t. Inr (out @ [t]))) [] ts) (\<lambda>out. Inr (JArray out)))"

definition convert_tool_choice :: "json \<Rightarrow> bridge_error + (json \<times> bool option)" where
  "convert_tool_choice tool_choice =
     try_res (invalid ''tool_choice must be an object'' (as_object tool_choice)) (\<lambda>m.
     try_res (invalid ''tool_choice type is missing'' (get_str m ''type'')) (\<lambda>kind.
     let parallel = map_option (\<lambda>_. False)
           (filter_opt (\<lambda>disabled. disabled) (Option.bind (map_of m ''disable_parallel_tool_use'') as_bool)) in
     try_res
       (if kind = ''auto'' then Inr (JString ''auto'')
        else if kind = ''any'' then Inr (JString ''required'')
        else if kind = ''none'' then Inr (JString ''none'')
        else if kind = ''tool'' then
          try_res (invalid ''tool_choice name is missing'' (get_nonempty_str m ''name'')) (\<lambda>name.
          Inr (jobj [(''type'', JString ''function''), (''function'', jobj [(''name'', JString name)])]))
        else Inl (Unsupported (''tool_choice type '' @ quoted kind @ '' is not supported'')))
       (\<lambda>choice. Inr (choice, parallel))))"

definition copy_number :: "json_map \<Rightarrow> string \<Rightarrow> json_map \<Rightarrow> json_map" where
  "copy_number source key out =
     (case Option.bind (map_of source key) as_f64 of None \<Rightarrow> out | Some v \<Rightarrow> bt_insert key (JNumber (FloatNum v)) out)"

section \<open>The request\<close>

text \<open>The loop over the messages: the system texts and the converted messages.\<close>

definition request_message :: "serde \<Rightarrow> string list \<times> json list \<Rightarrow> json \<Rightarrow> bridge_error + (string list \<times> json list)" where
  "request_message sd = (\<lambda>(system_parts, out) message.
     if unwrap_or [] (jget_str message ''role'') = ''system'' then
       try_res (invalid ''message content is missing'' (jget message ''content'')) (\<lambda>content.
       try_res (system_message_text content) (\<lambda>text.
       Inr (case filter_opt (\<lambda>t. trim t \<noteq> []) text of None \<Rightarrow> system_parts | Some t \<Rightarrow> system_parts @ [t], out)))
     else try_res (convert_message sd message out) (\<lambda>out'. Inr (system_parts, out')))"

definition request_base :: "string \<Rightarrow> u64 \<Rightarrow> bool \<Rightarrow> json_map" where
  "request_base public_model max_tokens stream =
     (let m = map_of_pairs [(''model'', JString public_model), (''max_tokens'', jnum max_tokens), (''stream'', JBool stream)] in
      if stream then bt_insert ''stream_options'' (jobj [(''include_usage'', JBool True)]) m else m)"

definition request_tool_list :: "json_map \<Rightarrow> json_map \<Rightarrow> bridge_error + json_map" where
  "request_tool_list m out =
     (case filter_opt (\<lambda>v. \<not> is_null v) (map_of m ''tools'') of
        None \<Rightarrow> Inr out
      | Some tools \<Rightarrow> try_res (convert_tools tools) (\<lambda>t. Inr (bt_insert ''tools'' t out)))"

definition request_tool_choice :: "json_map \<Rightarrow> json_map \<Rightarrow> bridge_error + json_map" where
  "request_tool_choice m out =
     (case filter_opt (\<lambda>v. \<not> is_null v) (map_of m ''tool_choice'') of
        None \<Rightarrow> Inr out
      | Some tool_choice \<Rightarrow>
          try_res (convert_tool_choice tool_choice) (\<lambda>(choice, parallel).
          let out1 = bt_insert ''tool_choice'' choice out in
          Inr (case parallel of None \<Rightarrow> out1 | Some p \<Rightarrow> bt_insert ''parallel_tool_calls'' (JBool p) out1)))"

definition request_tools :: "json_map \<Rightarrow> json_map \<Rightarrow> bridge_error + json_map" where
  "request_tools m out = try_res (request_tool_list m out) (request_tool_choice m)"

definition copy_stop :: "json_map \<Rightarrow> json_map \<Rightarrow> json_map" where
  "copy_stop m out =
     (case Option.bind (map_of m ''stop_sequences'') as_array of
        None \<Rightarrow> out
      | Some stop \<Rightarrow>
          (let stops = map JString (List.map_filter as_str stop) in
           if stops \<noteq> [] then bt_insert ''stop'' (JArray stops) out else out))"

definition copy_user :: "json_map \<Rightarrow> json_map \<Rightarrow> json_map" where
  "copy_user m out =
     (case Option.bind (Option.bind (map_of m ''metadata'') as_object) (\<lambda>metadata. get_nonempty_str metadata ''user_id'') of
        None \<Rightarrow> out
      | Some user \<Rightarrow> bt_insert ''user'' (JString user) out)"

definition request_options :: "json_map \<Rightarrow> json_map \<Rightarrow> json_map" where
  "request_options m out = copy_user m (copy_stop m (copy_number m ''top_p'' (copy_number m ''temperature'' out)))"

definition with_system :: "string list \<Rightarrow> json list \<Rightarrow> json list" where
  "with_system system_parts messages =
     (if system_parts \<noteq> [] then role_message ''system'' (JString (join block_sep system_parts)) # messages else messages)"

definition translate_request :: "serde \<Rightarrow> json_map \<Rightarrow> string \<Rightarrow> bridge_error + json_map" where
  "translate_request sd m public_model =
     try_res (invalid ''messages must be an array'' (Option.bind (map_of m ''messages'') as_array)) (\<lambda>messages.
     if messages = [] then Inl (InvalidRequest ''messages must contain at least one message'') else
     try_res (invalid ''max_tokens must be a positive integer''
                (filter_opt (\<lambda>v. v > 0) (Option.bind (map_of m ''max_tokens'') as_u64))) (\<lambda>max_tokens.
     let out0 = request_base public_model max_tokens (unwrap_or False (Option.bind (map_of m ''stream'') as_bool)) in
     try_res (parse_system (map_of m ''system'')) (\<lambda>system.
     let parts0 = (case filter_opt (\<lambda>s. trim s \<noteq> []) system of None \<Rightarrow> [] | Some s \<Rightarrow> [s]) in
     try_res (fold_res (request_message sd) (parts0, []) messages) (\<lambda>(system_parts, openai_messages).
     if openai_messages = [] then Inl (InvalidRequest ''request contains no convertible messages'') else
     let out1 = bt_insert ''messages'' (JArray (with_system system_parts openai_messages)) out0 in
     try_res (request_tools m out1) (\<lambda>out2. Inr (request_options m out2))))))"

definition anthropic_to_openai :: "serde \<Rightarrow> bytes \<Rightarrow> string \<Rightarrow> bridge_error + bytes" where
  "anthropic_to_openai sd body public_model =
     (case from_slice sd body of
        Inl e \<Rightarrow> Inl (InvalidRequest (''invalid JSON: '' @ e))
      | Inr v \<Rightarrow>
          try_res (invalid ''request body must be a JSON object'' (as_object v)) (\<lambda>m.
          try_res (translate_request sd m public_model) (\<lambda>out. Inr (to_string sd (JObject out)))))"

section \<open>Errors\<close>

text \<open>Every failure is the client's: none of the conversions reports an upstream error.\<close>

definition client_error :: "bridge_error + 'a \<Rightarrow> bool" where
  "client_error r \<longleftrightarrow> (\<forall>e. r = Inl e \<longrightarrow> bridge_error_status e = 400)"

named_theorems client_intros

lemma client_Inr [client_intros]: "client_error (Inr x)" by (simp add: client_error_def)
lemma client_invalid [client_intros]: "client_error (invalid msg x)" by (cases x) (simp_all add: client_error_def invalid_def)
lemma client_Inl [client_intros]: "client_error (Inl (InvalidRequest msg))" "client_error (Inl (Unsupported msg))"
  by (simp_all add: client_error_def)
lemma client_try [client_intros]: "client_error r \<Longrightarrow> (\<And>x. client_error (f x)) \<Longrightarrow> client_error (try_res r f)"
  by (cases r) (auto simp: client_error_def)
lemma client_fold [client_intros]: "(\<And>s x. client_error (f s x)) \<Longrightarrow> client_error (fold_res f s xs)"
  by (induction xs arbitrary: s) (auto intro: client_intros)
lemma client_if [client_intros]: "client_error a \<Longrightarrow> client_error b \<Longrightarrow> client_error (if c then a else b)"
  by simp
lemma client_option [client_intros]:
  "client_error a \<Longrightarrow> (\<And>x. client_error (f x)) \<Longrightarrow> client_error (case x of None \<Rightarrow> a | Some x \<Rightarrow> f x)"
  by (cases x) simp_all
lemma client_prod [client_intros]: "(\<And>a b. client_error (f a b)) \<Longrightarrow> client_error (case p of (a, b) \<Rightarrow> f a b)"
  by (cases p) simp

lemma client_prod1 [client_intros]: "(\<And>a b. client_error (f a b x)) \<Longrightarrow> client_error ((case p of (a, b) \<Rightarrow> f a b) x)"
  by (cases p) simp

lemma client_blocks [client_intros]:
  "client_error (expect_block_type m role)" "client_error (convert_image m)" "client_error (tool_result_part block)"
  unfolding expect_block_type_def convert_image_def image_url_def tool_result_part_def by (intro client_intros)+

lemma client_tool_result [client_intros]: "client_error (convert_tool_result m)"
  unfolding convert_tool_result_def convert_tool_result_content_def Let_def by (intro client_intros)

lemma client_message [client_intros]: "client_error (convert_message sd message out)"
  unfolding convert_message_def convert_user_message_def convert_assistant_message_def user_block_def assistant_block_def
    tool_use_call_def Let_def
  by (intro client_intros)

lemma client_system [client_intros]: "client_error (parse_system x)" "client_error (system_message_text content)"
  unfolding parse_system_def system_message_text_def system_block_def system_content_block_def by (intro client_intros)+

lemma client_tools [client_intros]: "client_error (request_tools m out)"
  unfolding request_tools_def request_tool_list_def request_tool_choice_def convert_tools_def convert_tool_def convert_tool_choice_def Let_def by (intro client_intros)

lemma client_translate: "client_error (translate_request sd m public_model)"
  unfolding translate_request_def request_message_def Let_def by (intro client_intros)

section \<open>What a conversation says\<close>

text \<open>
  The conversation as a reader of either format sees it: who says what, the tool calls with their arguments, and the calls that
  are answered. Thinking blocks are left out, they have no place in the OpenAI format.
\<close>

datatype item =
    Said string "string option"
  | Shown "string option"
  | Called "string option" "string option" "string option"
  | Answered "string option"

definition array_of :: "json option \<Rightarrow> json list" where
  "array_of x = unwrap_or [] (Option.bind x as_array)"

definition kind_is :: "string \<Rightarrow> json \<Rightarrow> bool" where
  "kind_is k block \<longleftrightarrow> jget_str block ''type'' = Some k"

definition role_is :: "string \<Rightarrow> json \<Rightarrow> bool" where
  "role_is role message \<longleftrightarrow> jget_str message ''role'' = Some role"

text \<open>An Anthropic image source as a URL.\<close>

definition source_url :: "json \<Rightarrow> string option" where
  "source_url block =
     (case jget block ''source'' of
        None \<Rightarrow> None
      | Some source \<Rightarrow>
          if kind_is ''url'' source then jget_str source ''url''
          else Some (''data:'' @ unwrap_or [] (jget_str source ''media_type'') @ '';base64,'' @ unwrap_or [] (jget_str source ''data'')))"

definition anthropic_part :: "json \<Rightarrow> item list" where
  "anthropic_part block =
     (if kind_is ''text'' block then [Said ''user'' (jget_str block ''text'')]
      else if kind_is ''image'' block then [Shown (source_url block)] else [])"

definition anthropic_answer :: "json \<Rightarrow> item list" where
  "anthropic_answer block = (if kind_is ''tool_result'' block then [Answered (jget_str block ''tool_use_id'')] else [])"

definition anthropic_call :: "serde \<Rightarrow> json \<Rightarrow> item list" where
  "anthropic_call sd block =
     (if kind_is ''tool_use'' block
      then [Called (jget_str block ''id'') (jget_str block ''name'') (map_option (to_string sd) (jget block ''input''))] else [])"

definition anthropic_text :: "json \<Rightarrow> string list" where
  "anthropic_text block = (if kind_is ''text'' block then [unwrap_or [] (jget_str block ''text'')] else [])"

text \<open>In a user message the results come first; an assistant's texts are joined.\<close>

definition anthropic_items :: "serde \<Rightarrow> json \<Rightarrow> item list" where
  "anthropic_items sd message =
     (let content = jget message ''content''; blocks = array_of content; plain = Option.bind content as_str in
      if role_is ''user'' message then
        (case plain of
           Some text \<Rightarrow> [Said ''user'' (Some text)]
         | None \<Rightarrow> concat (map anthropic_answer blocks) @ concat (map anthropic_part blocks))
      else if role_is ''assistant'' message then
        (case plain of
           Some text \<Rightarrow> if text = [] then [] else [Said ''assistant'' (Some text)]
         | None \<Rightarrow>
             (let texts = concat (map anthropic_text blocks) in
              (if texts = [] then [] else [Said ''assistant'' (Some (join block_sep texts))]) @ concat (map (anthropic_call sd) blocks)))
      else [])"

definition openai_part :: "json \<Rightarrow> item list" where
  "openai_part part =
     (if kind_is ''text'' part then [Said ''user'' (jget_str part ''text'')]
      else if kind_is ''image_url'' part then [Shown (Option.bind (pointer part [''image_url'', ''url'']) as_str)] else [])"

definition openai_call :: "json \<Rightarrow> item" where
  "openai_call call =
     Called (jget_str call ''id'') (Option.bind (pointer call [''function'', ''name'']) as_str)
       (Option.bind (pointer call [''function'', ''arguments'']) as_str)"

definition openai_items :: "json \<Rightarrow> item list" where
  "openai_items message =
     (let content = jget message ''content''; plain = Option.bind content as_str in
      if role_is ''user'' message then
        (case plain of Some text \<Rightarrow> [Said ''user'' (Some text)] | None \<Rightarrow> concat (map openai_part (array_of content)))
      else if role_is ''assistant'' message then
        (case plain of Some text \<Rightarrow> [Said ''assistant'' (Some text)] | None \<Rightarrow> [])
          @ map openai_call (array_of (jget message ''tool_calls''))
      else if role_is ''tool'' message then [Answered (jget_str message ''tool_call_id'')]
      else [])"

lemmas view_defs = kind_is_def role_is_def jget_str_def get_str_def get_nonempty_str_def array_of_def

lemma invalid_Inr_iff: "invalid msg x = Inr y \<longleftrightarrow> x = Some y"
  by (simp add: invalid_def ok_or_Inr_iff)

lemmas request_iffs = try_res_Inr_iff invalid_Inr_iff

lemma as_object_Some: "as_object v = Some m \<longleftrightarrow> v = JObject m"
  by (cases v) auto

lemma as_array_Some: "as_array v = Some xs \<longleftrightarrow> v = JArray xs"
  by (cases v) auto

lemma as_str_Some: "as_str v = Some s \<longleftrightarrow> v = JString s"
  by (cases v) auto

lemma convert_image_spec:
  "convert_image m = Inr p \<Longrightarrow> kind_is ''image'' (JObject m) \<Longrightarrow>
   openai_part p = anthropic_part (JObject m) \<and> jget_str p ''text'' = None"
  by (auto simp: convert_image_def image_url_def request_iffs openai_part_def anthropic_part_def source_url_def view_defs json_simps
      as_object_Some bind_eq_Some_conv split: if_splits)

lemma text_part_spec: "openai_part (text_part t) = [Said ''user'' (Some t)]" "jget_str (text_part t) ''text'' = Some t"
  by (simp_all add: text_part_def openai_part_def view_defs json_simps)

lemma tool_result_spec:
  "convert_tool_result m = Inr t \<Longrightarrow> kind_is ''tool_result'' (JObject m) \<Longrightarrow> openai_items t = anthropic_answer (JObject m) \<and> role_is ''tool'' t"
  by (auto simp: convert_tool_result_def request_iffs Let_def openai_items_def anthropic_answer_def view_defs json_simps)

lemma user_block_spec:
  assumes "user_block (tm, ps) block = Inr (tm', ps')"
  shows "concat (map openai_items tm') = concat (map openai_items tm) @ anthropic_answer block"
    and "concat (map openai_part ps') = concat (map openai_part ps) @ anthropic_part block"
    and "(\<forall>p \<in> set ps. jget_str p ''text'' \<noteq> None \<longrightarrow> openai_part p = [Said ''user'' (jget_str p ''text'')]) \<Longrightarrow>
         (\<forall>p \<in> set ps'. jget_str p ''text'' \<noteq> None \<longrightarrow> openai_part p = [Said ''user'' (jget_str p ''text'')])"
    and "(\<forall>t \<in> set tm. role_is ''tool'' t) \<Longrightarrow> (\<forall>t \<in> set tm'. role_is ''tool'' t)"
proof -
  from assms obtain m kind where m: "block = JObject m" "get_str m ''type'' = Some kind"
    by (auto simp: user_block_def request_iffs as_object_Some)
  consider (plain) t where "kind = ''text''" "get_str m ''text'' = Some t" "tm' = tm" "ps' = ps @ [text_part t]"
    | (image) p where "kind = ''image''" "convert_image m = Inr p" "tm' = tm" "ps' = ps @ [p]"
    | (result) t where "kind = ''tool_result''" "convert_tool_result m = Inr t" "tm' = tm @ [t]" "ps' = ps"
    | (thinking) "kind = ''thinking'' \<or> kind = ''redacted_thinking''" "tm' = tm" "ps' = ps"
    using assms m(2) by (auto simp: user_block_def m(1) request_iffs split: if_splits)
  note c = this
  have k: "kind_is k block \<longleftrightarrow> kind = k" for k using m by (simp add: kind_is_def jget_str_def get_str_def)
  have t: "jget_str block ''text'' = get_str m ''text''" by (simp add: m(1) jget_str_def get_str_def)
  have r: "openai_items x = anthropic_answer block \<and> role_is ''tool'' x" if "convert_tool_result m = Inr x" "kind = ''tool_result''" for x
    using tool_result_spec [OF that(1)] k that(2) m(1) by blast
  have i: "openai_part p = anthropic_part block \<and> jget_str p ''text'' = None" if "convert_image m = Inr p" "kind = ''image''" for p
    using convert_image_spec [OF that(1)] k that(2) m(1) by blast
  show "concat (map openai_items tm') = concat (map openai_items tm) @ anthropic_answer block"
    by (cases rule: c) (auto simp: anthropic_answer_def k r)
  show "concat (map openai_part ps') = concat (map openai_part ps) @ anthropic_part block"
    by (cases rule: c) (auto simp: i text_part_spec, auto simp: anthropic_part_def k t)
  show "\<forall>p \<in> set ps'. jget_str p ''text'' \<noteq> None \<longrightarrow> openai_part p = [Said ''user'' (jget_str p ''text'')]"
    if "\<forall>p \<in> set ps. jget_str p ''text'' \<noteq> None \<longrightarrow> openai_part p = [Said ''user'' (jget_str p ''text'')]"
    using that i by (cases rule: c) (auto simp: text_part_spec)
  show "\<forall>t \<in> set tm'. role_is ''tool'' t" if "\<forall>t \<in> set tm. role_is ''tool'' t"
    using that r by (cases rule: c) auto
qed

lemma assistant_block_spec:
  assumes "assistant_block sd (ts, cs) block = Inr (ts', cs')"
  shows "ts' = ts @ anthropic_text block" and "map openai_call cs' = map openai_call cs @ anthropic_call sd block"
proof -
  from assms obtain m kind where m: "block = JObject m" "get_str m ''type'' = Some kind"
    by (auto simp: assistant_block_def request_iffs as_object_Some)
  consider (plain) t where "kind = ''text''" "get_str m ''text'' = Some t" "ts' = ts @ [t]" "cs' = cs"
    | (use) c where "kind = ''tool_use''" "tool_use_call sd m = Inr c" "ts' = ts" "cs' = cs @ [c]"
    | (thinking) "kind = ''thinking'' \<or> kind = ''redacted_thinking''" "ts' = ts" "cs' = cs"
    using assms m(2) by (auto simp: assistant_block_def m(1) request_iffs split: if_splits)
  note c = this
  have k: "kind_is k block \<longleftrightarrow> kind = k" for k using m by (simp add: kind_is_def jget_str_def get_str_def)
  have t: "jget_str block ''text'' = get_str m ''text''" by (simp add: m(1) jget_str_def get_str_def)
  have u: "[openai_call x] = anthropic_call sd block" if "tool_use_call sd m = Inr x" "kind = ''tool_use''" for x
    using that by (auto simp: tool_use_call_def tool_call_json_def request_iffs openai_call_def anthropic_call_def k)
      (auto simp: m(1) view_defs json_simps bind_eq_Some_conv as_object_Some)
  show "ts' = ts @ anthropic_text block" by (cases rule: c) (auto simp: anthropic_text_def k t)
  show "map openai_call cs' = map openai_call cs @ anthropic_call sd block"
  proof (cases rule: c)
    case (use x)
    then show ?thesis using u [of x] by simp
  qed (auto simp: anthropic_call_def k)
qed

definition chat_role :: "json \<Rightarrow> bool" where
  "chat_role message \<longleftrightarrow> role_is ''user'' message \<or> role_is ''assistant'' message \<or> role_is ''tool'' message"

lemma role_message_items:
  "openai_items (role_message ''user'' (JString t)) = [Said ''user'' (Some t)]"
  "openai_items (role_message ''user'' (JArray ps)) = concat (map openai_part ps)"
  "openai_items (role_message ''assistant'' (JString t)) = [Said ''assistant'' (Some t)]"
  "role_is r (role_message r' c) \<longleftrightarrow> r = r'"
  by (auto simp: role_message_def openai_items_def view_defs json_simps)

lemma user_message_spec:
  assumes "convert_user_message content out = Inr out'" and "role_is ''user'' message" and "jget message ''content'' = Some content"
  shows "concat (map openai_items out') = concat (map openai_items out) @ anthropic_items sd message"
    and "\<forall>x \<in> set out. chat_role x \<Longrightarrow> \<forall>x \<in> set out'. chat_role x"
proof -
  have "concat (map openai_items out') = concat (map openai_items out) @ anthropic_items sd message
    \<and> ((\<forall>x \<in> set out. chat_role x) \<longrightarrow> (\<forall>x \<in> set out'. chat_role x))"
  proof (cases "as_str content")
    case (Some t)
    then have "out' = out @ [role_message ''user'' (JString t)]" using assms(1) by (simp add: convert_user_message_def)
    then show ?thesis using assms(2,3) Some by (simp add: anthropic_items_def role_message_items chat_role_def)
  next
    case None
    then obtain blocks tm ps where b: "as_array content = Some blocks" and f: "fold_res user_block ([], []) blocks = Inr (tm, ps)"
      and out': "out' = out @ tm @ (if ps = [] then [] else case single_text ps of
          Some text \<Rightarrow> [role_message ''user'' (JString text)] | None \<Rightarrow> [role_message ''user'' (JArray ps)])"
      using assms(1) by (auto simp: convert_user_message_def request_iffs)
    have tm: "concat (map openai_items tm) = concat (map anthropic_answer blocks)"
      using fold_res_collect [OF f, of "\<lambda>s. concat (map openai_items (fst s))" anthropic_answer] user_block_spec(1) by force
    have ps: "concat (map openai_part ps) = concat (map anthropic_part blocks)"
      using fold_res_collect [OF f, of "\<lambda>s. concat (map openai_part (snd s))" anthropic_part] user_block_spec(2) by force
    have tool: "\<forall>t \<in> set tm. role_is ''tool'' t"
      using fold_res_invariant [OF f, of "\<lambda>s. \<forall>t \<in> set (fst s). role_is ''tool'' t"] user_block_spec(4) by force
    have single: "\<forall>p \<in> set ps. jget_str p ''text'' \<noteq> None \<longrightarrow> openai_part p = [Said ''user'' (jget_str p ''text'')]"
      using fold_res_invariant [OF f, of "\<lambda>s. \<forall>p \<in> set (snd s). jget_str p ''text'' \<noteq> None \<longrightarrow> openai_part p = [Said ''user'' (jget_str p ''text'')]"]
        user_block_spec(3) by force
    have last: "concat (map openai_items (if ps = [] then [] else case single_text ps of
          Some text \<Rightarrow> [role_message ''user'' (JString text)] | None \<Rightarrow> [role_message ''user'' (JArray ps)])) = concat (map openai_part ps)"
      using single by (auto simp: role_message_items single_text_def split: list.splits option.splits)
    have "anthropic_items sd message = concat (map anthropic_answer blocks) @ concat (map anthropic_part blocks)"
      using assms(2,3) b None by (simp add: anthropic_items_def array_of_def)
    then show ?thesis using tm ps tool last
      by (auto simp: out' chat_role_def role_message_items split: option.splits)
  qed
  then show "concat (map openai_items out') = concat (map openai_items out) @ anthropic_items sd message"
    and "\<forall>x \<in> set out. chat_role x \<Longrightarrow> \<forall>x \<in> set out'. chat_role x" by blast+
qed

lemma assistant_json_items:
  "openai_items (jobj ([(''role'', JString ''assistant''), (''content'', text)] @ (if cs \<noteq> [] then [(''tool_calls'', JArray cs)] else [])))
     = (case as_str text of Some t \<Rightarrow> [Said ''assistant'' (Some t)] | None \<Rightarrow> []) @ map openai_call cs"
  "role_is ''assistant'' (jobj ([(''role'', JString ''assistant''), (''content'', text)] @ (if cs \<noteq> [] then [(''tool_calls'', JArray cs)] else [])))"
  by (auto simp: openai_items_def view_defs json_simps)

lemma assistant_message_spec:
  assumes "convert_assistant_message sd content out = Inr out'" and "role_is ''assistant'' message" and "jget message ''content'' = Some content"
  shows "concat (map openai_items out') = concat (map openai_items out) @ anthropic_items sd message"
    and "\<forall>x \<in> set out. chat_role x \<Longrightarrow> \<forall>x \<in> set out'. chat_role x"
proof -
  have nu: "\<not> role_is ''user'' message" using assms(2) by (simp add: role_is_def)
  have "concat (map openai_items out') = concat (map openai_items out) @ anthropic_items sd message
    \<and> ((\<forall>x \<in> set out. chat_role x) \<longrightarrow> (\<forall>x \<in> set out'. chat_role x))"
  proof (cases "as_str content")
    case (Some t)
    then have "out' = (if t \<noteq> [] then out @ [role_message ''assistant'' (JString t)] else out)"
      using assms(1) by (simp add: convert_assistant_message_def)
    then show ?thesis using assms(2,3) Some nu by (simp add: anthropic_items_def role_message_items chat_role_def)
  next
    case None
    then obtain blocks ts cs where b: "as_array content = Some blocks" and f: "fold_res (assistant_block sd) ([], []) blocks = Inr (ts, cs)"
      and out': "out' = (if ts = [] \<and> cs = [] then out else out @ [jobj ([(''role'', JString ''assistant''),
          (''content'', if ts = [] then JNull else JString (join block_sep ts))] @ (if cs \<noteq> [] then [(''tool_calls'', JArray cs)] else []))])"
      using assms(1) by (auto simp: convert_assistant_message_def request_iffs Let_def split: if_splits)
    have ts: "ts = concat (map anthropic_text blocks)"
      using fold_res_collect [OF f, of fst anthropic_text] assistant_block_spec(1) by force
    have cs: "map openai_call cs = concat (map (anthropic_call sd) blocks)"
      using fold_res_collect [OF f, of "\<lambda>s. map openai_call (snd s)" "anthropic_call sd"] assistant_block_spec(2) by force
    have "anthropic_items sd message = (if ts = [] then [] else [Said ''assistant'' (Some (join block_sep ts))]) @ map openai_call cs"
      using assms(2,3) b None nu by (simp add: anthropic_items_def array_of_def Let_def ts cs)
    then show ?thesis unfolding out' by (auto simp: assistant_json_items chat_role_def simp del: append.simps)
  qed
  then show "concat (map openai_items out') = concat (map openai_items out) @ anthropic_items sd message"
    and "\<forall>x \<in> set out. chat_role x \<Longrightarrow> \<forall>x \<in> set out'. chat_role x" by blast+
qed

lemma convert_message_spec:
  assumes "convert_message sd message out = Inr out'"
  shows "concat (map openai_items out') = concat (map openai_items out) @ anthropic_items sd message"
    and "\<forall>x \<in> set out. chat_role x \<Longrightarrow> \<forall>x \<in> set out'. chat_role x"
proof -
  from assms obtain m role content where m: "message = JObject m" "get_str m ''role'' = Some role" "map_of m ''content'' = Some content"
    by (auto simp: convert_message_def request_iffs as_object_Some)
  then have r: "role_is role message" "jget message ''content'' = Some content" by (simp_all add: role_is_def jget_str_def get_str_def)
  consider (user) "role = ''user''" "convert_user_message content out = Inr out'"
    | (assistant) "role = ''assistant''" "convert_assistant_message sd content out = Inr out'"
    using assms m by (auto simp: convert_message_def request_iffs split: if_splits)
  note c = this
  show "concat (map openai_items out') = concat (map openai_items out) @ anthropic_items sd message"
    by (cases rule: c) (use r user_message_spec(1) assistant_message_spec(1) in metis)+
  show "\<forall>x \<in> set out'. chat_role x" if "\<forall>x \<in> set out. chat_role x"
    by (cases rule: c) (use r that user_message_spec(2) assistant_message_spec(2) in metis)+
qed

section \<open>System texts\<close>

definition text_of :: "json \<Rightarrow> string" where
  "text_of v = (case as_str v of Some t \<Rightarrow> t | None \<Rightarrow> join block_sep (map (\<lambda>b. unwrap_or [] (jget_str b ''text'')) (array_of (Some v))))"

definition visible :: "string list \<Rightarrow> string list" where
  "visible = filter (\<lambda>t. trim t \<noteq> [])"

definition message_system_texts :: "json \<Rightarrow> string list" where
  "message_system_texts message =
     (if role_is ''system'' message then visible [text_of (unwrap_or JNull (jget message ''content''))] else [])"

definition system_texts :: "json_map \<Rightarrow> string list" where
  "system_texts m =
     (case filter_opt (\<lambda>v. \<not> is_null v) (map_of m ''system'') of None \<Rightarrow> [] | Some v \<Rightarrow> visible [text_of v])
     @ concat (map message_system_texts (array_of (map_of m ''messages'')))"

lemma concat_singletons: "concat (map (\<lambda>x. [f x]) xs) = map f xs"
  by (induction xs) simp_all

lemma system_block_spec:
  "system_block parts block = Inr parts' \<Longrightarrow> parts' = parts @ [unwrap_or [] (jget_str block ''text'')]"
  "system_content_block parts block = Inr parts' \<Longrightarrow> parts' = parts @ [unwrap_or [] (jget_str block ''text'')]"
  by (auto simp: system_block_def system_content_block_def request_iffs as_object_Some get_str_def jget_str_def split: if_splits)

lemma parse_system_spec:
  assumes "parse_system x = Inr r"
  shows "r = map_option text_of (filter_opt (\<lambda>v. \<not> is_null v) x)"
proof (cases "filter_opt (\<lambda>v. \<not> is_null v) x")
  case (Some v)
  show ?thesis
  proof (cases "as_str v")
    case None
    then obtain blocks parts where b: "as_array v = Some blocks" "fold_res system_block [] blocks = Inr parts" "r = Some (join block_sep parts)"
      using assms Some by (auto simp: parse_system_def request_iffs)
    have "parts = concat (map (\<lambda>b. [unwrap_or [] (jget_str b ''text'')]) blocks)"
      using fold_res_collect [OF b(2), of "\<lambda>x. x" "\<lambda>b. [unwrap_or [] (jget_str b ''text'')]"] system_block_spec(1) by auto
    then show ?thesis using b None Some by (simp add: text_of_def concat_singletons array_of_def)
  next
    case (Some t)
    then have "r = Some t" using assms \<open>filter_opt _ x = Some v\<close> by (simp add: parse_system_def)
    then show ?thesis using Some \<open>filter_opt _ x = Some v\<close> by (simp add: text_of_def)
  qed
qed (use assms in \<open>simp add: parse_system_def\<close>)

lemma system_message_text_spec:
  assumes "system_message_text content = Inr r"
  shows "r = filter_opt (\<lambda>t. trim t \<noteq> []) (Some (text_of content))"
proof (cases "as_str content")
  case None
  then obtain blocks parts where b: "as_array content = Some blocks" "fold_res system_content_block [] blocks = Inr parts"
      "r = filter_opt (\<lambda>t. trim t \<noteq> []) (Some (join block_sep parts))"
    using assms by (auto simp: system_message_text_def request_iffs)
  have "parts = concat (map (\<lambda>b. [unwrap_or [] (jget_str b ''text'')]) blocks)"
    using fold_res_collect [OF b(2), of "\<lambda>x. x" "\<lambda>b. [unwrap_or [] (jget_str b ''text'')]"] system_block_spec(2) by auto
  then show ?thesis using b None by (simp add: text_of_def concat_singletons array_of_def)
qed (use assms in \<open>auto simp: system_message_text_def text_of_def split: if_splits\<close>)

lemma role_system_iff: "unwrap_or [] (jget_str message ''role'') = ''system'' \<longleftrightarrow> role_is ''system'' message"
  by (cases "jget_str message ''role''") (simp_all add: role_is_def)

lemma request_message_spec:
  assumes "request_message sd (parts, out) message = Inr (parts', out')"
  shows "parts' = parts @ message_system_texts message"
    and "concat (map openai_items out') = concat (map openai_items out) @ anthropic_items sd message"
    and "\<forall>x \<in> set out. chat_role x \<Longrightarrow> \<forall>x \<in> set out'. chat_role x"
proof -
  consider (system) content r where "role_is ''system'' message" "jget message ''content'' = Some content" "system_message_text content = Inr r"
      "parts' = (case filter_opt (\<lambda>t. trim t \<noteq> []) r of None \<Rightarrow> parts | Some t \<Rightarrow> parts @ [t])" "out' = out"
    | (other) "\<not> role_is ''system'' message" "convert_message sd message out = Inr out'" "parts' = parts"
    using assms by (auto simp: request_message_def role_system_iff request_iffs split: if_splits)
  note c = this
  show "parts' = parts @ message_system_texts message"
    by (cases rule: c) (auto simp: message_system_texts_def visible_def dest!: system_message_text_spec split: if_splits)
  show "concat (map openai_items out') = concat (map openai_items out) @ anthropic_items sd message"
  proof (cases rule: c)
    case system
    then show ?thesis by (simp add: anthropic_items_def role_is_def Let_def)
  next
    case other
    then show ?thesis by (simp add: convert_message_spec(1))
  qed
  show "\<forall>x \<in> set out'. chat_role x" if "\<forall>x \<in> set out. chat_role x"
    using that by (cases rule: c) (simp_all add: convert_message_spec(2))
qed

section \<open>The translated request\<close>

lemma copy_number_other: "k \<noteq> key \<Longrightarrow> map_of (copy_number source key out) k = map_of out k"
  by (simp add: copy_number_def split: option.split)

lemma copy_stop_other: "k \<noteq> ''stop'' \<Longrightarrow> map_of (copy_stop m out) k = map_of out k"
  by (cases "Option.bind (map_of m ''stop_sequences'') as_array") (simp_all add: copy_stop_def Let_def)

lemma copy_user_other: "k \<noteq> ''user'' \<Longrightarrow> map_of (copy_user m out) k = map_of out k"
  by (cases "Option.bind (Option.bind (map_of m ''metadata'') as_object) (\<lambda>metadata. get_nonempty_str metadata ''user_id'')")
    (simp_all add: copy_user_def)

lemma options_other: "k \<notin> {''temperature'', ''top_p'', ''stop'', ''user''} \<Longrightarrow> map_of (request_options m out) k = map_of out k"
  unfolding request_options_def by (simp only: copy_number_other copy_stop_other copy_user_other insert_iff empty_iff not_False_eq_True de_Morgan_disj simp_thms)

lemma tool_list_cases:
  assumes "request_tool_list m out = Inr out'"
  obtains "out' = out" | tools t where "convert_tools tools = Inr t" "out' = bt_insert ''tools'' t out"
  using assms that unfolding request_tool_list_def
  by (cases "filter_opt (\<lambda>v. \<not> is_null v) (map_of m ''tools'')") (auto simp: try_res_Inr_iff)

lemma tool_choice_cases:
  assumes "request_tool_choice m out = Inr out'"
  obtains "out' = out"
    | tool_choice choice where "convert_tool_choice tool_choice = Inr (choice, None)" "out' = bt_insert ''tool_choice'' choice out"
    | tool_choice choice p where "convert_tool_choice tool_choice = Inr (choice, Some p)"
        "out' = bt_insert ''parallel_tool_calls'' (JBool p) (bt_insert ''tool_choice'' choice out)"
proof (cases "filter_opt (\<lambda>v. \<not> is_null v) (map_of m ''tool_choice'')")
  case None
  then show ?thesis using assms that(1) by (simp add: request_tool_choice_def)
next
  case (Some tc)
  then obtain choice parallel where "convert_tool_choice tc = Inr (choice, parallel)"
      "out' = (let out1 = bt_insert ''tool_choice'' choice out in
         case parallel of None \<Rightarrow> out1 | Some p \<Rightarrow> bt_insert ''parallel_tool_calls'' (JBool p) out1)"
    using assms by (auto simp: request_tool_choice_def try_res_Inr_iff Let_def)
  then show ?thesis using that(2,3) by (cases parallel) (auto simp: Let_def)
qed

lemma tools_other:
  assumes "request_tools m out = Inr out'" and "k \<notin> {''tools'', ''tool_choice'', ''parallel_tool_calls''}"
  shows "map_of out' k = map_of out k"
proof -
  from assms(1) obtain out1 where "request_tool_list m out = Inr out1" "request_tool_choice m out1 = Inr out'"
    by (auto simp: request_tools_def try_res_Inr_iff)
  then have "map_of out1 k = map_of out k" "map_of out' k = map_of out1 k"
    using assms(2) by (auto elim!: tool_list_cases tool_choice_cases)
  then show ?thesis by simp
qed

lemma translate_messages:
  assumes "translate_request sd m public_model = Inr out"
  obtains messages system parts msgs max_tokens out2 where
    "map_of m ''messages'' = Some (JArray messages)" "messages \<noteq> []"
    "map_of m ''max_tokens'' = Some (jnum max_tokens)" "max_tokens > 0"
    "parse_system (map_of m ''system'') = Inr system"
    "fold_res (request_message sd) (case filter_opt (\<lambda>s. trim s \<noteq> []) system of None \<Rightarrow> [] | Some s \<Rightarrow> [s], []) messages = Inr (parts, msgs)"
    "msgs \<noteq> []"
    "request_tools m (bt_insert ''messages'' (JArray (with_system parts msgs))
      (request_base public_model max_tokens (unwrap_or False (Option.bind (map_of m ''stream'') as_bool)))) = Inr out2"
    "out = request_options m out2"
proof -
  have num: "as_u64 v = Some n \<longleftrightarrow> v = jnum n" for v n by (cases v rule: as_u64.cases) (auto simp: jnum_def)
  show ?thesis using assms that
    unfolding translate_request_def Let_def
    by (auto simp: request_iffs bind_eq_Some_conv as_array_Some num split: if_split_asm)
qed


definition demo_request :: json_map where
  "demo_request = [(''max_tokens'', jnum 5), (''messages'', JArray [jobj [(''role'', JString ''system''), (''content'', JString ''s'')],
     jobj [(''role'', JString ''user''), (''content'', JArray [jobj [(''type'', JString ''text''), (''text'', JString ''hi'')]])]])]"

lemmas request_defs = translate_request_def request_message_def convert_message_def convert_user_message_def user_block_def
  expect_block_type_def system_message_text_def parse_system_def request_tools_def request_tool_list_def request_tool_choice_def
  invalid_def single_text_def text_part_def get_str_def jget_str_def

lemma demo_trim: "trim ''s'' = ''s''"
  by code_simp


section \<open>The type of the translated request\<close>

definition function_tool :: "json \<Rightarrow> bool" where
  "function_tool t \<longleftrightarrow> jget_str t ''type'' = Some ''function''
     \<and> (\<exists>name. name \<noteq> [] \<and> pointer t [''function'', ''name''] = Some (JString name))
     \<and> (\<exists>schema. pointer t [''function'', ''parameters''] = Some (JObject schema))"

definition field_ok :: "string \<Rightarrow> string \<Rightarrow> json \<Rightarrow> bool" where
  "field_ok public_model k v \<longleftrightarrow>
     k = ''model'' \<and> v = JString public_model
   \<or> k = ''max_tokens'' \<and> (\<exists>n > 0. v = jnum n)
   \<or> k = ''stream'' \<and> (\<exists>b. v = JBool b)
   \<or> k = ''stream_options'' \<and> v = jobj [(''include_usage'', JBool True)]
   \<or> k = ''messages'' \<and> (\<exists>ms. v = JArray ms \<and> ms \<noteq> [])
   \<or> k = ''tools'' \<and> (\<exists>ts. v = JArray ts \<and> (\<forall>t \<in> set ts. function_tool t))
   \<or> k = ''tool_choice'' \<and> (v \<in> JString ` {''auto'', ''required'', ''none''}
        \<or> (\<exists>name. name \<noteq> [] \<and> v = jobj [(''type'', JString ''function''), (''function'', jobj [(''name'', JString name)])]))
   \<or> k = ''parallel_tool_calls'' \<and> v = JBool False
   \<or> k \<in> {''temperature'', ''top_p''} \<and> (\<exists>q. v = JNumber (FloatNum q))
   \<or> k = ''stop'' \<and> (\<exists>ss. ss \<noteq> [] \<and> v = JArray (map JString ss))
   \<or> k = ''user'' \<and> (\<exists>u. u \<noteq> [] \<and> v = JString u)"

definition fields_ok :: "string \<Rightarrow> json_map \<Rightarrow> bool" where
  "fields_ok public_model out \<longleftrightarrow> sorted (map fst out) \<and> distinct (map fst out) \<and> (\<forall>(k, v) \<in> set out. field_ok public_model k v)"

definition chat_request :: "string \<Rightarrow> json_map \<Rightarrow> bool" where
  "chat_request public_model out \<longleftrightarrow> fields_ok public_model out \<and> {''model'', ''max_tokens'', ''stream'', ''messages''} \<subseteq> fst ` set out
     \<and> (map_of out ''stream'' = Some (JBool True) \<longleftrightarrow> map_of out ''stream_options'' \<noteq> None)"

lemma set_bt_insert: "set (bt_insert k v m) \<subseteq> insert (k, v) (set m)"
  by (induction k v m rule: bt_insert.induct) auto

lemma fields_insert: "fields_ok pm out \<Longrightarrow> field_ok pm k v \<Longrightarrow> fields_ok pm (bt_insert k v out)"
  using bt_insert_sorted [of out k v] set_bt_insert [of k v out] unfolding fields_ok_def by blast

lemma fields_tool_list:
  assumes "request_tool_list m out = Inr out'" and "fields_ok pm out"
  shows "fields_ok pm out'"
  using assms(1)
proof (cases rule: tool_list_cases)
  case (2 tools t)
  have f: "function_tool x" if "convert_tool tool = Inr x" for tool x
    using that by (auto simp: convert_tool_def try_res_Inr_iff invalid_Inr_iff function_tool_def get_nonempty_str_def json_simps
        split: option.splits)
  obtain ts us where u: "t = JArray us"
      "fold_res (\<lambda>out tool. try_res (convert_tool tool) (\<lambda>t. Inr (out @ [t]))) [] ts = Inr us"
    using 2(1) by (auto simp: convert_tools_def try_res_Inr_iff invalid_Inr_iff)
  have "\<forall>x \<in> set us. function_tool x"
    by (rule fold_res_invariant [OF u(2)]) (auto simp: try_res_Inr_iff dest: f)
  then show ?thesis using 2(2) assms(2) u(1) by (auto intro!: fields_insert simp: field_ok_def)
qed (use assms in simp)

lemma tool_choice_value: "convert_tool_choice tc = Inr (choice, parallel) \<Longrightarrow> field_ok pm ''tool_choice'' choice \<and> parallel \<noteq> Some True"
  by (auto simp: convert_tool_choice_def try_res_Inr_iff invalid_Inr_iff field_ok_def get_nonempty_str_def Let_def split: if_splits)

lemma fields_tool_choice:
  assumes "request_tool_choice m out = Inr out'" and "fields_ok pm out"
  shows "fields_ok pm out'"
  using assms(1)
proof (cases rule: tool_choice_cases)
  case (3 tc choice p)
  then have "p = False" using tool_choice_value by blast
  then show ?thesis using 3 assms(2) tool_choice_value [OF 3(1)] by (auto intro!: fields_insert simp: field_ok_def)
qed (use assms tool_choice_value in \<open>auto intro!: fields_insert\<close>)

lemma fields_options: "fields_ok pm out \<Longrightarrow> fields_ok pm (request_options m out)"
proof -
  have number: "fields_ok pm (copy_number m k x)" if "fields_ok pm x" "k \<in> {''temperature'', ''top_p''}" for k x
    using that by (cases "Option.bind (map_of m k) as_f64") (auto simp: copy_number_def field_ok_def intro!: fields_insert)
  have stop: "fields_ok pm (copy_stop m x)" if "fields_ok pm x" for x
    using that by (cases "Option.bind (map_of m ''stop_sequences'') as_array") (auto simp: copy_stop_def Let_def field_ok_def intro!: fields_insert)
  have user: "fields_ok pm (copy_user m x)" if "fields_ok pm x" for x
    using that by (cases "Option.bind (Option.bind (map_of m ''metadata'') as_object) (\<lambda>metadata. get_nonempty_str metadata ''user_id'')")
      (auto simp: copy_user_def field_ok_def get_nonempty_str_def bind_eq_Some_conv intro!: fields_insert)
  assume "fields_ok pm out"
  then show ?thesis unfolding request_options_def by (intro user stop number) auto
qed

lemma fields_head:
  assumes "n > 0"
  shows "fields_ok pm (request_base pm n stream)"
    and "map_of (request_base pm n stream) ''stream'' = Some (JBool stream)"
    and "map_of (request_base pm n stream) ''stream_options'' \<noteq> None \<longleftrightarrow> stream"
    and "{''model'', ''max_tokens'', ''stream''} \<subseteq> fst ` set (request_base pm n stream)"
proof -
  have "fields_ok pm (map_of_pairs [(''model'', JString pm), (''max_tokens'', jnum n), (''stream'', JBool stream)])"
    using assms by (simp add: map_of_pairs_def fields_ok_def field_ok_def) blast
  then show "fields_ok pm (request_base pm n stream)"
    by (auto simp: request_base_def Let_def field_ok_def intro!: fields_insert)
qed (auto simp: request_base_def Let_def map_of_pairs_def)

lemma keys_grow:
  assumes "request_tools m out = Inr out'"
  shows "fst ` set out \<subseteq> fst ` set (request_options m out')"
proof -
  from assms obtain out1 where o: "request_tool_list m out = Inr out1" "request_tool_choice m out1 = Inr out'"
    by (auto simp: request_tools_def try_res_Inr_iff)
  from o(1) have "fst ` set out \<subseteq> fst ` set out1" by (cases rule: tool_list_cases) (simp_all add: subset_insertI)
  moreover from o(2) have "fst ` set out1 \<subseteq> fst ` set out'"
    by (cases rule: tool_choice_cases) (simp_all add: subset_insertI subset_insertI2)
  moreover have "fst ` set x \<subseteq> fst ` set (copy_number m k x)" "fst ` set x \<subseteq> fst ` set (copy_stop m x)" "fst ` set x \<subseteq> fst ` set (copy_user m x)" for k x
    by (simp_all add: copy_number_def copy_stop_def copy_user_def Let_def subset_insertI split: option.split)
  ultimately show ?thesis unfolding request_options_def by (meson subset_trans)
qed

lemma translated_request_typed:
  assumes "translate_request sd m public_model = Inr out"
  shows "chat_request public_model out"
proof -
  obtain messages system parts msgs n out2 where n: "n > 0" and "msgs \<noteq> []" and t: "request_tools m (bt_insert ''messages'' (JArray (with_system parts msgs))
      (request_base public_model n (unwrap_or False (Option.bind (map_of m ''stream'') as_bool)))) = Inr out2"
      "out = request_options m out2"
    using assms by (rule translate_messages)
  let ?b = "unwrap_or False (Option.bind (map_of m ''stream'') as_bool)"
  let ?o = "bt_insert ''messages'' (JArray (with_system parts msgs)) (request_base public_model n ?b)"
  have "fields_ok public_model ?o"
    using fields_head(1) [OF n] \<open>msgs \<noteq> []\<close> by (intro fields_insert) (auto simp: field_ok_def with_system_def)
  then have "fields_ok public_model out2"
    using t(1) by (auto simp: request_tools_def try_res_Inr_iff intro: fields_tool_list fields_tool_choice)
  then have fo: "fields_ok public_model out" by (simp add: t(2) fields_options)
  have "{''model'', ''max_tokens'', ''stream'', ''messages''} \<subseteq> fst ` set ?o"
    using fields_head(4) [OF n] by simp
  then have ko: "{''model'', ''max_tokens'', ''stream'', ''messages''} \<subseteq> fst ` set out"
    using keys_grow [OF t(1)] unfolding t(2) by (rule subset_trans)
  have "map_of out ''stream'' = map_of (request_base public_model n ?b) ''stream''"
    using tools_other [OF t(1), of "''stream''"] options_other [of "''stream''" m out2] by (simp add: t(2))
  moreover have "map_of out ''stream_options'' = map_of (request_base public_model n ?b) ''stream_options''"
    using tools_other [OF t(1), of "''stream_options''"] options_other [of "''stream_options''" m out2] by (simp add: t(2))
  ultimately have "map_of out ''stream'' = Some (JBool True) \<longleftrightarrow> map_of out ''stream_options'' \<noteq> None"
    using fields_head(2,3) [OF n, of public_model ?b] by simp
  then show ?thesis using fo ko by (simp add: chat_request_def)
qed

lemma client_anthropic: "client_error (anthropic_to_openai sd body public_model)"
  unfolding anthropic_to_openai_def by (auto intro!: client_intros client_translate split: sum.split)

text \<open>
  C34. Translating a request either fails with a status of 400, the client's fault, or yields a well-typed OpenAI chat request: the keys are
  among those the API knows, in order and without repetition; the model is the one given, the token limit is positive, the messages are
  not empty, the tools are named functions with an object schema, stop sequences are strings; usage is asked for exactly when the answer is
  streamed. Nothing else of the Anthropic request is passed on.
\<close>

theorem request_translation_typed:
  "case anthropic_to_openai sd body public_model of
     Inl e \<Rightarrow> bridge_error_status e = 400
   | Inr encoded \<Rightarrow> \<exists>out. encoded = to_string sd (JObject out) \<and> chat_request public_model out"
proof (cases "anthropic_to_openai sd body public_model")
  case (Inl e)
  then show ?thesis using client_anthropic [of sd body public_model] by (simp add: client_error_def)
next
  case (Inr encoded)
  then show ?thesis
    by (auto simp: anthropic_to_openai_def try_res_Inr_iff dest: translated_request_typed split: sum.splits)
qed

end
