(* ===== verification/Incoming.thy ===== *)
theory Incoming
  imports Forward Bridge_Stream
begin

text \<open>
  How a request's body is read and edited before it is forwarded, from \<open>src/handlers.rs\<close>: the bounded read, the scan of a large
  body's first bytes for its model, the choice between a buffered and a streamed upload, the provider-specific rewrites and the
  multipart field. The typed parsers of \<open>serde_json\<close> (of the request head, and of a single string literal) are arguments.
\<close>

section \<open>The head of a request\<close>

record request_head =
  rh_model :: string
  rh_stream :: bool
  rh_stream_options_present :: bool

record head_parser =
  hp_head :: "bytes \<Rightarrow> request_head option"
  hp_string :: "bytes \<Rightarrow> string option"

definition FAST_UPLOAD_MIN_BYTES :: u64 where "FAST_UPLOAD_MIN_BYTES = 64 * 1024"
definition HEAD_PREFIX_LIMIT :: usize where "HEAD_PREFIX_LIMIT = 16 * 1024"

datatype incoming_body =
    IncomingBuffered request_head bytes
  | StreamingCandidate request_head bytes "stream_item list" u64

datatype body_read_error = BodyTooLarge | ReadFailed | InvalidJson

datatype prefix_scan = NeedMore | Found request_head

definition incoming_len :: "incoming_body \<Rightarrow> usize" where
  "incoming_len b = (case b of IncomingBuffered _ body \<Rightarrow> length body | StreamingCandidate _ _ _ n \<Rightarrow> unat n)"

definition incoming_head :: "incoming_body \<Rightarrow> request_head" where
  "incoming_head b = (case b of IncomingBuffered h _ \<Rightarrow> h | StreamingCandidate h _ _ _ \<Rightarrow> h)"

section \<open>The bounded read\<close>

fun collect_remaining_body :: "bytes \<Rightarrow> stream_item list \<Rightarrow> usize \<Rightarrow> body_read_error + bytes" where
  "collect_remaining_body out [] max_body_bytes = Inr out"
| "collect_remaining_body out (StreamError _ # rest) max_body_bytes = Inl ReadFailed"
| "collect_remaining_body out (Chunk c # rest) max_body_bytes =
     (if usat_add (length out) (length c) > max_body_bytes then Inl BodyTooLarge
      else collect_remaining_body (out @ c) rest max_body_bytes)"

text \<open>The text of a decimal number: an optional plus sign and at least one digit, below the 64-bit bound.\<close>

definition parse_u64 :: "string \<Rightarrow> u64 option" where
  "parse_u64 s =
     (let digits = (case s of c # r \<Rightarrow> if c = CHR ''+'' then r else s | [] \<Rightarrow> []);
          n = foldl (\<lambda>n c. n * 10 + (byte_val c - 48)) 0 digits
      in if digits = [] \<or> list_ex (\<lambda>c. byte_val c < 48 \<or> 57 < byte_val c) digits \<or> n \<ge> 2 ^ 64 then None
         else Some (of_nat n))"

definition hdr_get :: "header_map \<Rightarrow> string \<Rightarrow> string option" where
  "hdr_get h n = (case hdr_values h n of [] \<Rightarrow> None | v # _ \<Rightarrow> Some v)"

definition parse_content_length :: "http_client \<Rightarrow> header_map \<Rightarrow> u64 option" where
  "parse_content_length hc headers =
     Option.bind (filter_opt (hc_text_ok hc) (hdr_get headers ''content-length'')) parse_u64"

section \<open>The scan of a prefix\<close>

function string_end_flag :: "bytes \<Rightarrow> nat \<Rightarrow> bool \<Rightarrow> nat option" where
  "string_end_flag data i escaped =
     (if i < length data then
        (if escaped then string_end_flag data (i + 1) False
         else if data ! i = CHR 0x5C then string_end_flag data (i + 1) True
         else if data ! i = CHR 0x22 then Some i
         else string_end_flag data (i + 1) False)
      else None)"
  by pat_completeness auto
termination by (relation "measure (\<lambda>(data, i, escaped). length data - i)") auto

declare string_end_flag.simps [simp del]

definition find_string_end :: "bytes \<Rightarrow> nat \<Rightarrow> nat option" where
  "find_string_end data start = string_end_flag data (start + 1) False"

lemma string_end_flag_bounds: "string_end_flag data i escaped = Some j \<Longrightarrow> i \<le> j \<and> j < length data"
proof (induction data i escaped rule: string_end_flag.induct)
  case (1 data i escaped)
  from 1(4) 1(1-3) show ?case
    by (subst (asm) (1) string_end_flag.simps) (auto split: if_splits)
qed

lemma find_string_end_bounds: "find_string_end data i = Some j \<Longrightarrow> i < j \<and> j < length data"
  by (auto simp: find_string_end_def dest: string_end_flag_bounds)

text \<open>
  A key at depth one with its colon: where the scan goes on and what is known then. The index \<open>j\<close> is the start of the value.
\<close>

record scan_state =
  sc_model :: "string option"
  sc_stream :: "bool option"
  sc_options :: bool

definition slice :: "bytes \<Rightarrow> nat \<Rightarrow> nat \<Rightarrow> bytes" where
  "slice data i j = take (j - i) (drop i data)"

definition get_slice :: "bytes \<Rightarrow> nat \<Rightarrow> nat \<Rightarrow> bytes option" where
  "get_slice data i j = (if i \<le> j \<and> j \<le> length data then Some (slice data i j) else None)"

definition scan_key :: "head_parser \<Rightarrow> bytes \<Rightarrow> string \<Rightarrow> nat \<Rightarrow> nat \<Rightarrow> scan_state \<Rightarrow> (nat \<times> scan_state) option" where
  "scan_key hp data key key_end j s =
     (if key = ''model'' then
        (if byte_at data j = Some (CHR 0x22) then
           (case find_string_end data j of
              None \<Rightarrow> None
            | Some v_end \<Rightarrow>
                Some (v_end + 1, case hp_string hp (slice data j (v_end + 1)) of None \<Rightarrow> s | Some v \<Rightarrow> s\<lparr>sc_model := Some v\<rparr>))
         else Some (j, s))
      else if key = ''stream'' then
        Some (if get_slice data j (j + 4) = Some ''true'' then (j + 4, s\<lparr>sc_stream := Some True\<rparr>)
              else if get_slice data j (j + 5) = Some ''false'' then (j + 5, s\<lparr>sc_stream := Some False\<rparr>)
              else (j, s))
      else if key = ''stream_options'' then Some (j, s\<lparr>sc_options := True\<rparr>)
      else Some (key_end + 1, s))"

definition scan_found :: "scan_state \<Rightarrow> request_head option" where
  "scan_found s =
     (case (sc_model s, sc_stream s) of
        (Some m, Some b) \<Rightarrow> Some \<lparr>rh_model = m, rh_stream = b, rh_stream_options_present = sc_options s\<rparr>
      | _ \<Rightarrow> None)"

lemma scan_key_ge:
  assumes "scan_key hp data key key_end j s = Some (i', s')" and "key_end < j"
  shows "key_end < i'"
  using assms find_string_end_bounds [of data j] by (auto simp: scan_key_def split: if_splits option.splits)

lemma scan_decreases: "k < length data \<Longrightarrow> skip_ws data i \<le> k \<Longrightarrow> length data - Suc k < length data - i"
  using skip_ws_ge [of i data] by linarith

function scan_loop :: "head_parser \<Rightarrow> bytes \<Rightarrow> nat \<Rightarrow> int \<Rightarrow> scan_state \<Rightarrow> prefix_scan" where
  "scan_loop hp data i0 depth s =
     (let i = skip_ws data i0 in
      if \<not> i < length data then NeedMore
      else if data ! i = CHR ''}'' then
        (if depth - 1 = 0 then NeedMore else scan_loop hp data (i + 1) (depth - 1) s)
      else if data ! i = CHR ''{'' \<or> data ! i = CHR ''['' then scan_loop hp data (i + 1) (depth + 1) s
      else if data ! i = CHR '']'' then scan_loop hp data (i + 1) (depth - 1) s
      else if data ! i = CHR 0x22 then
        (case find_string_end data i of
           None \<Rightarrow> NeedMore
         | Some key_end \<Rightarrow>
             if depth \<noteq> 1 then scan_loop hp data (key_end + 1) depth s
             else case hp_string hp (slice data i (key_end + 1)) of
               None \<Rightarrow> NeedMore
             | Some key \<Rightarrow>
                 (let colon = skip_ws data (key_end + 1) in
                  if byte_at data colon \<noteq> Some (CHR '':'') then scan_loop hp data (key_end + 1) depth s
                  else case scan_key hp data key key_end (skip_ws data (colon + 1)) s of
                    None \<Rightarrow> NeedMore
                  | Some (i', s') \<Rightarrow>
                      (case scan_found s' of
                         Some h \<Rightarrow> Found h
                       | None \<Rightarrow> scan_loop hp data i' depth s')))
      else scan_loop hp data (i + 1) depth s)"
  by pat_completeness auto
termination
proof (relation "measure (\<lambda>(hp, data, i, depth, s). length data - i)", goal_cases)
  case (7 hp data i0 depth s i key_end key colon z i' s')
  have "i0 \<le> i" "key_end + 1 \<le> colon" "colon + 1 \<le> skip_ws data (colon + 1)" using 7 skip_ws_ge by auto
  moreover have "i < key_end" using 7 find_string_end_bounds by blast
  moreover have "key_end < i'" using 7 scan_key_ge calculation by fastforce
  ultimately show ?case using 7 by auto
qed (auto dest!: find_string_end_bounds intro!: scan_decreases)

declare scan_loop.simps [simp del]

definition scan_head_prefix :: "head_parser \<Rightarrow> bytes \<Rightarrow> prefix_scan" where
  "scan_head_prefix hp data =
     (let i = skip_ws data 0 in
      if byte_at data i \<noteq> Some (CHR ''{'') then NeedMore
      else scan_loop hp data (i + 1) 1 \<lparr>sc_model = None, sc_stream = None, sc_options = False\<rparr>)"

section \<open>Reading the body\<close>

definition buffered :: "head_parser \<Rightarrow> bytes \<Rightarrow> body_read_error + incoming_body" where
  "buffered hp full = (case hp_head hp full of None \<Rightarrow> Inl InvalidJson | Some h \<Rightarrow> Inr (IncomingBuffered h full))"

text \<open>The loop that reads until the prefix names model and stream, or is long enough to give up.\<close>

fun read_prefix :: "head_parser \<Rightarrow> usize \<Rightarrow> u64 \<Rightarrow> bytes \<Rightarrow> stream_item list \<Rightarrow> body_read_error + incoming_body" where
  "read_prefix hp max_body_bytes content_length prefix [] = buffered hp prefix"
| "read_prefix hp max_body_bytes content_length prefix (StreamError _ # rest) = Inl ReadFailed"
| "read_prefix hp max_body_bytes content_length prefix (Chunk c # rest) =
     (if usat_add (length prefix) (length c) > max_body_bytes then Inl BodyTooLarge
      else
        (let prefix = prefix @ c in
         case scan_head_prefix hp prefix of
           Found h \<Rightarrow>
             if \<not> rh_stream h then Inr (StreamingCandidate h prefix rest content_length)
             else if length prefix \<ge> HEAD_PREFIX_LIMIT
             then try_res (collect_remaining_body prefix rest max_body_bytes) (buffered hp)
             else read_prefix hp max_body_bytes content_length prefix rest
         | NeedMore \<Rightarrow>
             if length prefix \<ge> HEAD_PREFIX_LIMIT
             then try_res (collect_remaining_body prefix rest max_body_bytes) (buffered hp)
             else read_prefix hp max_body_bytes content_length prefix rest))"

definition read_incoming_body ::
  "head_parser \<Rightarrow> stream_item list \<Rightarrow> usize \<Rightarrow> u64 option \<Rightarrow> body_read_error + incoming_body" where
  "read_incoming_body hp body max_body_bytes content_length =
     (case content_length of
        None \<Rightarrow> try_res (collect_remaining_body [] body max_body_bytes) (buffered hp)
      | Some len \<Rightarrow>
          if unat len > max_body_bytes then Inl BodyTooLarge
          else if len \<ge> FAST_UPLOAD_MIN_BYTES then read_prefix hp max_body_bytes len [] body
          else try_res (collect_remaining_body [] body max_body_bytes) (buffered hp))"

definition into_proxy_body ::
  "head_parser \<Rightarrow> incoming_body \<Rightarrow> bool \<Rightarrow> usize \<Rightarrow> body_read_error + (request_head \<times> proxy_request_body)" where
  "into_proxy_body hp incoming allow_streaming_upload max_body_bytes =
     (case incoming of
        IncomingBuffered h body \<Rightarrow> Inr (h, Buffered body)
      | StreamingCandidate h prefix rest content_length \<Rightarrow>
          if allow_streaming_upload then Inr (h, Streaming prefix rest content_length)
          else try_res (collect_remaining_body prefix rest max_body_bytes) (\<lambda>body.
                 case hp_head hp body of None \<Rightarrow> Inl InvalidJson | Some h' \<Rightarrow> Inr (h', Buffered body)))"

section \<open>Multipart fields\<close>

function utf8_valid :: "bytes \<Rightarrow> bool" where
  "utf8_valid s = (if s = [] then True else case utf8_step s of (n, ok) \<Rightarrow> if ok then utf8_valid (drop n s) else False)"
  by pat_completeness auto
termination
proof (relation "measure length", goal_cases)
  case (2 s n ok)
  then have "0 < n" using utf8_step_pos [of s] by (metis fst_conv)
  then show ?case using 2 by (cases s) auto
qed simp

declare utf8_valid.simps [simp del]

definition crlf :: bytes where "crlf = [CHR 0x0D, CHR 0x0A]"

definition field_needle :: "string \<Rightarrow> bytes" where
  "field_needle field = ''name='' @ [CHR 0x22] @ field @ [CHR 0x22]"

text \<open>The span of a text field's value: after the blank line that follows its name, up to the next delimiter.\<close>

definition multipart_span :: "bytes \<Rightarrow> string \<Rightarrow> (nat \<times> nat) option" where
  "multipart_span body field =
     (case find_sub (field_needle field) body of
        None \<Rightarrow> None
      | Some start \<Rightarrow>
          (case find_sub (crlf @ crlf) (drop start body) of
             None \<Rightarrow> None
           | Some h \<Rightarrow>
               (let after_headers = h + start + 4 in
                map_option (\<lambda>end_rel. (after_headers, after_headers + end_rel)) (find_sub (crlf @ ''--'') (drop after_headers body)))))"

definition extract_multipart_text_field :: "bytes \<Rightarrow> string \<Rightarrow> string option" where
  "extract_multipart_text_field body field =
     (case multipart_span body field of
        None \<Rightarrow> None
      | Some (a, b) \<Rightarrow> (let raw = slice body a b in if utf8_valid raw then Some (trim raw) else None))"

definition rewrite_multipart_text_field :: "bytes \<Rightarrow> string \<Rightarrow> string \<Rightarrow> bytes option" where
  "rewrite_multipart_text_field body field new_value =
     map_option (\<lambda>(a, b). take a body @ new_value @ drop b body) (multipart_span body field)"

section \<open>Provider-specific bodies\<close>

definition is_qwen3_rerank :: "string \<Rightarrow> bool" where
  "is_qwen3_rerank model \<longleftrightarrow> to_ascii_lowercase (trim model) = ''qwen3-rerank''"

definition qwen_rerank_upstream_uri :: "string \<Rightarrow> string" where
  "qwen_rerank_upstream_uri model =
     (if is_qwen3_rerank model then ''/compatible-api/v1/reranks'' else ''/api/v1/services/rerank/text-rerank/text-rerank'')"

definition copy_keys :: "string list \<Rightarrow> json_map \<Rightarrow> json_map \<Rightarrow> json_map" where
  "copy_keys ks m out = foldl (\<lambda>out k. case map_of m k of None \<Rightarrow> out | Some v \<Rightarrow> bt_insert k v out) out ks"

definition rewrite_qwen_rerank_object :: "json_map \<Rightarrow> string \<Rightarrow> json_map option" where
  "rewrite_qwen_rerank_object m provider_model_name =
     (case (map_of m ''query'', map_of m ''documents'') of
        (Some query, Some documents) \<Rightarrow>
          (let flat = map_of_pairs [(''model'', JString provider_model_name)] in
           if is_qwen3_rerank provider_model_name then
             Some (copy_keys [''top_n'', ''instruct''] m (bt_insert ''documents'' documents (bt_insert ''query'' query flat)))
           else
             (let input = map_of_pairs [(''query'', query), (''documents'', documents)];
                  flat1 = bt_insert ''input'' (JObject input) flat;
                  parameters = copy_keys [''top_n'', ''return_documents'', ''instruct'', ''fps''] m []
              in Some (if parameters \<noteq> [] then bt_insert ''parameters'' (JObject parameters) flat1 else flat1)))
      | _ \<Rightarrow> None)"

definition json_proxy_body_needs_rewrite :: "model_route \<Rightarrow> string \<Rightarrow> provider_protocol \<Rightarrow> bool" where
  "json_proxy_body_needs_rewrite route public_model protocol \<longleftrightarrow>
     rt_provider_model_name route \<noteq> public_model \<or> protocol = QwenRerank \<or> protocol = VoyageRerank"

definition voyage_object :: "json_map \<Rightarrow> json_map" where
  "voyage_object m =
     bt_remove ''top_n''
       (case (map_of m ''top_k'', map_of m ''top_n'') of (None, Some top_n) \<Rightarrow> bt_insert ''top_k'' top_n m | _ \<Rightarrow> m)"

definition rewrite_json_proxy_body :: "serde \<Rightarrow> bytes \<Rightarrow> model_route \<Rightarrow> provider_protocol \<Rightarrow> bytes option" where
  "rewrite_json_proxy_body sd body route protocol =
     (case from_slice sd body of
        Inl _ \<Rightarrow> None
      | Inr v \<Rightarrow>
          (case as_object v of
             None \<Rightarrow> None
           | Some m \<Rightarrow>
               (let changed = (get_str m ''model'' \<noteq> Some (rt_provider_model_name route));
                    m1 = (if changed then bt_insert ''model'' (JString (rt_provider_model_name route)) m else m)
                in if protocol = QwenRerank
                   then map_option (\<lambda>o1. to_string sd (JObject o1)) (rewrite_qwen_rerank_object m1 (rt_provider_model_name route))
                   else if protocol = VoyageRerank then Some (to_string sd (JObject (voyage_object m1)))
                   else if changed then Some (to_string sd (JObject m1)) else None)))"

definition estimate_tokens_len :: "usize \<Rightarrow> model_route \<Rightarrow> u64" where
  "estimate_tokens_len body_len route =
     (let ceiling = (\<lambda>c. let q = \<lceil>f64_round (f64_round (of_nat body_len) / c)\<rceil> in if q \<ge> 2 ^ 64 then - 1 else word_of_int q) in
      case rt_chars_per_token route of
        Fin c \<Rightarrow> if c \<le> 0 then 1 else max (ceiling c) 1
      | _ \<Rightarrow> 1)"

end
