(* ===== verification/Handlers.thy ===== *)
theory Handlers
  imports Response Bridge_Request Incoming Auth
begin

text \<open>
  The HTTP handlers of \<open>src/handlers.rs\<close>: a request is authenticated, its body read, its model and route checked, translated or
  rewritten, charged to the budget and counted, and only then forwarded. A check that fails ends in an answer of the router itself. The
  snapshot of the configuration, the clocks and the request id are what the handler reads when the request arrives.
\<close>

section \<open>Answers of the router\<close>

record front_env =
  fe_cfg :: config_snapshot
  fe_max_body_bytes :: usize
  fe_sha256 :: "bytes \<Rightarrow> key_hash"
  fe_parser :: head_parser
  fe_auth_now :: i64
  fe_now_secs :: i64
  fe_now_ms :: u64
  fe_request_id :: string

text \<open>The request id: a timestamp and a process-wide counter in hexadecimal.\<close>

fun hex_lower :: "nat \<Rightarrow> string" where
  "hex_lower n = (if n < 16 then [hex_digit n] else hex_lower (n div 16) @ [hex_digit (n mod 16)])"

declare hex_lower.simps [simp del]

definition generate_request_id :: "nat \<Rightarrow> u64 \<Rightarrow> string" where
  "generate_request_id ts seq = hex_lower ts @ ''-'' @ hex_lower (unat seq)"

definition put_header :: "http_client \<Rightarrow> string \<Rightarrow> string \<Rightarrow> http_response \<Rightarrow> http_response" where
  "put_header hc n v resp = (if hc_value_ok hc v then resp\<lparr>rs_headers := hdr_insert n v (rs_headers resp)\<rparr> else resp)"

definition build_error_mode :: "serde \<Rightarrow> http_client \<Rightarrow> string \<Rightarrow> u16 \<Rightarrow> string \<Rightarrow> bool \<Rightarrow> http_response" where
  "build_error_mode sd hc request_id status message anthropic =
     (let resp = (if anthropic then
                    \<lparr>rs_status = status,
                     rs_headers = [(''content-type'', ''application/json; charset=utf-8''), (''cache-control'', ''no-store'')],
                     rs_body = [anthropic_error_body sd status message]\<rparr>
                  else
                    \<lparr>rs_status = status, rs_headers = [(''content-type'', ''application/json'')],
                     rs_body = [to_string sd (jobj [(''error'', jobj [(''message'', JString message),
                                  (''type'', JString ''invalid_request_error'')])])]\<rparr>);
          resp1 = put_header hc ''x-router-request-id'' request_id resp
      in if anthropic then put_header hc ''request-id'' request_id resp1 else resp1)"

definition build_error :: "serde \<Rightarrow> http_client \<Rightarrow> string \<Rightarrow> u16 \<Rightarrow> string \<Rightarrow> http_response" where
  "build_error sd hc request_id status message = build_error_mode sd hc request_id status message False"

section \<open>Who asks for what\<close>

definition extract_api_key :: "http_client \<Rightarrow> header_map \<Rightarrow> string option" where
  "extract_api_key hc headers =
     (case Option.bind (filter_opt (hc_text_ok hc) (hdr_get headers ''authorization'')) (\<lambda>a. strip_prefix a ''Bearer '') of
        Some stripped \<Rightarrow> Some stripped
      | None \<Rightarrow> filter_opt (hc_text_ok hc) (hdr_get headers ''x-api-key''))"

type_synonym refusal = "u16 \<times> string"

definition authenticate :: "http_client \<Rightarrow> front_env \<Rightarrow> header_map \<Rightarrow> refusal + api_key" where
  "authenticate hc fe headers =
     (case extract_api_key hc headers of
        None \<Rightarrow> Inl (401, ''missing API key'')
      | Some plain \<Rightarrow>
          (case authorize_key (fe_cfg fe) (hash_key (fe_sha256 fe) plain) (fe_auth_now fe) of
             Inl _ \<Rightarrow> Inl (401, ''invalid API key'')
           | Inr key \<Rightarrow> Inr key))"

fun body_refusal :: "body_read_error \<Rightarrow> refusal" where
  "body_refusal BodyTooLarge = (413, ''request body too large'')"
| "body_refusal ReadFailed = (400, ''request body read failed'')"
| "body_refusal InvalidJson = (400, ''invalid JSON'')"

definition or_refuse :: "('e \<Rightarrow> refusal) \<Rightarrow> 'e + 'a \<Rightarrow> refusal + 'a" where
  "or_refuse f r = (case r of Inl e \<Rightarrow> Inl (f e) | Inr x \<Rightarrow> Inr x)"

definition backend_enabled :: "config_snapshot \<Rightarrow> i64 \<Rightarrow> bool" where
  "backend_enabled cfg i = (case hm_get (cs_backends cfg) i of None \<Rightarrow> False | Some b \<Rightarrow> be_enabled b)"

definition any_backend_enabled :: "config_snapshot \<Rightarrow> model_route \<Rightarrow> bool" where
  "any_backend_enabled cfg route \<longleftrightarrow> list_ex (backend_enabled cfg) (rt_backend_ids route)
     \<or> (case rt_fallback_backend_id route of None \<Rightarrow> False | Some i \<Rightarrow> backend_enabled cfg i)"

text \<open>The checks on the model and its route.\<close>

definition select_route :: "config_snapshot \<Rightarrow> api_key \<Rightarrow> string \<Rightarrow> refusal + model_route" where
  "select_route cfg key model =
     (if model = [] then Inl (400, ''model is required'')
      else if \<not> model_allowed key model then Inl (403, ''model not allowed for this key'')
      else case hm_get (cs_routes cfg) model of
        None \<Rightarrow> Inl (404, ''model not configured'')
      | Some route \<Rightarrow> if \<not> rt_enabled route then Inl (403, ''model is disabled'') else Inr route)"

definition live_route :: "config_snapshot \<Rightarrow> api_key \<Rightarrow> string \<Rightarrow> refusal + model_route" where
  "live_route cfg key model =
     try_res (select_route cfg key model) (\<lambda>route.
       if any_backend_enabled cfg route then Inr route else Inl (403, ''model is disabled: no enabled provider backend''))"

definition wrong_endpoint :: "string \<Rightarrow> provider_protocol \<Rightarrow> string" where
  "wrong_endpoint model protocol =
     ''model '' @ quoted model @ '' is a '' @ protocol_label protocol @ '' route (call '' @ incoming_path protocol @ '')''"

definition is_bridge_request :: "model_route \<Rightarrow> provider_protocol \<Rightarrow> string \<Rightarrow> bool" where
  "is_bridge_request route protocol path \<longleftrightarrow>
     path = ''/v1/messages'' \<and> rt_accept_anthropic_messages route \<and> is_openai_chat_family protocol"

definition check_endpoint :: "model_route \<Rightarrow> provider_protocol \<Rightarrow> string \<Rightarrow> string \<Rightarrow> refusal + unit" where
  "check_endpoint route protocol path model =
     (if \<not> is_bridge_request route protocol path \<and> \<not> accepts_incoming_path protocol path then
        Inl (400, if path = ''/v1/messages'' \<and> is_openai_chat_family protocol
                  then ''model '' @ quoted model @ '' does not accept Anthropic Messages; enable '' @
                       quoted ''Also accept Anthropic Messages (Claude CLI)'' @ '' on this route''
                  else wrong_endpoint model protocol)
      else Inr ())"

section \<open>The request to forward\<close>

record plan =
  pl_key :: api_key
  pl_model :: string
  pl_route :: model_route
  pl_protocol :: provider_protocol
  pl_stream :: bool
  pl_stream_options_present :: bool
  pl_rewrite_model_in_proxy :: bool
  pl_bridge :: "bridge_context option"
  pl_est_tokens :: u64
  pl_request :: client_request
  pl_body :: proxy_request_body

definition allow_streaming_upload :: "model_route \<Rightarrow> provider_protocol \<Rightarrow> string \<Rightarrow> string \<Rightarrow> bool" where
  "allow_streaming_upload route protocol path model \<longleftrightarrow>
     \<not> is_bridge_request route protocol path \<and> length (rt_backend_ids route) = 1 \<and> rt_fallback_backend_id route = None
     \<and> rt_endpoints route = [] \<and> \<not> json_proxy_body_needs_rewrite route model protocol \<and> protocol \<noteq> SystemOne"

text \<open>The bridge: the translated body, the upstream's path, and no Anthropic headers.\<close>

definition bridge_stage ::
  "serde \<Rightarrow> front_env \<Rightarrow> model_route \<Rightarrow> string \<Rightarrow> u64 \<Rightarrow> client_request \<Rightarrow> proxy_request_body
   \<Rightarrow> refusal + (u64 \<times> client_request \<times> proxy_request_body \<times> bridge_context)" where
  "bridge_stage sd fe route model est cq body =
     (case body of
        Streaming _ _ _ \<Rightarrow> Inl (400, ''Claude bridge requires a buffered request body'')
      | Buffered original \<Rightarrow>
          try_res (or_refuse (\<lambda>e. (bridge_error_status e, bridge_error_message e)) (anthropic_to_openai sd original model)) (\<lambda>translated.
          let est' = (case estimate_input_tokens sd original (rt_chars_per_token route) of Inl _ \<Rightarrow> est | Inr n \<Rightarrow> n) in
          Inr (est',
               cq\<lparr>cq_path_and_query := ''/v1/chat/completions'',
                  cq_headers := filter (\<lambda>(k, _). \<not> starts_with k ''anthropic-'') (cq_headers cq)\<rparr>,
               Buffered translated,
               \<lparr>bc_public_model = model, bc_request_id = fe_request_id fe, bc_estimated_input_tokens = est'\<rparr>)))"

definition translate_stage ::
  "serde \<Rightarrow> front_env \<Rightarrow> model_route \<Rightarrow> string \<Rightarrow> bool \<Rightarrow> u64 \<Rightarrow> client_request \<Rightarrow> proxy_request_body
   \<Rightarrow> refusal + (u64 \<times> client_request \<times> proxy_request_body \<times> bridge_context option)" where
  "translate_stage sd fe route model bridging est cq body =
     (if bridging then try_res (bridge_stage sd fe route model est cq body) (\<lambda>(e, q, b, c). Inr (e, q, b, Some c))
      else Inr (est, cq, body, None))"

definition rewrite_stage ::
  "serde \<Rightarrow> model_route \<Rightarrow> provider_protocol \<Rightarrow> string \<Rightarrow> proxy_request_body \<Rightarrow> refusal + proxy_request_body" where
  "rewrite_stage sd route protocol model body =
     (case body of
        Buffered b \<Rightarrow>
          if rt_endpoints route = [] \<and> json_proxy_body_needs_rewrite route model protocol
          then (case rewrite_json_proxy_body sd b route protocol of
                  Some b' \<Rightarrow> Inr (Buffered b')
                | None \<Rightarrow> Inl (400, ''could not rewrite adapter request body''))
          else Inr body
      | Streaming _ _ _ \<Rightarrow>
          if rt_endpoints route \<noteq> [] \<or> rt_provider_model_name route \<noteq> model \<or> protocol \<in> {VoyageRerank, QwenRerank, SystemOne}
          then Inl (400, ''streaming upload requires no model or adapter body rewrite'') else Inr body)"

definition upstream_path :: "provider_protocol \<Rightarrow> model_route \<Rightarrow> client_request \<Rightarrow> client_request" where
  "upstream_path protocol route cq =
     (if protocol = QwenRerank then cq\<lparr>cq_path_and_query := qwen_rerank_upstream_uri (rt_provider_model_name route)\<rparr> else cq)"

definition plan_generate ::
  "serde \<Rightarrow> http_client \<Rightarrow> front_env \<Rightarrow> client_request \<Rightarrow> stream_item list \<Rightarrow> string \<Rightarrow> refusal + plan" where
  "plan_generate sd hc fe cq body path =
     try_res (authenticate hc fe (cq_headers cq)) (\<lambda>key.
     try_res (or_refuse body_refusal (read_incoming_body (fe_parser fe) body (fe_max_body_bytes fe)
                (parse_content_length hc (cq_headers cq)))) (\<lambda>incoming.
     let model = rh_model (incoming_head incoming) in
     try_res (live_route (fe_cfg fe) key model) (\<lambda>route.
     let protocol = protocol_parse (rt_protocol route); bridging = is_bridge_request route protocol path in
     try_res (check_endpoint route protocol path model) (\<lambda>_.
     let est = estimate_tokens_len (incoming_len incoming) route in
     try_res (or_refuse body_refusal (into_proxy_body (fe_parser fe) incoming (allow_streaming_upload route protocol path model)
                (fe_max_body_bytes fe))) (\<lambda>(head, body1).
     try_res (translate_stage sd fe route model bridging est cq body1) (\<lambda>(est1, cq1, body2, bridge).
     try_res (rewrite_stage sd route protocol model body2) (\<lambda>body3.
     Inr \<lparr>pl_key = key, pl_model = model, pl_route = route, pl_protocol = protocol, pl_stream = rh_stream head,
          pl_stream_options_present = (rh_stream_options_present head \<or> bridging),
          pl_rewrite_model_in_proxy = (rt_endpoints route \<noteq> []), pl_bridge = bridge, pl_est_tokens = est1,
          pl_request = upstream_path protocol route cq1, pl_body = body3\<rparr>)))))))"

definition plan_multipart ::
  "http_client \<Rightarrow> front_env \<Rightarrow> client_request \<Rightarrow> stream_item list \<Rightarrow> string \<Rightarrow> refusal + plan" where
  "plan_multipart hc fe cq body path =
     try_res (authenticate hc fe (cq_headers cq)) (\<lambda>key.
     if (case parse_content_length hc (cq_headers cq) of None \<Rightarrow> False | Some len \<Rightarrow> unat len > fe_max_body_bytes fe)
     then Inl (413, ''request body too large'') else
     try_res (or_refuse body_refusal (collect_remaining_body [] body (fe_max_body_bytes fe))) (\<lambda>whole.
     case extract_multipart_text_field whole ''model'' of
       None \<Rightarrow> Inl (400, ''model is required'')
     | Some model_name \<Rightarrow>
         (let model = trim model_name in
          try_res (live_route (fe_cfg fe) key model) (\<lambda>route.
          let protocol = protocol_parse (rt_protocol route) in
          if \<not> accepts_incoming_path protocol path then Inl (400, wrong_endpoint model protocol) else
          try_res (if rt_provider_model_name route \<noteq> model
                   then ok_or (400, ''could not rewrite multipart model field'')
                          (rewrite_multipart_text_field whole ''model'' (rt_provider_model_name route))
                   else Inr whole) (\<lambda>body1.
          Inr \<lparr>pl_key = key, pl_model = model, pl_route = route, pl_protocol = protocol, pl_stream = False,
               pl_stream_options_present = True, pl_rewrite_model_in_proxy = False, pl_bridge = None,
               pl_est_tokens = estimate_tokens_len (length body1) route, pl_request = cq, pl_body = Buffered body1\<rparr>)))))"

section \<open>Charging and forwarding\<close>

definition context_of :: "front_env \<Rightarrow> bool \<Rightarrow> plan \<Rightarrow> budget_reservation \<Rightarrow> concurrency_guard \<Rightarrow> proxy_context" where
  "context_of fe anthropic p reservation concurrency =
     \<lparr>pc_api_key = pl_key p, pc_model_name = pl_model p, pc_route = pl_route p, pc_request_id = fe_request_id fe,
      pc_stream = pl_stream p, pc_stream_options_present = pl_stream_options_present p, pc_protocol = pl_protocol p,
      pc_rewrite_model_in_proxy = pl_rewrite_model_in_proxy p, pc_bridge = pl_bridge p,
      pc_response_dialect = (if anthropic then DialectAnthropic else DialectOpenAi),
      pc_reservation = Some reservation, pc_concurrency = Some concurrency, pc_estimated_input_tokens = pl_est_tokens p\<rparr>"

text \<open>A refused guard drops the reservation.\<close>

definition charge ::
  "serde \<Rightarrow> http_client \<Rightarrow> front_env \<Rightarrow> bool \<Rightarrow> plan \<Rightarrow> app_state \<Rightarrow> app_state \<times> (http_response + proxy_context)" where
  "charge sd hc fe anthropic p st =
     (let refuse = build_error_mode sd hc (fe_request_id fe) 429 in
      case reserve (as_store st) (pl_key p) (pl_model p) (pl_est_tokens p) (fe_now_secs fe) (fe_now_ms fe) of
        (s1, Inl (BudgetExceeded _)) \<Rightarrow> (st\<lparr>as_store := s1\<rparr>, Inl (refuse ''budget exceeded'' anthropic))
      | (s1, Inl (RateLimited d)) \<Rightarrow>
          (st\<lparr>as_store := s1\<rparr>, Inl (put_header hc ''retry-after'' (retry_after_header d) (refuse ''rate limited'' anthropic)))
      | (s1, Inr reservation) \<Rightarrow>
          (case acquire_concurrency s1 (pl_key p) of
             (s2, None) \<Rightarrow> (st\<lparr>as_store := reservation_drop s2 reservation\<rparr>, Inl (refuse ''concurrency limit reached'' anthropic))
           | (s2, Some guard) \<Rightarrow> (st\<lparr>as_store := s2\<rparr>, Inr (context_of fe anthropic p reservation guard))))"

text \<open>The request, its body and its context, or the answer of the router.\<close>

definition admit ::
  "serde \<Rightarrow> http_client \<Rightarrow> front_env \<Rightarrow> bool \<Rightarrow> refusal + plan \<Rightarrow> app_state
   \<Rightarrow> app_state \<times> (http_response + (client_request \<times> proxy_request_body \<times> proxy_context))" where
  "admit sd hc fe anthropic planned st =
     (case planned of
        Inl (status, message) \<Rightarrow> (st, Inl (build_error_mode sd hc (fe_request_id fe) status message anthropic))
      | Inr p \<Rightarrow>
          (case charge sd hc fe anthropic p st of
             (st', Inl resp) \<Rightarrow> (st', Inl resp)
           | (st', Inr ctx) \<Rightarrow> (st', Inr (pl_request p, pl_body p, ctx))))"

definition respond ::
  "serde \<Rightarrow> http_client \<Rightarrow> (nat \<Rightarrow> attempt_env) \<Rightarrow> clocks \<Rightarrow> (nat \<Rightarrow> bool)
   \<Rightarrow> app_state \<times> (http_response + (client_request \<times> proxy_request_body \<times> proxy_context)) \<Rightarrow> app_state \<times> http_response" where
  "respond sd hc env clk takes r =
     (case r of
        (st, Inl resp) \<Rightarrow> (st, resp)
      | (st, Inr (cq, body, ctx)) \<Rightarrow> serve sd hc env clk takes st cq body ctx)"

definition handle_generate ::
  "serde \<Rightarrow> http_client \<Rightarrow> (nat \<Rightarrow> attempt_env) \<Rightarrow> clocks \<Rightarrow> (nat \<Rightarrow> bool) \<Rightarrow> front_env \<Rightarrow> app_state \<Rightarrow> client_request
   \<Rightarrow> stream_item list \<Rightarrow> string \<Rightarrow> app_state \<times> http_response" where
  "handle_generate sd hc env clk takes fe st cq body path =
     respond sd hc env clk takes (admit sd hc fe (path = ''/v1/messages'') (plan_generate sd hc fe cq body path) st)"

definition handle_multipart_adapter ::
  "serde \<Rightarrow> http_client \<Rightarrow> (nat \<Rightarrow> attempt_env) \<Rightarrow> clocks \<Rightarrow> (nat \<Rightarrow> bool) \<Rightarrow> front_env \<Rightarrow> app_state \<Rightarrow> client_request
   \<Rightarrow> stream_item list \<Rightarrow> string \<Rightarrow> app_state \<times> http_response" where
  "handle_multipart_adapter sd hc env clk takes fe st cq body path =
     respond sd hc env clk takes (admit sd hc fe False (plan_multipart hc fe cq body path) st)"

section \<open>Endpoints that are answered locally\<close>

definition count_tokens_stage ::
  "serde \<Rightarrow> http_client \<Rightarrow> front_env \<Rightarrow> client_request \<Rightarrow> stream_item list \<Rightarrow> refusal + u64" where
  "count_tokens_stage sd hc fe cq body =
     try_res (authenticate hc fe (cq_headers cq)) (\<lambda>key.
     if (case parse_content_length hc (cq_headers cq) of None \<Rightarrow> False | Some len \<Rightarrow> unat len > fe_max_body_bytes fe)
     then Inl (413, ''request body too large'') else
     try_res (or_refuse body_refusal (collect_remaining_body [] body (fe_max_body_bytes fe))) (\<lambda>whole.
     try_res (ok_or (400, ''invalid JSON'') (hp_head (fe_parser fe) whole)) (\<lambda>head.
     let model = rh_model head in
     try_res (select_route (fe_cfg fe) key model) (\<lambda>route.
     let protocol = protocol_parse (rt_protocol route) in
     if \<not> (protocol = AnthropicMessages \<or> rt_accept_anthropic_messages route \<and> is_openai_chat_family protocol)
     then Inl (400, ''model '' @ quoted model @ '' does not accept Anthropic Messages'')
     else or_refuse (\<lambda>e. (400, bridge_error_message e)) (estimate_input_tokens sd whole (rt_chars_per_token route))))))"

definition messages_count_tokens ::
  "serde \<Rightarrow> http_client \<Rightarrow> front_env \<Rightarrow> client_request \<Rightarrow> stream_item list \<Rightarrow> http_response" where
  "messages_count_tokens sd hc fe cq body =
     (case count_tokens_stage sd hc fe cq body of
        Inl (status, message) \<Rightarrow> build_error_mode sd hc (fe_request_id fe) status message True
      | Inr n \<Rightarrow>
          put_header hc ''request-id'' (fe_request_id fe) (put_header hc ''x-router-request-id'' (fe_request_id fe)
            \<lparr>rs_status = 200, rs_headers = [(''content-type'', ''application/json'')],
             rs_body = [to_string sd (jobj [(''input_tokens'', jnum n)])]\<rparr>))"

definition models :: "serde \<Rightarrow> config_snapshot \<Rightarrow> http_response" where
  "models sd cfg =
     \<lparr>rs_status = 200, rs_headers = [(''content-type'', ''application/json'')],
      rs_body = [to_string sd (jobj [(''object'', JString ''list''),
        (''data'', JArray (map (\<lambda>(m, _). jobj [(''id'', JString m), (''object'', JString ''model'')]) (cs_routes cfg)))])]\<rparr>"

definition readiness_status :: "u64 \<Rightarrow> u64 \<Rightarrow> u64 \<Rightarrow> u64 \<Rightarrow> u16" where
  "readiness_status ok err stale_ms now =
     (let stale = (ok = 0 \<or> sat_sub now ok > stale_ms) in if stale \<or> err > ok then 503 else 200)"

definition readyz :: "u64 \<Rightarrow> u64 \<Rightarrow> u64 \<Rightarrow> u64 \<Rightarrow> u16 \<times> string" where
  "readyz config_ok_at config_err_at readiness_max_stale_ms now =
     (if readiness_status config_ok_at config_err_at readiness_max_stale_ms now = 200 then (200, ''ready'') else (503, ''not ready''))"

definition portal_response :: "bytes \<Rightarrow> http_response" where
  "portal_response body =
     \<lparr>rs_status = 200,
      rs_headers = [(''content-type'', ''text/html; charset=utf-8''), (''cache-control'', ''no-store''),
        (''x-content-type-options'', ''nosniff''), (''referrer-policy'', ''no-referrer''), (''x-frame-options'', ''DENY''),
        (''strict-transport-security'', ''max-age=31536000''),
        (''content-security-policy'',
          ''default-src '' @ quoted ''self'' @ ''; img-src '' @ quoted ''self'' @ '' data:; style-src '' @ quoted ''self'' @ '' '' @
          quoted ''unsafe-inline'' @ ''; script-src '' @ quoted ''self'' @ '' '' @ quoted ''unsafe-inline'' @ ''; connect-src '' @
          quoted ''self'' @ ''; font-src '' @ quoted ''self'' @ ''; frame-ancestors '' @ quoted ''none'' @ ''; base-uri '' @
          quoted ''none'' @ ''; form-action '' @ quoted ''none'')],
      rs_body = [body]\<rparr>"

section \<open>The table of endpoints\<close>

datatype endpoint =
  Generate string
| MultipartAdapter string
| CountTokens
| ListModels
| Metrics
| Healthz
| Readyz
| Portal

text \<open>Requests under the two nested prefixes go to the services of the control plane. A known path with another method is refused.\<close>

datatype dispatch = Serve endpoint | AdminService | UserService | MethodNotAllowed | NotFound

definition post_routes :: "(string \<times> endpoint) list" where
  "post_routes =
     map (\<lambda>path. (path, Generate path))
       [''/v1/chat/completions'', ''/v1/responses'', ''/v1/completions'', ''/v1/embeddings'', ''/v1/rerank'', ''/v1/systemone'',
        ''/v1/decisions'', ''/v1/messages'']
     @ [(''/v1/audio/transcriptions'', MultipartAdapter ''/v1/audio/transcriptions''), (''/v1/messages/count_tokens'', CountTokens)]"

definition get_routes :: "(string \<times> endpoint) list" where
  "get_routes = [(''/v1/models'', ListModels), (''/metrics'', Metrics), (''/healthz'', Healthz), (''/readyz'', Readyz), (''/'', Portal)]"

definition under :: "string \<Rightarrow> string \<Rightarrow> bool" where
  "under prefix path \<longleftrightarrow> path = prefix \<or> starts_with path (prefix @ ''/'')"

definition router :: "string \<Rightarrow> string \<Rightarrow> dispatch" where
  "router http_method path =
     (case map_of post_routes path of
        Some e \<Rightarrow> if http_method = ''POST'' then Serve e else MethodNotAllowed
      | None \<Rightarrow>
          (case map_of get_routes path of
             Some e \<Rightarrow> if http_method = ''GET'' \<or> http_method = ''HEAD'' then Serve e else MethodNotAllowed
           | None \<Rightarrow> if under ''/admin'' path then AdminService else if under ''/portal'' path then UserService else NotFound))"

abbreviation proxy_paths :: "string set" where
  "proxy_paths \<equiv> fst ` set post_routes - {''/v1/messages/count_tokens''}"

lemma accepted_paths: "(\<exists>p. accepts_incoming_path p path) \<longleftrightarrow> path \<in> proxy_paths"
proof
  assume "\<exists>p. accepts_incoming_path p path"
  then obtain p where "accepts_incoming_path p path" by blast
  then show "path \<in> proxy_paths" by (cases p) (auto simp: accepts_incoming_path_def post_routes_def)
next
  assume "path \<in> proxy_paths"
  moreover have "proxy_paths = insert ''/v1/decisions'' (incoming_path ` {OpenAiChat, OpenAiResponses, OpenAiCompletions, OpenAiEmbeddings,
      OpenAiRerank, OpenAiAudioTranscriptions, SystemOne, AnthropicMessages})"
    by code_simp
  ultimately have "path = ''/v1/decisions'' \<or> (\<exists>p. path = incoming_path p)" by (simp only: insert_iff image_iff) blast
  then show "\<exists>p. accepts_incoming_path p path" unfolding accepts_incoming_path_def by blast
qed

lemma post_served:
  "router ''POST'' path = Serve e \<longleftrightarrow>
     path = ''/v1/messages/count_tokens'' \<and> e = CountTokens
     \<or> path \<in> proxy_paths \<and> e = (if path = ''/v1/audio/transcriptions'' then MultipartAdapter path else Generate path)"
proof (cases "map_of post_routes path")
  case None
  then have "path \<notin> fst ` set post_routes" by (simp add: map_of_eq_None_iff)
  moreover have "''/v1/messages/count_tokens'' \<in> fst ` set post_routes" by (simp add: post_routes_def)
  ultimately have "path \<notin> proxy_paths" "path \<noteq> ''/v1/messages/count_tokens''" by auto
  then show ?thesis using None by (simp add: router_def split: option.split)
next
  case (Some e')
  then have "(path, e') \<in> set post_routes" by (rule map_of_SomeD)
  then have "path = ''/v1/messages/count_tokens'' \<and> e' = CountTokens
     \<or> path \<in> proxy_paths \<and> e' = (if path = ''/v1/audio/transcriptions'' then MultipartAdapter path else Generate path)"
    by (simp add: post_routes_def) (elim disjE conjE, simp_all)
  moreover have "router ''POST'' path = Serve e'" by (simp add: router_def Some)
  moreover have "path \<notin> proxy_paths" if "path = ''/v1/messages/count_tokens''" using that by simp
  ultimately show ?thesis by (simp only: dispatch.inject) blast
qed

text \<open>
  The endpoints and the protocols agree. A path is served by one of the two proxying handlers exactly when some provider protocol
  accepts it, the handler gets that path, and only audio transcriptions go to the multipart handler.
\<close>

theorem endpoints_match_protocols:
  "((\<exists>p. accepts_incoming_path p path)
     \<longleftrightarrow> (\<exists>e. router ''POST'' path = Serve e \<and> e \<in> {Generate path, MultipartAdapter path}))
   \<and> (router ''POST'' path = Serve (MultipartAdapter path') \<longleftrightarrow> path = path' \<and> accepts_incoming_path OpenAiAudioTranscriptions path)"
proof
  show "(\<exists>p. accepts_incoming_path p path)
     \<longleftrightarrow> (\<exists>e. router ''POST'' path = Serve e \<and> e \<in> {Generate path, MultipartAdapter path})"
    unfolding accepted_paths post_served by auto
  have "''/v1/audio/transcriptions'' \<in> proxy_paths" by (simp add: post_routes_def)
  then show "router ''POST'' path = Serve (MultipartAdapter path') \<longleftrightarrow> path = path' \<and> accepts_incoming_path OpenAiAudioTranscriptions path"
    unfolding post_served by (auto simp: accepts_incoming_path_def)
qed

section \<open>What admission means\<close>

text \<open>The conditions under which a plan exists, stated over the snapshot.\<close>

definition entitled :: "http_client \<Rightarrow> front_env \<Rightarrow> client_request \<Rightarrow> api_key \<Rightarrow> string \<Rightarrow> model_route \<Rightarrow> bool" where
  "entitled hc fe cq key model route \<longleftrightarrow>
     (\<exists>plain. extract_api_key hc (cq_headers cq) = Some plain
        \<and> key_live (fe_cfg fe) (hash_key (fe_sha256 fe) plain) (fe_auth_now fe) key)
     \<and> model \<noteq> [] \<and> model_allowed key model
     \<and> hm_get (cs_routes (fe_cfg fe)) model = Some route \<and> rt_enabled route \<and> any_backend_enabled (fe_cfg fe) route"

lemma authenticate_Inr:
  "authenticate hc fe headers = Inr key \<longleftrightarrow> (\<exists>plain. extract_api_key hc headers = Some plain
     \<and> key_live (fe_cfg fe) (hash_key (fe_sha256 fe) plain) (fe_auth_now fe) key)"
  by (auto simp: authenticate_def authorize_key_iff [symmetric] split: option.splits sum.splits)

lemma live_route_Inr:
  "live_route cfg key model = Inr route \<longleftrightarrow> model \<noteq> [] \<and> model_allowed key model
     \<and> hm_get (cs_routes cfg) model = Some route \<and> rt_enabled route \<and> any_backend_enabled cfg route"
  by (auto simp: live_route_def select_route_def try_res_Inr_iff split: if_splits option.splits)

lemma or_refuse_Inr [simp]: "or_refuse f r = Inr x \<longleftrightarrow> r = Inr x"
  by (auto simp: or_refuse_def split: sum.splits)

lemma check_endpoint_Inr [simp]:
  "check_endpoint route protocol path model = Inr u \<longleftrightarrow> is_bridge_request route protocol path \<or> accepts_incoming_path protocol path"
  by (auto simp: check_endpoint_def)

lemma translate_stage_bridge: "translate_stage sd fe route model bridging est cq body = Inr (e, q, b, c) \<Longrightarrow> c \<noteq> None \<longleftrightarrow> bridging"
  by (auto simp: translate_stage_def try_res_Inr_iff split: if_splits)

lemma plan_generate_entitled:
  assumes "plan_generate sd hc fe cq body path = Inr p"
  shows "entitled hc fe cq (pl_key p) (pl_model p) (pl_route p) \<and> pl_protocol p = protocol_parse (rt_protocol (pl_route p))
    \<and> (is_bridge_request (pl_route p) (pl_protocol p) path \<or> accepts_incoming_path (pl_protocol p) path)
    \<and> (pl_bridge p \<noteq> None \<longleftrightarrow> is_bridge_request (pl_route p) (pl_protocol p) path)"
  using assms unfolding plan_generate_def
  by (auto simp: try_res_Inr_iff Let_def authenticate_Inr live_route_Inr entitled_def dest!: translate_stage_bridge)

lemma plan_multipart_entitled:
  assumes "plan_multipart hc fe cq body path = Inr p"
  shows "entitled hc fe cq (pl_key p) (pl_model p) (pl_route p) \<and> pl_protocol p = protocol_parse (rt_protocol (pl_route p))
    \<and> accepts_incoming_path (pl_protocol p) path \<and> pl_bridge p = None"
  using assms
  by (auto simp: plan_multipart_def try_res_Inr_iff Let_def authenticate_Inr live_route_Inr entitled_def split: if_splits option.splits)

end
