(* ===== verification/Lifecycle.thy ===== *)
theory Lifecycle
  imports Handlers
begin

text \<open>
  A request from its arrival to its last byte, through the handlers, the budget, the proxy and the reporter: who is admitted, what
  a refusal leaves behind, and that slots, leases and charges balance.
\<close>

section \<open>Slots\<close>

definition slots_used :: "ram_budget_store \<Rightarrow> i64 \<Rightarrow> u64" where
  "slots_used s k = unwrap_or 0 (hm_get (st_inflight s) k)"

lemma hm_entry_lookup: "unwrap_or 0 (hm_get (hm_entry_or k 0 m) j) = unwrap_or 0 (hm_get m j)"
  by (auto simp: hm_entry_or_def split: option.splits)

lemma acquire_slot:
  assumes "acquire_concurrency s key = (s', r)"
  shows "current_usage_key s' = current_usage_key s" "usage_tracked s' = usage_tracked s"
    and "r = None \<Longrightarrow> slots_used s' = slots_used s"
    and "r = Some g \<Longrightarrow> st_inflight s2 = st_inflight s' \<Longrightarrow> slots_used (guard_drop s2 g) = slots_used s"
proof -
  show "current_usage_key s' = current_usage_key s" "usage_tracked s' = usage_tracked s"
    using assms by (auto simp: acquire_concurrency_def Let_def current_usage_key_def usage_tracked_def fun_eq_iff
        split: option.splits if_splits)
  show "slots_used s' = slots_used s" if "r = None"
    using assms that by (auto simp: acquire_concurrency_def Let_def slots_used_def hm_entry_lookup fun_eq_iff split: option.splits if_splits)
  show "slots_used (guard_drop s2 g) = slots_used s" if "r = Some g" "st_inflight s2 = st_inflight s'"
  proof (cases "ak_concurrency_limit key = None \<or> ak_concurrency_limit key = Some 0")
    case True
    then show ?thesis using assms that
      by (auto simp: acquire_concurrency_def guard_drop_def slots_used_def fun_eq_iff)
  next
    case False
    then obtain limit where l: "ak_concurrency_limit key = Some limit" "limit \<noteq> 0" by auto
    let ?infl = "hm_entry_or (ak_id key) 0 (st_inflight s)"
    let ?c = "unwrap_or 0 (hm_get ?infl (ak_id key))"
    have c: "?c < ucast limit" and s': "st_inflight s' = hm_insert (ak_id key) (?c + 1) ?infl" and g: "g = \<lparr>cg_key_id = Some (ak_id key)\<rparr>"
      using assms that(1) l by (auto simp: acquire_concurrency_def Let_def not_le split: if_splits)
    have "unat ?c + unat (1 :: u64) < 2 ^ LENGTH(64)"
      using c unsigned_less [where 'a = nat, of "ucast limit :: u64"] by (simp add: word_less_nat_alt)
    then have "sat_sub (?c + 1) 1 = ?c" by (rule sat_sub_of_add)
    then show ?thesis
      using that(2) by (auto simp: g guard_drop_def release_concurrency_id_def s' slots_used_def fun_eq_iff hm_entry_lookup)
  qed
qed

lemma commit_inflight [simp]: "st_inflight (reservation_commit s res actual) = st_inflight s"
proof -
  have "st_inflight (commit_scopes s rs actual) = st_inflight s" for rs
    unfolding commit_scopes_def by (induction rs arbitrary: s) (simp_all add: usage_add_def split: option.split)
  then show ?thesis by (simp add: reservation_commit_def reservation_drop_def Let_def)
qed

lemma drop_inflight [simp]: "st_inflight (reservation_drop s res) = st_inflight s"
  by (simp add: reservation_drop_def)

lemma usage_guard_drop [simp]: "current_usage_key (guard_drop s g) = current_usage_key s" "usage_tracked (guard_drop s g) = usage_tracked s"
  by (auto simp: guard_drop_def release_concurrency_id_def current_usage_key_def usage_tracked_def fun_eq_iff split: option.splits)

section \<open>Every response completes its request\<close>

lemma plain_response_completes: "\<exists>c. fst (forward_plain_response sd clk takes resp fmt st r) = complete clk c st r"
  unfolding forward_plain_response_def Let_def by (auto split: prod.split sum.split)

lemma bridged_body_completes: "\<exists>c. fst (forward_bridged_body sd hc clk resp bridge st r) = complete clk c st r"
  unfolding forward_bridged_body_def Let_def by (auto split: prod.split sum.split)

lemma backend_response_completes: "\<exists>c. fst (forward_backend_response sd hc clk takes resp fmt bridge st r) = complete clk c st r"
  using plain_response_completes bridged_body_completes
  unfolding forward_backend_response_def forward_bridge_response_def Let_def by (auto split: option.split prod.split)

lemma complete_parts:
  assumes "\<not> cr_finished r" and "cr_reservation r = Some res" and "cr_concurrency r = Some g"
    and ev_def: "ev = usage_event_of r clk (charge_estimate r c)"
  shows "as_store (complete clk c st r)
      = guard_drop (reservation_commit (as_store st) res (sat_add (ev_input_tokens ev) (ev_output_tokens ev))) g"
    and "as_pool (complete clk c st r) = lease_drop (as_pool st) (cr_lease r)"
    and "as_ledger (complete clk c st r) = try_record (as_ledger st) ev"
  using assms(1-3)
  by (simp_all add: complete_def reporter_drop_def abort_unfinished_def reporter_finish_def emit_def drop_guard_def ev_def usage_event_of_def Let_def)

section \<open>Refusals\<close>

definition refuses :: "u16 set \<Rightarrow> refusal + 'a \<Rightarrow> bool" where
  "refuses S r \<longleftrightarrow> (\<forall>e. r = Inl e \<longrightarrow> fst e \<in> S)"

named_theorems refuses_intros

lemma refuses_Inr [refuses_intros]: "refuses S (Inr x)" by (simp add: refuses_def)
lemma refuses_Inl [refuses_intros]: "s \<in> S \<Longrightarrow> refuses S (Inl (s, msg))" by (simp add: refuses_def)
lemma refuses_try [refuses_intros]: "refuses S r \<Longrightarrow> (\<And>x. refuses S (f x)) \<Longrightarrow> refuses S (try_res r f)"
  by (cases r) (auto simp: refuses_def)
lemma refuses_if [refuses_intros]: "refuses S a \<Longrightarrow> refuses S b \<Longrightarrow> refuses S (if c then a else b)"
  by simp
lemma refuses_option [refuses_intros]: "refuses S a \<Longrightarrow> (\<And>x. refuses S (f x)) \<Longrightarrow> refuses S (case x of None \<Rightarrow> a | Some x \<Rightarrow> f x)"
  by (cases x) simp_all
lemma refuses_prod [refuses_intros]: "(\<And>a b. refuses S (f a b)) \<Longrightarrow> refuses S (case p of (a, b) \<Rightarrow> f a b)"
  by (cases p) simp
lemma refuses_body [refuses_intros]: "400 \<in> S \<Longrightarrow> 413 \<in> S \<Longrightarrow> refuses S (or_refuse body_refusal r)"
proof (cases r)
  case (Inl e)
  then show "400 \<in> S \<Longrightarrow> 413 \<in> S \<Longrightarrow> ?thesis" by (cases e) (simp_all add: refuses_def or_refuse_def)
qed (simp add: refuses_def or_refuse_def)
lemma refuses_ok_or [refuses_intros]: "s \<in> S \<Longrightarrow> refuses S (ok_or (s, msg) x)"
  by (cases x) (auto simp: refuses_def)

lemma refuses_authenticate [refuses_intros]: "401 \<in> S \<Longrightarrow> refuses S (authenticate hc fe headers)"
  by (auto simp: authenticate_def refuses_def split: option.splits sum.splits)

lemma refuses_route [refuses_intros]: "{400, 403, 404} \<subseteq> S \<Longrightarrow> refuses S (live_route cfg key model)"
  unfolding live_route_def select_route_def by (intro refuses_intros) auto

lemma refuses_bridge [refuses_intros]: "400 \<in> S \<Longrightarrow> refuses S (bridge_stage sd fe route model est cq body)"
proof -
  have "bridge_error_status e = 400" if "anthropic_to_openai sd original model = Inl e" for e original
    using that client_anthropic [of sd original model] by (simp add: client_error_def)
  then show "400 \<in> S \<Longrightarrow> refuses S (bridge_stage sd fe route model est cq body)"
    by (auto simp: bridge_stage_def refuses_def or_refuse_def try_res_Inl_iff Let_def split: proxy_request_body.splits sum.splits)
qed

lemma refuses_rewrite [refuses_intros]: "400 \<in> S \<Longrightarrow> refuses S (rewrite_stage sd route protocol model body)"
  by (auto simp: rewrite_stage_def refuses_def split: proxy_request_body.splits option.splits if_splits)

lemma refuses_generate: "refuses {400, 401, 403, 404, 413} (plan_generate sd hc fe cq body path)"
  unfolding plan_generate_def translate_stage_def check_endpoint_def Let_def by (intro refuses_intros) auto

lemma refuses_multipart: "refuses {400, 401, 403, 404, 413} (plan_multipart hc fe cq body path)"
  unfolding plan_multipart_def Let_def by (intro refuses_intros) auto

section \<open>Admission\<close>

lemma build_error_status [simp]: "rs_status (build_error_mode sd hc rid status msg anthropic) = status"
  "rs_status (put_header hc n v resp) = rs_status resp"
  by (simp_all add: build_error_mode_def put_header_def Let_def)

lemma charge_refused:
  assumes "charge sd hc fe anthropic p st = (st', Inl resp)"
  shows "rs_status resp = 429 \<and> st' = st\<lparr>as_store := as_store st'\<rparr>
    \<and> current_usage_key (as_store st') = current_usage_key (as_store st) \<and> slots_used (as_store st') = slots_used (as_store st)"
proof -
  obtain s1 r where r: "reserve (as_store st) (pl_key p) (pl_model p) (pl_est_tokens p) (fe_now_secs fe) (fe_now_ms fe) = (s1, r)"
    by force
  have frame: "st_inflight s1 = st_inflight (as_store st)" using r by (rule reserve_inflight)
  show ?thesis
    using r
  proof (cases rule: reserve_cases)
    case (ok rs)
    obtain s2 g where a: "acquire_concurrency s1 (pl_key p) = (s2, g)" by force
    then have g: "g = None" and st': "st' = st\<lparr>as_store := reservation_drop s2 \<lparr>br_scopes = rs, br_consumed = False\<rparr>\<rparr>" "rs_status resp = 429"
      using assms r ok by (auto simp: charge_def Let_def split: option.splits)
    have "reserved_as (as_store st) s2 (charged_scopes (as_store st) (pl_key p) (pl_model p) (fe_now_secs fe)) (pl_est_tokens p) rs"
      using reserved_as_cong [OF ok(2)] acquire_slot(1,2) [OF a] by simp
    then have "current_usage_key (rollback_scopes s2 rs) = current_usage_key (as_store st)"
      by (rule rollback_reserved [OF _ charged_distinct])
    then show ?thesis using st' acquire_slot(3) [OF a g] frame
      by (simp add: reservation_drop_def slots_used_def fun_eq_iff)
  next
    case (budget rem)
    then show ?thesis using assms r frame
      by (auto simp: charge_def Let_def rejected_as_def slots_used_def fun_eq_iff)
  next
    case (rate d)
    then show ?thesis using assms r frame by (auto simp: charge_def Let_def slots_used_def fun_eq_iff)
  qed
qed

lemma charge_admitted:
  assumes "charge sd hc fe anthropic p st = (st', Inr ctx)"
  obtains s1 res g where
    "reserve (as_store st) (pl_key p) (pl_model p) (pl_est_tokens p) (fe_now_secs fe) (fe_now_ms fe) = (s1, Inr res)"
    "acquire_concurrency s1 (pl_key p) = (as_store st', Some g)" "ctx = context_of fe anthropic p res g" "st' = st\<lparr>as_store := as_store st'\<rparr>"
  using assms by (auto simp: charge_def Let_def split: prod.splits sum.splits budget_error.splits option.splits)

lemma store_only:
  assumes "st' = st\<lparr>as_store := as_store st'\<rparr>"
  shows "as_pool st' = as_pool st" "as_ledger st' = as_ledger st"
  by (subst assms, simp)+


section \<open>The balance of a request\<close>

lemma serve_settles:
  assumes "serve sd hc env clk takes st cq body ctx = (st', out)"
    and q: "\<forall>k. \<exists>now. quiet (ae_acquire (env k)) now" and G: "\<forall>b. inflight (as_pool st) b \<noteq> - 1"
    and c: "pc_reservation ctx = Some res" "pc_concurrency ctx = Some g"
  shows "inflight (as_pool st') = inflight (as_pool st)
    \<and> (as_ledger st' = as_ledger st \<and> as_store st' = reservation_drop (guard_drop (as_store st) g) res
     \<or> (\<exists>ev. as_ledger st' = try_record (as_ledger st) ev \<and> ev_request_id ev = pc_request_id ctx
          \<and> ev_key_id ev = ak_id (pc_api_key ctx) \<and> ev_model ev = pc_model_name ctx
          \<and> as_store st' = guard_drop (reservation_commit (as_store st) res (sat_add (ev_input_tokens ev) (ev_output_tokens ev))) g))"
proof -
  obtain st1 tr o1 where f: "proxy_forward sd hc env st cq body ctx = (st1, tr, o1)" by (metis prod_cases3)
  note h = proxy_forward_handover [OF f q G]
  show ?thesis
  proof (cases o1)
    case (Rejected resp)
    then show ?thesis using assms(1) f h c by (simp add: serve_def drop_guard_def)
  next
    case (Forwarding resp fmt name ms r)
    let ?fb = "forward_backend_response sd hc clk takes resp fmt (pc_bridge ctx) st1 r"
    obtain k where k: "fst ?fb = complete clk k st1 r" using backend_response_completes by blast
    have st': "st' = complete clk k st1 r" using assms(1) f Forwarding k by (auto simp: serve_def split: prod.splits)
    have h1: "as_ledger st1 = as_ledger st" "as_store st1 = as_store st" "inflight (as_pool st1) = plus_one (bl_backend_id (cr_lease r)) (inflight (as_pool st))"
        "cr_reservation r = Some res" "cr_concurrency r = Some g" "\<not> cr_finished r" "cr_meta r = meta_from_ctx ctx"
      using h c Forwarding by simp_all
    let ?ev = "usage_event_of r clk (charge_estimate r k)"
    note p = complete_parts [OF h1(6,4,5), of ?ev clk k st1, OF refl]
    have "inflight (as_pool st') = inflight (as_pool st)"
      using inflight_release [OF h1(3)] G by (simp add: st' p(2) release_def)
    moreover have "ev_request_id ?ev = pc_request_id ctx" "ev_key_id ?ev = ak_id (pc_api_key ctx)" "ev_model ?ev = pc_model_name ctx"
      by (simp_all add: usage_event_of_def h1(7) meta_from_ctx_def)
    ultimately show ?thesis using p(1,3) h1(1,2) by (auto simp: st')
  qed
qed

lemma admitted_settles:
  assumes r: "reserve s0 key model est now ms = (s1, Inr res)" and a: "acquire_concurrency s1 key = (s2, Some g)"
  shows "slots_used (reservation_drop (guard_drop s2 g) res) = slots_used s0"
    and "current_usage_key (reservation_drop (guard_drop s2 g) res) = current_usage_key s0"
    and "slots_used (guard_drop (reservation_commit s2 res t) g) = slots_used s0"
    and "\<forall>c \<in> set (charged_scopes s0 key model now). unat (current_usage_key s0 (fst c)) + unat t < 2 ^ 64 \<Longrightarrow>
      current_usage_key (guard_drop (reservation_commit s2 res t) g) j
        = (if j \<in> fst ` set (charged_scopes s0 key model now) then current_usage_key s0 j + t else current_usage_key s0 j)"
proof -
  let ?cs = "charged_scopes s0 key model now"
  from r obtain rs where res: "res = \<lparr>br_scopes = rs, br_consumed = False\<rparr>" and ra: "reserved_as s0 s1 ?cs est rs"
    by (cases rule: reserve_cases) auto
  have ra2: "reserved_as s0 s2 ?cs est rs" using reserved_as_cong [OF ra] acquire_slot(1,2) [OF a] by simp
  have s1: "slots_used s1 = slots_used s0" using reserve_inflight [OF r] by (simp add: slots_used_def fun_eq_iff)
  have "slots_used (guard_drop s2 g) = slots_used s0" using acquire_slot(4) [OF a refl refl] s1 by simp
  then show "slots_used (reservation_drop (guard_drop s2 g) res) = slots_used s0"
    by (simp add: slots_used_def fun_eq_iff)
  have "reserved_as s0 (guard_drop s2 g) ?cs est rs" using reserved_as_cong [OF ra2] by simp
  then show "current_usage_key (reservation_drop (guard_drop s2 g) res) = current_usage_key s0"
    using rollback_reserved [OF _ charged_distinct] by (simp add: res reservation_drop_def)
  show "slots_used (guard_drop (reservation_commit s2 res t) g) = slots_used s0"
    using acquire_slot(4) [OF a refl, of "reservation_commit s2 res t"] s1 by simp
  show "current_usage_key (guard_drop (reservation_commit s2 res t) g) j
        = (if j \<in> fst ` set ?cs then current_usage_key s0 j + t else current_usage_key s0 j)"
    if "\<forall>c \<in> set ?cs. unat (current_usage_key s0 (fst c)) + unat t < 2 ^ 64"
    using commit_reserved [OF ra2 charged_distinct that, of j] by (simp add: res reservation_commit_def reservation_drop_def Let_def)
qed

definition charged_exactly :: "front_env \<Rightarrow> app_state \<Rightarrow> app_state \<Rightarrow> api_key \<Rightarrow> usage_event \<Rightarrow> bool" where
  "charged_exactly fe st st' key ev \<longleftrightarrow>
     (let cs = charged_scopes (as_store st) key (ev_model ev) (fe_now_secs fe); t = sat_add (ev_input_tokens ev) (ev_output_tokens ev) in
      (\<forall>c \<in> set cs. unat (current_usage_key (as_store st) (fst c)) + unat t < 2 ^ 64) \<longrightarrow>
      (\<forall>j. current_usage_key (as_store st') j
         = (if j \<in> fst ` set cs then current_usage_key (as_store st) j + t else current_usage_key (as_store st) j)))"

definition request_balanced :: "http_client \<Rightarrow> front_env \<Rightarrow> client_request \<Rightarrow> app_state \<Rightarrow> app_state \<Rightarrow> bool" where
  "request_balanced hc fe cq st st' \<longleftrightarrow> inflight (as_pool st') = inflight (as_pool st) \<and> slots_used (as_store st') = slots_used (as_store st)
    \<and> (as_ledger st' = as_ledger st \<and> current_usage_key (as_store st') = current_usage_key (as_store st)
     \<or> (\<exists>ev key route. as_ledger st' = try_record (as_ledger st) ev \<and> ev_request_id ev = fe_request_id fe \<and> ev_key_id ev = ak_id key
          \<and> entitled hc fe cq key (ev_model ev) route \<and> charged_exactly fe st st' key ev))"

lemma served_balances:
  assumes ch: "charge sd hc fe a p st = (st1, Inr ctx)" and sv: "serve sd hc env clk takes st1 (pl_request p) (pl_body p) ctx = (st', resp)"
    and q: "\<forall>k. \<exists>now. quiet (ae_acquire (env k)) now" and G: "\<forall>b. inflight (as_pool st) b \<noteq> - 1"
    and en: "entitled hc fe cq (pl_key p) (pl_model p) (pl_route p)"
  shows "request_balanced hc fe cq st st'"
proof -
  from ch obtain s1 res g where
      R: "reserve (as_store st) (pl_key p) (pl_model p) (pl_est_tokens p) (fe_now_secs fe) (fe_now_ms fe) = (s1, Inr res)"
      and A: "acquire_concurrency s1 (pl_key p) = (as_store st1, Some g)" and ctx: "ctx = context_of fe a p res g"
      and st1: "st1 = st\<lparr>as_store := as_store st1\<rparr>"
    by (rule charge_admitted)
  note same = store_only [OF st1] and B = admitted_settles [OF R A]
  from serve_settles [OF sv q _ _ _, of res g] G same ctx
  have S: "inflight (as_pool st') = inflight (as_pool st)"
    "as_ledger st' = as_ledger st \<and> as_store st' = reservation_drop (guard_drop (as_store st1) g) res
     \<or> (\<exists>ev. as_ledger st' = try_record (as_ledger st) ev \<and> ev_request_id ev = fe_request_id fe
        \<and> ev_key_id ev = ak_id (pl_key p) \<and> ev_model ev = pl_model p
        \<and> as_store st' = guard_drop (reservation_commit (as_store st1) res (sat_add (ev_input_tokens ev) (ev_output_tokens ev))) g)"
    by (simp_all add: context_of_def)
  from S(2) show ?thesis
  proof (elim disjE exE conjE)
    assume "as_ledger st' = as_ledger st" "as_store st' = reservation_drop (guard_drop (as_store st1) g) res"
    then show ?thesis using S(1) B(1,2) by (simp add: request_balanced_def)
  next
    fix ev
    assume ev: "as_ledger st' = try_record (as_ledger st) ev" "ev_request_id ev = fe_request_id fe" "ev_key_id ev = ak_id (pl_key p)"
      "ev_model ev = pl_model p"
      "as_store st' = guard_drop (reservation_commit (as_store st1) res (sat_add (ev_input_tokens ev) (ev_output_tokens ev))) g"
    have "charged_exactly fe st st' (pl_key p) ev" using B(4) by (simp add: charged_exactly_def ev(4,5) Let_def)
    moreover have "entitled hc fe cq (pl_key p) (ev_model ev) (pl_route p)" using en ev(4) by simp
    moreover have "slots_used (as_store st') = slots_used (as_store st)" using B(3) ev(5) by simp
    ultimately show ?thesis unfolding request_balanced_def using S(1) ev(1-3) by blast
  qed
qed

text \<open>Whatever the plan of a request was, answering it balances.\<close>

lemma answered_balances:
  assumes r: "respond sd hc env clk takes (admit sd hc fe a planned st) = (st', resp)"
    and q: "\<forall>k. \<exists>now. quiet (ae_acquire (env k)) now" and G: "\<forall>b. inflight (as_pool st) b \<noteq> - 1"
    and en: "\<And>p. planned = Inr p \<Longrightarrow> entitled hc fe cq (pl_key p) (pl_model p) (pl_route p)"
  shows "request_balanced hc fe cq st st'"
proof (cases planned)
  case (Inl e)
  then show ?thesis using r by (cases e) (auto simp: admit_def respond_def request_balanced_def)
next
  case (Inr p)
  obtain st1 c where c: "charge sd hc fe a p st = (st1, c)" by force
  show ?thesis
  proof (cases c)
    case refused: (Inl resp')
    note cr = charge_refused [OF c [unfolded refused]]
    have "st1 = st\<lparr>as_store := as_store st1\<rparr>" using cr by blast
    note store_only [OF this]
    moreover have "st' = st1" using r c refused by (simp add: admit_def respond_def Inr)
    ultimately show ?thesis using cr by (auto simp: request_balanced_def)
  next
    case ok: (Inr ctx)
    have "serve sd hc env clk takes st1 (pl_request p) (pl_body p) ctx = (st', resp)"
      using r c ok by (simp add: admit_def respond_def Inr)
    with c [unfolded ok] show ?thesis using q G en [OF Inr] by (rule served_balances)
  qed
qed

text \<open>
  C1. A request balances. When a handled request, a JSON one or a multipart one, is over, whether it was refused, gave up without a
  backend, was relayed, translated, cut short by the client or broken off by the backend, the key's concurrency slots and every
  backend's in-flight count are what they were before. Either nothing was recorded and no usage counter moved, or exactly one event was
  handed to the ledger, under the request's id and for an entitled key and model, and the counters of that key's budget grew by exactly
  the tokens of that event. (Other requests are at rest; the sums fit 64 bits.)
\<close>

theorem request_balances:
  assumes "handle_generate sd hc env clk takes fe st cq body path = (st', resp)
      \<or> handle_multipart_adapter sd hc env clk takes fe st cq body path = (st', resp)"
    and "\<forall>k. \<exists>now. quiet (ae_acquire (env k)) now" and "\<forall>b. inflight (as_pool st) b \<noteq> - 1"
  shows "inflight (as_pool st') = inflight (as_pool st) \<and> slots_used (as_store st') = slots_used (as_store st)
    \<and> (as_ledger st' = as_ledger st \<and> current_usage_key (as_store st') = current_usage_key (as_store st)
     \<or> (\<exists>ev key route. as_ledger st' = try_record (as_ledger st) ev \<and> ev_request_id ev = fe_request_id fe \<and> ev_key_id ev = ak_id key
          \<and> entitled hc fe cq key (ev_model ev) route \<and> charged_exactly fe st st' key ev))"
  using answered_balances [of sd hc env clk takes fe _ _ st st' resp cq] assms plan_generate_entitled plan_multipart_entitled
  unfolding handle_generate_def handle_multipart_adapter_def request_balanced_def [symmetric] by blast

section \<open>A concrete request\<close>

definition demo_config :: config_snapshot where
  "demo_config = \<lparr>cs_backends = [(1, \<lparr>be_id = 1, be_name = ''b'', be_base_url = ''http://b'', be_api_key_ref = [], be_api_key = None,
       be_weight = 1, be_max_inflight = 0, be_format = FmtOpenAi, be_enabled = True\<rparr>)],
     cs_routes = [(''m'', demo_route RoundRobin)],
     cs_teams = [(1, \<lparr>tm_id = 1, tm_name = ''t'', tm_budget = None, tm_enabled = True\<rparr>)],
     cs_keys_by_hash = [([], demo_key)]\<rparr>"

definition demo_front :: front_env where
  "demo_front = \<lparr>fe_cfg = demo_config, fe_max_body_bytes = 100, fe_sha256 = (\<lambda>_. []),
     fe_parser = \<lparr>hp_head = (\<lambda>_. Some \<lparr>rh_model = ''m'', rh_stream = False, rh_stream_options_present = False\<rparr>), hp_string = (\<lambda>_. None)\<rparr>,
     fe_auth_now = 0, fe_now_secs = 0, fe_now_ms = 0, fe_request_id = ''1-0''\<rparr>"

abbreviation demo_caller :: client_request where
  "demo_caller \<equiv> demo_client\<lparr>cq_headers := [(''authorization'', ''Bearer k'')]\<rparr>"

lemma demo_authenticated: "authenticate demo_http demo_front (cq_headers demo_caller) = Inr demo_key"
  by code_simp

lemma demo_routed: "live_route (fe_cfg demo_front) demo_key ''m'' = Inr (demo_route RoundRobin)"
  by code_simp

lemma demo_unsized: "parse_content_length demo_http (cq_headers demo_caller) = None"
  by code_simp

lemma demo_read:
  "read_incoming_body (fe_parser demo_front) [Chunk ''{}''] (fe_max_body_bytes demo_front)
     (parse_content_length demo_http (cq_headers demo_caller))
   = Inr (IncomingBuffered \<lparr>rh_model = ''m'', rh_stream = False, rh_stream_options_present = False\<rparr> ''{}'')"
  by (simp only: demo_unsized, simp add: read_incoming_body_def demo_front_def usat_add_def buffered_def)

lemma demo_protocol: "protocol_parse (rt_protocol (demo_route RoundRobin)) = OpenAiChat"
  by code_simp

lemma demo_endpoint_ok: "check_endpoint (demo_route RoundRobin) OpenAiChat ''/v1/chat/completions'' ''m'' = Inr ()"
  "is_bridge_request (demo_route RoundRobin) OpenAiChat ''/v1/chat/completions'' = False"
  by code_simp+

lemma demo_admitted: "\<not> isl (plan_generate sd demo_http demo_front demo_caller [Chunk ''{}''] ''/v1/chat/completions'')"
  unfolding plan_generate_def demo_authenticated demo_read
  by (simp add: or_refuse_def incoming_head_def demo_routed demo_protocol demo_endpoint_ok into_proxy_body_def translate_stage_def
      rewrite_stage_def Let_def, simp add: demo_route_def)

theorem request_balances_witness:
  "\<exists>sd. \<not> isl (plan_generate sd demo_http demo_front demo_caller [Chunk ''{}''] ''/v1/chat/completions'') \<and>
     (case handle_generate sd demo_http demo_env demo_clocks (\<lambda>_. True) demo_front demo_app demo_caller [Chunk ''{}''] ''/v1/chat/completions'' of
     (st', resp) \<Rightarrow> inflight (as_pool st') = inflight (as_pool demo_app) \<and> slots_used (as_store st') = slots_used (as_store demo_app))"
proof -
  let ?sd = "\<lparr>from_slice = (\<lambda>_. Inl []), to_string = (\<lambda>_. [])\<rparr>"
  let ?h = "handle_generate ?sd demo_http demo_env demo_clocks (\<lambda>_. True) demo_front demo_app demo_caller [Chunk ''{}''] ''/v1/chat/completions''"
  obtain st' resp where h: "?h = (st', resp)" by (cases ?h)
  have "\<forall>k. \<exists>now. quiet (ae_acquire (demo_env k)) now" by (auto simp: demo_env_def quiet_def)
  moreover have "\<forall>b. inflight (as_pool demo_app) b \<noteq> - 1" by (simp add: demo_app_def inflight_def demo_defs Let_def)
  ultimately show ?thesis using request_balances [OF disjI1 [OF h]] h by (intro exI [of _ ?sd]) (simp add: demo_admitted)
qed

end
