(* ===== verification/Incoming_Scan.thy ===== *)
theory Incoming_Scan
  imports Incoming
begin

text \<open>
  The scan of a large upload's first bytes against the grammar of JSON texts: it reads the top-level members in order, and
  nothing nested in a value or quoted in a string can take their place.
\<close>

section \<open>Steps of the scan\<close>

definition structural :: "char \<Rightarrow> bool" where
  "structural c \<longleftrightarrow> c = CHR 0x22 \<or> is_open c \<or> is_close c"

lemma skip_ws_step: "i < length data \<Longrightarrow> is_json_ws (data ! i) \<Longrightarrow> skip_ws data i = skip_ws data (i + 1)"
  by (subst skip_ws.simps) simp

lemma skip_ws_stay: "\<not> (i < length data \<and> is_json_ws (data ! i)) \<Longrightarrow> skip_ws data i = i"
  by (subst skip_ws.simps) auto

lemma structural_no_ws: "structural c \<Longrightarrow> \<not> is_json_ws c"
  by (auto simp: structural_def is_open_def is_close_def is_json_ws_def)

lemma scan_skip:
  assumes "i < length data" and "\<not> structural (data ! i)"
  shows "scan_loop hp data i d s = scan_loop hp data (i + 1) d s"
proof (cases "is_json_ws (data ! i)")
  case True
  with assms(1) have "skip_ws data i = skip_ws data (i + 1)" by (rule skip_ws_step)
  then show ?thesis by (subst (1 2) scan_loop.simps) simp
next
  case False
  then have "skip_ws data i = i" by (intro skip_ws_stay) simp
  then show ?thesis using assms
    by (subst scan_loop.simps) (auto simp: Let_def structural_def is_open_def is_close_def)
qed

lemma scan_open:
  assumes "i < length data" and "is_open (data ! i)"
  shows "scan_loop hp data i d s = scan_loop hp data (i + 1) (d + 1) s"
proof -
  have "skip_ws data i = i" using assms by (intro skip_ws_stay) (auto simp: is_open_def is_json_ws_def)
  then show ?thesis using assms by (subst scan_loop.simps) (auto simp: Let_def is_open_def)
qed

lemma scan_close:
  assumes "i < length data" and "is_close (data ! i)" and "d \<ge> 2"
  shows "scan_loop hp data i d s = scan_loop hp data (i + 1) (d - 1) s"
proof -
  have "skip_ws data i = i" using assms by (intro skip_ws_stay) (auto simp: is_close_def is_json_ws_def)
  then show ?thesis using assms by (subst scan_loop.simps) (auto simp: Let_def is_close_def)
qed

lemma scan_quote:
  assumes "i < length data" and "data ! i = CHR 0x22" and "find_string_end data i = Some e"
  shows "scan_loop hp data i d s =
     (if d \<noteq> 1 then scan_loop hp data (e + 1) d s
      else case hp_string hp (slice data i (e + 1)) of
        None \<Rightarrow> NeedMore
      | Some key \<Rightarrow>
          (let colon = skip_ws data (e + 1) in
           if byte_at data colon \<noteq> Some (CHR '':'') then scan_loop hp data (e + 1) d s
           else case scan_key hp data key e (skip_ws data (colon + 1)) s of
             None \<Rightarrow> NeedMore
           | Some (i', s') \<Rightarrow> (case scan_found s' of Some h \<Rightarrow> Found h | None \<Rightarrow> scan_loop hp data i' d s')))"
proof -
  have "skip_ws data i = i" using assms by (intro skip_ws_stay) (auto simp: is_json_ws_def)
  then show ?thesis using assms by (subst scan_loop.simps) (simp add: Let_def)
qed

section \<open>Texts the scan passes over\<close>

lemma flag_end_over:
  "str_body s \<Longrightarrow> string_end_flag (pre @ s @ CHR 0x22 # post) (length pre) False = Some (length pre + length s)"
proof (induction s arbitrary: pre rule: str_body.induct)
  case str_nil
  show ?case by (subst string_end_flag.simps) (simp add: nth_append)
next
  case (str_plain c s)
  then show ?case using str_plain.IH [of "pre @ [c]"]
    by (subst string_end_flag.simps) (simp add: nth_append)
next
  case (str_escape s c)
  have "string_end_flag (pre @ (CHR 0x5C # c # s) @ CHR 0x22 # post) (length pre) False
      = string_end_flag (pre @ (CHR 0x5C # c # s) @ CHR 0x22 # post) (length pre + 1) True"
    by (subst string_end_flag.simps) (simp add: nth_append)
  also have "\<dots> = string_end_flag (pre @ (CHR 0x5C # c # s) @ CHR 0x22 # post) (length pre + 2) False"
    by (subst string_end_flag.simps) (simp add: nth_append)
  finally show ?case using str_escape.IH [of "pre @ [CHR 0x5C, c]"] by simp
qed

lemma string_over:
  assumes "str_body s"
  shows "find_string_end (pre @ CHR 0x22 # s @ CHR 0x22 # post) (length pre) = Some (length pre + 1 + length s)"
  using flag_end_over [OF assms, of "pre @ [CHR 0x22]" post] by (simp add: find_string_end_def)

lemma scan_plain_over:
  assumes "\<forall>c \<in> set w. \<not> structural c"
  shows "scan_loop hp (pre @ w @ post) (length pre) d s = scan_loop hp (pre @ w @ post) (length pre + length w) d s"
  using assms
proof (induction w arbitrary: pre)
  case (Cons c w)
  have "scan_loop hp (pre @ (c # w) @ post) (length pre) d s = scan_loop hp (pre @ (c # w) @ post) (length pre + 1) d s"
    using Cons.prems by (intro scan_skip) (auto simp: nth_append)
  then show ?case using Cons.IH [of "pre @ [c]"] Cons.prems by simp
qed simp

lemma scan_balanced_over:
  assumes "balanced t" and "d \<ge> 2"
  shows "scan_loop hp (pre @ t @ post) (length pre) d s = scan_loop hp (pre @ t @ post) (length pre + length t) d s"
  using assms
proof (induction t arbitrary: pre post d rule: balanced.induct)
  case bal_nil
  show ?case by simp
next
  case (bal_other c t)
  have "scan_loop hp (pre @ (c # t) @ post) (length pre) d s = scan_loop hp (pre @ (c # t) @ post) (length pre + 1) d s"
    using bal_other by (intro scan_skip) (auto simp: nth_append structural_def)
  then show ?case using bal_other.IH [of d "pre @ [c]" post] bal_other.prems by simp
next
  case (bal_string k t)
  let ?b = "pre @ (CHR 0x22 # k @ CHR 0x22 # t) @ post"
  have "scan_loop hp ?b (length pre) d s = scan_loop hp ?b (length pre + length k + 2) d s"
    using string_over [OF bal_string(1), of pre "t @ post"] bal_string.prems
    by (subst scan_quote) (auto simp: nth_append)
  then show ?case using bal_string.IH [of d "pre @ CHR 0x22 # k @ [CHR 0x22]" post] bal_string.prems
    by (simp add: add.assoc add.commute add.left_commute)
next
  case (bal_nested l t r u)
  let ?b = "pre @ (l # t @ r # u) @ post"
  have "scan_loop hp ?b (length pre) d s = scan_loop hp ?b (length pre + 1) (d + 1) s"
    using bal_nested by (intro scan_open) (auto simp: nth_append)
  also have "\<dots> = scan_loop hp ?b (length pre + 1 + length t) (d + 1) s"
    using bal_nested.IH(1) [of "d + 1" "pre @ [l]" "r # u @ post"] bal_nested.prems by simp
  also have "\<dots> = scan_loop hp ?b (length pre + 1 + length t + 1) d s"
    using bal_nested by (subst scan_close) (auto simp: nth_append)
  also have "\<dots> = scan_loop hp ?b (length pre + length (l # t @ r # u)) d s"
    using bal_nested.IH(2) [of d "pre @ l # t @ [r]" post] bal_nested.prems by (simp add: add.assoc)
  finally show ?case .
qed

text \<open>
  What the typed parsers of the crate have to offer for a member: its key and a string value are literals they accept, and
  the other values are numbers or words without quotes and brackets.
\<close>

definition readable :: "head_parser \<Rightarrow> member \<Rightarrow> bool" where
  "readable hp m \<longleftrightarrow> member_wf m \<and> hp_string hp (CHR 0x22 # mb_key m @ [CHR 0x22]) \<noteq> None
     \<and> (hd (mb_value m) = CHR 0x22 \<longrightarrow> hp_string hp (mb_value m) \<noteq> None)
     \<and> (\<not> structural (hd (mb_value m)) \<longrightarrow> (\<forall>c \<in> set (mb_value m). \<not> structural c))
     \<and> (starts_with (mb_value m) ''true'' \<longrightarrow> mb_value m = ''true'')
     \<and> (starts_with (mb_value m) ''false'' \<longrightarrow> mb_value m = ''false'')"

lemma scan_value_over:
  assumes "json_text v" and "hd v = CHR 0x22 \<longrightarrow> hp_string hp v \<noteq> None" and "\<not> structural (hd v) \<longrightarrow> (\<forall>c \<in> set v. \<not> structural c)"
    and "ws_text w"
  shows "scan_loop hp (pre @ v @ w @ CHR '','' # post) (length pre) 1 s
    = scan_loop hp (pre @ v @ w @ CHR '','' # post) (length pre + length v) 1 s"
  using assms(1)
proof cases
  case (text_string k)
  let ?b = "pre @ v @ w @ CHR '','' # post"
  have e: "find_string_end ?b (length pre) = Some (length pre + 1 + length k)"
    using string_over [OF text_string(2), of pre "w @ CHR '','' # post"] text_string(1) by simp
  have v: "slice ?b (length pre) (length pre + 1 + length k + 1) = v" by (simp add: slice_def text_string(1))
  have "skip_ws ?b (length pre + length v) = length pre + length v + length w"
    using skip_ws_over [OF assms(4), of "CHR '','' # post" "pre @ v"] by (simp add: no_ws)
  then have "byte_at ?b (skip_ws ?b (length pre + 1 + length k + 1)) \<noteq> Some (CHR '':'')"
    by (simp add: text_string(1) byte_at_def nth_append)
  moreover obtain key where "hp_string hp v = Some key" using assms(2) text_string(1) by auto
  moreover have "length pre < length ?b" "?b ! length pre = CHR 0x22" by (simp_all add: text_string(1) nth_append)
  ultimately show ?thesis using e v by (subst scan_quote [OF _ _ e]) (auto simp: text_string(1) Let_def)
next
  case (text_brackets l t r)
  let ?b = "pre @ v @ w @ CHR '','' # post"
  have "scan_loop hp ?b (length pre) 1 s = scan_loop hp ?b (length pre + 1) 2 s"
    using text_brackets by (subst scan_open) (auto simp: nth_append)
  also have "\<dots> = scan_loop hp ?b (length pre + 1 + length t) 2 s"
    using scan_balanced_over [OF text_brackets(3), of 2 hp "pre @ [l]" "r # w @ CHR '','' # post"] text_brackets(1) by simp
  also have "\<dots> = scan_loop hp ?b (length pre + 1 + length t + 1) 1 s"
    using text_brackets by (subst scan_close) (auto simp: nth_append)
  finally show ?thesis by (simp add: text_brackets(1))
next
  case (text_scalar c t)
  then have "\<not> structural c" by (auto simp: structural_def ends_scalar_def)
  then have "\<forall>c \<in> set v. \<not> structural c" using assms(3) text_scalar by simp
  then show ?thesis by (rule scan_plain_over)
qed

section \<open>Members\<close>

definition key_name :: "head_parser \<Rightarrow> member \<Rightarrow> string" where
  "key_name hp m = unwrap_or [] (hp_string hp (CHR 0x22 # mb_key m @ [CHR 0x22]))"

definition member_step :: "head_parser \<Rightarrow> scan_state \<Rightarrow> member \<Rightarrow> scan_state" where
  "member_step hp s m =
     (if key_name hp m = ''model'' then
        (if hd (mb_value m) = CHR 0x22 then s\<lparr>sc_model := hp_string hp (mb_value m)\<rparr> else s)
      else if key_name hp m = ''stream'' then
        (if mb_value m = ''true'' then s\<lparr>sc_stream := Some True\<rparr>
         else if mb_value m = ''false'' then s\<lparr>sc_stream := Some False\<rparr> else s)
      else if key_name hp m = ''stream_options'' then s\<lparr>sc_options := True\<rparr>
      else s)"

fun read_members :: "head_parser \<Rightarrow> scan_state \<Rightarrow> member list \<Rightarrow> request_head option" where
  "read_members hp s [] = None"
| "read_members hp s (m # ms) =
     (case scan_found (member_step hp s m) of Some h \<Rightarrow> Some h | None \<Rightarrow> read_members hp (member_step hp s m) ms)"

lemma literal_slice:
  assumes "length l = n" and "post \<noteq> [] \<Longrightarrow> ends_scalar (hd post)" and "\<forall>c \<in> set l. \<not> ends_scalar c"
    and "starts_with v l \<longrightarrow> v = l"
  shows "get_slice (pre @ v @ post) (length pre) (length pre + n) = Some l \<longleftrightarrow> v = l"
proof
  assume "v = l"
  then show "get_slice (pre @ v @ post) (length pre) (length pre + n) = Some l"
    using assms(1) by (simp add: get_slice_def slice_def)
next
  assume g: "get_slice (pre @ v @ post) (length pre) (length pre + n) = Some l"
  then have t: "take n (v @ post) = l" by (auto simp: get_slice_def slice_def split: if_splits)
  show "v = l"
  proof (cases "n \<le> length v")
    case True
    then show ?thesis using t assms(1,4) by (simp add: starts_with_def)
  next
    case False
    then have "l = v @ take (n - length v) post" using t by simp
    moreover have "post \<noteq> []" using False t assms(1) by auto
    ultimately have "hd post \<in> set l" using False by (cases post) (auto simp: take_Cons')
    then show ?thesis using assms(2,3) \<open>post \<noteq> []\<close> by auto
  qed
qed

lemma scan_member_text:
  assumes "readable hp m" and "scan_found s = None"
  shows "scan_loop hp (pre @ member_text m @ post) (length pre) 1 s =
     (case scan_found (member_step hp s m) of
        Some h \<Rightarrow> Found h
      | None \<Rightarrow> scan_loop hp (pre @ member_text m @ post) (length pre + length (member_text m)) 1 (member_step hp s m))"
proof -
  let ?v = "mb_value m" and ?r = "mb_ws4 m @ CHR '','' # post"
  define pv where "pv = pre @ mb_ws1 m @ CHR 0x22 # mb_key m @ CHR 0x22 # mb_ws2 m @ CHR '':'' # mb_ws3 m"
  define data where "data = pre @ member_text m @ post"
  define i where "i = length pre + length (mb_ws1 m)"
  define ke where "ke = i + 1 + length (mb_key m)"
  define i2 where "i2 = ke + 1 + length (mb_ws2 m)"
  define i3 where "i3 = i2 + 1 + length (mb_ws3 m)"
  have wf: "ws_text (mb_ws1 m)" "str_body (mb_key m)" "ws_text (mb_ws2 m)" "ws_text (mb_ws3 m)"
      "json_text ?v" "ws_text (mb_ws4 m)" using assms(1) by (auto simp: readable_def member_wf_def)
  have rd: "hd ?v = CHR 0x22 \<longrightarrow> hp_string hp ?v \<noteq> None" "\<not> structural (hd ?v) \<longrightarrow> (\<forall>c \<in> set ?v. \<not> structural c)"
      "starts_with ?v ''true'' \<longrightarrow> ?v = ''true''" "starts_with ?v ''false'' \<longrightarrow> ?v = ''false''"
    using assms(1) by (auto simp: readable_def)
  have body: "data = pre @ mb_ws1 m @ CHR 0x22 # mb_key m @ CHR 0x22 # mb_ws2 m @ CHR '':'' # mb_ws3 m @ ?v @ ?r"
    by (simp add: data_def member_text_def)
  have bodypv: "data = pv @ ?v @ ?r" and pv: "length pv = i3"
    by (simp_all add: data_def member_text_def pv_def i_def ke_def i2_def i3_def)
  have v: "?v @ ?r \<noteq> []" "\<not> is_json_ws (hd (?v @ ?r))" using json_text_start [OF wf(5)] by auto
  note K = key_over [OF wf(1-4) v body i_def ke_def i2_def i3_def]
  have e: "find_string_end data i = Some ke"
    using string_over [OF wf(2), of "pre @ mb_ws1 m" "mb_ws2 m @ CHR '':'' # mb_ws3 m @ ?v @ ?r"]
    by (simp add: body i_def ke_def add.assoc)
  have key: "hp_string hp (slice data i (ke + 1)) = Some (key_name hp m)"
    using assms(1) by (auto simp: readable_def key_name_def slice_def body i_def ke_def)
  have start: "scan_loop hp data (length pre) 1 s = scan_loop hp data i 1 s"
    using scan_plain_over [of "mb_ws1 m" hp pre] wf(1)
    by (simp add: body i_def ws_text_def list_all_iff) (metis structural_no_ws)
  have "i < length data" "data ! i = CHR 0x22" using K(2) by (auto simp: byte_at_def split: if_splits)
  note sq = scan_quote [OF this e]
  have "scan_loop hp data i 1 s =
     (case scan_key hp data (key_name hp m) ke i3 s of
        None \<Rightarrow> NeedMore
      | Some (i', s') \<Rightarrow> (case scan_found s' of Some h \<Rightarrow> Found h | None \<Rightarrow> scan_loop hp data i' 1 s'))"
    unfolding sq using key K(5,6,7) by (simp add: Let_def)
  moreover have value_end: "scan_loop hp data i3 1 s' = scan_loop hp data (i3 + length ?v) 1 s'" for s'
    using scan_value_over [OF wf(5) rd(1,2) wf(6), of pv post s'] pv bodypv by simp
  moreover have tail: "scan_loop hp data (i3 + length ?v) 1 s' = scan_loop hp data (length pre + length (member_text m)) 1 s'" for s'
  proof -
    have "\<forall>c \<in> set (mb_ws4 m @ '',''). \<not> structural c"
      using wf(6) structural_no_ws by (auto simp: ws_text_def list_all_iff structural_def is_open_def is_close_def)
    from scan_plain_over [OF this, of hp "pv @ ?v" post 1 s'] show ?thesis
      using pv by (simp add: bodypv member_text_def i_def ke_def i2_def i3_def add.assoc add.commute add.left_commute)
  qed
  moreover have other: "scan_loop hp data (ke + 1) 1 s' = scan_loop hp data i3 1 s'" for s'
  proof -
    have "\<forall>c \<in> set (mb_ws2 m @ CHR '':'' # mb_ws3 m). \<not> structural c"
      using wf(3,4) structural_no_ws by (auto simp: ws_text_def list_all_iff structural_def is_open_def is_close_def)
    from scan_plain_over [OF this, of hp "pre @ mb_ws1 m @ CHR 0x22 # mb_key m @ [CHR 0x22]" "?v @ ?r" 1 s'] show ?thesis
      by (simp add: body i_def ke_def i2_def i3_def add.assoc add.commute add.left_commute)
  qed
  moreover have "\<exists>i'. scan_key hp data (key_name hp m) ke i3 s = Some (i', member_step hp s m) \<and> i' \<in> {ke + 1, i3, i3 + length ?v}"
  proof -
    have rs: "ends_scalar (hd ?r)" using wf(6) by (cases "mb_ws4 m") (auto simp: ends_scalar_def ws_text_def)
    have t: "get_slice data i3 (i3 + 4) = Some ''true'' \<longleftrightarrow> ?v = ''true''"
      using literal_slice [of "''true''" 4 ?r ?v pv] rd(3) rs pv bodypv by (simp add: ends_scalar_def is_close_def is_json_ws_def)
    have f: "get_slice data i3 (i3 + 5) = Some ''false'' \<longleftrightarrow> ?v = ''false''"
      using literal_slice [of "''false''" 5 ?r ?v pv] rd(4) rs pv bodypv by (simp add: ends_scalar_def is_close_def is_json_ws_def)
    have hd: "byte_at data i3 = Some (hd ?v)"
      using json_text_start [OF wf(5)] pv bodypv by (simp add: byte_at_def nth_append hd_conv_nth)
    have str: "find_string_end data i3 = Some (i3 + length ?v - 1) \<and> slice data i3 (i3 + length ?v) = ?v" if q: "hd ?v = CHR 0x22"
    proof -
      from wf(5) q obtain k where k: "?v = CHR 0x22 # k @ [CHR 0x22]" "str_body k"
        by cases (auto simp: is_open_def)
      then show ?thesis using string_over [OF k(2), of pv ?r] pv bodypv by (simp add: slice_def)
    qed
    have ne: "length ?v > 0" using json_text_start [OF wf(5)] by simp
    consider "key_name hp m = ''model''" | "key_name hp m = ''stream''" | "key_name hp m \<notin> {''model'', ''stream''}" by blast
    then show ?thesis
    proof cases
      case 1
      then show ?thesis using hd str rd(1) ne
        by (cases "hd ?v = CHR 0x22") (auto simp: scan_key_def member_step_def)
    next
      case 2
      then show ?thesis using t f by (auto simp: scan_key_def member_step_def)
    next
      case 3
      then show ?thesis by (auto simp: scan_key_def member_step_def)
    qed
  qed
  ultimately show ?thesis unfolding data_def [symmetric] start by (auto split: option.split)
qed

lemma scan_members:
  assumes "list_all (readable hp) ms" and "read_members hp s ms = Some h" and "scan_found s = None"
  shows "scan_loop hp (pre @ concat (map member_text ms) @ post) (length pre) 1 s = Found h"
  using assms
proof (induction ms arbitrary: pre s)
  case (Cons m ms)
  have step: "scan_loop hp (pre @ concat (map member_text (m # ms)) @ post) (length pre) 1 s =
     (case scan_found (member_step hp s m) of
        Some h \<Rightarrow> Found h
      | None \<Rightarrow> scan_loop hp ((pre @ member_text m) @ concat (map member_text ms) @ post) (length (pre @ member_text m)) 1 (member_step hp s m))"
    using scan_member_text [of hp m s pre "concat (map member_text ms) @ post"] Cons.prems by (auto split: option.splits)
  show ?case
    using Cons.prems Cons.IH [of "member_step hp s m" "pre @ member_text m"] unfolding step
    by (auto split: option.splits)
qed simp





section \<open>The body is read whole\<close>

lemma collect_exact:
  assumes "collect_remaining_body out items mx = Inr b" and "mx < usize_max" and "length out \<le> mx"
  shows "\<exists>cs. items = map Chunk cs \<and> b = out @ concat cs \<and> length b \<le> mx"
  using assms
proof (induction out items mx rule: collect_remaining_body.induct)
  case (3 out c rest mx)
  then have "length out + length c \<le> mx" "collect_remaining_body (out @ c) rest mx = Inr b"
    by (auto simp: usat_add_le_iff not_less split: if_splits)
  with 3 obtain cs where "rest = map Chunk cs" "b = (out @ c) @ concat cs" "length b \<le> mx"
    by (auto simp: usat_add_gt_iff)
  then show ?case by (intro exI [of _ "c # cs"]) simp
qed auto

lemma buffered_Inr: "buffered hp full = Inr inc \<longleftrightarrow> (\<exists>h. hp_head hp full = Some h \<and> inc = IncomingBuffered h full)"
  by (auto simp: buffered_def split: option.splits)

definition read_exactly :: "head_parser \<Rightarrow> stream_item list \<Rightarrow> usize \<Rightarrow> u64 option \<Rightarrow> incoming_body \<Rightarrow> bool" where
  "read_exactly hp body mx cl inc \<longleftrightarrow>
     (case inc of
        IncomingBuffered h b \<Rightarrow> (\<exists>cs. body = map Chunk cs \<and> b = concat cs) \<and> length b \<le> mx \<and> hp_head hp b = Some h
      | StreamingCandidate h prefix rest n \<Rightarrow>
          (\<exists>cs. body = map Chunk cs @ rest \<and> prefix = concat cs) \<and> length prefix \<le> mx \<and> cl = Some n \<and> FAST_UPLOAD_MIN_BYTES \<le> n \<and> unat n \<le> mx
          \<and> scan_head_prefix hp prefix = Found h \<and> \<not> rh_stream h)"

lemma collected_exact:
  assumes "try_res (collect_remaining_body prefix rest mx) (buffered hp) = Inr inc" and "mx < usize_max" and "length prefix \<le> mx"
    and "body = map Chunk cs @ rest" and "prefix = concat cs"
  shows "read_exactly hp body mx cl inc"
proof -
  from assms(1) obtain full h where f: "collect_remaining_body prefix rest mx = Inr full" "hp_head hp full = Some h" "inc = IncomingBuffered h full"
    by (auto simp: try_res_Inr_iff buffered_Inr)
  from collect_exact [OF f(1) assms(2,3)] obtain ds where d: "rest = map Chunk ds" "full = prefix @ concat ds" "length full \<le> mx" by blast
  then have "body = map Chunk (cs @ ds) \<and> full = concat (cs @ ds)" using assms(4,5) by simp
  then have "\<exists>xs. body = map Chunk xs \<and> full = concat xs" by blast
  then show ?thesis using f(2,3) d(3) unfolding read_exactly_def by simp
qed

lemma read_prefix_exact:
  assumes "read_prefix hp mx n prefix items = Inr inc" and "mx < usize_max" and "length prefix \<le> mx"
    and "body = map Chunk cs @ items" and "prefix = concat cs" and "FAST_UPLOAD_MIN_BYTES \<le> n" and "unat n \<le> mx"
  shows "read_exactly hp body mx (Some n) inc"
  using assms
proof (induction items arbitrary: prefix cs)
  case Nil
  then show ?case by (auto simp: buffered_Inr read_exactly_def)
next
  case (Cons it rest)
  then obtain c where it: "it = Chunk c" by (cases it) auto
  let ?p = "prefix @ c"
  have len: "length ?p \<le> mx" using Cons.prems by (auto simp: it usat_add_gt_iff not_less split: if_splits)
  have b: "body = map Chunk (cs @ [c]) @ rest" "?p = concat (cs @ [c])" using Cons.prems by (simp_all add: it)
  note again = Cons.IH [OF _ Cons.prems(2) len b Cons.prems(6,7)]
  note collected = collected_exact [OF _ Cons.prems(2) len b]
  have fast: "read_exactly hp body mx (Some n) (StreamingCandidate h ?p rest n)" if "scan_head_prefix hp ?p = Found h" "\<not> rh_stream h" for h
  proof -
    have "\<exists>xs. body = map Chunk xs @ rest \<and> ?p = concat xs" using b by blast
    then show ?thesis using that len Cons.prems(6,7) unfolding read_exactly_def by simp
  qed
  show ?case using Cons.prems(1) len again collected fast
    by (auto simp: it Let_def split: if_splits prefix_scan.splits)
qed

lemma read_incoming_exact:
  assumes "read_incoming_body hp body mx cl = Inr inc" and "mx < usize_max"
  shows "read_exactly hp body mx cl inc"
  using assms collected_exact [of "[]" body mx hp inc body "[]"] read_prefix_exact [of hp mx _ "[]" body inc body "[]"]
  by (auto simp: read_incoming_body_def not_less split: option.splits if_splits)

text \<open>
  C12. A body is read exactly and never beyond the limit. What is buffered is the whole body, at most the maximal number of bytes, and the
  head is what the parser finds in all of it. What is uploaded as a stream keeps every byte too, the bytes read so far and the rest, with a
  declared length within the limit; that only happens for a large upload that is allowed to stream and asks for no streamed
  answer, with the head found by the scan.
\<close>

theorem incoming_body_exact:
  assumes "read_incoming_body hp body mx cl = Inr inc" and "mx < usize_max"
    and "into_proxy_body hp inc allow mx = Inr (h, out)"
  shows "case out of
      Buffered b \<Rightarrow> (\<exists>cs. body = map Chunk cs \<and> b = concat cs) \<and> length b \<le> mx \<and> hp_head hp b = Some h
    | Streaming prefix rest n \<Rightarrow> allow \<and> (\<exists>cs. body = map Chunk cs @ rest \<and> prefix = concat cs) \<and> length prefix \<le> mx
        \<and> cl = Some n \<and> FAST_UPLOAD_MIN_BYTES \<le> n \<and> unat n \<le> mx \<and> scan_head_prefix hp prefix = Found h \<and> \<not> rh_stream h"
proof (cases inc)
  case (IncomingBuffered h' b)
  then show ?thesis using assms(3) read_incoming_exact [OF assms(1,2)] by (auto simp: into_proxy_body_def read_exactly_def)
next
  case (StreamingCandidate h' prefix rest n)
  note r = read_incoming_exact [OF assms(1,2), unfolded StreamingCandidate read_exactly_def incoming_body.simps]
  show ?thesis
  proof (cases allow)
    case True
    then show ?thesis using assms(3) r by (auto simp: into_proxy_body_def StreamingCandidate)
  next
    case False
    then obtain b where c: "collect_remaining_body prefix rest mx = Inr b" "hp_head hp b = Some h" "out = Buffered b"
      using assms(3) by (auto simp: into_proxy_body_def StreamingCandidate try_res_Inr_iff split: option.splits)
    have "try_res (collect_remaining_body prefix rest mx) (buffered hp) = Inr (IncomingBuffered h b)"
      using c by (simp add: buffered_def)
    moreover obtain cs where "body = map Chunk cs @ rest" "prefix = concat cs" using r by blast
    ultimately have "read_exactly hp body mx cl (IncomingBuffered h b)" using collected_exact assms(2) r by blast
    then show ?thesis by (simp add: c(3) read_exactly_def)
  qed
qed

theorem incoming_body_exact_witness:
  "\<exists>hp. into_proxy_body hp (IncomingBuffered \<lparr>rh_model = ''m'', rh_stream = False, rh_stream_options_present = False\<rparr> ''{}'') True 10
      = Inr (\<lparr>rh_model = ''m'', rh_stream = False, rh_stream_options_present = False\<rparr>, Buffered ''{}'')
    \<and> length ''{}'' \<le> (10 :: nat)"
proof -
  let ?h = "\<lparr>rh_model = ''m'', rh_stream = False, rh_stream_options_present = False\<rparr>"
  let ?hp = "\<lparr>hp_head = (\<lambda>_. Some ?h), hp_string = (\<lambda>_. None)\<rparr>"
  have "read_incoming_body ?hp [Chunk ''{'', Chunk ''}''] 10 None = Inr (IncomingBuffered ?h ''{}'')"
    by (simp add: read_incoming_body_def buffered_def usat_add_def usize_max_def)
  moreover have "into_proxy_body ?hp (IncomingBuffered ?h ''{}'') True 10 = Inr (?h, Buffered ''{}'')"
    by (simp add: into_proxy_body_def)
  ultimately show ?thesis using incoming_body_exact [of ?hp "[Chunk ''{'', Chunk ''}'']" 10 None "IncomingBuffered ?h ''{}''" True ?h "Buffered ''{}''"]
    by (intro exI [of _ ?hp]) (simp add: usize_max_def)
qed

section \<open>Multipart fields\<close>

lemma starts_with_append: "length p \<le> length x \<Longrightarrow> starts_with (x @ y) p = starts_with x p"
  by (simp add: starts_with_def)

lemma find_sub_same_prefix:
  assumes "find_sub p s = Some i" and "i + length p \<le> n" and "n \<le> length s" and "take n s' = take n s"
  shows "find_sub p s' = Some i"
proof -
  have eq: "starts_with (drop j s') p = starts_with (drop j s) p" if "j \<le> i" for j
  proof -
    have "take (length p) (drop j s') = take (length p) (drop j (take n s'))" using that assms(2) by (simp add: drop_take min_def)
    moreover have "take (length p) (drop j s) = take (length p) (drop j (take n s))" using that assms(2) by (simp add: drop_take min_def)
    ultimately show ?thesis by (simp add: starts_with_def assms(4))
  qed
  have "length (take n s') = n" using assms(3,4) by simp
  then have "i \<le> length s'" using assms(2) by simp
  then show ?thesis using assms(1) eq by (auto simp: find_sub_first)
qed

lemma find_sub_after:
  assumes "hd p \<notin> set x" and "starts_with y p" and "p \<noteq> []"
  shows "find_sub p (x @ y) = Some (length x)"
proof -
  have "\<not> starts_with (drop j (x @ y)) p" if "j < length x" for j
    using that assms(1,3) by (cases p) (auto simp: starts_with_def drop_append hd_drop_conv_nth take_Cons' Cons_nth_drop_Suc [symmetric] split: if_splits)
  then show ?thesis using assms(2) by (auto simp: find_sub_first)
qed

lemma multipart_parts:
  assumes "multipart_span body field = Some (a, b)"
  obtains start h where "find_sub (field_needle field) body = Some start" "find_sub (crlf @ crlf) (drop start body) = Some h"
    "a = start + h + 4" "find_sub (crlf @ ''--'') (drop a body) = Some (b - a)" "a \<le> b" "b \<le> length body"
  using assms find_sub_Some [of "crlf @ ''--''" "drop a body"]
  by (auto simp: multipart_span_def Let_def add.commute split: option.splits dest: find_sub_Some)

lemma multipart_span_rewritten:
  assumes "multipart_span body field = Some (a, b)" and "CHR 0x0D \<notin> set field" and "CHR 0x0D \<notin> set v"
  shows "multipart_span (take a body @ v @ drop b body) field = Some (a, a + length v)"
proof -
  obtain start h where s: "find_sub (field_needle field) body = Some start" "find_sub (crlf @ crlf) (drop start body) = Some h"
    "a = start + h + 4" "find_sub (crlf @ ''--'') (drop a body) = Some (b - a)" "a \<le> b" "b \<le> length body"
    using assms(1) by (rule multipart_parts)
  let ?new = "take a body @ v @ drop b body"
  have needle: "length (field_needle field) \<le> h"
  proof (rule ccontr)
    assume "\<not> length (field_needle field) \<le> h"
    moreover have N: "take (length (field_needle field)) (drop start body) = field_needle field"
      and C: "take 4 (drop h (drop start body)) = crlf @ crlf"
      using s(1,2) by (auto simp: find_sub_first starts_with_def crlf_def eval_nat_numeral)
    have "drop h (drop start body) \<noteq> []" using C by (auto simp: crlf_def)
    then have "drop start body ! h = hd (take 4 (drop h (drop start body)))" by (simp add: hd_drop_conv_nth add.commute)
    then have "drop start body ! h = CHR 0x0D" unfolding C by (simp add: crlf_def)
    moreover have "field_needle field ! h = drop start body ! h"
      using calculation(1) by (subst N [symmetric]) simp
    ultimately have "field_needle field ! h = CHR 0x0D" by simp
    then have "CHR 0x0D \<in> set (field_needle field)"
      using \<open>\<not> length (field_needle field) \<le> h\<close> by (metis not_le nth_mem)
    then show False using assms(2) by (simp add: field_needle_def)
  qed
  have tk: "take a ?new = take a body" using s(5,6) by simp
  have "find_sub (field_needle field) ?new = Some start"
    using needle s(3,5,6) by (intro find_sub_same_prefix [OF s(1) _ _ tk]) auto
  moreover have "find_sub (crlf @ crlf) (drop start ?new) = Some h"
  proof (rule find_sub_same_prefix [OF s(2)])
    show "h + length (crlf @ crlf) \<le> h + 4" by (simp add: crlf_def)
    show "h + 4 \<le> length (drop start body)" using s(3,5,6) by simp
    show "take (h + 4) (drop start ?new) = take (h + 4) (drop start body)"
    proof -
      have "a - start = h + 4" using s(3) by simp
      then show ?thesis using arg_cong [OF tk, of "drop start"] unfolding drop_take by (simp only:)
    qed
  qed
  moreover have "find_sub (crlf @ ''--'') (drop a ?new) = Some (length v)"
  proof -
    have "starts_with (drop b body) (crlf @ ''--'')" using s(4,5) by (auto simp: find_sub_first)
    then show ?thesis using find_sub_after [of "crlf @ ''--''" v "drop b body"] assms(3) s(5,6) by (simp add: crlf_def)
  qed
  ultimately show ?thesis by (simp add: multipart_span_def Let_def s(3) add.commute)
qed

text \<open>
  C36. Replacing a text field of a multipart body changes that field and nothing else: the bytes before and after its value are
  kept, and reading the field back gives the new value. (The value is text without surrounding white space and without
  carriage returns.)
\<close>

theorem multipart_rewrite_roundtrip:
  assumes "rewrite_multipart_text_field body field v = Some body'"
    and "CHR 0x0D \<notin> set field" and "CHR 0x0D \<notin> set v" and "utf8_valid v" and "trim v = v"
  shows "extract_multipart_text_field body' field = Some v
    \<and> (\<exists>before old after. body = before @ old @ after \<and> body' = before @ v @ after
        \<and> multipart_span body field = Some (length before, length before + length old))"
proof -
  from assms(1) obtain a b where ab: "multipart_span body field = Some (a, b)" "body' = take a body @ v @ drop b body"
    by (auto simp: rewrite_multipart_text_field_def)
  have le: "a \<le> b" "b \<le> length body" using ab(1) by (auto elim: multipart_parts)
  have "multipart_span body' field = Some (a, a + length v)"
    unfolding ab(2) by (rule multipart_span_rewritten [OF ab(1) assms(2,3)])
  moreover have "slice body' a (a + length v) = v" using le by (simp add: slice_def ab(2))
  ultimately have "extract_multipart_text_field body' field = Some v"
    using assms(4,5) by (simp add: extract_multipart_text_field_def)
  moreover have "body = take a body @ slice body a b @ drop b body"
    using le by (simp add: slice_def) (metis append_take_drop_id drop_drop le_add_diff_inverse2)
  ultimately show ?thesis using ab le by (intro conjI exI [of _ "take a body"] exI [of _ "slice body a b"] exI [of _ "drop b body"]) (auto simp: slice_def)
qed

theorem multipart_rewrite_roundtrip_witness:
  "let body = ''--b'' @ crlf @ ''name='' @ [CHR 0x22] @ ''model'' @ [CHR 0x22] @ crlf @ crlf @ ''pub'' @ crlf @ ''--b--''
   in case rewrite_multipart_text_field body ''model'' ''prov'' of None \<Rightarrow> False | Some body' \<Rightarrow> extract_multipart_text_field body' ''model'' = Some ''prov''"
proof -
  let ?body = "''--b'' @ crlf @ ''name='' @ [CHR 0x22] @ ''model'' @ [CHR 0x22] @ crlf @ crlf @ ''pub'' @ crlf @ ''--b--''"
  have "rewrite_multipart_text_field ?body ''model'' ''prov'' \<noteq> None" by code_simp
  then obtain body' where "rewrite_multipart_text_field ?body ''model'' ''prov'' = Some body'" by blast
  moreover have "utf8_valid ''prov''" "trim ''prov'' = ''prov''" by code_simp+
  ultimately show ?thesis using multipart_rewrite_roundtrip [of ?body "''model''" "''prov''" body'] by (simp add: Let_def)
qed

end
