(* ===== verification/Config.thy ===== *)
theory Config
  imports Auth
begin

text \<open>
  The configuration loader, \<open>src/config/mod.rs\<close>: rows of the control-plane tables become the records of a snapshot.
  A row is a list of SQL values; \<open>sqlx\<close> refuses a missing column, a null or a value of another type. The outcome of each query,
  the environment, the file system and the typed parsers of \<open>serde_json\<close> are arguments.
\<close>

unbundle bit_operations_syntax

section \<open>Columns\<close>

datatype sql_value = SqlInt i64 | SqlFloat f64 | SqlText string | SqlBool bool | SqlNull

type_synonym sql_row = "sql_value list"

datatype config_error =
  QueryFailed string
| ColumnError nat
| UnknownFormat string i64
| ConfigJson string
| HexLength nat
| InvalidHexChar

definition column :: "sql_row \<Rightarrow> nat \<Rightarrow> config_error + sql_value" where
  "column row i = (if i < length row then Inr (row ! i) else Inl (ColumnError i))"

definition g_i64 :: "sql_row \<Rightarrow> nat \<Rightarrow> config_error + i64" where
  "g_i64 row i = try_res (column row i) (\<lambda>v. case v of SqlInt n \<Rightarrow> Inr n | _ \<Rightarrow> Inl (ColumnError i))"

definition g_opt_i64 :: "sql_row \<Rightarrow> nat \<Rightarrow> config_error + i64 option" where
  "g_opt_i64 row i = try_res (column row i) (\<lambda>v. case v of SqlInt n \<Rightarrow> Inr (Some n) | SqlNull \<Rightarrow> Inr None | _ \<Rightarrow> Inl (ColumnError i))"

definition g_f64 :: "sql_row \<Rightarrow> nat \<Rightarrow> config_error + f64" where
  "g_f64 row i = try_res (column row i) (\<lambda>v. case v of SqlFloat x \<Rightarrow> Inr x | _ \<Rightarrow> Inl (ColumnError i))"

definition g_str :: "sql_row \<Rightarrow> nat \<Rightarrow> config_error + string" where
  "g_str row i = try_res (column row i) (\<lambda>v. case v of SqlText s \<Rightarrow> Inr s | _ \<Rightarrow> Inl (ColumnError i))"

definition g_opt_str :: "sql_row \<Rightarrow> nat \<Rightarrow> config_error + string option" where
  "g_opt_str row i = try_res (column row i) (\<lambda>v. case v of SqlText s \<Rightarrow> Inr (Some s) | SqlNull \<Rightarrow> Inr None | _ \<Rightarrow> Inl (ColumnError i))"

definition g_bool :: "sql_row \<Rightarrow> nat \<Rightarrow> config_error + bool" where
  "g_bool row i = try_res (column row i) (\<lambda>v. case v of SqlBool b \<Rightarrow> Inr b | _ \<Rightarrow> Inl (ColumnError i))"

text \<open>Columns read with \<open>unwrap_or(None)\<close>: every failure is a missing value.\<close>

definition soft_str :: "sql_row \<Rightarrow> nat \<Rightarrow> string option" where
  "soft_str row i = (case g_opt_str row i of Inl _ \<Rightarrow> None | Inr x \<Rightarrow> x)"

definition soft_f64 :: "sql_row \<Rightarrow> nat \<Rightarrow> f64 option" where
  "soft_f64 row i = (case column row i of Inr (SqlFloat x) \<Rightarrow> Some x | _ \<Rightarrow> None)"

text \<open>\<open>u32::try_from\<close> and \<open>u64::try_from\<close> of a signed number.\<close>

definition u32_try_from :: "i64 \<Rightarrow> u32 option" where
  "u32_try_from n = (if 0 \<le> n \<and> n < 2 ^ 32 then Some (word_of_int n) else None)"

definition u64_try_from :: "i64 \<Rightarrow> u64 option" where
  "u64_try_from n = (if 0 \<le> n then Some (word_of_int n) else None)"

section \<open>Credentials\<close>

record config_env =
  ce_var :: "string \<Rightarrow> string option"
  ce_read_file :: "string \<Rightarrow> string option"
  ce_ids :: "string \<Rightarrow> i64 list option"
  ce_strings :: "string \<Rightarrow> string list option"
  ce_budget :: "string \<Rightarrow> budget option"

definition env_key :: "config_env \<Rightarrow> string \<Rightarrow> string option" where
  "env_key ce name = filter_opt (\<lambda>s. s \<noteq> []) (map_option trim (ce_var ce name))"

definition resolve_env_key_with_alias :: "config_env \<Rightarrow> string \<Rightarrow> string option" where
  "resolve_env_key_with_alias ce env_name =
     or_else (env_key ce env_name)
       (if env_name = ''QWEN_API_KEY'' then env_key ce ''DASHSCOPE_API_KEY''
        else if env_name = ''DASHSCOPE_API_KEY'' then env_key ce ''QWEN_API_KEY''
        else None)"

definition file_key :: "config_env \<Rightarrow> string \<Rightarrow> string option" where
  "file_key ce path = map_option trim (ce_read_file ce path)"

definition resolve_backend_key :: "config_env \<Rightarrow> string \<Rightarrow> string option" where
  "resolve_backend_key ce api_key_ref =
     (case strip_prefix api_key_ref ''env:'' of
        Some env_name \<Rightarrow> resolve_env_key_with_alias ce env_name
      | None \<Rightarrow>
          (case strip_prefix api_key_ref ''file:'' of
             Some file_path \<Rightarrow> file_key ce file_path
           | None \<Rightarrow>
               or_else (resolve_env_key_with_alias ce api_key_ref)
                 (if CHR ''/'' \<in> set api_key_ref \<or> ends_with api_key_ref ''.key'' then file_key ce api_key_ref else None)))"

definition provider_key_of :: "config_env \<Rightarrow> string \<Rightarrow> string option \<Rightarrow> string option" where
  "provider_key_of ce auth_mode provider_key_ref =
     (if auth_mode = ''none'' then None else Option.bind provider_key_ref (resolve_backend_key ce))"

section \<open>Key hashes\<close>

definition hex_val :: "char \<Rightarrow> u8 option" where
  "hex_val c =
     (let b = byte_val c in
      if 48 \<le> b \<and> b \<le> 57 then Some (of_nat (b - 48))
      else if 97 \<le> b \<and> b \<le> 102 then Some (of_nat (b - 97 + 10))
      else if 65 \<le> b \<and> b \<le> 70 then Some (of_nat (b - 65 + 10))
      else None)"

definition hex_byte :: "string \<Rightarrow> nat \<Rightarrow> config_error + u8" where
  "hex_byte hex i =
     try_res (ok_or InvalidHexChar (hex_val (hex ! (2 * i)))) (\<lambda>hi.
     try_res (ok_or InvalidHexChar (hex_val (hex ! (2 * i + 1)))) (\<lambda>lo.
     Inr (push_bit 4 hi OR lo)))"

definition hex_to_key_hash :: "string \<Rightarrow> config_error + key_hash" where
  "hex_to_key_hash hex =
     (if length hex \<noteq> 64 then Inl (HexLength (length hex))
      else fold_res (\<lambda>out i. try_res (hex_byte hex i) (\<lambda>b. Inr (out @ [b]))) [] [0..<32])"

section \<open>Rows\<close>

definition backend_row :: "config_env \<Rightarrow> sql_row \<Rightarrow> config_error + backend" where
  "backend_row ce row =
     try_res (g_i64 row 0) (\<lambda>i.
     try_res (g_str row 1) (\<lambda>name.
     try_res (g_str row 2) (\<lambda>base_url.
     try_res (g_str row 3) (\<lambda>api_key_ref.
     try_res (g_i64 row 4) (\<lambda>weight.
     try_res (g_i64 row 5) (\<lambda>max_inflight.
     try_res (g_str row 6) (\<lambda>format.
     try_res (g_bool row 7) (\<lambda>enabled.
     try_res (if format = ''openai'' then Inr FmtOpenAi
              else if format = ''anthropic'' then Inr FmtAnthropic
              else Inl (UnknownFormat format i)) (\<lambda>backend_format.
     Inr \<lparr>be_id = i, be_name = name, be_base_url = base_url, be_api_key_ref = api_key_ref,
          be_api_key = resolve_backend_key ce api_key_ref, be_weight = unwrap_or 1 (u32_try_from weight),
          be_max_inflight = unwrap_or 0 (u32_try_from max_inflight), be_format = backend_format, be_enabled = enabled\<rparr>)))))))))"

definition endpoint_row :: "config_env \<Rightarrow> sql_row \<Rightarrow> config_error + (string \<times> model_endpoint)" where
  "endpoint_row ce row =
     try_res (g_str row 0) (\<lambda>model_name.
     try_res (g_i64 row 1) (\<lambda>backend_id.
     try_res (g_str row 2) (\<lambda>provider_model_name.
     let provider_key_ref = soft_str row 3 in
     try_res (g_str row 4) (\<lambda>auth_mode.
     try_res (g_str row 5) (\<lambda>protocol_raw.
     try_res (g_i64 row 6) (\<lambda>weight.
     try_res (g_i64 row 7) (\<lambda>max_inflight.
     try_res (g_bool row 8) (\<lambda>enabled.
     Inr (model_name,
       \<lparr>ep_backend_id = backend_id, ep_provider_model_name = provider_model_name, ep_provider_key_ref = provider_key_ref,
        ep_auth_mode = auth_mode, ep_protocol = protocol_as_str (protocol_parse protocol_raw),
        ep_weight = unwrap_or 1 (u32_try_from (max weight 1)), ep_max_inflight = unwrap_or 0 (u32_try_from (max max_inflight 0)),
        ep_enabled = enabled, ep_provider_key = provider_key_of ce auth_mode provider_key_ref\<rparr>)))))))))"

definition route_row :: "config_env \<Rightarrow> (i64, model_endpoint) hmap \<Rightarrow> sql_row \<Rightarrow> config_error + model_route" where
  "route_row ce endpoints row =
     try_res (g_str row 0) (\<lambda>model_name.
     try_res (g_str row 1) (\<lambda>backend_ids_json.
     try_res (g_opt_i64 row 2) (\<lambda>fallback_backend_id.
     try_res (g_f64 row 3) (\<lambda>chars_per_token.
     try_res (g_i64 row 4) (\<lambda>fb_timeout.
     try_res (ok_or (ConfigJson ''parse backend_ids JSON array'') (ce_ids ce backend_ids_json)) (\<lambda>backend_ids.
     try_res (g_str row 5) (\<lambda>provider_model_name.
     let provider_key_ref = soft_str row 11 in
     try_res (g_str row 12) (\<lambda>auth_mode.
     try_res (g_str row 13) (\<lambda>protocol_raw.
     try_res (g_str row 14) (\<lambda>policy.
     try_res (g_opt_i64 row 6) (\<lambda>context_tokens.
     try_res (g_opt_i64 row 7) (\<lambda>max_output_tokens.
     try_res (g_bool row 10) (\<lambda>enabled.
     try_res (g_bool row 15) (\<lambda>accept_anthropic_messages.
     Inr \<lparr>rt_model_name = model_name, rt_backend_ids = backend_ids, rt_fallback_backend_id = fallback_backend_id,
          rt_chars_per_token = chars_per_token,
          rt_first_byte_timeout = 1000 * unat (unwrap_or 180 (u64_try_from fb_timeout)),
          rt_provider_model_name = (if provider_model_name = [] then model_name else provider_model_name),
          rt_context_tokens = context_tokens, rt_max_output_tokens = max_output_tokens,
          rt_price_input_per_mtok_usd = soft_f64 row 8, rt_price_output_per_mtok_usd = soft_f64 row 9,
          rt_enabled = enabled, rt_provider_key_ref = provider_key_ref, rt_auth_mode = auth_mode,
          rt_protocol = protocol_as_str (protocol_parse protocol_raw),
          rt_provider_key = provider_key_of ce auth_mode provider_key_ref, rt_routing_policy = policy_parse policy,
          rt_accept_anthropic_messages = accept_anthropic_messages, rt_endpoints = endpoints\<rparr>))))))))))))))"

definition budget_column :: "config_env \<Rightarrow> string \<Rightarrow> string option \<Rightarrow> config_error + budget option" where
  "budget_column ce context budget_json =
     (case budget_json of
        None \<Rightarrow> Inr None
      | Some s \<Rightarrow> try_res (ok_or (ConfigJson context) (ce_budget ce s)) (\<lambda>b. Inr (Some b)))"

definition team_row :: "config_env \<Rightarrow> sql_row \<Rightarrow> config_error + team" where
  "team_row ce row =
     try_res (g_i64 row 0) (\<lambda>i.
     try_res (g_str row 1) (\<lambda>name.
     try_res (g_opt_str row 2) (\<lambda>budget_json.
     try_res (g_bool row 3) (\<lambda>enabled.
     try_res (budget_column ce ''parse team budget JSON'' budget_json) (\<lambda>budget.
     Inr \<lparr>tm_id = i, tm_name = name, tm_budget = budget, tm_enabled = enabled\<rparr>)))))"

definition api_key_row :: "config_env \<Rightarrow> sql_row \<Rightarrow> config_error + api_key" where
  "api_key_row ce row =
     try_res (g_i64 row 0) (\<lambda>i.
     try_res (g_str row 1) (\<lambda>key_hash_hex.
     try_res (g_str row 2) (\<lambda>key_prefix.
     try_res (g_i64 row 3) (\<lambda>team_id.
     try_res (g_str row 4) (\<lambda>owner.
     try_res (g_opt_str row 5) (\<lambda>allowed_models_json.
     try_res (g_opt_str row 6) (\<lambda>budget_json.
     try_res (g_opt_i64 row 7) (\<lambda>rpm.
     try_res (g_opt_i64 row 8) (\<lambda>conc.
     try_res (g_opt_i64 row 9) (\<lambda>expires.
     try_res (g_bool row 10) (\<lambda>enabled.
     try_res (hex_to_key_hash key_hash_hex) (\<lambda>key_hash.
     let allowed_models = (case allowed_models_json of None \<Rightarrow> [] | Some s \<Rightarrow> unwrap_or [] (ce_strings ce s)) in
     try_res (budget_column ce ''parse api key budget JSON'' budget_json) (\<lambda>budget.
     Inr \<lparr>ak_id = i, ak_key_hash = key_hash, ak_key_prefix = key_prefix, ak_team_id = team_id, ak_owner = owner,
          ak_allowed_models = allowed_models, ak_budget = budget, ak_rpm_limit = Option.bind rpm u32_try_from,
          ak_concurrency_limit = Option.bind conc u32_try_from, ak_expires_at = expires, ak_enabled = enabled\<rparr>)))))))))))))"

section \<open>Tables\<close>

text \<open>The outcomes of the five queries of a load.\<close>

record config_db =
  cd_backends :: "config_error + sql_row list"
  cd_routes :: "config_error + sql_row list"
  cd_endpoints :: "config_error + sql_row list"
  cd_teams :: "config_error + sql_row list"
  cd_keys :: "config_error + sql_row list"

definition collect_rows :: "(sql_row \<Rightarrow> config_error + 'a) \<Rightarrow> sql_row list \<Rightarrow> config_error + 'a list" where
  "collect_rows decode rows = fold_res (\<lambda>out row. try_res (decode row) (\<lambda>x. Inr (out @ [x]))) [] rows"

definition load_backends :: "config_env \<Rightarrow> config_db \<Rightarrow> config_error + backend list" where
  "load_backends ce db = try_res (cd_backends db) (collect_rows (backend_row ce))"

definition load_route_endpoints :: "config_env \<Rightarrow> config_db \<Rightarrow> config_error + (string, (i64, model_endpoint) hmap) hmap" where
  "load_route_endpoints ce db =
     try_res (cd_endpoints db)
       (fold_res (\<lambda>out row. try_res (endpoint_row ce row) (\<lambda>(model_name, e).
          Inr (hm_insert model_name (hm_insert (ep_backend_id e) e (unwrap_or [] (hm_get out model_name))) out))) [])"

definition load_routes :: "config_env \<Rightarrow> config_db \<Rightarrow> config_error + model_route list" where
  "load_routes ce db =
     try_res (load_route_endpoints ce db) (\<lambda>overrides.
     try_res (cd_routes db) (\<lambda>rows.
     try_res (fold_res (\<lambda>(overrides, out) row.
                try_res (g_str row 0) (\<lambda>model_name.
                try_res (route_row ce (unwrap_or [] (hm_get overrides model_name)) row) (\<lambda>r.
                Inr (hm_remove model_name overrides, out @ [r])))) (overrides, []) rows) (\<lambda>(_, out). Inr out)))"

definition load_team_rows :: "config_env \<Rightarrow> config_db \<Rightarrow> config_error + team list" where
  "load_team_rows ce db = try_res (cd_teams db) (collect_rows (team_row ce))"

definition load_api_keys :: "config_env \<Rightarrow> config_db \<Rightarrow> config_error + api_key list" where
  "load_api_keys ce db = try_res (cd_keys db) (collect_rows (api_key_row ce))"

text \<open>The loop that puts the loaded records under their keys.\<close>

definition index_by :: "('a \<Rightarrow> 'k) \<Rightarrow> 'a list \<Rightarrow> ('k, 'a) hmap" where
  "index_by key xs = foldl (\<lambda>m x. hm_insert (key x) x m) [] xs"

definition load_snapshot :: "config_env \<Rightarrow> config_db \<Rightarrow> config_error + config_snapshot" where
  "load_snapshot ce db =
     try_res (load_backends ce db) (\<lambda>backends.
     try_res (load_routes ce db) (\<lambda>routes.
     try_res (load_team_rows ce db) (\<lambda>teams.
     try_res (load_api_keys ce db) (\<lambda>keys.
     Inr \<lparr>cs_backends = index_by be_id backends, cs_routes = index_by rt_model_name routes, cs_teams = index_by tm_id teams,
          cs_keys_by_hash = index_by ak_key_hash keys\<rparr>))))"

text \<open>One turn of the poll loop keeps the old snapshot when a load fails.\<close>

definition poll :: "config_env \<Rightarrow> config_snapshot \<Rightarrow> config_db \<Rightarrow> config_snapshot" where
  "poll ce cfg db = (case load_snapshot ce db of Inr snap \<Rightarrow> snap | Inl _ \<Rightarrow> cfg)"

section \<open>Key hashes as text\<close>

text \<open>The text the control plane stores, \<open>src/admin/mod.rs\<close>.\<close>

definition hex_encode :: "key_hash \<Rightarrow> string" where
  "hex_encode bs = concat (map (\<lambda>b. [hex_digit (unat (drop_bit 4 b)), hex_digit (unat (b AND 15))]) bs)"

lemma hex_val_digit: "n < 16 \<Longrightarrow> hex_val (hex_digit n) = Some (of_nat n)"
  by (auto simp: hex_val_def hex_digit_def byte_val_def Let_def)

lemma nibbles: "push_bit 4 (drop_bit 4 (b :: u8)) OR (b AND 15) = b"
proof (rule bit_word_eqI)
  fix n assume n: "n < LENGTH(8)"
  have m: "(15 :: u8) = mask 4" by (simp add: mask_eq_exp_minus_1)
  have "bit (15 :: u8) n \<longleftrightarrow> n < 4" using n unfolding m bit_mask_iff by auto
  then show "bit (push_bit 4 (drop_bit 4 b) OR (b AND 15)) n \<longleftrightarrow> bit b n"
    using n by (cases "n < 4") (auto simp: bit_or_iff bit_and_iff bit_push_bit_iff bit_drop_bit_eq)
qed

lemma nibble_bounds: "unat (drop_bit 4 (b :: u8)) < 16" "unat (b AND 15) < 16"
proof -
  have "unat (drop_bit 4 b) = unat b div 16" by (simp add: drop_bit_eq_div unat_div)
  moreover have "unat b < 256" using unsigned_less [of b] by simp
  ultimately show "unat (drop_bit 4 b) < 16" by simp
  have "(b AND 15) \<le> 15" by (rule word_and_le1)
  then show "unat (b AND 15) < 16" by (simp add: word_le_nat_alt)
qed

lemma length_hex_encode [simp]: "length (hex_encode bs) = 2 * length bs"
  by (induction bs) (simp_all add: hex_encode_def)

lemma hex_byte_encode: "i < length bs \<Longrightarrow> hex_byte (hex_encode bs) i = Inr (bs ! i)"
proof (induction bs arbitrary: i)
  case (Cons b bs)
  then show ?case
  proof (cases i)
    case 0
    then show ?thesis
      by (simp add: hex_byte_def hex_encode_def hex_val_digit nibble_bounds nibbles)
  next
    case (Suc j)
    have "hex_byte (hex_encode (b # bs)) (Suc j) = hex_byte (hex_encode bs) j" by (simp add: hex_byte_def hex_encode_def)
    then show ?thesis using Cons Suc by simp
  qed
qed simp

lemma decode_fold_iff:
  "fold_res (\<lambda>s x. try_res (f x) (\<lambda>y. Inr (g s y))) s0 xs = Inr t
     \<longleftrightarrow> (\<exists>ys. list_all2 (\<lambda>x y. f x = Inr y) xs ys \<and> t = foldl g s0 ys)"
proof (induction xs arbitrary: s0)
  case (Cons x xs)
  show ?case
  proof (cases "f x")
    case (Inr y)
    then show ?thesis using Cons.IH [of "g s0 y"] by (auto simp: list_all2_Cons1)
  qed (simp add: list_all2_Cons1)
qed auto

lemma foldl_snoc: "foldl (\<lambda>out y. out @ [y]) acc zs = acc @ zs"
  by (induction zs arbitrary: acc) simp_all

lemma collect_iff:
  "fold_res (\<lambda>out x. try_res (f x) (\<lambda>y. Inr (out @ [y]))) [] xs = Inr ys \<longleftrightarrow> list_all2 (\<lambda>x y. f x = Inr y) xs ys"
  by (simp add: decode_fold_iff foldl_snoc)

lemma hex_wrong_length: "length s \<noteq> 64 \<Longrightarrow> hex_to_key_hash s = Inl (HexLength (length s))"
  unfolding hex_to_key_hash_def by (rule if_P)

lemma hex_loop:
  "length s = 64 \<Longrightarrow> hex_to_key_hash s = Inr h \<longleftrightarrow> list_all2 (\<lambda>i b. hex_byte s i = Inr b) [0..<32] h"
  unfolding hex_to_key_hash_def by (subst if_not_P) (simp, unfold collect_iff, rule refl)

lemma hex_roundtrip: "length h = 32 \<Longrightarrow> hex_to_key_hash (hex_encode h) = Inr h"
  by (subst hex_loop, simp, unfold list_all2_conv_all_nth) (simp add: hex_byte_encode del: upt_rec_numeral)

text \<open>
  A stored key hash is the hash. The 64 hexadecimal digits the control plane writes for a SHA-256 digest are read back as that digest,
  and only texts of 64 hexadecimal digits are accepted; so two digests with the same text are the same digest.
\<close>

theorem key_hash_roundtrip:
  "(hex_to_key_hash (hex_encode h) = Inr h \<longleftrightarrow> length h = 32)
   \<and> ((\<exists>h'. hex_to_key_hash s = Inr h') \<longleftrightarrow> length s = 64 \<and> list_all (\<lambda>c. hex_val c \<noteq> None) s)"
proof
  have "length h = 32" if "hex_to_key_hash (hex_encode h) = Inr h"
    using that hex_wrong_length [of "hex_encode h"] by (cases "length (hex_encode h) = 64") auto
  then show "hex_to_key_hash (hex_encode h) = Inr h \<longleftrightarrow> length h = 32" using hex_roundtrip by blast
  have byte: "(\<exists>b. hex_byte s i = Inr b) \<longleftrightarrow> hex_val (s ! (2 * i)) \<noteq> None \<and> hex_val (s ! (2 * i + 1)) \<noteq> None" for i
    by (auto simp: hex_byte_def result_iffs)
  have all: "(\<forall>k < 64. P k) \<longleftrightarrow> (\<forall>i < 32. P (2 * i) \<and> P (2 * i + 1))" for P :: "nat \<Rightarrow> bool"
  proof (intro iffI allI impI)
    fix k :: nat assume "\<forall>i < 32. P (2 * i) \<and> P (2 * i + 1)" "k < 64"
    then show "P k" by (cases "even k") (auto elim!: evenE oddE)
  qed auto
  have "(\<exists>h'. list_all2 (\<lambda>i b. hex_byte s i = Inr b) [0..<32] h') \<longleftrightarrow> (\<forall>i < 32. \<exists>b. hex_byte s i = Inr b)" (is "?L \<longleftrightarrow> ?R")
  proof
    assume ?L
    then show ?R unfolding list_all2_conv_all_nth by (auto simp del: upt_rec_numeral)
  next
    assume R: ?R
    have "list_all2 (\<lambda>i b. hex_byte s i = Inr b) [0..<32] (map (\<lambda>i. projr (hex_byte s i)) [0..<32])"
      unfolding list_all2_map2
      by (rule list.rel_refl_strong) (use R in \<open>auto simp del: upt_rec_numeral\<close>)
    then show ?L by (rule exI)
  qed
  also have "\<dots> \<longleftrightarrow> (\<forall>k < 64. hex_val (s ! k) \<noteq> None)" unfolding byte all ..
  finally show "(\<exists>h'. hex_to_key_hash s = Inr h') \<longleftrightarrow> length s = 64 \<and> list_all (\<lambda>c. hex_val c \<noteq> None) s"
    using hex_loop [of s] hex_wrong_length [of s] unfolding list_all_length by (metis Inl_Inr_False)
qed

section \<open>Loading a table\<close>

lemma index_by_get: "hm_get (index_by key xs) k = find (\<lambda>x. key x = k) (rev xs)"
proof -
  have "hm_get (foldl (\<lambda>m x. hm_insert (key x) x m) m0 xs) k
      = (case find (\<lambda>x. key x = k) (rev xs) of None \<Rightarrow> hm_get m0 k | Some x \<Rightarrow> Some x)" for m0
  proof (induction xs arbitrary: m0)
    case (Cons x xs)
    have "find P (ys @ [z]) = (case find P ys of None \<Rightarrow> if P z then Some z else None | Some y \<Rightarrow> Some y)" for P :: "'a \<Rightarrow> bool" and ys z
      by (induction ys) auto
    then show ?case using Cons by (auto split: option.split)
  qed simp
  from this [of "[]"] show ?thesis by (simp add: index_by_def split: option.split)
qed

lemma index_by_keyed: "hm_get (index_by key xs) k = Some x \<Longrightarrow> x \<in> set xs \<and> key x = k"
  by (auto simp: index_by_get find_Some_iff) (metis nth_mem length_rev set_rev)

lemma index_by_distinct: "distinct (map key xs) \<Longrightarrow> hm_get (index_by key xs) k = Some x \<longleftrightarrow> x \<in> set xs \<and> key x = k"
proof
  assume d: "distinct (map key xs)" and x: "x \<in> set xs \<and> key x = k"
  then obtain y where y: "hm_get (index_by key xs) k = Some y"
    by (cases "find (\<lambda>x. key x = k) (rev xs)") (auto simp: index_by_get find_None_iff)
  from index_by_keyed [OF y] d x have "x = y" by (auto simp: distinct_map inj_on_def)
  with y show "hm_get (index_by key xs) k = Some x" by simp
qed (rule index_by_keyed)

lemma index_by_distinct_keys: "distinct (hm_keys (index_by key xs))"
proof -
  have "distinct (hm_keys m0) \<Longrightarrow> distinct (hm_keys (foldl (\<lambda>m x. hm_insert (key x) x m) m0 xs))" for m0
    by (induction xs arbitrary: m0) (auto intro: hm_distinct_insert)
  then show ?thesis by (simp add: index_by_def)
qed

text \<open>
  A table whose rows decode to records that carry the row's key. The client is the snapshot: whatever the table, a lookup under a key
  finds the record of the row with that key.
\<close>

locale keyed_table =
  fixes decode :: "sql_row \<Rightarrow> config_error + 'a" and key :: "'a \<Rightarrow> 'k" and row_key :: "sql_row \<Rightarrow> 'k"
  assumes decoded_key: "decode row = Inr x \<Longrightarrow> key x = row_key row"
begin

lemma collected: "collect_rows decode rows = Inr xs \<Longrightarrow> list_all2 (\<lambda>row x. decode row = Inr x) rows xs"
  by (simp add: collect_rows_def collect_iff)

lemma collected_keys: "collect_rows decode rows = Inr xs \<Longrightarrow> map key xs = map row_key rows"
  by (drule collected, rule nth_equalityI) (auto simp: list_all2_conv_all_nth decoded_key)

lemma collected_mem:
  assumes "collect_rows decode rows = Inr xs"
  shows "x \<in> set xs \<longleftrightarrow> (\<exists>row \<in> set rows. decode row = Inr x)"
  using collected [OF assms] by (fastforce simp: list_all2_conv_all_nth in_set_conv_nth)

lemma lookup_exact:
  assumes "collect_rows decode rows = Inr xs" and "distinct (map row_key rows)"
  shows "hm_get (index_by key xs) k = Some x \<longleftrightarrow> (\<exists>row \<in> set rows. decode row = Inr x \<and> row_key row = k)"
  using index_by_distinct [of key xs k x] assms(2) collected_keys [OF assms(1)] collected_mem [OF assms(1)] decoded_key by auto

end

definition int_key :: "sql_row \<Rightarrow> i64" where
  "int_key row = projr (g_i64 row 0)"

definition text_key :: "sql_row \<Rightarrow> string" where
  "text_key row = projr (g_str row 0)"

definition hash_column :: "sql_row \<Rightarrow> key_hash" where
  "hash_column row = projr (hex_to_key_hash (projr (g_str row 1)))"

interpretation backend_table: keyed_table "backend_row ce" be_id int_key
  by unfold_locales (auto simp: backend_row_def result_iffs int_key_def)

interpretation team_table: keyed_table "team_row ce" tm_id int_key
  by unfold_locales (auto simp: team_row_def result_iffs int_key_def)

interpretation key_table: keyed_table "api_key_row ce" ak_key_hash hash_column
  by unfold_locales (auto simp: api_key_row_def result_iffs Let_def hash_column_def)

interpretation route_table: keyed_table "\<lambda>row. route_row ce (endpoints row) row" rt_model_name text_key
  by unfold_locales (auto simp: route_row_def result_iffs Let_def text_key_def)

definition endpoint_pair :: "string \<times> model_endpoint \<Rightarrow> string \<times> i64" where
  "endpoint_pair = (\<lambda>(m, e). (m, ep_backend_id e))"

definition endpoint_key :: "sql_row \<Rightarrow> string \<times> i64" where
  "endpoint_key row = (projr (g_str row 0), projr (g_i64 row 1))"

interpretation endpoint_table: keyed_table "endpoint_row ce" endpoint_pair endpoint_key
  by unfold_locales (auto simp: endpoint_row_def result_iffs Let_def endpoint_pair_def endpoint_key_def)

text \<open>The map of maps of the overrides is the table keyed by model and backend.\<close>

lemma overrides_get:
  "hm_get (unwrap_or [] (hm_get (foldl (\<lambda>out (m, e). hm_insert m (hm_insert (ep_backend_id e) e (unwrap_or [] (hm_get out m))) out) [] xs) m)) b
     = map_option snd (hm_get (index_by endpoint_pair xs) (m, b))"
proof -
  have "(\<And>m b. hm_get (unwrap_or [] (hm_get o0 m)) b = map_option snd (hm_get i0 (m, b)))
    \<Longrightarrow> hm_get (unwrap_or [] (hm_get (foldl (\<lambda>out (m, e). hm_insert m (hm_insert (ep_backend_id e) e (unwrap_or [] (hm_get out m))) out) o0 xs) m)) b
      = map_option snd (hm_get (foldl (\<lambda>i x. hm_insert (endpoint_pair x) x i) i0 xs) (m, b))"
    for o0 :: "(string, (i64, model_endpoint) hmap) hmap" and i0 :: "(string \<times> i64, string \<times> model_endpoint) hmap"
  proof (induction xs arbitrary: o0 i0)
    case (Cons x xs)
    show ?case
      unfolding foldl_Cons by (rule Cons.IH) (use Cons.prems in \<open>auto simp: endpoint_pair_def split: prod.split\<close>)
  qed simp
  then show ?thesis by (simp add: index_by_def)
qed

lemma overrides_exact:
  assumes "load_route_endpoints ce db = Inr overrides" and "cd_endpoints db = Inr es" and "distinct (map endpoint_key es)"
  shows "hm_get (unwrap_or [] (hm_get overrides m)) b = Some e
    \<longleftrightarrow> (\<exists>row \<in> set es. endpoint_row ce row = Inr (m, e) \<and> ep_backend_id e = b)"
proof -
  from assms(1,2) obtain xs where xs: "list_all2 (\<lambda>row x. endpoint_row ce row = Inr x) es xs"
      "overrides = foldl (\<lambda>out (m, e). hm_insert m (hm_insert (ep_backend_id e) e (unwrap_or [] (hm_get out m))) out) [] xs"
    by (auto simp: load_route_endpoints_def decode_fold_iff case_prod_beta')
  from xs(1) have c: "collect_rows (endpoint_row ce) es = Inr xs" by (simp add: collect_rows_def collect_iff)
  show ?thesis
    unfolding xs(2) overrides_get using endpoint_table.lookup_exact [OF c assms(3), of "(m, b)"] endpoint_table.decoded_key [of ce]
    by (fastforce simp: endpoint_pair_def)
qed

text \<open>Overrides are taken out of the map as they are used; with one row per model that makes no difference.\<close>

lemma routes_collected:
  assumes "fold_res (\<lambda>(ov, out) row. try_res (g_str row 0) (\<lambda>m. try_res (route_row ce (unwrap_or [] (hm_get ov m)) row)
      (\<lambda>r. Inr (hm_remove m ov, out @ [r])))) (ov, acc) rows = Inr (ov', out)"
    and "distinct (map text_key rows)"
  shows "\<exists>rs. out = acc @ rs \<and> collect_rows (\<lambda>row. route_row ce (unwrap_or [] (hm_get ov (text_key row))) row) rows = Inr rs"
  using assms
proof (induction rows arbitrary: ov acc)
  case (Cons row rows)
  from Cons.prems(1) obtain m r where m: "g_str row 0 = Inr m" "route_row ce (unwrap_or [] (hm_get ov m)) row = Inr r"
      and rest: "fold_res (\<lambda>(ov, out) row. try_res (g_str row 0) (\<lambda>m. try_res (route_row ce (unwrap_or [] (hm_get ov m)) row)
        (\<lambda>r. Inr (hm_remove m ov, out @ [r])))) (hm_remove m ov, acc @ [r]) rows = Inr (ov', out)"
    by (auto simp: result_iffs)
  from Cons.IH [OF rest] Cons.prems(2) obtain rs where rs: "out = acc @ r # rs"
      "list_all2 (\<lambda>row r. route_row ce (unwrap_or [] (hm_get (hm_remove m ov) (text_key row))) row = Inr r) rows rs"
    by (auto simp: collect_rows_def collect_iff)
  have "text_key row = m" using m(1) by (simp add: text_key_def)
  moreover from this Cons.prems(2) have "m \<notin> text_key ` set rows" by simp
  ultimately have "list_all2 (\<lambda>row r. route_row ce (unwrap_or [] (hm_get ov (text_key row))) row = Inr r) rows rs"
    by (intro list.rel_mono_strong [OF rs(2)]) (metis (no_types, lifting) hm_get_remove imageI)
  then have "list_all2 (\<lambda>row r. route_row ce (unwrap_or [] (hm_get ov (text_key row))) row = Inr r) (row # rows) (r # rs)"
    using m \<open>text_key row = m\<close> by simp
  with rs(1) show ?case unfolding collect_rows_def collect_iff by blast
qed (auto simp: collect_rows_def)

lemma load_snapshotD:
  assumes "load_snapshot ce db = Inr snap"
  obtains backends routes teams keys where "load_backends ce db = Inr backends" "load_routes ce db = Inr routes"
    "load_team_rows ce db = Inr teams" "load_api_keys ce db = Inr keys"
    "snap = \<lparr>cs_backends = index_by be_id backends, cs_routes = index_by rt_model_name routes, cs_teams = index_by tm_id teams,
      cs_keys_by_hash = index_by ak_key_hash keys\<rparr>"
  using assms by (auto simp: load_snapshot_def result_iffs)

lemma loaded_routes:
  assumes "load_routes ce db = Inr routes" and "cd_routes db = Inr rs" and "distinct (map text_key rs)"
    and "cd_endpoints db = Inr es" and "distinct (map endpoint_key es)"
  shows "(\<exists>r. hm_get (index_by rt_model_name routes) m = Some r) \<longleftrightarrow> m \<in> text_key ` set rs"
    and "hm_get (index_by rt_model_name routes) m = Some r \<Longrightarrow>
      (\<exists>row \<in> set rs. text_key row = m \<and> route_row ce (rt_endpoints r) row = Inr r)
      \<and> (\<forall>b e. hm_get (rt_endpoints r) b = Some e \<longleftrightarrow> (\<exists>row \<in> set es. endpoint_row ce row = Inr (m, e) \<and> ep_backend_id e = b))"
proof -
  from assms(1,2) obtain ov ov' where ov: "load_route_endpoints ce db = Inr ov"
      and f: "fold_res (\<lambda>(ov, out) row. try_res (g_str row 0) (\<lambda>m. try_res (route_row ce (unwrap_or [] (hm_get ov m)) row)
        (\<lambda>r. Inr (hm_remove m ov, out @ [r])))) (ov, []) rs = Inr (ov', routes)"
    by (auto simp: load_routes_def result_iffs)
  let ?ep = "\<lambda>row. unwrap_or [] (hm_get ov (text_key row))"
  from routes_collected [OF f assms(3)]
  have c: "collect_rows (\<lambda>row. route_row ce (?ep row) row) rs = Inr routes" by simp
  have eps: "rt_endpoints r = endpoints" if "route_row ce endpoints row = Inr r" for r row endpoints
    using that by (auto simp: route_row_def result_iffs Let_def)
  note look = route_table.lookup_exact [OF c assms(3), of m]
  show "hm_get (index_by rt_model_name routes) m = Some r \<Longrightarrow>
      (\<exists>row \<in> set rs. text_key row = m \<and> route_row ce (rt_endpoints r) row = Inr r)
      \<and> (\<forall>b e. hm_get (rt_endpoints r) b = Some e \<longleftrightarrow> (\<exists>row \<in> set es. endpoint_row ce row = Inr (m, e) \<and> ep_backend_id e = b))"
  proof -
    assume "hm_get (index_by rt_model_name routes) m = Some r"
    then obtain row where row: "row \<in> set rs" "route_row ce (?ep row) row = Inr r" "text_key row = m" using look by blast
    from eps [OF row(2)] row(3) have e: "rt_endpoints r = unwrap_or [] (hm_get ov m)" by simp
    show ?thesis using row overrides_exact [OF ov assms(4,5), of m] unfolding e by auto
  qed
  have "m \<in> text_key ` set rs \<longleftrightarrow> m \<in> rt_model_name ` set routes"
    using arg_cong [OF route_table.collected_keys [OF c], of set] by simp
  also have "\<dots> \<longleftrightarrow> (\<exists>r. hm_get (index_by rt_model_name routes) m = Some r)"
    using index_by_distinct [of rt_model_name routes m] route_table.collected_keys [OF c] assms(3) by auto
  finally show "(\<exists>r. hm_get (index_by rt_model_name routes) m = Some r) \<longleftrightarrow> m \<in> text_key ` set rs" by blast
qed

text \<open>
  C38. A loaded snapshot is the database. When a load succeeds and the primary keys of the tables are unique, a lookup in the snapshot
  finds exactly the record of the row with that key: the backends, the teams, the keys by their hash, and the routes, each with exactly
  the endpoint overrides of its model. No row is skipped and none is invented.
\<close>

theorem snapshot_exact:
  assumes "load_snapshot ce db = Inr snap"
    and "cd_backends db = Inr bs" and "cd_teams db = Inr ts" and "cd_keys db = Inr ks" and "cd_routes db = Inr rs" and "cd_endpoints db = Inr es"
    and "distinct (map int_key bs)" and "distinct (map int_key ts)" and "distinct (map hash_column ks)" and "distinct (map text_key rs)"
    and "distinct (map endpoint_key es)"
  shows "(hm_get (cs_backends snap) i = Some b \<longleftrightarrow> (\<exists>row \<in> set bs. backend_row ce row = Inr b \<and> be_id b = i))
    \<and> (hm_get (cs_teams snap) i = Some t \<longleftrightarrow> (\<exists>row \<in> set ts. team_row ce row = Inr t \<and> tm_id t = i))
    \<and> (hm_get (cs_keys_by_hash snap) h = Some k \<longleftrightarrow> (\<exists>row \<in> set ks. api_key_row ce row = Inr k \<and> ak_key_hash k = h))
    \<and> ((\<exists>r. hm_get (cs_routes snap) m = Some r) \<longleftrightarrow> m \<in> text_key ` set rs)
    \<and> (hm_get (cs_routes snap) m = Some r \<longrightarrow>
        (\<exists>row \<in> set rs. text_key row = m \<and> route_row ce (rt_endpoints r) row = Inr r)
        \<and> (\<forall>i e. hm_get (rt_endpoints r) i = Some e \<longleftrightarrow> (\<exists>row \<in> set es. endpoint_row ce row = Inr (m, e) \<and> ep_backend_id e = i)))"
proof -
  from assms(1) obtain backends routes teams keys where L: "load_backends ce db = Inr backends" "load_routes ce db = Inr routes"
      "load_team_rows ce db = Inr teams" "load_api_keys ce db = Inr keys"
      and snap: "snap = \<lparr>cs_backends = index_by be_id backends, cs_routes = index_by rt_model_name routes, cs_teams = index_by tm_id teams,
        cs_keys_by_hash = index_by ak_key_hash keys\<rparr>"
    by (rule load_snapshotD)
  have c: "collect_rows (backend_row ce) bs = Inr backends" "collect_rows (team_row ce) ts = Inr teams" "collect_rows (api_key_row ce) ks = Inr keys"
    using L assms(2-4) by (simp_all add: load_backends_def load_team_rows_def load_api_keys_def)
  note loaded_routes [OF L(2) assms(5,10,6,11), of m]
  moreover have "hm_get (index_by be_id backends) i = Some b \<longleftrightarrow> (\<exists>row \<in> set bs. backend_row ce row = Inr b \<and> be_id b = i)"
    using backend_table.lookup_exact [OF c(1) assms(7)] backend_table.decoded_key by metis
  moreover have "hm_get (index_by tm_id teams) i = Some t \<longleftrightarrow> (\<exists>row \<in> set ts. team_row ce row = Inr t \<and> tm_id t = i)"
    using team_table.lookup_exact [OF c(2) assms(8)] team_table.decoded_key by metis
  moreover have "hm_get (index_by ak_key_hash keys) h = Some k \<longleftrightarrow> (\<exists>row \<in> set ks. api_key_row ce row = Inr k \<and> ak_key_hash k = h)"
    using key_table.lookup_exact [OF c(3) assms(9)] key_table.decoded_key by metis
  ultimately show ?thesis unfolding snap by simp
qed

definition demo_ce :: config_env where
  "demo_ce = \<lparr>ce_var = (\<lambda>_. None), ce_read_file = (\<lambda>_. None), ce_ids = (\<lambda>_. Some [1]), ce_strings = (\<lambda>_. None), ce_budget = (\<lambda>_. None)\<rparr>"

definition demo_tables :: config_db where
  "demo_tables = \<lparr>
     cd_backends = Inr [[SqlInt 1, SqlText ''b'', SqlText ''http://b'', SqlText ''env:K'', SqlInt 1, SqlInt 0, SqlText ''openai'', SqlBool True]],
     cd_routes = Inr [[SqlText ''m'', SqlText ''[1]'', SqlNull, SqlFloat (Fin 4), SqlInt 5, SqlText [], SqlNull, SqlNull, SqlNull, SqlNull,
       SqlBool True, SqlNull, SqlText ''bearer'', SqlText ''openai_chat'', SqlText ''rr'', SqlBool False]],
     cd_endpoints = Inr [[SqlText ''m'', SqlInt 1, SqlText [], SqlNull, SqlText ''bearer'', SqlText ''openai_chat'', SqlInt 2, SqlInt 0, SqlBool True]],
     cd_teams = Inr [[SqlInt 1, SqlText ''t'', SqlNull, SqlBool True]],
     cd_keys = Inr [[SqlInt 7, SqlText (hex_encode (replicate 32 0)), SqlText [], SqlInt 1, SqlText [], SqlText ''[broken'', SqlNull, SqlNull,
       SqlInt (- 1), SqlNull, SqlBool True]]\<rparr>"

lemmas column_defs = column_def g_i64_def g_opt_i64_def g_f64_def g_str_def g_opt_str_def g_bool_def soft_str_def

lemma demo_loads: "\<exists>snap. load_snapshot demo_ce demo_tables = Inr snap"
proof -
  have "\<exists>b. load_backends demo_ce demo_tables = Inr b"
    by (simp add: load_backends_def demo_tables_def collect_rows_def backend_row_def column_defs)
  moreover have "\<exists>t. load_team_rows demo_ce demo_tables = Inr t"
    by (simp add: load_team_rows_def demo_tables_def collect_rows_def team_row_def column_defs budget_column_def)
  moreover have "\<exists>r. load_routes demo_ce demo_tables = Inr r"
    by (simp add: load_routes_def load_route_endpoints_def demo_tables_def endpoint_row_def route_row_def column_defs demo_ce_def Let_def)
  moreover have "\<exists>k. load_api_keys demo_ce demo_tables = Inr k"
    by (simp add: load_api_keys_def demo_tables_def collect_rows_def api_key_row_def column_defs hex_roundtrip Let_def budget_column_def)
  ultimately show ?thesis by (auto simp: load_snapshot_def)
qed

theorem snapshot_exact_witness:
  "\<exists>snap t. load_snapshot demo_ce demo_tables = Inr snap \<and> hm_get (cs_teams snap) 1 = Some t \<and> tm_name t = ''t''
     \<and> (\<exists>r. hm_get (cs_routes snap) ''m'' = Some r)"
proof -
  let ?t = "\<lparr>tm_id = 1, tm_name = ''t'', tm_budget = None, tm_enabled = True\<rparr>"
  obtain snap where snap: "load_snapshot demo_ce demo_tables = Inr snap" using demo_loads by blast
  obtain bs ts ks rs es where d: "cd_backends demo_tables = Inr [bs]" "cd_teams demo_tables = Inr [ts]" "cd_keys demo_tables = Inr [ks]"
      "cd_routes demo_tables = Inr [rs]" "cd_endpoints demo_tables = Inr [es]" "ts = [SqlInt 1, SqlText ''t'', SqlNull, SqlBool True]"
      "g_str rs 0 = Inr ''m''"
    by (simp add: demo_tables_def column_defs)
  have "team_row demo_ce ts = Inr ?t" by (simp add: d(6) team_row_def column_defs budget_column_def)
  then show ?thesis
    using snapshot_exact [OF snap d(1-5), where i = 1 and t = ?t and m = "''m''"] snap d(7) by (auto simp: text_key_def)
qed

text \<open>
  A list of allowed models that does not parse is no restriction at all: the key of such a row may use every model.
\<close>

lemma malformed_models_unrestricted:
  assumes "api_key_row ce row = Inr k" and "g_opt_str row 5 = Inr (Some s)" and "ce_strings ce s = None"
  shows "model_allowed k m"
  using assms by (auto simp: api_key_row_def result_iffs Let_def model_allowed_def)

text \<open>The same holds for a limit that does not fit: the key has none.\<close>

lemma negative_limit_unlimited:
  assumes "api_key_row ce row = Inr k" and "g_opt_i64 row 8 = Inr (Some n)" and "n < 0"
  shows "ak_concurrency_limit k = None"
  using assms by (auto simp: api_key_row_def result_iffs Let_def u32_try_from_def)

end
