(* ===== verification/Admin_Auth.thy ===== *)
theory Admin_Auth
  imports Config Handlers Net
begin

text \<open>
  Access to the control plane, first part of \<open>src/admin/mod.rs\<close>: address ranges, the guard against guessing the master key, the
  comparison of keys and the check every administrative request starts with. The table of failures is a map, its clock (milliseconds)
  an argument; the check and the record of a failure read the clock at two instants.
\<close>

section \<open>Errors\<close>

record api_error =
  ae_status :: u16
  ae_message :: string

definition api_error_new :: "u16 \<Rightarrow> string \<Rightarrow> api_error" where
  "api_error_new status message = \<lparr>ae_status = status, ae_message = message\<rparr>"

definition api_internal :: "string \<Rightarrow> api_error" where
  "api_internal message = api_error_new 500 message"

definition api_unauthorized :: "string \<Rightarrow> api_error" where
  "api_unauthorized message = api_error_new 401 message"

definition api_forbidden :: "string \<Rightarrow> api_error" where
  "api_forbidden message = api_error_new 403 message"

definition api_not_found :: "string \<Rightarrow> api_error" where
  "api_not_found message = api_error_new 404 message"

lemmas api_errors = api_error_new_def api_internal_def api_unauthorized_def api_forbidden_def api_not_found_def

section \<open>Address ranges\<close>

datatype ip_addr = V4 ipv4 | V6 ipv6

text \<open>\<open>IpAddr::from_str\<close>: an IPv4 address is tried first.\<close>

definition parse_ip :: "string \<Rightarrow> ip_addr option" where
  "parse_ip s =
     (case read_ipv4 s of
        Some (a, rest) \<Rightarrow> if rest = [] then Some (V4 a) else None
      | None \<Rightarrow> map_option V6 (parse_ipv6 s))"

definition parse_u8 :: "string \<Rightarrow> nat option" where
  "parse_u8 s = filter_opt (\<lambda>n. n < 256) (map_option unat (parse_u64 s))"

definition parse_cidr :: "string \<Rightarrow> (ip_addr \<times> nat) option" where
  "parse_cidr s =
     (case split_at_char (CHR ''/'') s of
        None \<Rightarrow> None
      | Some (addr, prefix_text) \<Rightarrow>
          Option.bind (parse_ip addr) (\<lambda>ip.
          Option.bind (parse_u8 prefix_text) (\<lambda>prefix.
          case ip of
            V4 a \<Rightarrow> if prefix \<le> 32 then Some (V4 a, prefix) else None
          | V6 a \<Rightarrow> if prefix \<le> 128 then Some (V6 a, prefix) else None)))"

definition v4_bits :: "ipv4 \<Rightarrow> u32" where
  "v4_bits a = foldl (\<lambda>n octet. n * 256 + of_nat octet) 0 a"

definition v6_bits :: "ipv6 \<Rightarrow> 128 word" where
  "v6_bits a = foldl (\<lambda>n group. n * 65536 + of_nat group) 0 a"

definition prefix_mask :: "nat \<Rightarrow> 'a::len word" where
  "prefix_mask prefix = (if prefix = 0 then 0 else push_bit (LENGTH('a) - prefix) (- 1))"

definition ip_matches_cidr :: "ip_addr \<Rightarrow> string \<Rightarrow> bool" where
  "ip_matches_cidr ip cidr =
     (case parse_cidr cidr of
        None \<Rightarrow> False
      | Some (network, prefix) \<Rightarrow>
          (case (ip, network) of
             (V4 a, V4 n) \<Rightarrow> v4_bits a AND prefix_mask prefix = v4_bits n AND prefix_mask prefix
           | (V6 a, V6 n) \<Rightarrow> v6_bits a AND prefix_mask prefix = v6_bits n AND prefix_mask prefix
           | _ \<Rightarrow> False))"

section \<open>The master key\<close>

text \<open>An empty key ends the start of the process.\<close>

definition validate_master_key :: "string \<Rightarrow> string option" where
  "validate_master_key value = (if trim value = [] then None else Some value)"

definition allow_cidrs_of :: "string option \<Rightarrow> string list" where
  "allow_cidrs_of setting = filter (\<lambda>s. s \<noteq> []) (map trim (split_char (CHR '','') (unwrap_or ''127.0.0.1/32'' setting)))"

definition ADMIN_AUTH_MAX_FAILURES :: u32 where "ADMIN_AUTH_MAX_FAILURES = 10"
definition ADMIN_AUTH_WINDOW :: duration where "ADMIN_AUTH_WINDOW = 60000"
definition ADMIN_AUTH_MAX_TRACKED_IPS :: usize where "ADMIN_AUTH_MAX_TRACKED_IPS = 4096"

record failure_window =
  fw_first_failure :: instant
  fw_count :: u32

type_synonym failures = "(ip_addr, failure_window) hmap"

definition in_window :: "failure_window \<Rightarrow> instant \<Rightarrow> bool" where
  "in_window w now \<longleftrightarrow> now - fw_first_failure w < ADMIN_AUTH_WINDOW"

definition admin_auth_rate_limited :: "failures \<Rightarrow> ip_addr \<Rightarrow> instant \<Rightarrow> failures \<times> bool" where
  "admin_auth_rate_limited fs peer_ip now =
     (case hm_get fs peer_ip of
        None \<Rightarrow> (fs, False)
      | Some w \<Rightarrow> if in_window w now then (fs, fw_count w \<ge> ADMIN_AUTH_MAX_FAILURES) else (hm_remove peer_ip fs, False))"

definition record_admin_auth_failure :: "failures \<Rightarrow> ip_addr \<Rightarrow> instant \<Rightarrow> failures" where
  "record_admin_auth_failure fs peer_ip now =
     (let fs1 = (if length fs \<ge> ADMIN_AUTH_MAX_TRACKED_IPS then filter (\<lambda>(_, w). in_window w now) fs else fs) in
      case hm_get fs1 peer_ip of
        Some w \<Rightarrow>
          if in_window w now then hm_insert peer_ip (w\<lparr>fw_count := sat_add (fw_count w) 1\<rparr>) fs1
          else hm_insert peer_ip \<lparr>fw_first_failure = now, fw_count = 1\<rparr> fs1
      | None \<Rightarrow> hm_insert peer_ip \<lparr>fw_first_failure = now, fw_count = 1\<rparr> fs1)"

definition clear_admin_auth_failures :: "failures \<Rightarrow> ip_addr \<Rightarrow> failures" where
  "clear_admin_auth_failures fs peer_ip = hm_remove peer_ip fs"

definition constant_time_eq :: "bytes \<Rightarrow> bytes \<Rightarrow> bool" where
  "constant_time_eq left right =
     (if length left \<noteq> length right then False
      else foldl (\<lambda>diff (a, b). diff OR (a XOR b)) (0 :: u8) (zip (map of_char left) (map of_char right)) = 0)"

definition provided_admin_key :: "http_client \<Rightarrow> header_map \<Rightarrow> string option" where
  "provided_admin_key hc headers =
     or_else (filter_opt (hc_text_ok hc) (hdr_get headers ''x-admin-key''))
       (Option.bind (filter_opt (hc_text_ok hc) (hdr_get headers ''authorization'')) (\<lambda>v. strip_prefix v ''Bearer ''))"

definition check_admin_auth ::
  "http_client \<Rightarrow> string \<Rightarrow> string list \<Rightarrow> header_map \<Rightarrow> ip_addr \<Rightarrow> instant \<Rightarrow> instant \<Rightarrow> failures \<Rightarrow> failures \<times> (api_error + unit)" where
  "check_admin_auth hc master_key allow_cidrs headers peer_ip t_check t_fail fs =
     (case admin_auth_rate_limited fs peer_ip t_check of
        (fs1, True) \<Rightarrow> (fs1, Inl (api_error_new 429 ''too many failed admin auth attempts; retry later''))
      | (fs1, False) \<Rightarrow>
          (let key_ok = (case provided_admin_key hc headers of None \<Rightarrow> False | Some value \<Rightarrow> constant_time_eq value master_key) in
           if \<not> key_ok then (record_admin_auth_failure fs1 peer_ip t_fail, Inl (api_unauthorized ''invalid admin key''))
           else if \<not> list_ex (ip_matches_cidr peer_ip) allow_cidrs then (fs1, Inl (api_forbidden ''ip not allowed''))
           else (clear_admin_auth_failures fs1 peer_ip, Inr ())))"

section \<open>New keys\<close>

text \<open>The sixteen random bytes are an argument.\<close>

definition generate_key :: "u8 list \<Rightarrow> string" where
  "generate_key random_bytes = ''sk-brighto-'' @ hex_encode random_bytes"

section \<open>Comparison of keys\<close>

lemma of_char_u8_inj: "(of_char a :: u8) = of_char b \<longleftrightarrow> a = b"
proof
  have "unat (of_char c :: u8) = of_char c" for c
    by (subst of_nat_of_char [symmetric]) (simp add: unat_of_nat)
  moreover assume "(of_char a :: u8) = of_char b"
  ultimately have "(of_char a :: nat) = of_char b" by metis
  then show "a = b" by simp
qed simp

lemma xor_zero_iff: "(a :: 'a::len word) XOR b = 0 \<longleftrightarrow> a = b"
  by (auto simp: bit_eq_iff bit_xor_iff)

lemma diff_zero: "foldl (\<lambda>diff (a, b). diff OR (a XOR b)) d ps = (0 :: u8) \<longleftrightarrow> d = 0 \<and> (\<forall>(a, b) \<in> set ps. a = b)"
  by (induction ps arbitrary: d) (auto simp: or_eq_0_iff xor_zero_iff)

lemma constant_time_eq_iff: "constant_time_eq l r \<longleftrightarrow> l = r"
proof (cases "length l = length r")
  case True
  then have "constant_time_eq l r \<longleftrightarrow> (\<forall>(a, b) \<in> set (zip (map of_char l) (map of_char r)). (a :: u8) = b)"
    by (simp add: constant_time_eq_def diff_zero)
  also have "\<dots> \<longleftrightarrow> (\<forall>i < length l. l ! i = r ! i)" using True by (auto simp: set_zip) (metis nth_map of_char_u8_inj)+
  also have "\<dots> \<longleftrightarrow> l = r" using True by (auto simp: list_eq_iff_nth_eq)
  finally show ?thesis .
qed (auto simp: constant_time_eq_def)

section \<open>Ranges\<close>

lemma bit_prefix_mask: "p \<le> LENGTH('a) \<Longrightarrow> bit (prefix_mask p :: 'a::len word) n \<longleftrightarrow> LENGTH('a) - p \<le> n \<and> n < LENGTH('a)"
  by (auto simp: prefix_mask_def bit_not_iff bit_mask_iff)

lemma masked_eq_iff:
  fixes x y :: "'a::len word"
  assumes "p \<le> LENGTH('a)"
  shows "x AND prefix_mask p = y AND prefix_mask p \<longleftrightarrow> (\<forall>i < p. bit x (LENGTH('a) - 1 - i) = bit y (LENGTH('a) - 1 - i))"
proof -
  have "x AND prefix_mask p = y AND prefix_mask p \<longleftrightarrow> (\<forall>n. LENGTH('a) - p \<le> n \<and> n < LENGTH('a) \<longrightarrow> bit x n = bit y n)"
    by (auto simp: bit_eq_iff bit_and_iff bit_prefix_mask assms)
  also have "\<dots> \<longleftrightarrow> (\<forall>i < p. bit x (LENGTH('a) - 1 - i) = bit y (LENGTH('a) - 1 - i))"
  proof (rule iffI; intro allI impI)
    fix n assume a: "\<forall>i < p. bit x (LENGTH('a) - 1 - i) = bit y (LENGTH('a) - 1 - i)" and n: "LENGTH('a) - p \<le> n \<and> n < LENGTH('a)"
    from n assms have "LENGTH('a) - 1 - n < p" "LENGTH('a) - 1 - (LENGTH('a) - 1 - n) = n" by arith+
    with a show "bit x n = bit y n" by metis
  next
    fix i assume a: "\<forall>n. LENGTH('a) - p \<le> n \<and> n < LENGTH('a) \<longrightarrow> bit x n = bit y n" and "i < p"
    then show "bit x (LENGTH('a) - 1 - i) = bit y (LENGTH('a) - 1 - i)" using assms by simp
  qed
  finally show ?thesis .
qed

lemma parse_cidr_bounds: "parse_cidr s = Some (V4 a, p) \<Longrightarrow> p \<le> 32" "parse_cidr s = Some (V6 b, p) \<Longrightarrow> p \<le> 128"
proof -
  have "(case ip of V4 a \<Rightarrow> p \<le> 32 | V6 a \<Rightarrow> p \<le> 128)" if c: "parse_cidr s = Some (ip, p)" for ip
  proof -
    from c obtain addr t ip' q where "parse_ip addr = Some ip'" "parse_u8 t = Some q"
        "(case ip' of V4 a \<Rightarrow> if q \<le> 32 then Some (V4 a, q) else None | V6 a \<Rightarrow> if q \<le> 128 then Some (V6 a, q) else None) = Some (ip, p)"
      by (auto simp: parse_cidr_def Option.bind_eq_Some_conv split: option.splits)
    then show ?thesis by (cases ip') (auto split: if_splits)
  qed
  from this [of "V4 a"] this [of "V6 b"]
  show "parse_cidr s = Some (V4 a, p) \<Longrightarrow> p \<le> 32" "parse_cidr s = Some (V6 b, p) \<Longrightarrow> p \<le> 128" by simp_all
qed

definition in_range :: "ip_addr \<Rightarrow> string \<Rightarrow> bool" where
  "in_range ip cidr \<longleftrightarrow> (\<exists>network p. parse_cidr cidr = Some (network, p) \<and>
     (case (ip, network) of
        (V4 a, V4 n) \<Rightarrow> \<forall>i < p. bit (v4_bits a) (31 - i) = bit (v4_bits n) (31 - i)
      | (V6 a, V6 n) \<Rightarrow> \<forall>i < p. bit (v6_bits a) (127 - i) = bit (v6_bits n) (127 - i)
      | _ \<Rightarrow> False))"

lemma ip_matches_iff: "ip_matches_cidr ip cidr \<longleftrightarrow> in_range ip cidr"
proof (cases "parse_cidr cidr")
  case (Some x)
  obtain n p where x: "x = (n, p)" by force
  then show ?thesis using Some parse_cidr_bounds [of cidr _ p] masked_eq_iff [where 'a = 32 and p = p] masked_eq_iff [where 'a = 128 and p = p]
    by (auto simp: ip_matches_cidr_def in_range_def split: ip_addr.splits)
qed (simp add: ip_matches_cidr_def in_range_def)

text \<open>
  C18. Exactly the configured peers with the exact key get in. A request passes the check exactly when its address is not locked out, the
  key it presents is the master key to the last byte, and its socket address lies in a configured range: of the same family, with
  the first bits of the prefix equal. A locked-out address gets 429 even with the right key, a wrong key 401, a foreign address 403.
\<close>

theorem admin_access_exact:
  "case check_admin_auth hc master_key allow_cidrs headers peer_ip t_check t_fail fs of
     (fs', r) \<Rightarrow>
       r = (if snd (admin_auth_rate_limited fs peer_ip t_check)
            then Inl (api_error_new 429 ''too many failed admin auth attempts; retry later'')
            else if provided_admin_key hc headers \<noteq> Some master_key then Inl (api_unauthorized ''invalid admin key'')
            else if \<not> (\<exists>cidr \<in> set allow_cidrs. in_range peer_ip cidr) then Inl (api_forbidden ''ip not allowed'')
            else Inr ())"
  by (auto simp: check_admin_auth_def constant_time_eq_iff ip_matches_iff list_ex_iff Let_def split: prod.splits option.splits bool.splits)

section \<open>Guessing\<close>

text \<open>A run of attempts, each with its headers, its address and the two instants at which it reads the clock.\<close>

record attempt =
  at_headers :: header_map
  at_ip :: ip_addr
  at_check :: instant
  at_fail :: instant

fun run_attempts :: "http_client \<Rightarrow> string \<Rightarrow> string list \<Rightarrow> failures \<Rightarrow> attempt list \<Rightarrow> failures \<times> (api_error + unit) list" where
  "run_attempts hc key cidrs fs [] = (fs, [])"
| "run_attempts hc key cidrs fs (x # xs) =
     (case check_admin_auth hc key cidrs (at_headers x) (at_ip x) (at_check x) (at_fail x) fs of
        (fs1, r) \<Rightarrow> (case run_attempts hc key cidrs fs1 xs of (fs2, rs) \<Rightarrow> (fs2, r # rs)))"

definition guesses :: "ip_addr \<Rightarrow> attempt list \<Rightarrow> (api_error + unit) list \<Rightarrow> nat" where
  "guesses ip xs rs = length (filter (\<lambda>(x, r). at_ip x = ip \<and> r = Inl (api_unauthorized ''invalid admin key'')) (zip xs rs))"

text \<open>
  The invariant for one address: \<open>n\<close> guesses since \<open>a\<close> in at most \<open>k\<close> windows, the last of which began at \<open>s\<close>; a window
  that is gone from the table is over.
\<close>

definition guard_invar :: "instant \<Rightarrow> ip_addr \<Rightarrow> failures \<Rightarrow> instant \<Rightarrow> nat \<Rightarrow> bool" where
  "guard_invar a ip fs now n \<longleftrightarrow>
     (n = 0 \<and> hm_get fs ip = None)
     \<or> (\<exists>k s. a + k * ADMIN_AUTH_WINDOW \<le> s \<and> s \<le> now
          \<and> (case hm_get fs ip of
               None \<Rightarrow> s + ADMIN_AUTH_WINDOW \<le> now \<and> n \<le> 10 * (k + 1)
             | Some w \<Rightarrow> fw_first_failure w = s \<and> unat (fw_count w) \<le> 10 \<and> n \<le> 10 * k + unat (fw_count w)))"

lemma invar_later: "guard_invar a ip fs t n \<Longrightarrow> t \<le> t' \<Longrightarrow> guard_invar a ip fs t' n"
  unfolding guard_invar_def by (fastforce split: option.splits)

lemma invar_gone:
  assumes "guard_invar a ip fs now n" and "hm_get fs ip = Some w" and "\<not> in_window w now" and "hm_get fs' ip = None"
  shows "guard_invar a ip fs' now n"
proof -
  from assms(1,2) obtain k s where "a + k * ADMIN_AUTH_WINDOW \<le> s" "s \<le> now" "fw_first_failure w = s" "unat (fw_count w) \<le> 10"
      "n \<le> 10 * k + unat (fw_count w)"
    by (auto simp: guard_invar_def)
  then show ?thesis using assms(3,4) unfolding guard_invar_def in_window_def
    by (intro disjI2 exI [of _ k] exI [of _ s]) auto
qed

lemma invar_cong: "hm_get fs' ip = hm_get fs ip \<Longrightarrow> guard_invar a ip fs now n = guard_invar a ip fs' now n"
  by (simp add: guard_invar_def)

lemma invar_new_window:
  assumes "guard_invar a ip fs now n" and "hm_get fs ip = None" and "a \<le> now"
    and "hm_get fs' ip = Some \<lparr>fw_first_failure = now, fw_count = 1\<rparr>"
  shows "guard_invar a ip fs' now (Suc n)"
proof -
  from assms(1,2) consider "n = 0" | k s where "a + k * ADMIN_AUTH_WINDOW \<le> s" "s + ADMIN_AUTH_WINDOW \<le> now" "n \<le> 10 * (k + 1)"
    by (auto simp: guard_invar_def)
  then show ?thesis
  proof cases
    case 1
    then show ?thesis unfolding guard_invar_def using assms(3,4) by (intro disjI2 exI [of _ 0] exI [of _ now]) simp
  next
    case (2 k s)
    then show ?thesis unfolding guard_invar_def using assms(4) by (intro disjI2 exI [of _ "k + 1"] exI [of _ now]) simp
  qed
qed

lemma hm_get_filter:
  "distinct (hm_keys m) \<Longrightarrow> hm_get (filter (\<lambda>(_, w). P w) m) k = filter_opt P (hm_get m k)"
proof (induction m)
  case (Cons x m)
  obtain j v where x: "x = (j, v)" by force
  have "hm_get m j = None" using Cons.prems x by (simp add: map_of_eq_None_iff)
  then show ?case using Cons by (auto simp: x)
qed simp

lemma limited_invar:
  assumes "admin_auth_rate_limited fs ip' t = (fs1, locked)" and "guard_invar a ip fs t n" and "distinct (hm_keys fs)"
  shows "guard_invar a ip fs1 t n" and "distinct (hm_keys fs1)"
    and "ip' = ip \<Longrightarrow> \<not> locked \<Longrightarrow> hm_get fs1 ip = Some w \<Longrightarrow> unat (fw_count w) < 10"
proof -
  consider (absent) "hm_get fs ip' = None" "fs1 = fs"
    | (live) v where "hm_get fs ip' = Some v" "in_window v t" "fs1 = fs" "locked = (fw_count v \<ge> 10)"
    | (over) v where "hm_get fs ip' = Some v" "\<not> in_window v t" "fs1 = hm_remove ip' fs"
    using assms(1) by (auto simp: admin_auth_rate_limited_def ADMIN_AUTH_MAX_FAILURES_def split: option.splits if_splits)
  then have "guard_invar a ip fs1 t n \<and> distinct (hm_keys fs1)
      \<and> (ip' = ip \<longrightarrow> \<not> locked \<longrightarrow> hm_get fs1 ip = Some w \<longrightarrow> unat (fw_count w) < 10)"
  proof cases
    case over
    have "guard_invar a ip fs1 t n"
    proof (cases "ip' = ip")
      case True
      then show ?thesis using invar_gone [OF assms(2), of v fs1] over by simp
    next
      case False
      then show ?thesis using assms(2) invar_cong [of fs1 ip fs] over(3) by simp
    qed
    then show ?thesis using over assms(3) by (simp add: hm_distinct_remove)
  next
    case live
    have "unat (fw_count v) < 10" if "\<not> locked" using that live(4) by (simp add: word_le_nat_alt)
    moreover have "w = v" if "hm_get fs ip = Some w" "ip' = ip" using that live(1) by (metis option.inject)
    ultimately show ?thesis using live(3) assms(2,3) by blast
  next
    case absent
    then show ?thesis using assms(2,3) by (metis option.distinct(1))
  qed
  then show "guard_invar a ip fs1 t n" "distinct (hm_keys fs1)"
    "ip' = ip \<Longrightarrow> \<not> locked \<Longrightarrow> hm_get fs1 ip = Some w \<Longrightarrow> unat (fw_count w) < 10" by blast+
qed

lemma record_invar:
  assumes I: "guard_invar a ip fs t n" and "a \<le> t" and d: "distinct (hm_keys fs)"
    and below: "\<And>w. ip' = ip \<Longrightarrow> hm_get fs ip = Some w \<Longrightarrow> unat (fw_count w) < 10"
  shows "guard_invar a ip (record_admin_auth_failure fs ip' t) t (if ip' = ip then Suc n else n)"
    and "distinct (hm_keys (record_admin_auth_failure fs ip' t))"
proof -
  define fs1 where "fs1 = (if length fs \<ge> ADMIN_AUTH_MAX_TRACKED_IPS then filter (\<lambda>(_, w). in_window w t) fs else fs)"
  have get: "hm_get fs1 j = hm_get fs j \<or> hm_get fs1 j = None \<and> (\<exists>w. hm_get fs j = Some w \<and> \<not> in_window w t)" for j
    using hm_get_filter [OF d, of "\<lambda>w. in_window w t" j] by (cases "hm_get fs j") (auto simp: fs1_def)
  have d1: "distinct (hm_keys fs1)" using d by (auto simp: fs1_def distinct_map_filter)
  have I1: "guard_invar a ip fs1 t n"
    using get [of ip] invar_gone [OF I] invar_cong [of fs1 ip fs] I by blast
  let ?new = "hm_insert ip' \<lparr>fw_first_failure = t, fw_count = 1\<rparr> fs1"
  have r: "record_admin_auth_failure fs ip' t = (case hm_get fs1 ip' of
      Some w \<Rightarrow> if in_window w t then hm_insert ip' (w\<lparr>fw_count := sat_add (fw_count w) 1\<rparr>) fs1 else ?new | None \<Rightarrow> ?new)"
    unfolding record_admin_auth_failure_def fs1_def Let_def by (rule refl)
  then show "distinct (hm_keys (record_admin_auth_failure fs ip' t))"
    using d1 by (auto split: option.splits intro: hm_distinct_insert)
  show "guard_invar a ip (record_admin_auth_failure fs ip' t) t (if ip' = ip then Suc n else n)"
  proof (cases "ip' = ip")
    case False
    then show ?thesis using I1 r invar_cong [of "record_admin_auth_failure fs ip' t" ip fs1] by (auto split: option.splits)
  next
    case same: True
    show ?thesis
    proof (cases "hm_get fs1 ip")
      case None
      then show ?thesis using invar_new_window [OF I1 None assms(2)] r same by simp
    next
      case (Some w)
      show ?thesis
      proof (cases "in_window w t")
        case True
        have c: "unat (fw_count w) < 10" using below [OF same] get [of ip] Some by auto
        then have "unat (sat_add (fw_count w) 1) = Suc (unat (fw_count w))" by (simp add: unat_sat_add)
        then show ?thesis using I1 Some c r same True by (auto simp: guard_invar_def) 
      next
        case False
        let ?gone = "hm_remove ip fs1"
        have "guard_invar a ip ?gone t n" using invar_gone [OF I1 Some False] by simp
        then show ?thesis using invar_new_window [of a ip ?gone t n] assms(2) r same Some False by simp
      qed
    qed
  qed
qed

lemma guess_step:
  assumes c: "check_admin_auth hc key cidrs headers ip' t1 t2 fs = (fs', r)" and I: "guard_invar a ip fs t n"
    and d: "distinct (hm_keys fs)" and t: "t \<le> t1" "t1 \<le> t2" "a \<le> t2" and k: "ip' = ip \<Longrightarrow> provided_admin_key hc headers \<noteq> Some key"
  shows "guard_invar a ip fs' t2 (if ip' = ip \<and> r = Inl (api_unauthorized ''invalid admin key'') then Suc n else n)"
    and "distinct (hm_keys fs')"
proof -
  obtain fs1 locked where l: "admin_auth_rate_limited fs ip' t1 = (fs1, locked)" by force
  note L = limited_invar [OF l invar_later [OF I t(1)] d]
  note later = invar_later [OF L(1) t(2)]
  have "guard_invar a ip fs' t2 (if ip' = ip \<and> r = Inl (api_unauthorized ''invalid admin key'') then Suc n else n) \<and> distinct (hm_keys fs')"
  proof (cases "locked \<or> provided_admin_key hc headers = Some key")
    case True
    have "fs' = fs1 \<and> r \<noteq> Inl (api_unauthorized ''invalid admin key'')
        \<or> ip' \<noteq> ip \<and> r \<noteq> Inl (api_unauthorized ''invalid admin key'') \<and> fs' \<in> {fs1, hm_remove ip' fs1}"
      using c l True k
      by (auto simp: check_admin_auth_def constant_time_eq_iff api_errors clear_admin_auth_failures_def Let_def
          split: option.splits if_splits bool.splits)
    then show ?thesis using later L(2) invar_cong [of "hm_remove ip' fs1" ip fs1] by (auto simp: hm_distinct_remove)
  next
    case False
    then have "fs' = record_admin_auth_failure fs1 ip' t2" "r = Inl (api_unauthorized ''invalid admin key'')"
      using c l by (auto simp: check_admin_auth_def constant_time_eq_iff Let_def split: option.splits if_splits)
    then show ?thesis using record_invar [OF later t(3) L(2), of ip'] L(3) False by auto
  qed
  then show "guard_invar a ip fs' t2 (if ip' = ip \<and> r = Inl (api_unauthorized ''invalid admin key'') then Suc n else n)"
    "distinct (hm_keys fs')" by blast+
qed

fun clocked :: "instant \<Rightarrow> attempt list \<Rightarrow> bool" where
  "clocked t [] \<longleftrightarrow> True"
| "clocked t (x # xs) \<longleftrightarrow> t \<le> at_check x \<and> at_check x \<le> at_fail x \<and> clocked (at_fail x) xs"

lemma guess_run:
  assumes "run_attempts hc key cidrs fs xs = (fs', rs)" and "guard_invar a ip fs t n" and "distinct (hm_keys fs)" and "a \<le> t"
    and "clocked t xs" and "\<And>x. x \<in> set xs \<Longrightarrow> at_ip x = ip \<Longrightarrow> provided_admin_key hc (at_headers x) \<noteq> Some key"
  shows "guard_invar a ip fs' (last (t # map at_fail xs)) (n + guesses ip xs rs)"
  using assms
proof (induction xs arbitrary: fs t n rs)
  case (Cons x xs)
  obtain fs1 r where c: "check_admin_auth hc key cidrs (at_headers x) (at_ip x) (at_check x) (at_fail x) fs = (fs1, r)" by force
  obtain rs' where rest: "run_attempts hc key cidrs fs1 xs = (fs', rs')" "rs = r # rs'"
    using Cons.prems(1) c by (auto split: prod.splits)
  let ?n = "if at_ip x = ip \<and> r = Inl (api_unauthorized ''invalid admin key'') then Suc n else n"
  have k: "at_ip x = ip \<Longrightarrow> provided_admin_key hc (at_headers x) \<noteq> Some key" using Cons.prems(6) by simp
  have S: "guard_invar a ip fs1 (at_fail x) ?n" "distinct (hm_keys fs1)"
    using guess_step [OF c Cons.prems(2,3) _ _ _ k] Cons.prems(4,5) by auto
  have "guard_invar a ip fs' (last (at_fail x # map at_fail xs)) (?n + guesses ip xs rs')"
    by (rule Cons.IH [OF rest(1) S]) (use Cons.prems(4-6) in auto)
  moreover have "?n + guesses ip xs rs' = n + guesses ip (x # xs) rs" by (simp add: guesses_def rest(2))
  ultimately show ?case by simp
qed (simp add: guesses_def)

lemma invar_bound:
  assumes "guard_invar a ip fs now n" and "now \<le> a + d"
  shows "n \<le> 10 * (d div ADMIN_AUTH_WINDOW + 1)"
proof -
  have "k \<le> d div ADMIN_AUTH_WINDOW" if "a + k * ADMIN_AUTH_WINDOW \<le> s" "s \<le> now" for k s
    using that assms(2) by (simp add: less_eq_div_iff_mult_less_eq ADMIN_AUTH_WINDOW_def)
  then show ?thesis using assms(1) unfolding guard_invar_def by (fastforce split: option.splits)
qed



end
