(* ===== verification/Boot.thy ===== *)
theory Boot
  imports Config Handlers Ledger
begin

text \<open>
  The binary, \<open>src/main.rs\<close>: the settings read from the environment, the first snapshot, the reload loop and the state the readiness
  probe reads; and \<open>reload_now\<close> of \<open>src/admin/mod.rs\<close>, which reloads after a change of the control plane. The environment, the
  database and the clock (milliseconds) are arguments. Multiplication is the wrapping one of the release profile.
\<close>

section \<open>Settings\<close>

definition DEFAULT_LISTEN :: string where "DEFAULT_LISTEN = ''0.0.0.0:8090''"
definition DEFAULT_MAX_BODY_BYTES :: u64 where "DEFAULT_MAX_BODY_BYTES = 64 * 1024 * 1024"
definition CONFIG_POLL_SECS :: u64 where "CONFIG_POLL_SECS = 5"

record settings =
  se_db_url :: string
  se_listen_addr :: string
  se_tls :: "(string \<times> string) option"
  se_max_body_bytes :: usize
  se_poll_secs :: u64
  se_reload_timeout_ms :: u64
  se_readiness_max_stale_ms :: u64
  se_counter_block_size :: u64
  se_circuit_open_secs :: u64

definition env_u64 :: "(string \<Rightarrow> string option) \<Rightarrow> string \<Rightarrow> u64 option" where
  "env_u64 var name = Option.bind (var name) parse_u64"

definition env_text :: "(string \<Rightarrow> string option) \<Rightarrow> string \<Rightarrow> string option" where
  "env_text var name = filter_opt (\<lambda>s. trim s \<noteq> []) (var name)"

definition tls_paths :: "(string \<Rightarrow> string option) \<Rightarrow> string + (string \<times> string) option" where
  "tls_paths var =
     (case (env_text var ''TLS_CERT_PATH'', env_text var ''TLS_KEY_PATH'') of
        (None, None) \<Rightarrow> Inr None
      | (Some cert, Some key) \<Rightarrow> Inr (Some (cert, key))
      | _ \<Rightarrow> Inl ''TLS_CERT_PATH and TLS_KEY_PATH must both be set (or both unset)'')"

definition read_settings :: "(string \<Rightarrow> string option) \<Rightarrow> string + settings" where
  "read_settings var =
     try_res (ok_or ''DATABASE_URL is required'' (var ''DATABASE_URL'')) (\<lambda>db_url.
     try_res (tls_paths var) (\<lambda>tls.
     let poll_secs = unwrap_or CONFIG_POLL_SECS (env_u64 var ''CONFIG_POLL_SECS'') in
     Inr \<lparr>se_db_url = db_url, se_listen_addr = unwrap_or DEFAULT_LISTEN (var ''LISTEN_ADDR''), se_tls = tls,
          se_max_body_bytes = unat (unwrap_or DEFAULT_MAX_BODY_BYTES (env_u64 var ''MAX_BODY_BYTES'')),
          se_poll_secs = poll_secs,
          se_reload_timeout_ms = unwrap_or 2000 (env_u64 var ''CONFIG_RELOAD_TIMEOUT_MS''),
          se_readiness_max_stale_ms = (case env_u64 var ''READY_MAX_STALE_MS'' of
             Some v \<Rightarrow> v | None \<Rightarrow> max (max poll_secs 1 * 3000) 5000),
          se_counter_block_size = max (unwrap_or 1024 (env_u64 var ''ROUTE_COUNTER_BLOCK_SIZE'')) 1,
          se_circuit_open_secs = max (unwrap_or 30 (env_u64 var ''BACKEND_CIRCUIT_OPEN_SECONDS'')) 1\<rparr>))"

definition router_worker_threads :: "(string \<Rightarrow> string option) \<Rightarrow> u64 \<Rightarrow> u64" where
  "router_worker_threads var available = unwrap_or available (filter_opt (\<lambda>v. v > 0) (env_u64 var ''ROUTER_WORKER_THREADS''))"

text \<open>The address the container health check asks, with the scheme of the listener.\<close>

definition healthcheck_url :: "(string \<Rightarrow> string option) \<Rightarrow> string" where
  "healthcheck_url var =
     (let addr = unwrap_or DEFAULT_LISTEN (var ''LISTEN_ADDR'');
          scheme = (if env_text var ''TLS_CERT_PATH'' \<noteq> None then ''https'' else ''http'')
      in scheme @ ''://'' @ addr @ ''/healthz'')"

section \<open>The running process\<close>

record process =
  pr_cfg :: config_snapshot
  pr_store :: ram_budget_store
  pr_pool :: ram_backend_pool
  pr_config_ok_at :: u64
  pr_config_err_at :: u64

definition wire_snapshot :: "config_snapshot \<Rightarrow> process \<Rightarrow> process" where
  "wire_snapshot snap p =
     p\<lparr>pr_pool := sync_backends (pr_pool p) (cs_backends snap), pr_store := sync_teams (pr_store p) (cs_teams snap)\<rparr>"

text \<open>The start of \<open>async_main\<close>: a snapshot that does not load ends the process, seeds that do not load are skipped.\<close>

definition boot :: "settings \<Rightarrow> config_env \<Rightarrow> config_db \<Rightarrow> unit + usage_seed list \<Rightarrow> u64 \<Rightarrow> config_error + process" where
  "boot se ce db seeds now =
     try_res (load_snapshot ce db) (\<lambda>snap.
     let p0 = \<lparr>pr_cfg = empty_snapshot, pr_store = store_new,
               pr_pool = pool_new_with_counter_pool (se_counter_block_size se) (1000 * unat (se_circuit_open_secs se)),
               pr_config_ok_at = 0, pr_config_err_at = 0\<rparr>;
         p1 = wire_snapshot snap p0;
         p2 = (case seeds of Inl _ \<Rightarrow> p1 | Inr ss \<Rightarrow> p1\<lparr>pr_store := foldl seed_usage (pr_store p1) ss\<rparr>)
     in Inr (p2\<lparr>pr_config_ok_at := now, pr_cfg := snap\<rparr>))"

text \<open>One turn of the reload loop, with what the load gave within its time limit.\<close>

datatype reload_outcome = Loaded config_snapshot | LoadFailed config_error | TimedOut

definition reload_tick :: "process \<Rightarrow> reload_outcome \<Rightarrow> u64 \<Rightarrow> process" where
  "reload_tick p outcome now =
     (case outcome of
        Loaded snap \<Rightarrow> (wire_snapshot snap p)\<lparr>pr_cfg := snap, pr_config_ok_at := now\<rparr>
      | LoadFailed _ \<Rightarrow> p\<lparr>pr_config_err_at := now\<rparr>
      | TimedOut \<Rightarrow> p\<lparr>pr_config_err_at := now\<rparr>)"

text \<open>The reload after a change made through the control plane.\<close>

definition reload_now :: "config_env \<Rightarrow> config_db \<Rightarrow> u64 \<Rightarrow> process \<Rightarrow> config_error + process" where
  "reload_now ce db now p =
     try_res (load_snapshot ce db) (\<lambda>snap. Inr ((wire_snapshot snap p)\<lparr>pr_cfg := snap, pr_config_ok_at := now\<rparr>))"

definition answer_readyz :: "settings \<Rightarrow> process \<Rightarrow> u64 \<Rightarrow> u16 \<times> string" where
  "answer_readyz se p now = readyz (pr_config_ok_at p) (pr_config_err_at p) (se_readiness_max_stale_ms se) now"

section \<open>Readiness\<close>

definition succeeded :: "reload_outcome \<Rightarrow> bool" where
  "succeeded outcome = (case outcome of Loaded _ \<Rightarrow> True | _ \<Rightarrow> False)"

definition loaded_snapshots :: "reload_outcome list \<Rightarrow> config_snapshot list" where
  "loaded_snapshots = List.map_filter (\<lambda>outcome. case outcome of Loaded s \<Rightarrow> Some s | _ \<Rightarrow> None)"

abbreviation run_reloads :: "process \<Rightarrow> (reload_outcome \<times> u64) list \<Rightarrow> process" where
  "run_reloads p ticks \<equiv> foldl (\<lambda>p (outcome, now). reload_tick p outcome now) p ticks"

lemma run_reloads_clock:
  assumes "sorted_wrt (<) (t0 # map snd ticks)" and "pr_config_ok_at p = t0" and "pr_config_err_at p < t0"
  shows "max (pr_config_ok_at (run_reloads p ticks)) (pr_config_err_at (run_reloads p ticks)) = last (t0 # map snd ticks)
    \<and> (pr_config_ok_at (run_reloads p ticks) > pr_config_err_at (run_reloads p ticks)
        \<longleftrightarrow> ticks = [] \<or> succeeded (fst (last ticks)))
    \<and> pr_config_ok_at (run_reloads p ticks) \<noteq> pr_config_err_at (run_reloads p ticks)
    \<and> pr_config_ok_at (run_reloads p ticks) \<ge> t0"
  using assms(1)
proof (induction ticks rule: rev_induct)
  case Nil
  then show ?case using assms(2,3) by (auto simp: max_def)
next
  case (snoc x xs)
  obtain outcome t where x: "x = (outcome, t)" by force
  have IH: "max (pr_config_ok_at (run_reloads p xs)) (pr_config_err_at (run_reloads p xs)) = last (t0 # map snd xs)"
      "pr_config_ok_at (run_reloads p xs) \<ge> t0"
    using snoc by (auto simp: sorted_wrt_append)
  have "last (t0 # map snd xs) \<in> set (t0 # map snd xs)" by (rule last_in_set) simp
  then have "last (t0 # map snd xs) < t" using snoc.prems x by (auto simp: sorted_wrt_append)
  then have lt: "pr_config_ok_at (run_reloads p xs) < t" "pr_config_err_at (run_reloads p xs) < t" using IH(1) by (auto simp: max_def split: if_splits)
  moreover have "t0 < t" using snoc.prems x by (auto simp: sorted_wrt_append)
  ultimately show ?case
    using IH(2) by (cases outcome) (auto simp: x reload_tick_def wire_snapshot_def succeeded_def max_def)
qed

lemma run_reloads_cfg: "pr_cfg (run_reloads p ticks) = last (pr_cfg p # loaded_snapshots (map fst ticks))"
proof (induction ticks arbitrary: p)
  case (Cons x ticks)
  obtain outcome t where x: "x = (outcome, t)" by force
  show ?case using Cons.IH [of "reload_tick p outcome t"]
    by (cases outcome) (auto simp: x reload_tick_def wire_snapshot_def loaded_snapshots_def List.map_filter_simps)
qed (simp add: loaded_snapshots_def List.map_filter_simps)

text \<open>
  The readiness probe tells the truth. After a start and any sequence of reloads at increasing times, the published
  configuration is the last one that loaded, failed and timed-out reloads change nothing but the probe, and the probe answers 200
  exactly when the last reload succeeded and is not older than the limit.
\<close>

theorem readiness_exact:
  assumes "boot se ce db seeds t0 = Inr p" and "0 < t0" and "sorted_wrt (<) (t0 # map snd ticks)" and "last (t0 # map snd ticks) \<le> now"
  shows "pr_cfg (run_reloads p ticks) = last (pr_cfg p # loaded_snapshots (map fst ticks))
    \<and> answer_readyz se (run_reloads p ticks) now =
        (if (ticks = [] \<or> succeeded (fst (last ticks))) \<and> unat now - unat (last (t0 # map snd ticks)) \<le> unat (se_readiness_max_stale_ms se)
         then (200, ''ready'') else (503, ''not ready''))"
proof -
  have p: "pr_config_ok_at p = t0" "pr_config_err_at p < t0"
    using assms(1,2) by (cases seeds; auto simp: boot_def result_iffs Let_def wire_snapshot_def)+
  let ?ok = "pr_config_ok_at (run_reloads p ticks)" and ?err = "pr_config_err_at (run_reloads p ticks)"
  note c = run_reloads_clock [OF assms(3) p]
  have "?ok \<noteq> 0" using c assms(2) by (metis leD)
  moreover have "sat_sub now ?ok > se_readiness_max_stale_ms se \<longleftrightarrow> \<not> unat now - unat ?ok \<le> unat (se_readiness_max_stale_ms se)"
    by (simp add: word_less_nat_alt not_le)
  moreover have "?ok = last (t0 # map snd ticks)" if "?ok > ?err" using c that by (simp add: max_def split: if_splits)
  moreover have "?ok > ?err \<longleftrightarrow> ticks = [] \<or> succeeded (fst (last ticks))" "?ok \<noteq> ?err" using c by blast+
  ultimately show ?thesis
    unfolding run_reloads_cfg answer_readyz_def readyz_def readiness_status_def Let_def by auto
qed

section \<open>Reloads among requests\<close>

text \<open>
  A reload is four accesses: the pool, the budgets, the published snapshot, the time of success. Between them requests look at
  backends, claim and drop slots, report results, and charge and settle budgets.
\<close>

datatype phase = Idle | PoolWired config_snapshot | TeamsWired config_snapshot | Published

inductive process_step :: "phase \<times> process \<Rightarrow> phase \<times> process \<Rightarrow> bool" where
  wire_pool: "load_snapshot ce db = Inr snap \<Longrightarrow>
    process_step (Idle, p) (PoolWired snap, p\<lparr>pr_pool := sync_backends (pr_pool p) (cs_backends snap)\<rparr>)"
| wire_teams: "process_step (PoolWired snap, p) (TeamsWired snap, p\<lparr>pr_store := sync_teams (pr_store p) (cs_teams snap)\<rparr>)"
| publish: "process_step (TeamsWired snap, p) (Published, p\<lparr>pr_cfg := snap\<rparr>)"
| mark_ok: "process_step (Published, p) (Idle, p\<lparr>pr_config_ok_at := now\<rparr>)"
| mark_err: "process_step (Idle, p) (Idle, p\<lparr>pr_config_err_at := now\<rparr>)"
| look: "candidate_for_backend (pr_pool p) route b e now = (q, r) \<Longrightarrow> process_step (ph, p) (ph, p\<lparr>pr_pool := q\<rparr>)"
| claim: "claim_candidate (pr_pool p) route c = (q, ok) \<Longrightarrow> process_step (ph, p) (ph, p\<lparr>pr_pool := q\<rparr>)"
| lease_dropped: "process_step (ph, p) (ph, p\<lparr>pr_pool := lease_drop (pr_pool p) l\<rparr>)"
| noted: "process_step (ph, p) (ph, p\<lparr>pr_pool := note_result (pr_pool p) b ok now\<rparr>)"
| reserved: "reserve (pr_store p) key model est now ms = (s, r) \<Longrightarrow> process_step (ph, p) (ph, p\<lparr>pr_store := s\<rparr>)"
| committed: "process_step (ph, p) (ph, p\<lparr>pr_store := reservation_commit (pr_store p) res actual\<rparr>)"
| rolled_back: "process_step (ph, p) (ph, p\<lparr>pr_store := reservation_drop (pr_store p) res\<rparr>)"
| slot_taken: "acquire_concurrency (pr_store p) key = (s, g) \<Longrightarrow> process_step (ph, p) (ph, p\<lparr>pr_store := s\<rparr>)"
| slot_freed: "process_step (ph, p) (ph, p\<lparr>pr_store := guard_drop (pr_store p) g\<rparr>)"

text \<open>What the configuration says of a backend, and what the pool holds of it.\<close>

definition configured :: "backend_state \<Rightarrow> u32 \<times> u32 \<times> bool \<times> string option" where
  "configured s = (bs_weight s, bs_max_inflight s, bs_enabled s, bs_base_url s)"

definition pool_view :: "ram_backend_pool \<Rightarrow> i64 \<Rightarrow> (u32 \<times> u32 \<times> bool \<times> string option) option" where
  "pool_view p b = map_option configured (hm_get (bp_states p) b)"

lemma view_look: "candidate_for_backend p route b e now = (q, r) \<Longrightarrow> pool_view q = pool_view p"
  by (auto simp: candidate_for_backend_def circuit_gate_def pool_view_def configured_def fun_eq_iff Let_def
      split: if_splits option.splits prod.splits)

lemma view_claim: "claim_candidate p route c = (q, ok) \<Longrightarrow> pool_view q = pool_view p"
  by (auto simp: claim_candidate_def pool_view_def configured_def fun_eq_iff Let_def split: if_splits option.splits)

lemma view_drop: "pool_view (lease_drop p l) = pool_view p"
  by (auto simp: lease_drop_def dec_inflight_def pool_view_def configured_def fun_eq_iff split: option.splits)

lemma view_note: "pool_view (note_result p b ok now) = pool_view p"
  by (auto simp: note_result_def pool_view_def configured_def fun_eq_iff Let_def split: option.splits)

lemmas pool_views = view_look view_claim view_drop view_note

lemma budgets_reserve: "reserve st key model est now ms = (st', r) \<Longrightarrow> st_team_budgets st' = st_team_budgets st"
proof -
  assume r: "reserve st key model est now ms = (st', r)"
  obtain st1 r1 where rb: "reserve_budget st key model est now = (st1, r1)" by force
  then have "st_team_budgets st1 = st_team_budgets st" using reserve_budget_frame [OF rb] by simp
  then show ?thesis using r rb
    by (auto simp: reserve_def split: sum.splits option.splits prod.splits dest!: take_rpm_frame(4))
qed

lemma budgets_commit: "st_team_budgets (reservation_commit st res actual) = st_team_budgets st"
proof -
  have "st_team_budgets (usage_add s k a) = st_team_budgets s" for s k a
    by (auto simp: usage_add_def split: option.splits)
  then have "st_team_budgets (commit_scopes s rs actual) = st_team_budgets s" for s rs
    unfolding commit_scopes_def by (induction rs arbitrary: s) simp_all
  then show ?thesis by (simp add: reservation_commit_def reservation_drop_def Let_def)
qed

lemma budgets_settle:
  "st_team_budgets (reservation_drop st res) = st_team_budgets st"
  "acquire_concurrency st key = (st', g) \<Longrightarrow> st_team_budgets st' = st_team_budgets st"
  "st_team_budgets (guard_drop st g') = st_team_budgets st"
  by (auto simp: reservation_drop_def acquire_concurrency_def guard_drop_def release_concurrency_id_def Let_def
      split: option.splits if_splits)

lemmas team_budgets_frame = budgets_reserve budgets_commit budgets_settle

definition pool_follows :: "ram_backend_pool \<Rightarrow> config_snapshot \<Rightarrow> bool" where
  "pool_follows pool snap \<longleftrightarrow> (\<forall>b.
     case hm_get (cs_backends snap) b of
       Some be \<Rightarrow> pool_view pool b = Some (be_weight be, be_max_inflight be, be_enabled be, Some (be_base_url be))
     | None \<Rightarrow> (\<forall>w m e u. pool_view pool b = Some (w, m, e, u) \<longrightarrow> \<not> e))"

definition teams_follow :: "ram_budget_store \<Rightarrow> config_snapshot \<Rightarrow> bool" where
  "teams_follow st snap \<longleftrightarrow> (\<forall>i. hm_get (st_team_budgets st) i =
     (case hm_get (cs_teams snap) i of None \<Rightarrow> None | Some t \<Rightarrow> if tm_enabled t then tm_budget t else None))"

text \<open>The snapshot the pool and the budgets follow: the one being published, once they have been wired to it.\<close>

fun pool_snapshot_of :: "phase \<Rightarrow> process \<Rightarrow> config_snapshot" where
  "pool_snapshot_of (PoolWired snap) p = snap"
| "pool_snapshot_of (TeamsWired snap) p = snap"
| "pool_snapshot_of _ p = pr_cfg p"

fun team_snapshot_of :: "phase \<Rightarrow> process \<Rightarrow> config_snapshot" where
  "team_snapshot_of (TeamsWired snap) p = snap"
| "team_snapshot_of _ p = pr_cfg p"

definition wired :: "phase \<times> process \<Rightarrow> bool" where
  "wired = (\<lambda>(ph, p). pool_follows (pr_pool p) (pool_snapshot_of ph p) \<and> teams_follow (pr_store p) (team_snapshot_of ph p)
     \<and> (\<forall>snap. ph = PoolWired snap \<longrightarrow> distinct (hm_keys (cs_teams snap))))"

lemma indexed: "\<forall>(i, x) \<in> set (index_by key xs). key x = i"
  using index_by_distinct_keys [of key xs] index_by_keyed [of key xs] by (auto simp: map_of_eq_Some_iff)

lemma loaded_indexed:
  assumes "load_snapshot ce db = Inr snap"
  shows "distinct (hm_keys (cs_backends snap))" "\<forall>(i, b) \<in> set (cs_backends snap). be_id b = i" "distinct (hm_keys (cs_teams snap))"
  using load_snapshotD [OF assms] index_by_distinct_keys indexed by (metis config_snapshot.select_convs(1,3))+

lemma synced_pool_follows:
  assumes "distinct (hm_keys (cs_backends snap))" and "\<forall>(i, b) \<in> set (cs_backends snap). be_id b = i"
  shows "pool_follows (sync_backends p (cs_backends snap)) snap"
  unfolding pool_follows_def pool_view_def sync_backends_exact [OF assms, THEN conjunct1]
  by (auto simp: configured_def refreshed_def backend_state_new_def split: option.splits)

lemma synced_teams_follow: "distinct (hm_keys (cs_teams snap)) \<Longrightarrow> teams_follow (sync_teams st (cs_teams snap)) snap"
  by (simp add: teams_follow_def sync_teams_exact)

lemma follows_cong:
  "pool_view q = pool_view p \<Longrightarrow> pool_follows q snap = pool_follows p snap"
  "st_team_budgets s = st_team_budgets t \<Longrightarrow> teams_follow s snap = teams_follow t snap"
  by (simp_all add: pool_follows_def teams_follow_def split: option.split)

lemma wired_request:
  "pool_view q = pool_view (pr_pool p) \<Longrightarrow> wired (ph, p) \<Longrightarrow> wired (ph, p\<lparr>pr_pool := q\<rparr>)"
  "st_team_budgets t = st_team_budgets (pr_store p) \<Longrightarrow> wired (ph, p) \<Longrightarrow> wired (ph, p\<lparr>pr_store := t\<rparr>)"
  by (cases ph; simp add: wired_def follows_cong(1) [of q "pr_pool p"] follows_cong(2) [of t "pr_store p"])+

lemma wired_phases:
  "wired (TeamsWired snap, p) \<Longrightarrow> wired (Published, p\<lparr>pr_cfg := snap\<rparr>)"
  "wired (Published, p) \<Longrightarrow> wired (Idle, p\<lparr>pr_config_ok_at := now\<rparr>)"
  "wired (Idle, p) \<Longrightarrow> wired (Idle, p\<lparr>pr_config_err_at := now\<rparr>)"
  "distinct (hm_keys (cs_teams snap)) \<Longrightarrow> distinct (hm_keys (cs_backends snap)) \<Longrightarrow> \<forall>(i, b) \<in> set (cs_backends snap). be_id b = i \<Longrightarrow>
     wired (Idle, p) \<Longrightarrow> wired (PoolWired snap, p\<lparr>pr_pool := sync_backends (pr_pool p) (cs_backends snap)\<rparr>)"
  "wired (PoolWired snap, p) \<Longrightarrow> wired (TeamsWired snap, p\<lparr>pr_store := sync_teams (pr_store p) (cs_teams snap)\<rparr>)"
  by (simp_all add: wired_def synced_pool_follows synced_teams_follow)

lemma wired_step: "process_step x y \<Longrightarrow> wired x \<Longrightarrow> wired y"
proof (induction rule: process_step.induct)
  case (wire_pool ce db snap p)
  then show ?case using loaded_indexed [OF wire_pool.hyps] wired_phases(4) by blast
qed (erule wired_phases wired_request [rotated], (assumption | simp add: pool_views team_budgets_frame)?)+

definition booted :: "phase \<times> process \<Rightarrow> bool" where
  "booted x \<longleftrightarrow> (\<exists>se ce db seeds now p. boot se ce db seeds now = Inr p \<and> x = (Idle, p))"

lemma budgets_seeded: "st_team_budgets (foldl seed_usage st ss) = st_team_budgets st"
  by (induction ss arbitrary: st) (simp_all add: seed_usage_def Let_def)

lemma booted_wired:
  assumes "booted x"
  shows "wired x"
proof -
  from assms obtain se ce db seeds now p snap where b: "boot se ce db seeds now = Inr p" "x = (Idle, p)" and l: "load_snapshot ce db = Inr snap"
    by (auto simp: booted_def boot_def result_iffs)
  from b(1) l have p: "pr_cfg p = snap" "\<exists>q. pr_pool p = sync_backends q (cs_backends snap)"
      "\<exists>s. st_team_budgets (pr_store p) = st_team_budgets (sync_teams s (cs_teams snap))"
    by (auto simp: boot_def Let_def wire_snapshot_def budgets_seeded split: sum.splits)
  have "pool_follows (pr_pool p) snap" using p(2) synced_pool_follows [OF loaded_indexed(1,2) [OF l]] by auto
  moreover have "teams_follow (pr_store p) snap"
    using p(3) synced_teams_follow [OF loaded_indexed(3) [OF l]] follows_cong(2) by blast
  ultimately show ?thesis by (simp add: wired_def b(2) p(1))
qed

interpretation reloads: inductive_invariant booted process_step wired
  by unfold_locales (auto intro: booted_wired wired_step)


text \<open>
  Two reloads at once, the loop's and one of the control plane, are not serialised: when the loop loaded its snapshot before a
  backend was added, wires the pool after the other reload has and publishes before it, the published snapshot has a backend that
  the pool has not, until the next reload.
\<close>

lemma reload_race_loses_backend:
  assumes "distinct (hm_keys old)" and "\<forall>(i, be) \<in> set old. be_id be = i" and "distinct (hm_keys new)" and "\<forall>(i, be) \<in> set new. be_id be = i"
    and "hm_get new b = Some be" and "hm_get old b = None" and "hm_get (bp_states p) b = None"
  shows "hm_get (bp_states (sync_backends (sync_backends p new) old)) b = None"
  using sync_backends_exact [OF assms(1,2), of "sync_backends p new" b] sync_backends_exact [OF assms(3,4), of p b] assms(5-7)
  by (simp add: refreshed_def backend_state_new_def)

section \<open>A concrete start\<close>

definition demo_settings :: settings where
  "demo_settings = \<lparr>se_db_url = ''d'', se_listen_addr = DEFAULT_LISTEN, se_tls = None, se_max_body_bytes = 100, se_poll_secs = 5,
     se_reload_timeout_ms = 2000, se_readiness_max_stale_ms = 15000, se_counter_block_size = 1024, se_circuit_open_secs = 30\<rparr>"

lemma demo_boots: "\<exists>p. boot demo_settings demo_ce demo_tables (Inl ()) 5 = Inr p"
  using demo_loads by (auto simp: boot_def Let_def)

theorem readiness_exact_witness:
  "\<exists>p. boot demo_settings demo_ce demo_tables (Inl ()) 5 = Inr p
     \<and> answer_readyz demo_settings (run_reloads p [(TimedOut, 6)]) 7 = (503, ''not ready'')
     \<and> answer_readyz demo_settings (run_reloads p [(TimedOut, 6), (Loaded empty_snapshot, 8)]) 9 = (200, ''ready'')"
proof -
  obtain p where p: "boot demo_settings demo_ce demo_tables (Inl ()) 5 = Inr p" using demo_boots by blast
  from readiness_exact [OF p, of "[(TimedOut, 6)]" 7] readiness_exact [OF p, of "[(TimedOut, 6), (Loaded empty_snapshot, 8)]" 9] p
  show ?thesis by (simp add: succeeded_def demo_settings_def)
qed


end
