(* ===== verification/Admin_Db.thy ===== *)
theory Admin_Db
  imports Admin_Auth Boot
begin

text \<open>
  The control plane's tables and the requests that change teams, keys and backends, \<open>src/admin/mod.rs\<close>. The tables are lists of
  rows with the constraints of the migrations: serial ids, the reference of a key to its team, the references of endpoint
  overrides and counters to their route and backend. A statement fails only on a constraint. The text of JSON columns comes from
  the printers of \<open>serde_json\<close>, which are arguments like the parsers that read them back; so are the clock and random bytes.
  Every change ends with a reload of the configuration.
\<close>

section \<open>Tables\<close>

record backend_rec =
  bk_id :: i64
  bk_name :: string
  bk_base_url :: string
  bk_api_key_ref :: string
  bk_weight :: i64
  bk_max_inflight :: i64
  bk_format :: string
  bk_enabled :: bool

record route_rec =
  ro_model_name :: string
  ro_backend_ids :: string
  ro_fallback_backend_id :: "i64 option"
  ro_chars_per_token :: f64
  ro_first_byte_timeout :: i64
  ro_provider_model_name :: string
  ro_context_tokens :: "i64 option"
  ro_max_output_tokens :: "i64 option"
  ro_price_input_per_mtok_usd :: "f64 option"
  ro_price_output_per_mtok_usd :: "f64 option"
  ro_enabled :: bool
  ro_provider_key_ref :: "string option"
  ro_auth_mode :: string
  ro_protocol :: string
  ro_routing_policy :: string
  ro_accept_anthropic_messages :: bool

record endpoint_rec =
  en_model_name :: string
  en_backend_id :: i64
  en_provider_model_name :: string
  en_provider_key_ref :: "string option"
  en_auth_mode :: string
  en_protocol :: string
  en_weight :: i64
  en_max_inflight :: i64
  en_enabled :: bool

record team_rec =
  te_id :: i64
  te_name :: string
  te_budget :: "string option"
  te_enabled :: bool

record key_rec =
  ke_id :: i64
  ke_key_hash :: string
  ke_key_prefix :: string
  ke_team_id :: i64
  ke_owner :: string
  ke_allowed_models :: string
  ke_budget :: "string option"
  ke_rpm_limit :: "i64 option"
  ke_concurrency_limit :: "i64 option"
  ke_expires_at :: "i64 option"
  ke_enabled :: bool
  ke_key_secret :: "string option"

text \<open>The ledger counts by backend and model; \<open>db_counters\<close> are the models with a round-robin counter; \<open>db_files\<close> are the key files.\<close>

record admin_db =
  db_backends :: "backend_rec list"
  db_routes :: "route_rec list"
  db_endpoints :: "endpoint_rec list"
  db_teams :: "team_rec list"
  db_keys :: "key_rec list"
  db_usage :: "(i64 \<times> string) list"
  db_counters :: "string list"
  db_files :: "(string, string) hmap"
  db_backend_seq :: i64
  db_team_seq :: i64
  db_key_seq :: i64

section \<open>What the loader reads\<close>

definition sql_opt :: "('a \<Rightarrow> sql_value) \<Rightarrow> 'a option \<Rightarrow> sql_value" where
  "sql_opt f x = (case x of None \<Rightarrow> SqlNull | Some v \<Rightarrow> f v)"

definition backend_columns :: "backend_rec \<Rightarrow> sql_row" where
  "backend_columns b = [SqlInt (bk_id b), SqlText (bk_name b), SqlText (bk_base_url b), SqlText (bk_api_key_ref b), SqlInt (bk_weight b),
     SqlInt (bk_max_inflight b), SqlText (bk_format b), SqlBool (bk_enabled b)]"

definition route_columns :: "route_rec \<Rightarrow> sql_row" where
  "route_columns r = [SqlText (ro_model_name r), SqlText (ro_backend_ids r), sql_opt SqlInt (ro_fallback_backend_id r),
     SqlFloat (ro_chars_per_token r), SqlInt (ro_first_byte_timeout r), SqlText (ro_provider_model_name r),
     sql_opt SqlInt (ro_context_tokens r), sql_opt SqlInt (ro_max_output_tokens r), sql_opt SqlFloat (ro_price_input_per_mtok_usd r),
     sql_opt SqlFloat (ro_price_output_per_mtok_usd r), SqlBool (ro_enabled r), sql_opt SqlText (ro_provider_key_ref r),
     SqlText (ro_auth_mode r), SqlText (ro_protocol r), SqlText (ro_routing_policy r), SqlBool (ro_accept_anthropic_messages r)]"

definition endpoint_columns :: "endpoint_rec \<Rightarrow> sql_row" where
  "endpoint_columns e = [SqlText (en_model_name e), SqlInt (en_backend_id e), SqlText (en_provider_model_name e),
     sql_opt SqlText (en_provider_key_ref e), SqlText (en_auth_mode e), SqlText (en_protocol e), SqlInt (en_weight e),
     SqlInt (en_max_inflight e), SqlBool (en_enabled e)]"

definition team_columns :: "team_rec \<Rightarrow> sql_row" where
  "team_columns t = [SqlInt (te_id t), SqlText (te_name t), sql_opt SqlText (te_budget t), SqlBool (te_enabled t)]"

definition key_columns :: "key_rec \<Rightarrow> sql_row" where
  "key_columns k = [SqlInt (ke_id k), SqlText (ke_key_hash k), SqlText (ke_key_prefix k), SqlInt (ke_team_id k), SqlText (ke_owner k),
     SqlText (ke_allowed_models k), sql_opt SqlText (ke_budget k), sql_opt SqlInt (ke_rpm_limit k),
     sql_opt SqlInt (ke_concurrency_limit k), sql_opt SqlInt (ke_expires_at k), SqlBool (ke_enabled k)]"

definition tables_of :: "admin_db \<Rightarrow> config_db" where
  "tables_of db = \<lparr>cd_backends = Inr (map backend_columns (db_backends db)), cd_routes = Inr (map route_columns (db_routes db)),
     cd_endpoints = Inr (map endpoint_columns (db_endpoints db)), cd_teams = Inr (map team_columns (db_teams db)),
     cd_keys = Inr (map key_columns (db_keys db))\<rparr>"

text \<open>The loader finds the key files the control plane has written.\<close>

definition with_files :: "config_env \<Rightarrow> admin_db \<Rightarrow> config_env" where
  "with_files ce db = ce\<lparr>ce_read_file := \<lambda>path. or_else (hm_get (db_files db) path) (ce_read_file ce path)\<rparr>"

section \<open>Requests\<close>

record admin_env =
  av_config :: config_env
  av_data_dir :: string
  av_sha256 :: "bytes \<Rightarrow> key_hash"
  av_ids_text :: "i64 list \<Rightarrow> string"
  av_strings_text :: "string list \<Rightarrow> string"
  av_budget_text :: "budget \<Rightarrow> string"

record admin =
  ad_db :: admin_db
  ad_process :: process
  ad_failures :: failures

type_synonym 'a answer = "admin \<times> (api_error + 'a)"

definition refuse :: "admin \<Rightarrow> api_error \<Rightarrow> 'a answer" where
  "refuse st e = (st, Inl e)"

definition bad_request :: "string \<Rightarrow> api_error" where
  "bad_request message = api_error_new 400 message"

text \<open>\<open>reload_now\<close> at the end of a change; when it fails the change stays.\<close>

definition reloaded :: "admin_env \<Rightarrow> u64 \<Rightarrow> 'a \<Rightarrow> admin \<Rightarrow> 'a answer" where
  "reloaded av now answer st =
     (case reload_now (with_files (av_config av) (ad_db st)) (tables_of (ad_db st)) now (ad_process st) of
        Inl _ \<Rightarrow> (st, Inl (api_internal ''reload config after admin mutation''))
      | Inr p \<Rightarrow> (st\<lparr>ad_process := p\<rparr>, Inr answer))"

text \<open>Every handler starts with the check of the key and the address.\<close>

definition guarded ::
  "http_client \<Rightarrow> string \<Rightarrow> string list \<Rightarrow> header_map \<Rightarrow> ip_addr \<Rightarrow> instant \<Rightarrow> instant \<Rightarrow> (admin \<Rightarrow> 'a answer) \<Rightarrow> admin \<Rightarrow> 'a answer" where
  "guarded hc master_key allow_cidrs headers peer_ip t_check t_fail handler st =
     (case check_admin_auth hc master_key allow_cidrs headers peer_ip t_check t_fail (ad_failures st) of
        (fs, Inl e) \<Rightarrow> (st\<lparr>ad_failures := fs\<rparr>, Inl e)
      | (fs, Inr _) \<Rightarrow> handler (st\<lparr>ad_failures := fs\<rparr>))"

definition put_db :: "admin_db \<Rightarrow> admin \<Rightarrow> admin" where
  "put_db db st = st\<lparr>ad_db := db\<rparr>"

text \<open>\<open>UPDATE ... WHERE\<close> and a field of the request that may be absent.\<close>

definition update_where :: "('a \<Rightarrow> bool) \<Rightarrow> ('a \<Rightarrow> 'a) \<Rightarrow> 'a list \<Rightarrow> 'a list" where
  "update_where p f xs = map (\<lambda>x. if p x then f x else x) xs"

definition set_opt :: "('v \<Rightarrow> 'a \<Rightarrow> 'a) \<Rightarrow> 'v option \<Rightarrow> 'a \<Rightarrow> 'a" where
  "set_opt f v x = (case v of None \<Rightarrow> x | Some y \<Rightarrow> f y x)"

definition normalize_backend_format :: "string \<Rightarrow> api_error + string" where
  "normalize_backend_format value =
     (let v = to_ascii_lowercase (trim value) in
      if v \<in> {''openai'', ''open_ai''} then Inr ''openai''
      else if v = ''anthropic'' then Inr ''anthropic''
      else Inl (bad_request ''format must be openai or anthropic''))"

definition non_empty_trimmed :: "string \<Rightarrow> string \<Rightarrow> api_error + string" where
  "non_empty_trimmed value field =
     (let t = trim value in if t = [] then Inl (bad_request (field @ '' must not be empty'')) else Inr t)"

definition checked_opt :: "('v \<Rightarrow> api_error + 'w) \<Rightarrow> 'v option \<Rightarrow> api_error + 'w option" where
  "checked_opt f v = (case v of None \<Rightarrow> Inr None | Some x \<Rightarrow> try_res (f x) (\<lambda>y. Inr (Some y)))"

section \<open>Teams\<close>

record create_team_payload =
  ct_name :: string
  ct_budget :: "budget option"
  ct_enabled :: bool

definition create_team :: "admin_env \<Rightarrow> u64 \<Rightarrow> create_team_payload \<Rightarrow> admin \<Rightarrow> i64 answer" where
  "create_team av now payload st =
     (let db = ad_db st; i = db_team_seq db;
          row = \<lparr>te_id = i, te_name = ct_name payload, te_budget = map_option (av_budget_text av) (ct_budget payload),
                 te_enabled = ct_enabled payload\<rparr>
      in reloaded av now i (put_db (db\<lparr>db_teams := db_teams db @ [row], db_team_seq := i + 1\<rparr>) st))"

record patch_team_payload =
  pt_name :: "string option"
  pt_budget :: "budget option option"
  pt_enabled :: "bool option"

definition patched_team :: "admin_env \<Rightarrow> patch_team_payload \<Rightarrow> team_rec \<Rightarrow> team_rec" where
  "patched_team av payload =
     set_opt (\<lambda>v t. t\<lparr>te_enabled := v\<rparr>) (pt_enabled payload)
     \<circ> set_opt (\<lambda>v t. t\<lparr>te_budget := map_option (av_budget_text av) v\<rparr>) (pt_budget payload)
     \<circ> set_opt (\<lambda>v t. t\<lparr>te_name := v\<rparr>) (pt_name payload)"

definition update_team :: "admin_env \<Rightarrow> u64 \<Rightarrow> i64 \<Rightarrow> patch_team_payload \<Rightarrow> admin \<Rightarrow> i64 answer" where
  "update_team av now i payload st =
     (let db = ad_db st in
      if pt_name payload = None \<and> pt_budget payload = None \<and> pt_enabled payload = None then refuse st (bad_request ''no fields to update'')
      else if \<not> list_ex (\<lambda>t. te_id t = i) (db_teams db) then refuse st (api_not_found ''team not found'')
      else reloaded av now i (put_db (db\<lparr>db_teams := update_where (\<lambda>t. te_id t = i) (patched_team av payload) (db_teams db)\<rparr>) st))"

section \<open>Keys\<close>

record create_key_payload =
  ck_team_id :: i64
  ck_owner :: string
  ck_allowed_models :: "string list"
  ck_budget :: "budget option"
  ck_rpm_limit :: "u32 option"
  ck_concurrency_limit :: "u32 option"
  ck_expires_at :: "i64 option"

definition i64_of_u32 :: "u32 \<Rightarrow> i64" where
  "i64_of_u32 v = uint v"

definition key_row_of :: "admin_env \<Rightarrow> i64 \<Rightarrow> string \<Rightarrow> create_key_payload \<Rightarrow> key_rec" where
  "key_row_of av i key payload =
     \<lparr>ke_id = i, ke_key_hash = hex_encode (av_sha256 av key), ke_key_prefix = take 8 key, ke_team_id = ck_team_id payload,
      ke_owner = ck_owner payload, ke_allowed_models = av_strings_text av (ck_allowed_models payload),
      ke_budget = map_option (av_budget_text av) (ck_budget payload), ke_rpm_limit = map_option i64_of_u32 (ck_rpm_limit payload),
      ke_concurrency_limit = map_option i64_of_u32 (ck_concurrency_limit payload), ke_expires_at = ck_expires_at payload,
      ke_enabled = True, ke_key_secret = Some key\<rparr>"

text \<open>When the reload fails the new key is disabled.\<close>

definition create_key :: "admin_env \<Rightarrow> u64 \<Rightarrow> u8 list \<Rightarrow> create_key_payload \<Rightarrow> admin \<Rightarrow> (i64 \<times> string \<times> string) answer" where
  "create_key av now random_bytes payload st =
     (let db = ad_db st; key = generate_key random_bytes; i = db_key_seq db in
      if \<not> list_ex (\<lambda>t. te_id t = ck_team_id payload) (db_teams db)
      then refuse (put_db (db\<lparr>db_key_seq := i + 1\<rparr>) st) (api_internal ''foreign key violation'')
      else
        (let db1 = db\<lparr>db_keys := db_keys db @ [key_row_of av i key payload], db_key_seq := i + 1\<rparr> in
         case reloaded av now (i, key, take 8 key) (put_db db1 st) of
           (st', Inr answer) \<Rightarrow> (st', Inr answer)
         | (st', Inl e) \<Rightarrow>
             (put_db (db1\<lparr>db_keys := update_where (\<lambda>k. ke_id k = i) (\<lambda>k. k\<lparr>ke_enabled := False\<rparr>) (db_keys db1)\<rparr>) st', Inl e)))"

definition disable_key :: "admin_env \<Rightarrow> u64 \<Rightarrow> i64 \<Rightarrow> admin \<Rightarrow> unit answer" where
  "disable_key av now i st =
     (let db = ad_db st in
      if \<not> list_ex (\<lambda>k. ke_id k = i) (db_keys db) then refuse st (api_not_found ''key not found'')
      else reloaded av now () (put_db (db\<lparr>db_keys := update_where (\<lambda>k. ke_id k = i) (\<lambda>k. k\<lparr>ke_enabled := False\<rparr>) (db_keys db)\<rparr>) st))"

record patch_key_payload =
  pk_team_id :: "i64 option"
  pk_owner :: "string option"
  pk_allowed_models :: "string list option"
  pk_budget :: "budget option option"
  pk_rpm_limit :: "u32 option"
  pk_concurrency_limit :: "u32 option"
  pk_expires_at :: "i64 option"
  pk_enabled :: "bool option"

definition empty_key_patch :: "patch_key_payload \<Rightarrow> bool" where
  "empty_key_patch p \<longleftrightarrow> pk_team_id p = None \<and> pk_owner p = None \<and> pk_allowed_models p = None \<and> pk_budget p = None
     \<and> pk_rpm_limit p = None \<and> pk_concurrency_limit p = None \<and> pk_expires_at p = None \<and> pk_enabled p = None"

definition patched_key :: "admin_env \<Rightarrow> patch_key_payload \<Rightarrow> string option \<Rightarrow> key_rec \<Rightarrow> key_rec" where
  "patched_key av p owner =
     set_opt (\<lambda>v k. k\<lparr>ke_enabled := v\<rparr>) (pk_enabled p)
     \<circ> set_opt (\<lambda>v k. k\<lparr>ke_expires_at := Some v\<rparr>) (pk_expires_at p)
     \<circ> set_opt (\<lambda>v k. k\<lparr>ke_concurrency_limit := Some (i64_of_u32 v)\<rparr>) (pk_concurrency_limit p)
     \<circ> set_opt (\<lambda>v k. k\<lparr>ke_rpm_limit := Some (i64_of_u32 v)\<rparr>) (pk_rpm_limit p)
     \<circ> set_opt (\<lambda>v k. k\<lparr>ke_budget := map_option (av_budget_text av) v\<rparr>) (pk_budget p)
     \<circ> set_opt (\<lambda>v k. k\<lparr>ke_allowed_models := av_strings_text av v\<rparr>) (pk_allowed_models p)
     \<circ> set_opt (\<lambda>v k. k\<lparr>ke_owner := v\<rparr>) owner
     \<circ> set_opt (\<lambda>v k. k\<lparr>ke_team_id := v\<rparr>) (pk_team_id p)"

definition update_key :: "admin_env \<Rightarrow> u64 \<Rightarrow> i64 \<Rightarrow> patch_key_payload \<Rightarrow> admin \<Rightarrow> i64 answer" where
  "update_key av now i payload st =
     (let db = ad_db st in
      case checked_opt (\<lambda>v. non_empty_trimmed v ''owner'') (pk_owner payload) of
        Inl e \<Rightarrow> refuse st e
      | Inr owner \<Rightarrow>
          if empty_key_patch payload then refuse st (bad_request ''no fields to update'')
          else if \<not> list_ex (\<lambda>k. ke_id k = i) (db_keys db) then refuse st (api_not_found ''key not found'')
          else if (case pk_team_id payload of None \<Rightarrow> False | Some t \<Rightarrow> \<not> list_ex (\<lambda>r. te_id r = t) (db_teams db))
          then refuse st (api_internal ''foreign key violation'')
          else reloaded av now i
                 (put_db (db\<lparr>db_keys := update_where (\<lambda>k. ke_id k = i) (patched_key av payload owner) (db_keys db)\<rparr>) st))"

section \<open>Backends\<close>

record create_backend_payload =
  nb_name :: string
  nb_base_url :: string
  nb_api_key_ref :: string
  nb_format :: string
  nb_weight :: "u32 option"
  nb_max_inflight :: "u32 option"
  nb_enabled :: bool

definition create_backend :: "admin_env \<Rightarrow> u64 \<Rightarrow> create_backend_payload \<Rightarrow> admin \<Rightarrow> i64 answer" where
  "create_backend av now payload st =
     (case try_res (non_empty_trimmed (nb_name payload) ''name'') (\<lambda>name.
           try_res (non_empty_trimmed (nb_base_url payload) ''base_url'') (\<lambda>base_url.
           try_res (non_empty_trimmed (nb_api_key_ref payload) ''api_key_ref'') (\<lambda>api_key_ref.
           try_res (normalize_backend_format (nb_format payload)) (\<lambda>format. Inr (name, base_url, api_key_ref, format))))) of
        Inl e \<Rightarrow> refuse st e
      | Inr (name, base_url, api_key_ref, format) \<Rightarrow>
          (let db = ad_db st; i = db_backend_seq db;
               row = \<lparr>bk_id = i, bk_name = name, bk_base_url = base_url, bk_api_key_ref = api_key_ref,
                      bk_weight = i64_of_u32 (max (unwrap_or 1 (nb_weight payload)) 1),
                      bk_max_inflight = i64_of_u32 (unwrap_or 0 (nb_max_inflight payload)), bk_format = format,
                      bk_enabled = nb_enabled payload\<rparr>
           in reloaded av now i (put_db (db\<lparr>db_backends := db_backends db @ [row], db_backend_seq := i + 1\<rparr>) st)))"

text \<open>A key file under the data directory, and the reference to it.\<close>

definition provider_key_path :: "admin_env \<Rightarrow> string \<Rightarrow> string" where
  "provider_key_path av name = av_data_dir av @ ''/provider_keys/'' @ name"

definition write_provider_key_file :: "string \<Rightarrow> string \<Rightarrow> admin_db \<Rightarrow> admin_db" where
  "write_provider_key_file path key db = db\<lparr>db_files := hm_insert path key (db_files db)\<rparr>"

definition put_backend_key :: "admin_env \<Rightarrow> u64 \<Rightarrow> i64 \<Rightarrow> string \<Rightarrow> admin \<Rightarrow> i64 answer" where
  "put_backend_key av now i key_text st =
     (let db = ad_db st; key = trim key_text in
      if key = [] then refuse st (bad_request ''provider key must not be empty'')
      else if \<not> list_ex (\<lambda>b. bk_id b = i) (db_backends db) then refuse st (api_not_found ''backend not found'')
      else
        (let path = provider_key_path av (idec i @ ''.key''); db1 = write_provider_key_file path key db in
         reloaded av now i (put_db (db1\<lparr>db_backends :=
           update_where (\<lambda>b. bk_id b = i) (\<lambda>b. b\<lparr>bk_api_key_ref := ''file:'' @ path\<rparr>) (db_backends db1)\<rparr>) st)))"

record patch_backend_payload =
  pb_name :: "string option"
  pb_base_url :: "string option"
  pb_api_key_ref :: "string option"
  pb_weight :: "u32 option"
  pb_max_inflight :: "u32 option"
  pb_format :: "string option"
  pb_enabled :: "bool option"

definition checked_weight :: "u32 \<Rightarrow> api_error + u32" where
  "checked_weight w = (if w = 0 then Inl (bad_request ''weight must be at least 1'') else Inr w)"

definition backend_patch :: "patch_backend_payload \<Rightarrow> api_error + (backend_rec \<Rightarrow> backend_rec)" where
  "backend_patch p =
     try_res (checked_opt (\<lambda>v. non_empty_trimmed v ''name'') (pb_name p)) (\<lambda>name.
     try_res (checked_opt (\<lambda>v. non_empty_trimmed v ''base_url'') (pb_base_url p)) (\<lambda>base_url.
     try_res (checked_opt (\<lambda>v. non_empty_trimmed v ''api_key_ref'') (pb_api_key_ref p)) (\<lambda>api_key_ref.
     try_res (checked_opt checked_weight (pb_weight p)) (\<lambda>weight.
     try_res (checked_opt normalize_backend_format (pb_format p)) (\<lambda>format.
     if name = None \<and> base_url = None \<and> api_key_ref = None \<and> weight = None \<and> pb_max_inflight p = None \<and> format = None \<and> pb_enabled p = None
     then Inl (bad_request ''no fields to update'')
     else Inr (
       set_opt (\<lambda>v b. b\<lparr>bk_enabled := v\<rparr>) (pb_enabled p)
       \<circ> set_opt (\<lambda>v b. b\<lparr>bk_format := v\<rparr>) format
       \<circ> set_opt (\<lambda>v b. b\<lparr>bk_max_inflight := i64_of_u32 v\<rparr>) (pb_max_inflight p)
       \<circ> set_opt (\<lambda>v b. b\<lparr>bk_weight := i64_of_u32 v\<rparr>) weight
       \<circ> set_opt (\<lambda>v b. b\<lparr>bk_api_key_ref := v\<rparr>) api_key_ref
       \<circ> set_opt (\<lambda>v b. b\<lparr>bk_base_url := v\<rparr>) base_url
       \<circ> set_opt (\<lambda>v b. b\<lparr>bk_name := v\<rparr>) name))))))"

definition update_backend :: "admin_env \<Rightarrow> u64 \<Rightarrow> i64 \<Rightarrow> patch_backend_payload \<Rightarrow> admin \<Rightarrow> i64 answer" where
  "update_backend av now i payload st =
     (let db = ad_db st in
      case backend_patch payload of
        Inl e \<Rightarrow> refuse st e
      | Inr f \<Rightarrow>
          if \<not> list_ex (\<lambda>b. bk_id b = i) (db_backends db) then refuse st (api_not_found ''backend not found'')
          else reloaded av now i (put_db (db\<lparr>db_backends := update_where (\<lambda>b. bk_id b = i) f (db_backends db)\<rparr>) st))"

text \<open>The backends a route refers to; a list that does not parse is empty here.\<close>

definition route_ids :: "admin_env \<Rightarrow> route_rec \<Rightarrow> i64 list" where
  "route_ids av r = unwrap_or [] (ce_ids (av_config av) (ro_backend_ids r))"

definition refers_to :: "admin_env \<Rightarrow> i64 \<Rightarrow> route_rec \<Rightarrow> bool" where
  "refers_to av i r \<longleftrightarrow> i \<in> set (route_ids av r) \<or> ro_fallback_backend_id r = Some i"

definition drop_route_rows :: "string \<Rightarrow> admin_db \<Rightarrow> admin_db" where
  "drop_route_rows model db = db\<lparr>db_routes := filter (\<lambda>r. ro_model_name r \<noteq> model) (db_routes db),
     db_endpoints := filter (\<lambda>e. en_model_name e \<noteq> model) (db_endpoints db),
     db_counters := filter (\<lambda>m. m \<noteq> model) (db_counters db)\<rparr>"

definition clean_route :: "admin_env \<Rightarrow> i64 \<Rightarrow> admin_db \<Rightarrow> route_rec \<Rightarrow> admin_db" where
  "clean_route av i db r =
     (if \<not> refers_to av i r then db
      else
        (let remaining = filter (\<lambda>x. x \<noteq> i) (route_ids av r);
             new_fallback = (if ro_fallback_backend_id r = Some i then None else ro_fallback_backend_id r)
         in if remaining = [] \<and> new_fallback = None then drop_route_rows (ro_model_name r) db
            else db\<lparr>db_routes := update_where (\<lambda>x. ro_model_name x = ro_model_name r)
                   (\<lambda>x. x\<lparr>ro_backend_ids := av_ids_text av remaining, ro_fallback_backend_id := new_fallback, ro_enabled := False\<rparr>)
                   (db_routes db)\<rparr>))"

definition delete_backend :: "admin_env \<Rightarrow> u64 \<Rightarrow> i64 \<Rightarrow> admin \<Rightarrow> unit answer" where
  "delete_backend av now i st =
     (let db = ad_db st; usage = length (filter (\<lambda>(b, _). b = i) (db_usage db)); refs = db_routes db;
          active_in_use = map ro_model_name (filter (\<lambda>r. ro_enabled r \<and> refers_to av i r) refs)
      in if usage > 0
         then refuse st (api_error_new 409 (''provider has '' @ dec usage @ '' logged request(s); disable it instead of deleting''))
         else if active_in_use \<noteq> []
         then refuse st (api_error_new 409 (''provider used by active routes: '' @ join '', '' (sort active_in_use)))
         else
           (let db1 = foldl (clean_route av i) db refs in
            if \<not> list_ex (\<lambda>b. bk_id b = i) (db_backends db1) then refuse (put_db db1 st) (api_not_found ''backend not found'')
            else reloaded av now () (put_db (db1\<lparr>db_backends := filter (\<lambda>b. bk_id b \<noteq> i) (db_backends db1),
                   db_endpoints := filter (\<lambda>e. en_backend_id e \<noteq> i) (db_endpoints db1)\<rparr>) st)))"

end
