(* ===== verification/Admin_Routes.thy ===== *)
theory Admin_Routes
  imports Admin_Db
begin

text \<open>
  The requests of the control plane that change model routes, \<open>src/admin/mod.rs\<close>: validation of a route with its key files, the
  check of a route that accepts Anthropic messages, and creation, replacement, deletion and switching of routes. The statements of
  a request are not one transaction: what ran before a failing statement stays.
\<close>

section \<open>The request\<close>

record upsert_endpoint =
  ue_backend_id :: i64
  ue_provider_model_name :: "string option"
  ue_provider_key :: "string option"
  ue_provider_key_ref :: "string option"
  ue_auth_mode :: "string option"
  ue_protocol :: "string option"
  ue_weight :: "u32 option"
  ue_max_inflight :: "u32 option"
  ue_enabled :: "bool option"

record upsert_route_payload =
  ur_model_name :: string
  ur_backend_ids :: "i64 list"
  ur_fallback_backend_id :: "i64 option"
  ur_chars_per_token :: "f64 option"
  ur_first_byte_timeout :: "u64 option"
  ur_provider_model_name :: "string option"
  ur_context_tokens :: "i64 option"
  ur_max_output_tokens :: "i64 option"
  ur_price_input_per_mtok_usd :: "f64 option"
  ur_price_output_per_mtok_usd :: "f64 option"
  ur_enabled :: "bool option"
  ur_provider_key :: "string option"
  ur_provider_key_ref :: "string option"
  ur_auth_mode :: "string option"
  ur_protocol :: "string option"
  ur_routing_policy :: "string option"
  ur_accept_anthropic_messages :: "bool option"
  ur_endpoints :: "upsert_endpoint list option"

record validated_endpoint =
  ve_backend_id :: i64
  ve_provider_model_name :: string
  ve_provider_key_ref :: "string option"
  ve_auth_mode :: string
  ve_protocol :: string
  ve_weight :: u32
  ve_max_inflight :: u32
  ve_enabled :: bool

record validated_route =
  vr_model_name :: string
  vr_backend_ids :: "i64 list"
  vr_fallback_backend_id :: "i64 option"
  vr_chars_per_token :: f64
  vr_first_byte_timeout :: u64
  vr_provider_model_name :: string
  vr_context_tokens :: "i64 option"
  vr_max_output_tokens :: "i64 option"
  vr_price_input_per_mtok_usd :: "f64 option"
  vr_price_output_per_mtok_usd :: "f64 option"
  vr_enabled :: bool
  vr_provider_key_ref :: "string option"
  vr_auth_mode :: string
  vr_protocol :: string
  vr_routing_policy :: routing_policy
  vr_accept_anthropic_messages :: bool
  vr_endpoints :: "validated_endpoint list option"

section \<open>Validation\<close>

definition protocol_family :: "string \<Rightarrow> string" where
  "protocol_family protocol =
     (case protocol_parse protocol of
        OpenAiChat \<Rightarrow> ''openai_chat'' | LocalOpenAiChat \<Rightarrow> ''openai_chat'' | CustomOpenAiChat \<Rightarrow> ''openai_chat''
      | OpenAiResponses \<Rightarrow> ''openai_responses''
      | OpenAiCompletions \<Rightarrow> ''openai_completions''
      | OpenAiEmbeddings \<Rightarrow> ''openai_embeddings''
      | OpenAiRerank \<Rightarrow> ''rerank'' | QwenRerank \<Rightarrow> ''rerank'' | CohereRerank \<Rightarrow> ''rerank'' | VoyageRerank \<Rightarrow> ''rerank'' | JinaRerank \<Rightarrow> ''rerank''
      | OpenAiAudioTranscriptions \<Rightarrow> ''openai_audio_transcriptions''
      | SystemOne \<Rightarrow> ''systemone''
      | AnthropicMessages \<Rightarrow> ''anthropic_messages'')"

definition validate_key_ref :: "string \<Rightarrow> api_error + string" where
  "validate_key_ref value =
     (let r = trim value in
      if starts_with r ''env:'' \<or> starts_with r ''file:'' then Inr r
      else Inl (bad_request ''provider_key_ref must be env:NAME or file:/path''))"

definition finite_positive :: "f64 \<Rightarrow> bool" where
  "finite_positive x \<longleftrightarrow> (case x of Fin q \<Rightarrow> 0 < q | _ \<Rightarrow> False)"

definition bad_price :: "f64 \<Rightarrow> bool" where
  "bad_price x \<longleftrightarrow> (case x of Fin q \<Rightarrow> q < 0 | _ \<Rightarrow> True)"

definition non_blank :: "string option \<Rightarrow> string option" where
  "non_blank s = filter_opt (\<lambda>s. s \<noteq> []) (map_option trim s)"

definition named_or :: "string \<Rightarrow> string option \<Rightarrow> string" where
  "named_or dflt s = unwrap_or dflt (filter_opt (\<lambda>s. trim s \<noteq> []) s)"

definition checked_auth_mode :: "string \<Rightarrow> string \<Rightarrow> api_error + string" where
  "checked_auth_mode what value =
     (let a = trim value in
      if a \<in> {''bearer'', ''anthropic'', ''none''} then Inr a
      else Inl (bad_request (what @ '' must be bearer, anthropic or none, got: '' @ a)))"

definition route_protocol :: "string \<Rightarrow> string option \<Rightarrow> string" where
  "route_protocol auth_mode p =
     (case non_blank p of
        Some s \<Rightarrow> protocol_as_str (protocol_parse s)
      | None \<Rightarrow> if auth_mode = ''anthropic'' then ''anthropic_messages'' else ''openai_chat'')"

definition default_context :: "provider_protocol \<Rightarrow> i64 option" where
  "default_context p =
     (case p of
        SystemOne \<Rightarrow> Some 8192
      | OpenAiChat \<Rightarrow> Some 262144 | LocalOpenAiChat \<Rightarrow> Some 262144 | CustomOpenAiChat \<Rightarrow> Some 262144
      | OpenAiCompletions \<Rightarrow> Some 262144 | OpenAiResponses \<Rightarrow> Some 262144 | AnthropicMessages \<Rightarrow> Some 262144
      | _ \<Rightarrow> None)"

definition check_numbers :: "upsert_route_payload \<Rightarrow> api_error + unit" where
  "check_numbers p =
     (if \<not> finite_positive (unwrap_or (Fin 4) (ur_chars_per_token p)) then Inl (bad_request ''chars_per_token must be greater than zero'')
      else if unwrap_or 180 (ur_first_byte_timeout p) = 0 then Inl (bad_request ''first_byte_timeout must be greater than zero'')
      else if (case ur_price_input_per_mtok_usd p of None \<Rightarrow> False | Some x \<Rightarrow> bad_price x)
      then Inl (bad_request ''price_input_per_mtok_usd must be zero or positive'')
      else if (case ur_price_output_per_mtok_usd p of None \<Rightarrow> False | Some x \<Rightarrow> bad_price x)
      then Inl (bad_request ''price_output_per_mtok_usd must be zero or positive'')
      else Inr ())"

definition check_bridge :: "bool \<Rightarrow> string \<Rightarrow> string \<Rightarrow> api_error + unit" where
  "check_bridge accept auth_mode protocol =
     (if \<not> accept then Inr ()
      else if \<not> is_openai_chat_family (protocol_parse protocol)
      then Inl (bad_request ''accept_anthropic_messages is only supported on OpenAI Chat routes'')
      else if auth_mode \<notin> {''bearer'', ''none''} then Inl (bad_request ''accept_anthropic_messages requires auth_mode bearer or none'')
      else Inr ())"

text \<open>The fields of a validated route that need neither a key file nor the endpoints.\<close>

definition validate_fields :: "upsert_route_payload \<Rightarrow> api_error + validated_route" where
  "validate_fields p =
     try_res (non_empty_trimmed (ur_model_name p) ''model_name'') (\<lambda>model_name.
     if ur_backend_ids p = [] then Inl (bad_request ''backend_ids must not be empty'')
     else if list_ex (\<lambda>i. i \<le> 0) (ur_backend_ids p) then Inl (bad_request ''backend_ids must be positive integers'')
     else
     try_res (check_numbers p) (\<lambda>_.
     try_res (checked_auth_mode ''auth_mode'' (unwrap_or ''bearer'' (ur_auth_mode p))) (\<lambda>auth_mode.
     let protocol = route_protocol auth_mode (ur_protocol p);
         accept = unwrap_or False (ur_accept_anthropic_messages p) in
     try_res (check_bridge accept auth_mode protocol) (\<lambda>_.
     if (case ur_context_tokens p of None \<Rightarrow> False | Some n \<Rightarrow> n \<le> 0) then Inl (bad_request ''context_tokens must be positive'')
     else if (case ur_max_output_tokens p of None \<Rightarrow> False | Some n \<Rightarrow> n \<le> 0)
     then Inl (bad_request ''max_output_tokens must be positive when provided'')
     else Inr \<lparr>vr_model_name = model_name, vr_backend_ids = ur_backend_ids p, vr_fallback_backend_id = ur_fallback_backend_id p,
       vr_chars_per_token = unwrap_or (Fin 4) (ur_chars_per_token p), vr_first_byte_timeout = unwrap_or 180 (ur_first_byte_timeout p),
       vr_provider_model_name = named_or model_name (ur_provider_model_name p),
       vr_context_tokens = or_else (ur_context_tokens p) (default_context (protocol_parse protocol)),
       vr_max_output_tokens = ur_max_output_tokens p, vr_price_input_per_mtok_usd = ur_price_input_per_mtok_usd p,
       vr_price_output_per_mtok_usd = ur_price_output_per_mtok_usd p, vr_enabled = unwrap_or True (ur_enabled p),
       vr_provider_key_ref = None, vr_auth_mode = auth_mode, vr_protocol = protocol,
       vr_routing_policy = policy_parse (unwrap_or ''least_loaded_weighted'' (ur_routing_policy p)),
       vr_accept_anthropic_messages = accept, vr_endpoints = None\<rparr>))))"

definition route_key_file :: "admin_env \<Rightarrow> string \<Rightarrow> string" where
  "route_key_file av model_name = provider_key_path av (''route_'' @ hex_encode (av_sha256 av model_name) @ ''.key'')"

definition endpoint_key_file :: "admin_env \<Rightarrow> string \<Rightarrow> i64 \<Rightarrow> string" where
  "endpoint_key_file av model_name backend_id =
     provider_key_path av (''route_'' @ hex_encode (av_sha256 av model_name) @ ''_backend_'' @ idec backend_id @ ''.key'')"

text \<open>
  The credential of a route or an endpoint: a key in the request is written to a file at once, a reference is only checked.
\<close>

definition store_key ::
  "string \<Rightarrow> string \<Rightarrow> string \<Rightarrow> string option \<Rightarrow> string option \<Rightarrow> admin_db \<Rightarrow> admin_db \<times> (api_error + string option)" where
  "store_key what path auth_mode key key_ref db =
     (case non_blank key of
        Some k \<Rightarrow>
          if auth_mode = ''none'' then (db, Inl (bad_request (what @ '' must be empty when auth_mode is none'')))
          else (write_provider_key_file path k db, Inr (Some (''file:'' @ path)))
      | None \<Rightarrow> (db, checked_opt validate_key_ref (non_blank key_ref)))"

definition write_route_endpoint_key ::
  "admin_env \<Rightarrow> string \<Rightarrow> upsert_endpoint \<Rightarrow> string \<Rightarrow> admin_db \<Rightarrow> admin_db \<times> (api_error + string option)" where
  "write_route_endpoint_key av model_name item auth db =
     store_key ''endpoint provider key'' (endpoint_key_file av model_name (ue_backend_id item)) auth (ue_provider_key item)
       (ue_provider_key_ref item) db"

definition check_endpoint_item :: "validated_route \<Rightarrow> i64 list \<Rightarrow> upsert_endpoint \<Rightarrow> api_error + (string \<times> string)" where
  "check_endpoint_item v seen item =
     (let b = ue_backend_id item in
      if b \<le> 0 then Inl (bad_request ''endpoint backend_id must be positive'')
      else if b \<notin> set (vr_backend_ids v) then Inl (bad_request (''endpoint backend_id '' @ idec b @ '' must be listed in backend_ids''))
      else if b \<in> set seen then Inl (bad_request (''duplicate endpoint backend_id '' @ idec b))
      else
      try_res (checked_auth_mode ''endpoint auth_mode'' (unwrap_or (vr_auth_mode v) (ue_auth_mode item))) (\<lambda>auth.
      let protocol = protocol_as_str (protocol_parse (unwrap_or (vr_protocol v) (ue_protocol item))) in
      if vr_accept_anthropic_messages v \<and> auth = ''anthropic''
      then Inl (bad_request ''accept_anthropic_messages requires endpoint auth_mode bearer or none'')
      else if protocol_family protocol \<noteq> protocol_family (vr_protocol v)
      then Inl (bad_request (''endpoint protocol '' @ protocol @ '' is not compatible with group protocol '' @ vr_protocol v))
      else Inr (auth, protocol)))"

fun validate_endpoints ::
  "admin_env \<Rightarrow> validated_route \<Rightarrow> i64 list \<Rightarrow> upsert_endpoint list \<Rightarrow> admin_db \<Rightarrow> admin_db \<times> (api_error + validated_endpoint list)" where
  "validate_endpoints av v seen [] db = (db, Inr [])"
| "validate_endpoints av v seen (item # items) db =
     (case check_endpoint_item v seen item of
        Inl e \<Rightarrow> (db, Inl e)
      | Inr (auth, protocol) \<Rightarrow>
          (case write_route_endpoint_key av (vr_model_name v) item auth db of
             (db1, Inl e) \<Rightarrow> (db1, Inl e)
           | (db1, Inr key_ref) \<Rightarrow>
               (case validate_endpoints av v (ue_backend_id item # seen) items db1 of
                  (db2, Inl e) \<Rightarrow> (db2, Inl e)
                | (db2, Inr out) \<Rightarrow>
                    (db2, Inr (\<lparr>ve_backend_id = ue_backend_id item,
                       ve_provider_model_name = named_or (vr_provider_model_name v) (ue_provider_model_name item),
                       ve_provider_key_ref = key_ref, ve_auth_mode = auth, ve_protocol = protocol,
                       ve_weight = max (unwrap_or 1 (ue_weight item)) 1, ve_max_inflight = unwrap_or 0 (ue_max_inflight item),
                       ve_enabled = unwrap_or True (ue_enabled item)\<rparr> # out)))))"

definition validate_route :: "admin_env \<Rightarrow> upsert_route_payload \<Rightarrow> admin_db \<Rightarrow> admin_db \<times> (api_error + validated_route)" where
  "validate_route av p db =
     (case validate_fields p of
        Inl e \<Rightarrow> (db, Inl e)
      | Inr v \<Rightarrow>
          (case store_key ''provider key'' (route_key_file av (vr_model_name v)) (vr_auth_mode v) (ur_provider_key p) (ur_provider_key_ref p) db of
             (db1, Inl e) \<Rightarrow> (db1, Inl e)
           | (db1, Inr key_ref) \<Rightarrow>
               (case ur_endpoints p of
                  None \<Rightarrow> (db1, Inr (v\<lparr>vr_provider_key_ref := key_ref\<rparr>))
                | Some items \<Rightarrow>
                    (case validate_endpoints av v [] items db1 of
                       (db2, Inl e) \<Rightarrow> (db2, Inl e)
                     | (db2, Inr out) \<Rightarrow> (db2, Inr (v\<lparr>vr_provider_key_ref := key_ref, vr_endpoints := Some out\<rparr>))))))"

text \<open>
  A route that accepts Anthropic messages needs backends of the OpenAI format; the query returns one row per backend with a given id.
\<close>

definition validate_bridge_backends :: "admin_db \<Rightarrow> validated_route \<Rightarrow> api_error + unit" where
  "validate_bridge_backends db v =
     (if \<not> vr_accept_anthropic_messages v then Inr ()
      else
        (let ids = remdups (sort (vr_backend_ids v @ (case vr_fallback_backend_id v of None \<Rightarrow> [] | Some f \<Rightarrow> [f])));
             rows = filter (\<lambda>b. bk_id b \<in> set ids) (db_backends db)
         in if ids = [] then Inl (bad_request ''accept_anthropic_messages requires at least one backend'')
            else if length rows \<noteq> length ids then Inl (bad_request ''accept_anthropic_messages references a backend that does not exist'')
            else (case find (\<lambda>b. bk_format b \<noteq> ''openai'') rows of
                    Some b \<Rightarrow> Inl (bad_request (''accept_anthropic_messages requires OpenAI-format backends; backend '' @ idec (bk_id b)
                      @ '' is '' @ bk_format b))
                  | None \<Rightarrow> Inr ())))"

section \<open>Changes of routes\<close>

definition enable_referenced_backends :: "i64 list \<Rightarrow> i64 option \<Rightarrow> admin_db \<Rightarrow> admin_db" where
  "enable_referenced_backends ids fallback db =
     foldl (\<lambda>db i. db\<lparr>db_backends := update_where (\<lambda>b. bk_id b = i) (\<lambda>b. b\<lparr>bk_enabled := True\<rparr>) (db_backends db)\<rparr>) db
       (ids @ (case fallback of None \<Rightarrow> [] | Some f \<Rightarrow> [f]))"

definition endpoint_rec_of :: "string \<Rightarrow> validated_endpoint \<Rightarrow> endpoint_rec" where
  "endpoint_rec_of model_name e = \<lparr>en_model_name = model_name, en_backend_id = ve_backend_id e,
     en_provider_model_name = ve_provider_model_name e, en_provider_key_ref = ve_provider_key_ref e, en_auth_mode = ve_auth_mode e,
     en_protocol = ve_protocol e, en_weight = i64_of_u32 (ve_weight e), en_max_inflight = i64_of_u32 (ve_max_inflight e),
     en_enabled = ve_enabled e\<rparr>"

text \<open>The insertions stop at the first backend that does not exist; those before it stay.\<close>

fun insert_endpoints :: "string \<Rightarrow> validated_endpoint list \<Rightarrow> admin_db \<Rightarrow> admin_db \<times> (api_error + unit)" where
  "insert_endpoints model_name [] db = (db, Inr ())"
| "insert_endpoints model_name (e # es) db =
     (if \<not> list_ex (\<lambda>b. bk_id b = ve_backend_id e) (db_backends db) then (db, Inl (api_internal ''foreign key violation''))
      else insert_endpoints model_name es (db\<lparr>db_endpoints := db_endpoints db @ [endpoint_rec_of model_name e]\<rparr>))"

definition replace_route_endpoints :: "string \<Rightarrow> validated_endpoint list option \<Rightarrow> admin_db \<Rightarrow> admin_db \<times> (api_error + unit)" where
  "replace_route_endpoints model_name endpoints db =
     (case endpoints of
        None \<Rightarrow> (db, Inr ())
      | Some es \<Rightarrow> insert_endpoints model_name es
          (db\<lparr>db_endpoints := filter (\<lambda>e. en_model_name e \<noteq> model_name) (db_endpoints db)\<rparr>))"

text \<open>The timeout is stored as a signed number, as \<open>as i64\<close> makes it.\<close>

definition route_rec_of :: "admin_env \<Rightarrow> validated_route \<Rightarrow> string option \<Rightarrow> route_rec" where
  "route_rec_of av v key_ref = \<lparr>ro_model_name = vr_model_name v, ro_backend_ids = av_ids_text av (vr_backend_ids v),
     ro_fallback_backend_id = vr_fallback_backend_id v, ro_chars_per_token = vr_chars_per_token v,
     ro_first_byte_timeout = sint (vr_first_byte_timeout v), ro_provider_model_name = vr_provider_model_name v,
     ro_context_tokens = vr_context_tokens v, ro_max_output_tokens = vr_max_output_tokens v,
     ro_price_input_per_mtok_usd = vr_price_input_per_mtok_usd v, ro_price_output_per_mtok_usd = vr_price_output_per_mtok_usd v,
     ro_enabled = vr_enabled v, ro_provider_key_ref = key_ref, ro_auth_mode = vr_auth_mode v, ro_protocol = vr_protocol v,
     ro_routing_policy = policy_as_str (vr_routing_policy v), ro_accept_anthropic_messages = vr_accept_anthropic_messages v\<rparr>"

text \<open>What follows the statement that stores the route: its endpoints, its backends, the reload.\<close>

definition finish_route :: "admin_env \<Rightarrow> u64 \<Rightarrow> validated_route \<Rightarrow> admin \<Rightarrow> validated_route answer" where
  "finish_route av now v st =
     (case replace_route_endpoints (vr_model_name v) (vr_endpoints v) (ad_db st) of
        (db, Inl e) \<Rightarrow> refuse (put_db db st) e
      | (db, Inr _) \<Rightarrow>
          reloaded av now v (put_db (if vr_enabled v then enable_referenced_backends (vr_backend_ids v) (vr_fallback_backend_id v) db else db) st))"

definition upsert_route :: "admin_env \<Rightarrow> u64 \<Rightarrow> upsert_route_payload \<Rightarrow> admin \<Rightarrow> validated_route answer" where
  "upsert_route av now payload st =
     (case non_empty_trimmed (ur_model_name payload) ''model_name'' of
        Inl e \<Rightarrow> refuse st e
      | Inr requested_name \<Rightarrow>
          if list_ex (\<lambda>r. ro_model_name r = requested_name) (db_routes (ad_db st))
          then refuse st (api_error_new 409 ''API model name already exists; model routes and Model Groups share one client-facing namespace'')
          else
            (case validate_route av payload (ad_db st) of
               (db, Inl e) \<Rightarrow> refuse (put_db db st) e
             | (db, Inr v) \<Rightarrow>
                 (case validate_bridge_backends db v of
                    Inl e \<Rightarrow> refuse (put_db db st) e
                  | Inr _ \<Rightarrow> finish_route av now v
                      (put_db (db\<lparr>db_routes := db_routes db @ [route_rec_of av v (vr_provider_key_ref v)]\<rparr>) st))))"

definition keep_flag :: "admin_db \<Rightarrow> string \<Rightarrow> upsert_route_payload \<Rightarrow> upsert_route_payload" where
  "keep_flag db old_name p =
     (case ur_accept_anthropic_messages p of
        Some _ \<Rightarrow> p
      | None \<Rightarrow>
          (case find (\<lambda>r. ro_model_name r = old_name) (db_routes db) of
             None \<Rightarrow> p
           | Some r \<Rightarrow> p\<lparr>ur_accept_anthropic_messages := Some (ro_accept_anthropic_messages r)\<rparr>))"

definition check_rename :: "admin_db \<Rightarrow> string \<Rightarrow> string \<Rightarrow> api_error + unit" where
  "check_rename db old_name new_name =
     (if new_name = old_name then Inr ()
      else if list_ex (\<lambda>r. ro_model_name r = new_name) (db_routes db) then Inl (api_error_new 409 ''API model name already exists'')
      else if list_ex (\<lambda>(_, m). m = old_name) (db_usage db)
      then Inl (api_error_new 409 ''model has transaction history; renaming is not allowed'')
      else Inr ())"

text \<open>Rows that refer to a route: its endpoint overrides and its counter. Renaming it while it has some breaks a foreign key.\<close>

definition referenced_route :: "admin_db \<Rightarrow> string \<Rightarrow> bool" where
  "referenced_route db model_name \<longleftrightarrow>
     list_ex (\<lambda>e. en_model_name e = model_name) (db_endpoints db) \<or> model_name \<in> set (db_counters db)"

definition patch_route :: "admin_env \<Rightarrow> u64 \<Rightarrow> string \<Rightarrow> upsert_route_payload \<Rightarrow> admin \<Rightarrow> validated_route answer" where
  "patch_route av now old_name payload st =
     (case validate_route av (keep_flag (ad_db st) old_name payload) (ad_db st) of
        (db, Inl e) \<Rightarrow> refuse (put_db db st) e
      | (db, Inr v) \<Rightarrow>
          (case try_res (validate_bridge_backends db v) (\<lambda>_. check_rename db old_name (vr_model_name v)) of
             Inl e \<Rightarrow> refuse (put_db db st) e
           | Inr _ \<Rightarrow>
               if \<not> list_ex (\<lambda>r. ro_model_name r = old_name) (db_routes db) then refuse (put_db db st) (api_not_found ''route not found'')
               else if vr_model_name v \<noteq> old_name \<and> referenced_route db old_name
               then refuse (put_db db st) (api_internal ''foreign key violation'')
               else finish_route av now v (put_db (db\<lparr>db_routes := update_where (\<lambda>r. ro_model_name r = old_name)
                      (\<lambda>r. route_rec_of av v (or_else (vr_provider_key_ref v) (ro_provider_key_ref r))) (db_routes db)\<rparr>) st)))"

definition delete_route :: "admin_env \<Rightarrow> u64 \<Rightarrow> string \<Rightarrow> admin \<Rightarrow> unit answer" where
  "delete_route av now model_name st =
     (let db = ad_db st in
      if list_ex (\<lambda>(_, m). m = model_name) (db_usage db)
      then refuse st (api_error_new 409 ''model has transaction history; disable it instead'')
      else if \<not> list_ex (\<lambda>r. ro_model_name r = model_name) (db_routes db) then refuse st (api_not_found ''route not found'')
      else
        (let db1 = drop_route_rows model_name db in
         reloaded av now () (put_db (db1\<lparr>db_files := hm_remove (route_key_file av model_name) (db_files db1)\<rparr>) st)))"

definition toggle_route_enabled :: "admin_env \<Rightarrow> u64 \<Rightarrow> string \<Rightarrow> bool \<Rightarrow> admin \<Rightarrow> bool answer" where
  "toggle_route_enabled av now model_name enabled st =
     (let db = ad_db st;
          db1 = db\<lparr>db_routes := update_where (\<lambda>r. ro_model_name r = model_name) (\<lambda>r. r\<lparr>ro_enabled := enabled\<rparr>) (db_routes db)\<rparr>
      in case find (\<lambda>r. ro_model_name r = model_name) (db_routes db1) of
           None \<Rightarrow> refuse st (api_not_found ''route not found'')
         | Some r \<Rightarrow>
             if \<not> enabled then reloaded av now enabled (put_db db1 st)
             else (case ce_ids (av_config av) (ro_backend_ids r) of
                     None \<Rightarrow> refuse (put_db db1 st) (api_internal (''invalid backend_ids JSON in model_routes: '' @ ro_backend_ids r))
                   | Some ids \<Rightarrow> reloaded av now enabled (put_db (enable_referenced_backends ids (ro_fallback_backend_id r) db1) st)))"

end
