(* ===== verification/Control_Plane.thy ===== *)
theory Control_Plane
  imports Admin_Routes "HOL-Library.Countable"
begin

text \<open>
  The control plane as a whole: the requests of \<open>router\<close> in \<open>src/admin/mod.rs\<close> that change something, behind the check of the
  master key. Every change leaves tables that load, so the reload at its end succeeds; a created key works until it is disabled;
  a deleted backend leaves no reference behind.
\<close>

section \<open>Requests\<close>

datatype admin_request =
  CreateTeam create_team_payload
| UpdateTeam i64 patch_team_payload
| CreateKey "u8 list" create_key_payload
| DisableKey i64
| UpdateKey i64 patch_key_payload
| CreateBackend create_backend_payload
| PutBackendKey i64 string
| UpdateBackend i64 patch_backend_payload
| DeleteBackend i64
| UpsertRoute upsert_route_payload
| PatchRoute string upsert_route_payload
| DeleteRoute string
| ToggleRouteEnabled string bool

definition outcome :: "'a answer \<Rightarrow> unit answer" where
  "outcome = (\<lambda>(st, r). (st, map_sum id (\<lambda>_. ()) r))"

fun serve_admin :: "admin_env \<Rightarrow> u64 \<Rightarrow> admin_request \<Rightarrow> admin \<Rightarrow> unit answer" where
  "serve_admin av now (CreateTeam p) st = outcome (create_team av now p st)"
| "serve_admin av now (UpdateTeam i p) st = outcome (update_team av now i p st)"
| "serve_admin av now (CreateKey random p) st = outcome (create_key av now random p st)"
| "serve_admin av now (DisableKey i) st = outcome (disable_key av now i st)"
| "serve_admin av now (UpdateKey i p) st = outcome (update_key av now i p st)"
| "serve_admin av now (CreateBackend p) st = outcome (create_backend av now p st)"
| "serve_admin av now (PutBackendKey i key) st = outcome (put_backend_key av now i key st)"
| "serve_admin av now (UpdateBackend i p) st = outcome (update_backend av now i p st)"
| "serve_admin av now (DeleteBackend i) st = outcome (delete_backend av now i st)"
| "serve_admin av now (UpsertRoute p) st = outcome (upsert_route av now p st)"
| "serve_admin av now (PatchRoute m p) st = outcome (patch_route av now m p st)"
| "serve_admin av now (DeleteRoute m) st = outcome (delete_route av now m st)"
| "serve_admin av now (ToggleRouteEnabled m b) st = outcome (toggle_route_enabled av now m b st)"

text \<open>A call with its headers, the address it comes from and the clock: when the key is checked, when a failure is recorded, when the reload ends.\<close>

record admin_call =
  ac_headers :: header_map
  ac_peer :: ip_addr
  ac_check_at :: instant
  ac_fail_at :: instant
  ac_now :: u64
  ac_request :: admin_request

definition admin_router :: "http_client \<Rightarrow> string \<Rightarrow> string list \<Rightarrow> admin_env \<Rightarrow> admin_call \<Rightarrow> admin \<Rightarrow> unit answer" where
  "admin_router hc master_key allow_cidrs av c =
     guarded hc master_key allow_cidrs (ac_headers c) (ac_peer c) (ac_check_at c) (ac_fail_at c) (serve_admin av (ac_now c) (ac_request c))"

section \<open>Tables that load\<close>

definition budget_ok :: "admin_env \<Rightarrow> string option \<Rightarrow> bool" where
  "budget_ok av s \<longleftrightarrow> (case s of None \<Rightarrow> True | Some t \<Rightarrow> ce_budget (av_config av) t \<noteq> None)"

definition known_format :: "string \<Rightarrow> bool" where
  "known_format f \<longleftrightarrow> f \<in> {''openai'', ''anthropic''}"

definition backends_ok :: "admin_db \<Rightarrow> bool" where
  "backends_ok db \<longleftrightarrow> distinct (map bk_id (db_backends db))
     \<and> (\<forall>b \<in> set (db_backends db). bk_id b < db_backend_seq db \<and> known_format (bk_format b))"

definition teams_ok :: "admin_env \<Rightarrow> admin_db \<Rightarrow> bool" where
  "teams_ok av db \<longleftrightarrow> distinct (map te_id (db_teams db))
     \<and> (\<forall>t \<in> set (db_teams db). te_id t < db_team_seq db \<and> budget_ok av (te_budget t))"

definition keys_ok :: "admin_env \<Rightarrow> admin_db \<Rightarrow> bool" where
  "keys_ok av db \<longleftrightarrow> distinct (map ke_id (db_keys db))
     \<and> (\<forall>k \<in> set (db_keys db). ke_id k < db_key_seq db \<and> budget_ok av (ke_budget k)
          \<and> (\<exists>h. hex_to_key_hash (ke_key_hash k) = Inr h) \<and> ke_team_id k \<in> te_id ` set (db_teams db))"

definition routes_ok :: "admin_env \<Rightarrow> admin_db \<Rightarrow> bool" where
  "routes_ok av db \<longleftrightarrow> distinct (map ro_model_name (db_routes db))
     \<and> (\<forall>r \<in> set (db_routes db). ce_ids (av_config av) (ro_backend_ids r) \<noteq> None)"

abbreviation endpoint_id :: "endpoint_rec \<Rightarrow> string \<times> i64" where
  "endpoint_id e \<equiv> (en_model_name e, en_backend_id e)"

definition endpoints_ok :: "admin_db \<Rightarrow> bool" where
  "endpoints_ok db \<longleftrightarrow> distinct (map endpoint_id (db_endpoints db))
     \<and> (\<forall>e \<in> set (db_endpoints db). en_model_name e \<in> ro_model_name ` set (db_routes db) \<and> en_backend_id e \<in> bk_id ` set (db_backends db))
     \<and> set (db_counters db) \<subseteq> ro_model_name ` set (db_routes db)"

definition db_ok :: "admin_env \<Rightarrow> admin_db \<Rightarrow> bool" where
  "db_ok av db \<longleftrightarrow> backends_ok db \<and> teams_ok av db \<and> keys_ok av db \<and> routes_ok av db \<and> endpoints_ok db"

lemmas table_defs = backends_ok_def teams_ok_def keys_ok_def routes_ok_def endpoints_ok_def

text \<open>What the code relies on: \<open>serde_json\<close> reads back what it wrote, and SHA-256 has 32 bytes.\<close>

definition faithful_env :: "admin_env \<Rightarrow> bool" where
  "faithful_env av \<longleftrightarrow>
     (\<forall>ids. ce_ids (av_config av) (av_ids_text av ids) = Some ids)
     \<and> (\<forall>ms. ce_strings (av_config av) (av_strings_text av ms) = Some ms)
     \<and> (\<forall>b. ce_budget (av_config av) (av_budget_text av b) = Some b)
     \<and> (\<forall>x. length (av_sha256 av x) = 32)"

lemma faithful_ids: "faithful_env av \<Longrightarrow> ce_ids (av_config av) (av_ids_text av ids) = Some ids"
  by (simp add: faithful_env_def)

lemma faithful_budget: "faithful_env av \<Longrightarrow> budget_ok av (map_option (av_budget_text av) b)"
  by (cases b) (simp_all add: faithful_env_def budget_ok_def)

lemma faithful_hash: "faithful_env av \<Longrightarrow> hex_to_key_hash (hex_encode (av_sha256 av x)) = Inr (av_sha256 av x)"
  by (simp add: faithful_env_def hex_roundtrip)

lemma with_files_parsers [simp]:
  "ce_ids (with_files ce db) = ce_ids ce" "ce_strings (with_files ce db) = ce_strings ce" "ce_budget (with_files ce db) = ce_budget ce"
  by (simp_all add: with_files_def)

lemma all_decode:
  assumes "\<And>x. x \<in> set xs \<Longrightarrow> \<exists>y. f x = Inr y"
  shows "\<exists>ys. list_all2 (\<lambda>x y. f x = Inr y) xs ys"
proof -
  have "list_all2 (\<lambda>x y. f x = Inr y) xs (map (projr \<circ> f) xs)"
    unfolding list_all2_map2 by (rule list.rel_refl_strong) (use assms in force)
  then show ?thesis by blast
qed

lemma routes_fold_total:
  assumes "\<And>row endpoints. row \<in> set rows \<Longrightarrow> \<exists>m r. g_str row 0 = Inr m \<and> route_row ce endpoints row = Inr r"
  shows "\<exists>x. fold_res (\<lambda>(ov, out) row. try_res (g_str row 0) (\<lambda>m. try_res (route_row ce (unwrap_or [] (hm_get ov m)) row)
      (\<lambda>r. Inr (hm_remove m ov, out @ [r])))) s rows = Inr x"
  using assms
proof (induction rows arbitrary: s)
  case (Cons row rows)
  obtain ov out where s: "s = (ov, out)" by force
  from Cons.prems [of row] obtain m r where "g_str row 0 = Inr m" "route_row ce (unwrap_or [] (hm_get ov m)) row = Inr r" by fastforce
  then show ?case using Cons s by simp
qed simp

lemma backend_columns_decode:
  "known_format (bk_format b) \<Longrightarrow> \<exists>x. backend_row ce (backend_columns b) = Inr x"
  by (auto simp: backend_row_def backend_columns_def column_defs known_format_def)

lemma team_columns_decode:
  "budget_ok av (te_budget t) \<Longrightarrow> \<exists>x. team_row (with_files (av_config av) db) (team_columns t) = Inr x"
  by (cases "te_budget t") (auto simp: team_row_def team_columns_def column_defs budget_ok_def budget_column_def sql_opt_def)

lemma endpoint_columns_decode: "\<exists>x. endpoint_row ce (endpoint_columns e) = Inr x"
  by (cases "en_provider_key_ref e") (auto simp: endpoint_row_def endpoint_columns_def column_defs sql_opt_def Let_def)

lemma opt_columns [simp]:
  "(case sql_opt SqlInt x of SqlInt n \<Rightarrow> Inr (Some n) | SqlNull \<Rightarrow> Inr None | _ \<Rightarrow> Inl e) = Inr x"
  "(case sql_opt SqlText y of SqlText n \<Rightarrow> Inr (Some n) | SqlNull \<Rightarrow> Inr None | _ \<Rightarrow> Inl e) = Inr y"
  by (cases x; simp add: sql_opt_def) (cases y; simp add: sql_opt_def)

lemma route_columns_decode:
  "ce_ids ce (ro_backend_ids r) \<noteq> None \<Longrightarrow> \<exists>m x. g_str (route_columns r) 0 = Inr m \<and> route_row ce endpoints (route_columns r) = Inr x"
  by (auto simp: route_row_def route_columns_def column_defs Let_def)

lemma key_columns_decode:
  "budget_ok av (ke_budget k) \<Longrightarrow> \<exists>h. hex_to_key_hash (ke_key_hash k) = Inr h
    \<Longrightarrow> \<exists>x. api_key_row (with_files (av_config av) db) (key_columns k) = Inr x"
  by (cases "ke_budget k") (auto simp: api_key_row_def key_columns_def column_defs budget_ok_def budget_column_def Let_def)

lemma db_ok_loads:
  assumes "db_ok av db"
  shows "\<exists>snap. load_snapshot (with_files (av_config av) db) (tables_of db) = Inr snap"
proof -
  let ?ce = "with_files (av_config av) db" and ?db = "tables_of db"
  note ok = assms [unfolded db_ok_def table_defs]
  have "\<exists>x. load_backends ?ce ?db = Inr x"
    unfolding load_backends_def tables_of_def collect_rows_def config_db.simps try_res.simps collect_iff
    by (rule all_decode) (use ok backend_columns_decode in fastforce)
  moreover have "\<exists>x. load_team_rows ?ce ?db = Inr x"
    unfolding load_team_rows_def tables_of_def collect_rows_def config_db.simps try_res.simps collect_iff
    by (rule all_decode) (use ok team_columns_decode in fastforce)
  moreover have "\<exists>x. load_api_keys ?ce ?db = Inr x"
    unfolding load_api_keys_def tables_of_def collect_rows_def config_db.simps try_res.simps collect_iff
    by (rule all_decode) (use ok key_columns_decode in fastforce)
  moreover have "\<exists>x. load_routes ?ce ?db = Inr x"
  proof -
    have "\<exists>ys. list_all2 (\<lambda>row y. endpoint_row ?ce row = Inr y) (map endpoint_columns (db_endpoints db)) ys"
      by (rule all_decode) (use endpoint_columns_decode in fastforce)
    then obtain ov where ov: "load_route_endpoints ?ce ?db = Inr ov"
      by (auto simp: load_route_endpoints_def tables_of_def case_prod_beta' decode_fold_iff)
    have "\<exists>x. fold_res (\<lambda>(ov, out) row. try_res (g_str row 0) (\<lambda>m. try_res (route_row ?ce (unwrap_or [] (hm_get ov m)) row)
      (\<lambda>r. Inr (hm_remove m ov, out @ [r])))) (ov, []) (map route_columns (db_routes db)) = Inr x"
    proof (rule routes_fold_total)
      fix row endpoints
      assume "row \<in> set (map route_columns (db_routes db))"
      then obtain r where "row = route_columns r" "ce_ids ?ce (ro_backend_ids r) \<noteq> None" using ok by auto
      then show "\<exists>m r. g_str row 0 = Inr m \<and> route_row ?ce endpoints row = Inr r" using route_columns_decode by simp
    qed
    then obtain x where x: "fold_res (\<lambda>(ov, out) row. try_res (g_str row 0) (\<lambda>m. try_res (route_row ?ce (unwrap_or [] (hm_get ov m)) row)
      (\<lambda>r. Inr (hm_remove m ov, out @ [r])))) (ov, []) (map route_columns (db_routes db)) = Inr x" ..
    have rows: "cd_routes ?db = Inr (map route_columns (db_routes db))" by (simp add: tables_of_def)
    show ?thesis unfolding load_routes_def ov rows try_res.simps x by (simp add: case_prod_beta')
  qed
  ultimately show ?thesis by (auto simp: load_snapshot_def)
qed

lemma reloaded_ok:
  assumes "db_ok av (ad_db st)"
  obtains snap where "load_snapshot (with_files (av_config av) (ad_db st)) (tables_of (ad_db st)) = Inr snap"
    "reloaded av now a st = (st\<lparr>ad_process := (wire_snapshot snap (ad_process st))\<lparr>pr_cfg := snap, pr_config_ok_at := now\<rparr>\<rparr>, Inr a)"
proof -
  obtain snap where "load_snapshot (with_files (av_config av) (ad_db st)) (tables_of (ad_db st)) = Inr snap"
    using db_ok_loads [OF assms] by blast
  then show ?thesis by (intro that) (simp_all add: reloaded_def reload_now_def)
qed

section \<open>Every request keeps the tables in order\<close>

lemma set_update_where: "x \<in> set (update_where p f xs) \<longleftrightarrow> (\<exists>y \<in> set xs. x = (if p y then f y else y))"
  by (auto simp: update_where_def)

lemma map_update_where: "(\<And>x. g (f x) = g x) \<Longrightarrow> map g (update_where p f xs) = map g xs"
  by (simp add: update_where_def)

lemma image_update_where: "(\<And>x. g (f x) = g x) \<Longrightarrow> g ` set (update_where p f xs) = g ` set xs"
  by (metis map_update_where list.set_map)

lemma db_ok_files [simp]: "db_ok av (db\<lparr>db_files := fs\<rparr>) \<longleftrightarrow> db_ok av db"
  by (simp add: db_ok_def table_defs)

lemma db_ok_key_seq: "db_ok av db \<Longrightarrow> db_ok av (db\<lparr>db_key_seq := db_key_seq db + 1\<rparr>)"
  by (fastforce simp: db_ok_def table_defs)

text \<open>Changes of one table.\<close>

lemma db_ok_backends:
  assumes "db_ok av db" and "map bk_id bs = map bk_id (db_backends db)" and "\<And>b. b \<in> set bs \<Longrightarrow> known_format (bk_format b)"
  shows "db_ok av (db\<lparr>db_backends := bs\<rparr>)"
proof -
  from assms(2) have ids: "bk_id ` set bs = bk_id ` set (db_backends db)" by (metis list.set_map)
  moreover have "\<forall>i \<in> bk_id ` set (db_backends db). i < db_backend_seq db" using assms(1) by (simp add: db_ok_def table_defs)
  ultimately have "\<forall>b \<in> set bs. bk_id b < db_backend_seq db" by (metis imageI)
  with ids assms show ?thesis unfolding db_ok_def table_defs by simp
qed

lemma db_ok_teams:
  assumes "db_ok av db" and "map te_id ts = map te_id (db_teams db)" and "\<And>t. t \<in> set ts \<Longrightarrow> budget_ok av (te_budget t)"
  shows "db_ok av (db\<lparr>db_teams := ts\<rparr>)"
proof -
  from assms(2) have ids: "te_id ` set ts = te_id ` set (db_teams db)" by (metis list.set_map)
  moreover have "\<forall>i \<in> te_id ` set (db_teams db). i < db_team_seq db" using assms(1) by (simp add: db_ok_def table_defs)
  ultimately have "\<forall>t \<in> set ts. te_id t < db_team_seq db" by (metis imageI)
  with ids assms show ?thesis unfolding db_ok_def table_defs by simp
qed

lemma db_ok_keys:
  assumes "db_ok av db" and "map ke_id ks = map ke_id (db_keys db)"
    and "\<And>k. k \<in> set ks \<Longrightarrow> budget_ok av (ke_budget k) \<and> (\<exists>h. hex_to_key_hash (ke_key_hash k) = Inr h) \<and> ke_team_id k \<in> te_id ` set (db_teams db)"
  shows "db_ok av (db\<lparr>db_keys := ks\<rparr>)"
proof -
  from assms(2) have ids: "ke_id ` set ks = ke_id ` set (db_keys db)" by (metis list.set_map)
  moreover have "\<forall>i \<in> ke_id ` set (db_keys db). i < db_key_seq db" using assms(1) by (simp add: db_ok_def table_defs)
  ultimately have "\<forall>k \<in> set ks. ke_id k < db_key_seq db" by (metis imageI)
  with ids assms show ?thesis unfolding db_ok_def table_defs by simp
qed

lemma db_ok_routes:
  assumes "db_ok av db" and "map ro_model_name rs = map ro_model_name (db_routes db)"
    and "\<And>r. r \<in> set rs \<Longrightarrow> ce_ids (av_config av) (ro_backend_ids r) \<noteq> None"
  shows "db_ok av (db\<lparr>db_routes := rs\<rparr>)"
proof -
  from assms(2) have "ro_model_name ` set rs = ro_model_name ` set (db_routes db)" by (metis list.set_map)
  with assms show ?thesis unfolding db_ok_def table_defs by auto
qed

text \<open>
  What a request may do: the tables stay in order; an accepted request publishes what the new tables load to, a refused one leaves the
  running configuration alone.
\<close>

definition change_settled :: "admin_env \<Rightarrow> u64 \<Rightarrow> admin \<Rightarrow> 'a answer \<Rightarrow> bool" where
  "change_settled av now st res \<longleftrightarrow>
     (case res of (st', r) \<Rightarrow>
        db_ok av (ad_db st') \<and> ad_failures st' = ad_failures st
        \<and> (case r of
             Inl _ \<Rightarrow> ad_process st' = ad_process st
           | Inr _ \<Rightarrow> \<exists>snap. load_snapshot (with_files (av_config av) (ad_db st')) (tables_of (ad_db st')) = Inr snap
                 \<and> ad_process st' = (wire_snapshot snap (ad_process st))\<lparr>pr_cfg := snap, pr_config_ok_at := now\<rparr>))"

lemma put_db_simps [simp]:
  "ad_db (put_db db st) = db" "ad_process (put_db db st) = ad_process st" "ad_failures (put_db db st) = ad_failures st"
  "put_db db (put_db db' st) = put_db db st"
  by (simp_all add: put_db_def)

lemma settled_refuse [intro]:
  "db_ok av (ad_db st) \<Longrightarrow> change_settled av now st (refuse st e)"
  "db_ok av db \<Longrightarrow> change_settled av now st (refuse (put_db db st) e)"
  by (simp_all add: change_settled_def refuse_def)

lemma settled_reloaded [intro]:
  assumes "db_ok av db"
  shows "change_settled av now st (reloaded av now a (put_db db st))"
  by (rule reloaded_ok [of av "put_db db st" now a]) (simp_all add: assms change_settled_def)

lemma create_team_settled:
  assumes "faithful_env av" and "db_ok av (ad_db st)"
  shows "change_settled av now st (create_team av now p st)"
  unfolding create_team_def Let_def
  by (rule settled_reloaded, use assms(2) in \<open>unfold db_ok_def table_defs\<close>) (auto simp: faithful_budget [OF assms(1)])

lemma update_team_settled:
  assumes "faithful_env av" and "db_ok av (ad_db st)"
  shows "change_settled av now st (update_team av now i p st)"
proof -
  let ?ts = "update_where (\<lambda>t. te_id t = i) (patched_team av p) (db_teams (ad_db st))"
  have same: "te_id (patched_team av p t) = te_id t" for t
    by (auto simp: patched_team_def set_opt_def split: option.split)
  have "budget_ok av (te_budget t) \<Longrightarrow> budget_ok av (te_budget (patched_team av p t))" for t
    by (auto simp: patched_team_def set_opt_def faithful_budget [OF assms(1)] split: option.split)
  then have "budget_ok av (te_budget t)" if "t \<in> set ?ts" for t
    using that assms(2) by (auto simp: set_update_where db_ok_def table_defs)
  with assms(2) have "db_ok av ((ad_db st)\<lparr>db_teams := ?ts\<rparr>)" by (intro db_ok_teams map_update_where same)
  with assms(2) show ?thesis unfolding update_team_def Let_def by auto
qed

lemma key_patch_settled:
  assumes "db_ok av db" and "\<And>k. k \<in> set (db_keys db) \<Longrightarrow> ke_id (f k) = ke_id k \<and> ke_key_hash (f k) = ke_key_hash k
      \<and> (budget_ok av (ke_budget k) \<longrightarrow> budget_ok av (ke_budget (f k))) \<and> ke_team_id (f k) \<in> te_id ` set (db_teams db)"
  shows "db_ok av (db\<lparr>db_keys := update_where p f (db_keys db)\<rparr>)"
proof (rule db_ok_keys [OF assms(1)])
  show "map ke_id (update_where p f (db_keys db)) = map ke_id (db_keys db)" using assms(2) by (simp add: update_where_def)
  fix k assume "k \<in> set (update_where p f (db_keys db))"
  then obtain k0 where k0: "k0 \<in> set (db_keys db)" "k = (if p k0 then f k0 else k0)" by (auto simp: set_update_where)
  moreover from k0(1) assms(1) have "budget_ok av (ke_budget k0) \<and> (\<exists>h. hex_to_key_hash (ke_key_hash k0) = Inr h) \<and> ke_team_id k0 \<in> te_id ` set (db_teams db)"
    by (simp add: db_ok_def table_defs)
  ultimately show "budget_ok av (ke_budget k) \<and> (\<exists>h. hex_to_key_hash (ke_key_hash k) = Inr h) \<and> ke_team_id k \<in> te_id ` set (db_teams db)"
    using assms(2) [OF k0(1)] by simp
qed

lemma disabled_ok: "db_ok av db \<Longrightarrow> db_ok av (db\<lparr>db_keys := update_where p (\<lambda>k. k\<lparr>ke_enabled := False\<rparr>) (db_keys db)\<rparr>)"
  by (rule key_patch_settled) (auto simp: db_ok_def table_defs)

lemma new_key_ok:
  assumes "faithful_env av" and "db_ok av db" and "list_ex (\<lambda>t. te_id t = ck_team_id p) (db_teams db)"
  shows "db_ok av (db\<lparr>db_keys := db_keys db @ [key_row_of av (db_key_seq db) key p], db_key_seq := db_key_seq db + 1\<rparr>)"
proof -
  from assms(3) have "ck_team_id p \<in> te_id ` set (db_teams db)" by (force simp: list_ex_iff)
  with assms(2) show ?thesis
    unfolding db_ok_def table_defs by (auto simp: key_row_of_def faithful_budget [OF assms(1)] faithful_hash [OF assms(1)])
qed

text \<open>A key that has been created is never disabled again: the reload cannot fail.\<close>

lemma create_key_reloads:
  assumes "faithful_env av" and "db_ok av (ad_db st)" and "list_ex (\<lambda>t. te_id t = ck_team_id p) (db_teams (ad_db st))"
  shows "create_key av now random p st = reloaded av now (db_key_seq (ad_db st), generate_key random, take 8 (generate_key random))
    (put_db ((ad_db st)\<lparr>db_keys := db_keys (ad_db st) @ [key_row_of av (db_key_seq (ad_db st)) (generate_key random) p],
       db_key_seq := db_key_seq (ad_db st) + 1\<rparr>) st)" (is "_ = reloaded av now ?a (put_db ?db st)")
proof -
  have "db_ok av (ad_db (put_db ?db st))" using new_key_ok [OF assms] by simp
  then obtain st' where "reloaded av now ?a (put_db ?db st) = (st', Inr ?a)" by (rule reloaded_ok) blast
  then show ?thesis using assms(3) by (simp add: create_key_def Let_def)
qed

lemma create_key_settled:
  assumes "faithful_env av" and "db_ok av (ad_db st)"
  shows "change_settled av now st (create_key av now random p st)"
proof (cases "list_ex (\<lambda>t. te_id t = ck_team_id p) (db_teams (ad_db st))")
  case False
  then show ?thesis using db_ok_key_seq [OF assms(2)] by (auto simp: create_key_def Let_def)
next
  case True
  then show ?thesis unfolding create_key_reloads [OF assms True] by (intro settled_reloaded new_key_ok assms)
qed

lemma disable_key_settled:
  assumes "db_ok av (ad_db st)"
  shows "change_settled av now st (disable_key av now i st)"
  using assms disabled_ok [OF assms] unfolding disable_key_def Let_def by auto

lemma update_key_settled:
  assumes "faithful_env av" and "db_ok av (ad_db st)"
  shows "change_settled av now st (update_key av now i p st)"
proof -
  let ?db = "ad_db st"
  have "db_ok av (?db\<lparr>db_keys := update_where (\<lambda>k. ke_id k = i) (patched_key av p owner) (db_keys ?db)\<rparr>)"
    if "\<not> (case pk_team_id p of None \<Rightarrow> False | Some t \<Rightarrow> \<not> list_ex (\<lambda>r. te_id r = t) (db_teams ?db))" for owner
  proof (rule key_patch_settled [OF assms(2)])
    fix k assume "k \<in> set (db_keys ?db)"
    with assms(2) have "ke_team_id k \<in> te_id ` set (db_teams ?db)" by (simp add: db_ok_def table_defs)
    with that have "ke_team_id (patched_key av p owner k) \<in> te_id ` set (db_teams ?db)"
      by (auto simp: patched_key_def set_opt_def list_ex_iff split: option.splits)
    then show "ke_id (patched_key av p owner k) = ke_id k \<and> ke_key_hash (patched_key av p owner k) = ke_key_hash k
      \<and> (budget_ok av (ke_budget k) \<longrightarrow> budget_ok av (ke_budget (patched_key av p owner k)))
      \<and> ke_team_id (patched_key av p owner k) \<in> te_id ` set (db_teams ?db)"
      by (simp add: patched_key_def set_opt_def faithful_budget [OF assms(1)] split: option.split)
  qed
  with assms(2) show ?thesis unfolding update_key_def Let_def by (auto split: sum.split)
qed

lemma normalized_format: "normalize_backend_format v = Inr f \<Longrightarrow> known_format f"
  by (auto simp: normalize_backend_format_def known_format_def Let_def split: if_splits)

lemma set_opt_keeps: "(\<And>v x. g (f v x) = g x) \<Longrightarrow> g (set_opt f w x) = g x"
  by (simp add: set_opt_def split: option.split)

lemma create_backend_settled:
  assumes "db_ok av (ad_db st)"
  shows "change_settled av now st (create_backend av now p st)"
proof -
  have "known_format f" if "normalize_backend_format v = Inr f" for v f
    using that by (rule normalized_format)
  moreover have "db_ok av ((ad_db st)\<lparr>db_backends := db_backends (ad_db st) @ [b], db_backend_seq := db_backend_seq (ad_db st) + 1\<rparr>)"
    if "known_format (bk_format b)" "bk_id b = db_backend_seq (ad_db st)" for b
    using assms that unfolding db_ok_def table_defs by auto
  ultimately show ?thesis
    unfolding create_backend_def Let_def using assms by (auto simp: result_iffs split: sum.split)
qed

lemma put_backend_key_settled:
  assumes "db_ok av (ad_db st)"
  shows "change_settled av now st (put_backend_key av now i key st)"
proof -
  have "db_ok av (db\<lparr>db_backends := update_where (\<lambda>b. bk_id b = i) (\<lambda>b. b\<lparr>bk_api_key_ref := r\<rparr>) (db_backends db)\<rparr>)"
    if "db_ok av db" for db r
    using that by (intro db_ok_backends) (auto simp: map_update_where set_update_where db_ok_def table_defs)
  moreover have "db_ok av (write_provider_key_file path (trim key) (ad_db st))" for path using assms by (simp add: write_provider_key_file_def)
  ultimately have "db_ok av ((write_provider_key_file path (trim key) (ad_db st))\<lparr>db_backends := update_where (\<lambda>b. bk_id b = i)
      (\<lambda>b. b\<lparr>bk_api_key_ref := r\<rparr>) (db_backends (write_provider_key_file path (trim key) (ad_db st)))\<rparr>)" for path r .
  then show ?thesis unfolding put_backend_key_def Let_def using assms by auto
qed

lemma backend_patchD:
  assumes "backend_patch p = Inr f"
  shows "bk_id (f b) = bk_id b \<and> (known_format (bk_format b) \<longrightarrow> known_format (bk_format (f b)))"
proof -
  from assms obtain name base_url api_key_ref weight format
    where fmt: "checked_opt normalize_backend_format (pb_format p) = Inr format"
      and f: "f = set_opt (\<lambda>v b. b\<lparr>bk_enabled := v\<rparr>) (pb_enabled p) \<circ> set_opt (\<lambda>v b. b\<lparr>bk_format := v\<rparr>) format
        \<circ> set_opt (\<lambda>v b. b\<lparr>bk_max_inflight := i64_of_u32 v\<rparr>) (pb_max_inflight p)
        \<circ> set_opt (\<lambda>v b. b\<lparr>bk_weight := i64_of_u32 v\<rparr>) weight \<circ> set_opt (\<lambda>v b. b\<lparr>bk_api_key_ref := v\<rparr>) api_key_ref
        \<circ> set_opt (\<lambda>v b. b\<lparr>bk_base_url := v\<rparr>) base_url \<circ> set_opt (\<lambda>v b. b\<lparr>bk_name := v\<rparr>) name"
    unfolding backend_patch_def result_iffs by (elim exE conjE) (simp split: if_splits, blast)
  have "known_format v" if "format = Some v" for v
    using fmt that by (auto simp: checked_opt_def result_iffs split: option.splits dest: normalized_format)
  moreover have "bk_format (set_opt (\<lambda>v b. b\<lparr>bk_format := v\<rparr>) format b) = unwrap_or (bk_format b) format" for b :: backend_rec
    by (simp add: set_opt_def split: option.split)
  ultimately show ?thesis by (cases format) (simp_all add: f set_opt_keeps)
qed

lemma update_backend_settled:
  assumes "db_ok av (ad_db st)"
  shows "change_settled av now st (update_backend av now i p st)"
proof (cases "backend_patch p")
  case (Inl e)
  then show ?thesis using assms by (auto simp: update_backend_def)
next
  case (Inr f)
  have "db_ok av ((ad_db st)\<lparr>db_backends := update_where (\<lambda>b. bk_id b = i) f (db_backends (ad_db st))\<rparr>)"
  proof (rule db_ok_backends [OF assms])
    show "map bk_id (update_where (\<lambda>b. bk_id b = i) f (db_backends (ad_db st))) = map bk_id (db_backends (ad_db st))"
      by (rule map_update_where) (use backend_patchD [OF Inr] in simp)
    fix b assume "b \<in> set (update_where (\<lambda>b. bk_id b = i) f (db_backends (ad_db st)))"
    then show "known_format (bk_format b)"
      using assms backend_patchD [OF Inr] by (auto simp: set_update_where db_ok_def backends_ok_def)
  qed
  with assms Inr show ?thesis by (auto simp: update_backend_def Let_def)
qed

text \<open>Routes and their endpoints.\<close>

lemma drop_route_ok: "db_ok av db \<Longrightarrow> db_ok av (drop_route_rows m db)"
  unfolding db_ok_def table_defs drop_route_rows_def
  by (auto simp: distinct_map_filter image_iff)

lemma clean_route_ok:
  assumes "faithful_env av" and "db_ok av db"
  shows "db_ok av (clean_route av i db r)"
proof -
  have "db_ok av (db\<lparr>db_routes := update_where p (\<lambda>x. x\<lparr>ro_backend_ids := av_ids_text av ids, ro_fallback_backend_id := fb, ro_enabled := False\<rparr>)
      (db_routes db)\<rparr>)" for p ids fb
    using assms(2) by (intro db_ok_routes) (auto simp: map_update_where set_update_where faithful_ids [OF assms(1)] db_ok_def table_defs)
  then show ?thesis using drop_route_ok [OF assms(2)] assms(2) by (simp add: clean_route_def Let_def)
qed

lemma clean_routes_ok: "faithful_env av \<Longrightarrow> db_ok av db \<Longrightarrow> db_ok av (foldl (clean_route av i) db rs)"
  by (induction rs arbitrary: db) (simp_all add: clean_route_ok)

lemma drop_backend_ok:
  "db_ok av db \<Longrightarrow> db_ok av (db\<lparr>db_backends := filter (\<lambda>b. bk_id b \<noteq> i) (db_backends db), db_endpoints := filter (\<lambda>e. en_backend_id e \<noteq> i) (db_endpoints db)\<rparr>)"
  unfolding db_ok_def table_defs by (auto simp: distinct_map_filter image_iff)

lemma delete_backend_settled:
  assumes "faithful_env av" and "db_ok av (ad_db st)"
  shows "change_settled av now st (delete_backend av now i st)"
  using assms(2) clean_routes_ok [OF assms] drop_backend_ok [OF clean_routes_ok [OF assms]]
  unfolding delete_backend_def Let_def by (auto simp del: foldl.simps)

lemma delete_route_settled:
  assumes "db_ok av (ad_db st)"
  shows "change_settled av now st (delete_route av now m st)"
  using assms drop_route_ok [OF assms] unfolding delete_route_def Let_def by auto

lemma enable_backends_ok: "db_ok av db \<Longrightarrow> db_ok av (enable_referenced_backends ids fb db)"
proof -
  have "db_ok av db \<Longrightarrow> db_ok av (foldl (\<lambda>db i. db\<lparr>db_backends := update_where (\<lambda>b. bk_id b = i) (\<lambda>b. b\<lparr>bk_enabled := True\<rparr>) (db_backends db)\<rparr>) db xs)" for xs
  proof (induction xs arbitrary: db)
    case (Cons x xs)
    from Cons.prems have "db_ok av (db\<lparr>db_backends := update_where (\<lambda>b. bk_id b = x) (\<lambda>b. b\<lparr>bk_enabled := True\<rparr>) (db_backends db)\<rparr>)"
      by (intro db_ok_backends) (auto simp: map_update_where set_update_where db_ok_def table_defs)
    with Cons.IH show ?case by simp
  qed simp
  then show "db_ok av db \<Longrightarrow> db_ok av (enable_referenced_backends ids fb db)" by (simp add: enable_referenced_backends_def del: foldl_append)
qed

lemma toggle_settled:
  assumes "faithful_env av" and "db_ok av (ad_db st)"
  shows "change_settled av now st (toggle_route_enabled av now m b st)"
proof -
  have "db_ok av ((ad_db st)\<lparr>db_routes := update_where (\<lambda>r. ro_model_name r = m) (\<lambda>r. r\<lparr>ro_enabled := b\<rparr>) (db_routes (ad_db st))\<rparr>)"
    using assms(2) by (intro db_ok_routes) (auto simp: map_update_where set_update_where db_ok_def table_defs)
  with assms(2) show ?thesis
    unfolding toggle_route_enabled_def Let_def by (auto intro!: settled_reloaded enable_backends_ok split: option.split)
qed

lemma write_key_db: "write_provider_key_file path k db = db\<lparr>db_files := hm_insert path k (db_files db)\<rparr>"
  by (simp add: write_provider_key_file_def)

lemma store_key_db: "\<exists>fs. fst (store_key what path auth key ref db) = db\<lparr>db_files := fs\<rparr>"
proof -
  have "\<exists>fs. db = db\<lparr>db_files := fs\<rparr>" by (rule exI [of _ "db_files db"]) simp
  then show ?thesis unfolding store_key_def write_key_db by (auto split: option.split)
qed

lemma validate_endpoints_db:
  "\<exists>fs. fst (validate_endpoints av v seen items db) = db\<lparr>db_files := fs\<rparr>
     \<and> (\<forall>out. snd (validate_endpoints av v seen items db) = Inr out \<longrightarrow>
          map ve_backend_id out = map ue_backend_id items \<and> distinct (map ve_backend_id out) \<and> set (map ve_backend_id out) \<inter> set seen = {})"
proof (induction items arbitrary: seen db)
  case Nil
  show ?case by (auto intro: exI [of _ "db_files db"])
next
  case (Cons item items)
  show ?case
  proof (cases "check_endpoint_item v seen item")
    case (Inl e)
    then show ?thesis by (auto intro: exI [of _ "db_files db"])
  next
    case (Inr ap)
    then have new: "ue_backend_id item \<notin> set seen" by (auto simp: check_endpoint_item_def Let_def split: if_splits)
    obtain auth protocol where ap: "ap = (auth, protocol)" by force
    obtain db1 r where w: "write_route_endpoint_key av (vr_model_name v) item auth db = (db1, r)" by force
    obtain fs1 where db1: "db1 = db\<lparr>db_files := fs1\<rparr>"
      using store_key_db [of _ _ auth] w unfolding write_route_endpoint_key_def by (metis fst_conv)
    show ?thesis
    proof (cases r)
      case Inl
      then show ?thesis using Inr ap w db1 by auto
    next
      case r: (Inr key_ref)
      obtain db2 out where o: "validate_endpoints av v (ue_backend_id item # seen) items db1 = (db2, out)" by force
      from Cons.IH [of "ue_backend_id item # seen" db1, unfolded o] obtain fs2 where "db2 = db1\<lparr>db_files := fs2\<rparr>"
        "\<forall>xs. out = Inr xs \<longrightarrow> map ve_backend_id xs = map ue_backend_id items \<and> distinct (map ve_backend_id xs)
            \<and> set (map ve_backend_id xs) \<inter> set (ue_backend_id item # seen) = {}"
        unfolding fst_conv snd_conv by blast
      moreover from this(2) have "ue_backend_id item \<notin> ue_backend_id ` set items" if "out = Inr xs" for xs
        using that by (metis disjoint_iff list.set_intros(1) list.set_map)
      ultimately show ?thesis using Inr ap w r o db1 new by (cases out) auto
    qed
  qed
qed

lemma validate_route_db:
  assumes "validate_route av p db = (db', res)"
  shows "\<exists>fs. db' = db\<lparr>db_files := fs\<rparr>"
    and "res = Inr v \<Longrightarrow> vr_endpoints v = Some es \<Longrightarrow> distinct (map ve_backend_id es)"
proof -
  have "\<exists>fs. db' = db\<lparr>db_files := fs\<rparr> \<and> (\<forall>v es. res = Inr v \<longrightarrow> vr_endpoints v = Some es \<longrightarrow> distinct (map ve_backend_id es))"
  proof (cases "validate_fields p")
    case (Inl e)
    then show ?thesis using assms by (auto simp: validate_route_def intro: exI [of _ "db_files db"])
  next
    case (Inr v0)
    then have no: "vr_endpoints v0 = None" by (auto simp: validate_fields_def result_iffs Let_def split: if_splits)
    let ?s = "store_key ''provider key'' (route_key_file av (vr_model_name v0)) (vr_auth_mode v0) (ur_provider_key p) (ur_provider_key_ref p) db"
    obtain db1 r where k: "?s = (db1, r)" by force
    moreover obtain fs where "fst ?s = db\<lparr>db_files := fs\<rparr>" using store_key_db by blast
    ultimately have db1: "db1 = db\<lparr>db_files := fs\<rparr>" by simp
    show ?thesis
    proof (cases r)
      case Inl
      then show ?thesis using assms Inr k db1 by (auto simp: validate_route_def)
    next
      case r: (Inr key_ref)
      show ?thesis
      proof (cases "ur_endpoints p")
        case None
        then show ?thesis using assms Inr k db1 r no by (auto simp: validate_route_def)
      next
        case (Some items)
        obtain db2 out where o: "validate_endpoints av v0 [] items db1 = (db2, out)" by force
        from validate_endpoints_db [of av v0 "[]" items db1, unfolded o fst_conv snd_conv]
        obtain fs2 where "db2 = db1\<lparr>db_files := fs2\<rparr>" "\<forall>xs. out = Inr xs \<longrightarrow> distinct (map ve_backend_id xs)"
          by blast
        then show ?thesis using assms Inr k db1 r Some o by (cases out) (auto simp: validate_route_def)
      qed
    qed
  qed
  then show "\<exists>fs. db' = db\<lparr>db_files := fs\<rparr>"
    and "res = Inr v \<Longrightarrow> vr_endpoints v = Some es \<Longrightarrow> distinct (map ve_backend_id es)" by blast+
qed

lemma insert_endpoints_ok:
  assumes "db_ok av db" and "m \<in> ro_model_name ` set (db_routes db)" and "distinct (map ve_backend_id es)"
    and "\<And>e. e \<in> set (db_endpoints db) \<Longrightarrow> en_model_name e = m \<Longrightarrow> en_backend_id e \<notin> ve_backend_id ` set es"
  shows "db_ok av (fst (insert_endpoints m es db))"
  using assms
proof (induction es arbitrary: db)
  case (Cons e es)
  show ?case
  proof (cases "list_ex (\<lambda>b. bk_id b = ve_backend_id e) (db_backends db)")
    case True
    let ?db = "db\<lparr>db_endpoints := db_endpoints db @ [endpoint_rec_of m e]\<rparr>"
    have b: "ve_backend_id e \<in> bk_id ` set (db_backends db)" using True by (force simp: list_ex_iff)
    have "db_ok av ?db"
      using Cons.prems(1,2,4) b unfolding db_ok_def table_defs by (auto simp: endpoint_rec_of_def)
    then have "db_ok av (fst (insert_endpoints m es ?db))"
      by (rule Cons.IH) (use Cons.prems in \<open>auto simp: endpoint_rec_of_def\<close>)
    then show ?thesis using True by simp
  qed (use Cons.prems(1) in simp)
qed simp

lemma finish_route_settled:
  assumes "db_ok av db" and "vr_model_name v \<in> ro_model_name ` set (db_routes db)"
    and "\<And>es. vr_endpoints v = Some es \<Longrightarrow> distinct (map ve_backend_id es)"
  shows "change_settled av now st (finish_route av now v (put_db db st))"
proof -
  have "db_ok av (fst (replace_route_endpoints (vr_model_name v) (vr_endpoints v) db))"
  proof (cases "vr_endpoints v")
    case (Some es)
    have "db_ok av (db\<lparr>db_endpoints := filter (\<lambda>e. en_model_name e \<noteq> vr_model_name v) (db_endpoints db)\<rparr>)"
      using assms(1) unfolding db_ok_def table_defs by (auto simp: distinct_map_filter)
    then have "db_ok av (fst (insert_endpoints (vr_model_name v) es (db\<lparr>db_endpoints := filter (\<lambda>e. en_model_name e \<noteq> vr_model_name v) (db_endpoints db)\<rparr>)))"
      by (rule insert_endpoints_ok) (use assms(2) assms(3) [OF Some] in auto)
    then show ?thesis by (simp add: replace_route_endpoints_def Some)
  qed (simp add: replace_route_endpoints_def assms(1))
  then show ?thesis unfolding finish_route_def
    by (auto intro!: settled_reloaded settled_refuse enable_backends_ok split: prod.split sum.split)
qed

lemma upsert_route_settled:
  assumes "faithful_env av" and "db_ok av (ad_db st)"
  shows "change_settled av now st (upsert_route av now p st)"
proof (cases "non_empty_trimmed (ur_model_name p) ''model_name''")
  case (Inl e)
  then show ?thesis using assms(2) by (auto simp: upsert_route_def)
next
  case (Inr name)
  obtain db res where v: "validate_route av p (ad_db st) = (db, res)" by force
  from validate_route_db(1) [OF v] assms(2) have ok: "db_ok av db" and same: "db_routes db = db_routes (ad_db st)" by auto
  have "change_settled av now st (finish_route av now v (put_db (db\<lparr>db_routes := db_routes db @ [route_rec_of av v (vr_provider_key_ref v)]\<rparr>) st))"
    if r: "res = Inr v" and new: "\<not> list_ex (\<lambda>r. ro_model_name r = name) (db_routes (ad_db st))" for v
  proof (rule finish_route_settled)
    from v r have "validate_fields p = Inr v0 \<Longrightarrow> vr_model_name v = vr_model_name v0" for v0
      by (auto simp: validate_route_def split: sum.splits prod.splits option.splits)
    moreover have "vr_model_name v0 = name" if "validate_fields p = Inr v0" for v0
      using that Inr by (auto simp: validate_fields_def result_iffs Let_def split: if_splits)
    moreover have "\<exists>v0. validate_fields p = Inr v0" using v r by (cases "validate_fields p") (auto simp: validate_route_def)
    ultimately have "vr_model_name v \<notin> ro_model_name ` set (db_routes db)" using new same by (auto simp: list_ex_iff)
    then show "db_ok av (db\<lparr>db_routes := db_routes db @ [route_rec_of av v (vr_provider_key_ref v)]\<rparr>)"
      using ok unfolding db_ok_def table_defs by (auto simp: route_rec_of_def faithful_ids [OF assms(1)])
  qed (use validate_route_db(2) [OF v r] in \<open>auto simp: route_rec_of_def\<close>)
  then show ?thesis using Inr v ok assms(2) unfolding upsert_route_def by (auto split: sum.split)
qed

lemma patched_route_ok:
  assumes "faithful_env av" and "db_ok av db" and "check_rename db old (vr_model_name v) = Inr ()"
    and "\<not> (vr_model_name v \<noteq> old \<and> referenced_route db old)"
  shows "db_ok av (db\<lparr>db_routes := update_where (\<lambda>r. ro_model_name r = old) (\<lambda>r. route_rec_of av v (ref r)) (db_routes db)\<rparr>)"
proof (cases "vr_model_name v = old")
  case True
  show ?thesis
    by (rule db_ok_routes [OF assms(2)])
      (use True assms(2) in \<open>auto simp: update_where_def route_rec_of_def faithful_ids [OF assms(1)] db_ok_def routes_ok_def\<close>)
next
  case False
  let ?rs = "update_where (\<lambda>r. ro_model_name r = old) (\<lambda>r. route_rec_of av v (ref r)) (db_routes db)"
  have names: "map ro_model_name ?rs = map (\<lambda>m. if m = old then vr_model_name v else m) (map ro_model_name (db_routes db))"
    by (simp add: update_where_def route_rec_of_def)
  have new: "vr_model_name v \<notin> ro_model_name ` set (db_routes db)"
    using assms(3) False by (auto simp: check_rename_def list_ex_iff split: if_splits)
  have "distinct (map ro_model_name ?rs)"
    unfolding names using assms(2) new by (subst distinct_map) (force simp: db_ok_def routes_ok_def inj_on_def)
  moreover have "ro_model_name ` set (db_routes db) - {old} \<subseteq> ro_model_name ` set ?rs"
    using arg_cong [OF names, of set] by auto
  moreover have "\<forall>e \<in> set (db_endpoints db). en_model_name e \<noteq> old" "old \<notin> set (db_counters db)"
    using assms(4) False by (auto simp: referenced_route_def list_ex_iff)
  ultimately show ?thesis
    using assms(2) unfolding db_ok_def table_defs by (auto simp: set_update_where route_rec_of_def faithful_ids [OF assms(1)])
qed

lemma patch_route_settled:
  assumes "faithful_env av" and "db_ok av (ad_db st)"
  shows "change_settled av now st (patch_route av now old p st)"
proof -
  obtain db res where v: "validate_route av (keep_flag (ad_db st) old p) (ad_db st) = (db, res)" by force
  from validate_route_db(1) [OF v] assms(2) have ok: "db_ok av db" by auto
  show ?thesis
  proof (cases res)
    case (Inl e)
    then show ?thesis using v ok by (auto simp: patch_route_def)
  next
    case (Inr w)
    have named: "vr_model_name w \<in> ro_model_name ` set (update_where (\<lambda>r. ro_model_name r = old) (\<lambda>r. route_rec_of av w (ref r)) (db_routes db))"
      if "list_ex (\<lambda>r. ro_model_name r = old) (db_routes db)" for ref
    proof -
      from that obtain r where "r \<in> set (db_routes db)" "ro_model_name r = old" by (auto simp: list_ex_iff)
      then have "route_rec_of av w (ref r) \<in> set (update_where (\<lambda>r. ro_model_name r = old) (\<lambda>r. route_rec_of av w (ref r)) (db_routes db))"
        by (force simp: set_update_where)
      then show ?thesis by (rule rev_image_eqI) (simp add: route_rec_of_def)
    qed
    have "change_settled av now st (finish_route av now w (put_db (db\<lparr>db_routes := update_where (\<lambda>r. ro_model_name r = old)
        (\<lambda>r. route_rec_of av w (or_else (vr_provider_key_ref w) (ro_provider_key_ref r))) (db_routes db)\<rparr>) st))"
      if "check_rename db old (vr_model_name w) = Inr ()" "\<not> (vr_model_name w \<noteq> old \<and> referenced_route db old)"
        "list_ex (\<lambda>r. ro_model_name r = old) (db_routes db)"
      by (rule finish_route_settled [OF patched_route_ok [OF assms(1) ok that(1,2)]])
        (use named [OF that(3)] validate_route_db(2) [OF v Inr] in simp_all)
    then show ?thesis using v ok Inr unfolding patch_route_def by (auto simp: result_iffs split: sum.split)
  qed
qed

lemma outcome_settled: "change_settled av now st res \<Longrightarrow> change_settled av now st (outcome res)"
  by (auto simp: change_settled_def outcome_def split: prod.splits sum.splits)

lemmas all_settled = create_team_settled update_team_settled create_key_settled disable_key_settled update_key_settled
  create_backend_settled put_backend_key_settled update_backend_settled delete_backend_settled upsert_route_settled patch_route_settled
  delete_route_settled toggle_settled

lemma serve_admin_settled: "faithful_env av \<Longrightarrow> db_ok av (ad_db st) \<Longrightarrow> change_settled av now st (serve_admin av now rq st)"
  by (cases rq) (simp_all add: outcome_settled all_settled)

lemma admin_router_settled:
  assumes "faithful_env av" and "db_ok av (ad_db st)" and "admin_router hc master_key allow_cidrs av c st = (st', res)"
  shows "db_ok av (ad_db st')"
    and "res = Inl e \<Longrightarrow> ad_process st' = ad_process st"
    and "res = Inr () \<Longrightarrow> \<exists>snap. load_snapshot (with_files (av_config av) (ad_db st')) (tables_of (ad_db st')) = Inr snap
      \<and> ad_process st' = (wire_snapshot snap (ad_process st))\<lparr>pr_cfg := snap, pr_config_ok_at := ac_now c\<rparr>"
    and "snd (check_admin_auth hc master_key allow_cidrs (ac_headers c) (ac_peer c) (ac_check_at c) (ac_fail_at c) (ad_failures st)) = Inl e
      \<Longrightarrow> ad_db st' = ad_db st \<and> res = Inl e"
proof -
  let ?st = "\<lambda>fs. st\<lparr>ad_failures := fs\<rparr>"
  have s: "change_settled av (ac_now c) (?st fs) (serve_admin av (ac_now c) (ac_request c) (?st fs))" for fs
    by (rule serve_admin_settled) (simp_all add: assms(1,2))
  have "db_ok av (ad_db st') \<and> (\<forall>e. res = Inl e \<longrightarrow> ad_process st' = ad_process st)
      \<and> (res = Inr () \<longrightarrow> (\<exists>snap. load_snapshot (with_files (av_config av) (ad_db st')) (tables_of (ad_db st')) = Inr snap
        \<and> ad_process st' = (wire_snapshot snap (ad_process st))\<lparr>pr_cfg := snap, pr_config_ok_at := ac_now c\<rparr>))"
  proof -
    obtain fs r where ch: "check_admin_auth hc master_key allow_cidrs (ac_headers c) (ac_peer c) (ac_check_at c) (ac_fail_at c) (ad_failures st) = (fs, r)"
      by force
    show ?thesis
    proof (cases r)
      case (Inl e)
      then show ?thesis using assms(2,3) ch by (auto simp: admin_router_def guarded_def)
    next
      case (Inr u)
      then have "serve_admin av (ac_now c) (ac_request c) (?st fs) = (st', res)" using assms(3) ch by (cases u) (simp add: admin_router_def guarded_def)
      with s [of fs] show ?thesis by (simp add: change_settled_def split: sum.splits)
    qed
  qed
  then show "db_ok av (ad_db st')" and "res = Inl e \<Longrightarrow> ad_process st' = ad_process st"
    and "res = Inr () \<Longrightarrow> \<exists>snap. load_snapshot (with_files (av_config av) (ad_db st')) (tables_of (ad_db st')) = Inr snap
      \<and> ad_process st' = (wire_snapshot snap (ad_process st))\<lparr>pr_cfg := snap, pr_config_ok_at := ac_now c\<rparr>" by blast+
  show "snd (check_admin_auth hc master_key allow_cidrs (ac_headers c) (ac_peer c) (ac_check_at c) (ac_fail_at c) (ad_failures st)) = Inl e
      \<Longrightarrow> ad_db st' = ad_db st \<and> res = Inl e"
    using assms(3) by (auto simp: admin_router_def guarded_def split: prod.splits sum.splits)
qed

interpretation admin_calls: inductive_invariant "\<lambda>st. faithful_env av \<and> db_ok av (ad_db st)"
  "\<lambda>st st'. \<exists>c. st' = fst (admin_router hc master_key allow_cidrs av c st)" "\<lambda>st. faithful_env av \<and> db_ok av (ad_db st)"
  by unfold_locales (auto intro: admin_router_settled(1) [OF _ _ prod.collapse [symmetric]])

abbreviation run_calls :: "http_client \<Rightarrow> string \<Rightarrow> string list \<Rightarrow> admin_env \<Rightarrow> admin \<Rightarrow> admin_call list \<Rightarrow> admin" where
  "run_calls hc master_key allow_cidrs av \<equiv> foldl (\<lambda>st c. fst (admin_router hc master_key allow_cidrs av c st))"

lemma run_calls_steps: "(\<lambda>st st'. \<exists>c. st' = fst (admin_router hc master_key allow_cidrs av c st))\<^sup>*\<^sup>* st (run_calls hc master_key allow_cidrs av st cs)"
proof (induction cs rule: rev_induct)
  case (snoc c cs)
  then show ?case by (rule rtranclp.rtrancl_into_rtrancl) auto
qed simp

text \<open>
  C14. No request can break the configuration. From tables in order, after any sequence of calls to the control plane, accepted or
  refused, with or without the key: the tables load, so a reload succeeds; a call that is accepted has published exactly what the
  tables load to; a call that is refused, even half-way, leaves the running configuration as it was; and a call without the
  right key or from a wrong address changes no table.
\<close>

theorem control_plane_loadable:
  assumes "faithful_env av" and "db_ok av (ad_db st0)"
    and "st = run_calls hc master_key allow_cidrs av st0 calls" and "admin_router hc master_key allow_cidrs av c st = (st', res)"
  shows "(\<exists>snap. load_snapshot (with_files (av_config av) (ad_db st')) (tables_of (ad_db st')) = Inr snap
        \<and> (res = Inr () \<longrightarrow> ad_process st' = (wire_snapshot snap (ad_process st))\<lparr>pr_cfg := snap, pr_config_ok_at := ac_now c\<rparr>))
    \<and> (\<forall>e. res = Inl e \<longrightarrow> ad_process st' = ad_process st)
    \<and> (\<forall>e. snd (check_admin_auth hc master_key allow_cidrs (ac_headers c) (ac_peer c) (ac_check_at c) (ac_fail_at c) (ad_failures st)) = Inl e
        \<longrightarrow> ad_db st' = ad_db st \<and> res = Inl e)"
proof -
  have "db_ok av (ad_db st)"
    unfolding assms(3) using admin_calls.invar_steps [OF run_calls_steps] assms(1,2) by blast
  note s = admin_router_settled [OF assms(1) this assms(4)]
  show ?thesis using db_ok_loads [OF s(1)] s(2-4) by metis
qed

section \<open>The life of a key\<close>

lemma index_by_unique:
  assumes "x \<in> set xs" and "\<And>y. y \<in> set xs \<Longrightarrow> key y = key x \<Longrightarrow> y = x"
  shows "hm_get (index_by key xs) (key x) = Some x"
proof -
  obtain y where y: "hm_get (index_by key xs) (key x) = Some y"
    using assms(1) by (cases "find (\<lambda>z. key z = key x) (rev xs)") (auto simp: find_None_iff index_by_get)
  with index_by_keyed [OF y] assms(2) show ?thesis by simp
qed

lemma key_columns_hash:
  "api_key_row ce (key_columns k) = Inr x \<Longrightarrow> hex_to_key_hash (ke_key_hash k) = Inr (ak_key_hash x)"
  by (auto simp: api_key_row_def key_columns_def column_defs result_iffs Let_def)

lemma loaded_key:
  assumes "load_snapshot ce (tables_of db) = Inr snap" and "k \<in> set (db_keys db)"
    and "api_key_row ce (key_columns k) = Inr x"
    and "\<And>k'. k' \<in> set (db_keys db) \<Longrightarrow> hex_to_key_hash (ke_key_hash k') = Inr (ak_key_hash x) \<Longrightarrow> k' = k"
  shows "hm_get (cs_keys_by_hash snap) (ak_key_hash x) = Some x"
proof -
  from assms(1) obtain xs where xs: "load_api_keys ce (tables_of db) = Inr xs" and snap: "cs_keys_by_hash snap = index_by ak_key_hash xs"
    by (rule load_snapshotD) simp
  from xs have c: "collect_rows (api_key_row ce) (map key_columns (db_keys db)) = Inr xs" by (simp add: load_api_keys_def tables_of_def)
  note mem = key_table.collected_mem [OF c]
  show ?thesis unfolding snap
  proof (rule index_by_unique)
    show "x \<in> set xs" using assms(2,3) by (auto simp: mem)
    fix y assume "y \<in> set xs" and y: "ak_key_hash y = ak_key_hash x"
    then obtain k' where "k' \<in> set (db_keys db)" "api_key_row ce (key_columns k') = Inr y" by (auto simp: mem)
    with key_columns_hash [OF this(2)] y assms(3,4) show "y = x" by force
  qed
qed

lemma loaded_team:
  assumes "load_snapshot ce (tables_of db) = Inr snap" and "distinct (map te_id (db_teams db))" and "t \<in> set (db_teams db)"
  shows "\<exists>x. hm_get (cs_teams snap) (te_id t) = Some x \<and> tm_enabled x = te_enabled t"
proof -
  from assms(1) obtain xs where xs: "load_team_rows ce (tables_of db) = Inr xs" and snap: "cs_teams snap = index_by tm_id xs"
    by (rule load_snapshotD) simp
  from xs have c: "collect_rows (team_row ce) (map team_columns (db_teams db)) = Inr xs" by (simp add: load_team_rows_def tables_of_def)
  have ids: "int_key (team_columns t) = te_id t" for t by (simp add: int_key_def team_columns_def column_defs)
  from team_table.collected [OF c] assms(3) obtain x where x: "team_row ce (team_columns t) = Inr x"
    by (fastforce simp: list_all2_map1 list_all2_conv_all_nth in_set_conv_nth)
  moreover have "tm_enabled x = te_enabled t" using x by (auto simp: team_row_def team_columns_def column_defs result_iffs)
  moreover have "hm_get (index_by tm_id xs) (te_id t) = Some x"
    using team_table.lookup_exact [OF c, of "te_id t" x] assms(2,3) x ids by (auto simp: comp_def)
  ultimately show ?thesis unfolding snap by blast
qed

definition key_of :: "admin_env \<Rightarrow> i64 \<Rightarrow> string \<Rightarrow> bool \<Rightarrow> create_key_payload \<Rightarrow> api_key" where
  "key_of av i key enabled p = \<lparr>ak_id = i, ak_key_hash = av_sha256 av key, ak_key_prefix = take 8 key, ak_team_id = ck_team_id p,
     ak_owner = ck_owner p, ak_allowed_models = ck_allowed_models p, ak_budget = ck_budget p, ak_rpm_limit = ck_rpm_limit p,
     ak_concurrency_limit = ck_concurrency_limit p, ak_expires_at = ck_expires_at p, ak_enabled = enabled\<rparr>"

lemma u32_roundtrip: "Option.bind (map_option i64_of_u32 v) u32_try_from = v"
proof (cases v)
  case (Some w)
  then show ?thesis using uint_lt2p [of w] by (simp add: i64_of_u32_def u32_try_from_def)
qed simp

lemma key_row_read_back:
  assumes "faithful_env av"
  shows "api_key_row (with_files (av_config av) db) (key_columns ((key_row_of av i key p)\<lparr>ke_enabled := b\<rparr>)) = Inr (key_of av i key b p)"
proof -
  have "budget_column (with_files (av_config av) db) c (map_option (av_budget_text av) (ck_budget p)) = Inr (ck_budget p)" for c
    using assms by (cases "ck_budget p") (simp_all add: budget_column_def faithful_env_def)
  moreover have "ce_strings (av_config av) (av_strings_text av ms) = Some ms" for ms using assms by (simp add: faithful_env_def)
  ultimately show ?thesis
    by (simp add: api_key_row_def key_columns_def column_defs key_row_of_def faithful_hash [OF assms] Let_def key_of_def u32_roundtrip)
qed

lemma reloaded_publishes:
  assumes "db_ok av db" and "reloaded av now a (put_db db st) = (st', r)"
  shows "ad_db st' = db \<and> r = Inr a \<and> load_snapshot (with_files (av_config av) db) (tables_of db) = Inr (pr_cfg (ad_process st'))"
  by (rule reloaded_ok [of av "put_db db st" now a]) (use assms in auto)

lemma authorize_stored:
  assumes "load_snapshot (with_files (av_config av) db) (tables_of db) = Inr snap" and "db_ok av db" and "faithful_env av"
    and "(key_row_of av i key p)\<lparr>ke_enabled := b\<rparr> \<in> set (db_keys db)" and "t \<in> set (db_teams db)" and "te_id t = ck_team_id p" and "te_enabled t"
    and "\<And>k'. k' \<in> set (db_keys db) \<Longrightarrow> hex_to_key_hash (ke_key_hash k') = Inr (av_sha256 av key) \<Longrightarrow> k' = (key_row_of av i key p)\<lparr>ke_enabled := b\<rparr>"
  shows "authorize snap (hash_key (av_sha256 av) key) m secs =
     (if b \<and> (ck_allowed_models p = [] \<or> m \<in> set (ck_allowed_models p)) \<and> (case ck_expires_at p of None \<Rightarrow> True | Some ex \<Rightarrow> secs < ex)
      then Some (key_of av i key b p) else None)"
proof -
  have "distinct (map te_id (db_teams db))" using assms(2) by (simp add: db_ok_def teams_ok_def)
  from loaded_team [OF assms(1) this assms(5)] obtain x where "hm_get (cs_teams snap) (ck_team_id p) = Some x" "tm_enabled x" using assms(6,7) by auto
  moreover have "hm_get (cs_keys_by_hash snap) (av_sha256 av key) = Some (key_of av i key b p)"
    using loaded_key [OF assms(1,4) key_row_read_back [OF assms(3)]] assms(8) by (simp add: key_of_def)
  ultimately show ?thesis
    by (simp add: authorize_def authorize_detailed_def authorize_key_def hash_key_def key_of_def model_allowed_iff split: option.split)
qed

lemma disabled_key_row:
  assumes "\<And>k. k \<in> set ks \<Longrightarrow> ke_id k \<noteq> i"
  shows "update_where (\<lambda>k. ke_id k = i) (\<lambda>k. k\<lparr>ke_enabled := False\<rparr>) (ks @ [key_row_of av i key p])
    = ks @ [(key_row_of av i key p)\<lparr>ke_enabled := False\<rparr>]"
  using assms by (simp add: update_where_def key_row_of_def map_idI)


text \<open>An environment with the assumed laws: texts are numerals in unary of a coding.\<close>

definition demo_text :: "'a::countable \<Rightarrow> string" where
  "demo_text x = replicate (to_nat x) CHR ''1''"

definition demo_parse :: "string \<Rightarrow> 'a::countable option" where
  "demo_parse s = Some (from_nat (length s))"

lemma demo_parse_text: "demo_parse (demo_text x) = Some x"
  by (simp add: demo_text_def demo_parse_def)

type_synonym budget_code = "string \<times> nat \<times> nat option \<times> (string \<times> nat) list"

definition budget_code :: "budget \<Rightarrow> budget_code" where
  "budget_code b = (bg_period b, unat (bg_max_tokens b), map_option unat (bg_max_usd_cents b), map (map_prod id unat) (bg_per_model b))"

definition budget_decode :: "budget_code \<Rightarrow> budget" where
  "budget_decode = (\<lambda>(p, t, u, m). \<lparr>bg_period = p, bg_max_tokens = of_nat t, bg_max_usd_cents = map_option of_nat u, bg_per_model = map (map_prod id of_nat) m\<rparr>)"

lemma budget_decode_code: "budget_decode (budget_code b) = b"
  by (simp add: budget_decode_def budget_code_def option.map_comp comp_def prod.map_comp map_prod.identity [unfolded id_def] option.map_ident)

definition demo_av :: admin_env where
  "demo_av = \<lparr>av_config = \<lparr>ce_var = (\<lambda>_. None), ce_read_file = (\<lambda>_. None), ce_ids = demo_parse, ce_strings = demo_parse,
       ce_budget = (\<lambda>s. map_option budget_decode (demo_parse s))\<rparr>,
     av_data_dir = ''/d'', av_sha256 = (\<lambda>s. replicate 32 (of_nat (length s))), av_ids_text = demo_text, av_strings_text = demo_text,
     av_budget_text = (\<lambda>b. demo_text (budget_code b))\<rparr>"

lemma demo_faithful: "faithful_env demo_av"
  by (simp add: faithful_env_def demo_av_def demo_parse_text budget_decode_code)

definition demo_backend :: "i64 \<Rightarrow> backend_rec" where
  "demo_backend i = \<lparr>bk_id = i, bk_name = ''b'', bk_base_url = ''http://b'', bk_api_key_ref = ''env:K'', bk_weight = 1, bk_max_inflight = 0,
     bk_format = ''openai'', bk_enabled = True\<rparr>"

definition demo_route :: "string \<Rightarrow> i64 list \<Rightarrow> bool \<Rightarrow> route_rec" where
  "demo_route m ids enabled = \<lparr>ro_model_name = m, ro_backend_ids = demo_text ids, ro_fallback_backend_id = None, ro_chars_per_token = Fin 4,
     ro_first_byte_timeout = 180, ro_provider_model_name = m, ro_context_tokens = None, ro_max_output_tokens = None,
     ro_price_input_per_mtok_usd = None, ro_price_output_per_mtok_usd = None, ro_enabled = enabled, ro_provider_key_ref = None,
     ro_auth_mode = ''bearer'', ro_protocol = ''openai_chat'', ro_routing_policy = ''round_robin'', ro_accept_anthropic_messages = False\<rparr>"

definition demo_team :: team_rec where
  "demo_team = \<lparr>te_id = 1, te_name = ''t'', te_budget = None, te_enabled = True\<rparr>"

definition demo_db :: admin_db where
  "demo_db = \<lparr>db_backends = [demo_backend 1, demo_backend 2], db_routes = [demo_route ''m'' [1] True, demo_route ''n'' [1, 2] False],
     db_endpoints = [], db_teams = [demo_team], db_keys = [], db_usage = [], db_counters = [], db_files = [],
     db_backend_seq = 3, db_team_seq = 2, db_key_seq = 1\<rparr>"

lemma demo_db_ok: "db_ok demo_av demo_db"
  by (simp add: db_ok_def table_defs demo_db_def demo_backend_def demo_route_def demo_team_def demo_av_def demo_parse_text known_format_def budget_ok_def)

definition demo_admin :: admin where
  "demo_admin = \<lparr>ad_db = demo_db, ad_process = \<lparr>pr_cfg = empty_snapshot, pr_store = store_new, pr_pool = pool_new_with_counter_pool 1 1000,
     pr_config_ok_at = 0, pr_config_err_at = 0\<rparr>, ad_failures = []\<rparr>"

definition demo_key_payload :: create_key_payload where
  "demo_key_payload = \<lparr>ck_team_id = 1, ck_owner = ''o'', ck_allowed_models = [''m''], ck_budget = None, ck_rpm_limit = Some 5,
     ck_concurrency_limit = None, ck_expires_at = Some 100\<rparr>"


definition demo_call :: "admin_request \<Rightarrow> admin_call" where
  "demo_call rq = \<lparr>ac_headers = [(''x-admin-key'', ''k'')], ac_peer = V4 [127, 0, 0, 1], ac_check_at = 6, ac_fail_at = 6, ac_now = 7, ac_request = rq\<rparr>"

lemma demo_call_passes: "check_admin_auth demo_http ''k'' [''0.0.0.0/0''] [(''x-admin-key'', ''k'')] (V4 [127, 0, 0, 1]) 6 6 [] = ([], Inr ())"
proof -
  have "admin_auth_rate_limited [] (V4 [127, 0, 0, 1]) 6 = ([], False)" by (simp add: admin_auth_rate_limited_def)
  moreover have "provided_admin_key demo_http [(''x-admin-key'', ''k'')] = Some ''k''"
    by (simp add: provided_admin_key_def hdr_get_def hdr_values_def demo_http_def)
  moreover have "constant_time_eq ''k'' ''k''" by (simp add: constant_time_eq_iff)
  moreover have "parse_ip ''0.0.0.0'' = Some (V4 [0, 0, 0, 0])" by code_simp
  then have "parse_cidr ''0.0.0.0/0'' = Some (V4 [0, 0, 0, 0], 0)"
    by (simp add: parse_cidr_def parse_u8_def parse_u64_def byte_val_def)
  then have "ip_matches_cidr (V4 [127, 0, 0, 1]) ''0.0.0.0/0''" by (simp add: ip_matches_iff in_range_def)
  ultimately show ?thesis by (simp add: check_admin_auth_def clear_admin_auth_failures_def)
qed

definition demo_team_payload :: create_team_payload where
  "demo_team_payload = \<lparr>ct_name = ''u'', ct_budget = None, ct_enabled = True\<rparr>"

lemma demo_team_created: "\<exists>st'. create_team demo_av 7 demo_team_payload demo_admin = (st', Inr 2)"
proof -
  let ?row = "\<lparr>te_id = 2, te_name = ''u'', te_budget = None, te_enabled = True\<rparr>"
  have ok: "db_ok demo_av (demo_db\<lparr>db_teams := [demo_team, ?row], db_team_seq := 3\<rparr>)"
    using demo_db_ok by (simp add: db_ok_def table_defs demo_db_def demo_team_def budget_ok_def)
  have "create_team demo_av 7 demo_team_payload demo_admin
      = reloaded demo_av 7 2 (put_db (demo_db\<lparr>db_teams := [demo_team, ?row], db_team_seq := 3\<rparr>) demo_admin)"
    by (simp add: create_team_def demo_admin_def demo_db_def demo_team_payload_def Let_def)
  moreover obtain st' where "reloaded demo_av 7 2 (put_db (demo_db\<lparr>db_teams := [demo_team, ?row], db_team_seq := 3\<rparr>) demo_admin) = (st', Inr (2 :: i64))"
    by (rule reloaded_ok [of demo_av "put_db (demo_db\<lparr>db_teams := [demo_team, ?row], db_team_seq := 3\<rparr>) demo_admin" 7 2]) (use ok in auto)
  ultimately show ?thesis by auto
qed

theorem control_plane_loadable_witness:
  "\<exists>st st' snap. st = run_calls demo_http ''k'' [''0.0.0.0/0''] demo_av demo_admin []
     \<and> admin_router demo_http ''k'' [''0.0.0.0/0''] demo_av (demo_call (CreateTeam demo_team_payload)) st = (st', Inr ())
     \<and> load_snapshot (with_files (av_config demo_av) (ad_db st')) (tables_of (ad_db st')) = Inr snap \<and> pr_cfg (ad_process st') = snap"
proof -
  let ?st = "run_calls demo_http ''k'' [''0.0.0.0/0''] demo_av demo_admin []" and ?c = "demo_call (CreateTeam demo_team_payload)"
  obtain st' res where r: "admin_router demo_http ''k'' [''0.0.0.0/0''] demo_av ?c ?st = (st', res)" by force
  have ok: "db_ok demo_av (ad_db demo_admin)" using demo_db_ok by (simp add: demo_admin_def)
  have fs: "ad_failures demo_admin = []" "demo_admin\<lparr>ad_failures := []\<rparr> = demo_admin" by (simp_all add: demo_admin_def)
  have "admin_router demo_http ''k'' [''0.0.0.0/0''] demo_av ?c ?st = outcome (create_team demo_av 7 demo_team_payload demo_admin)"
    by (simp add: admin_router_def guarded_def demo_call_def fs(1) demo_call_passes [unfolded One_nat_def]) (simp only: fs(2))
  then have "res = Inr ()" using r demo_team_created by (auto simp: outcome_def)
  with control_plane_loadable [OF demo_faithful ok refl r] r show ?thesis by auto
qed

section \<open>Deletion of a backend\<close>

lemma cleaned_route_refs:
  assumes "faithful_env av" and "x \<in> set (db_routes (clean_route av i db r))" and "refers_to av i x"
  shows "x \<in> set (db_routes db) \<and> (refers_to av i r \<longrightarrow> ro_model_name x \<noteq> ro_model_name r)"
proof (cases "refers_to av i r")
  case True
  let ?ids = "filter (\<lambda>x. x \<noteq> i) (route_ids av r)" and ?fb = "if ro_fallback_backend_id r = Some i then None else ro_fallback_backend_id r"
  let ?upd = "\<lambda>y :: route_rec. y\<lparr>ro_backend_ids := av_ids_text av ?ids, ro_fallback_backend_id := ?fb, ro_enabled := False\<rparr>"
  have upd: "\<not> refers_to av i (?upd y)" for y by (simp add: refers_to_def route_ids_def faithful_ids [OF assms(1)])
  show ?thesis
  proof (cases "?ids = [] \<and> ?fb = None")
    case drop: True
    have "clean_route av i db r = drop_route_rows (ro_model_name r) db" unfolding clean_route_def Let_def using True drop by simp
    then show ?thesis using assms(2) by (simp add: drop_route_rows_def)
  next
    case False
    have "db_routes (clean_route av i db r) = update_where (\<lambda>x. ro_model_name x = ro_model_name r) ?upd (db_routes db)"
      unfolding clean_route_def Let_def if_not_P [OF False] using True by simp
    with assms(2) obtain y where y: "y \<in> set (db_routes db)" "x = (if ro_model_name y = ro_model_name r then ?upd y else y)"
      by (auto simp only: set_update_where)
    have "ro_model_name y \<noteq> ro_model_name r" using upd [of y] y(2) assms(3) by metis
    with y show ?thesis by simp
  qed
qed (use assms(2,3) in \<open>simp add: clean_route_def\<close>)

lemma cleaned_routes_refs:
  assumes "faithful_env av" and "x \<in> set (db_routes (foldl (clean_route av i) db rs))" and "refers_to av i x"
  shows "x \<in> set (db_routes db) \<and> (\<forall>r \<in> set rs. refers_to av i r \<longrightarrow> ro_model_name x \<noteq> ro_model_name r)"
  using assms(2)
proof (induction rs arbitrary: db)
  case (Cons r rs)
  then have "x \<in> set (db_routes (clean_route av i db r)) \<and> (\<forall>r \<in> set rs. refers_to av i r \<longrightarrow> ro_model_name x \<noteq> ro_model_name r)" by simp
  with cleaned_route_refs [OF assms(1) _ assms(3)] show ?case by auto
qed simp

lemma cleaned_routes_keep:
  assumes "x \<in> set (db_routes db)" and "\<And>r. r \<in> set rs \<Longrightarrow> refers_to av i r \<Longrightarrow> ro_model_name r \<noteq> ro_model_name x"
  shows "x \<in> set (db_routes (foldl (clean_route av i) db rs))"
  using assms
proof (induction rs arbitrary: db)
  case (Cons r rs)
  have "\<not> refers_to av i r \<or> ro_model_name x \<noteq> ro_model_name r" using Cons.prems(2) [of r] by auto
  moreover have "x \<in> set (update_where (\<lambda>x. ro_model_name x = ro_model_name r) f (db_routes db))" if "ro_model_name x \<noteq> ro_model_name r" for f
    using that Cons.prems(1) unfolding set_update_where by force
  ultimately have "x \<in> set (db_routes (clean_route av i db r))"
    using Cons.prems(1) by (auto simp: clean_route_def Let_def drop_route_rows_def)
  then show ?case using Cons by simp
qed simp

lemma cleaned_routes_frame:
  "db_backends (foldl (clean_route av i) db rs) = db_backends db" "db_keys (foldl (clean_route av i) db rs) = db_keys db"
  "db_teams (foldl (clean_route av i) db rs) = db_teams db"
  by (induction rs arbitrary: db) (simp_all add: clean_route_def Let_def drop_route_rows_def)

lemma logged_iff: "filter (\<lambda>(b, _). b = i) us = [] \<longleftrightarrow> i \<notin> fst ` set us"
  by (force simp: filter_empty_conv image_iff)

lemma delete_backend_cases:
  fixes i :: i64
  assumes "delete_backend av now i st = (st', res)"
  defines "clean \<equiv> foldl (clean_route av i) (ad_db st) (db_routes (ad_db st))"
  defines "deletable \<equiv> i \<in> bk_id ` set (db_backends (ad_db st)) \<and> i \<notin> fst ` set (db_usage (ad_db st))
    \<and> (\<forall>r \<in> set (db_routes (ad_db st)). ro_enabled r \<longrightarrow> \<not> refers_to av i r)"
  shows "deletable \<Longrightarrow> reloaded av now () (put_db (clean\<lparr>db_backends := filter (\<lambda>b. bk_id b \<noteq> i) (db_backends clean),
      db_endpoints := filter (\<lambda>e. en_backend_id e \<noteq> i) (db_endpoints clean)\<rparr>) st) = (st', res)"
    and "\<not> deletable \<Longrightarrow> \<exists>e. res = Inl e"
proof -
  let ?db = "ad_db st"
  have usage: "length (filter (\<lambda>(b, _). b = i) (db_usage ?db)) > 0 \<longleftrightarrow> i \<in> fst ` set (db_usage ?db)" by (simp add: logged_iff)
  have active: "map ro_model_name (filter (\<lambda>r. ro_enabled r \<and> refers_to av i r) (db_routes ?db)) \<noteq> [] \<longleftrightarrow>
      \<not> (\<forall>r \<in> set (db_routes ?db). ro_enabled r \<longrightarrow> \<not> refers_to av i r)" by (auto simp: filter_empty_conv)
  have there: "list_ex (\<lambda>b. bk_id b = i) (db_backends clean) \<longleftrightarrow> i \<in> bk_id ` set (db_backends ?db)"
    by (force simp: clean_def cleaned_routes_frame list_ex_iff)
  note d = assms(1) [unfolded delete_backend_def Let_def usage active, folded clean_def, unfolded there]
  show "deletable \<Longrightarrow> reloaded av now () (put_db (clean\<lparr>db_backends := filter (\<lambda>b. bk_id b \<noteq> i) (db_backends clean),
      db_endpoints := filter (\<lambda>e. en_backend_id e \<noteq> i) (db_endpoints clean)\<rparr>) st) = (st', res)"
    using d by (simp add: deletable_def)
  show "\<not> deletable \<Longrightarrow> \<exists>e. res = Inl e" using d by (auto simp: deletable_def refuse_def split: if_splits)
qed

text \<open>What the deletion leaves: the rows that do not refer to the backend.\<close>

lemma deleted_backend_tables:
  fixes i :: i64
  assumes "faithful_env av" and "db_ok av db"
  defines "clean \<equiv> foldl (clean_route av i) db (db_routes db)"
  shows "r \<in> set (db_routes clean) \<Longrightarrow> \<not> refers_to av i r"
    and "r \<in> set (db_routes db) \<Longrightarrow> \<not> refers_to av i r \<Longrightarrow> r \<in> set (db_routes clean)"
    and "db_ok av (clean\<lparr>db_backends := filter (\<lambda>b. bk_id b \<noteq> i) (db_backends clean), db_endpoints := filter (\<lambda>e. en_backend_id e \<noteq> i) (db_endpoints clean)\<rparr>)"
proof -
  have names: "inj_on ro_model_name (set (db_routes db))" using assms(2) by (simp add: db_ok_def routes_ok_def distinct_map)
  show "r \<in> set (db_routes clean) \<Longrightarrow> \<not> refers_to av i r" unfolding clean_def using cleaned_routes_refs [OF assms(1)] by blast
  show "r \<in> set (db_routes db) \<Longrightarrow> \<not> refers_to av i r \<Longrightarrow> r \<in> set (db_routes clean)"
    unfolding clean_def by (rule cleaned_routes_keep) (use names in \<open>auto dest: inj_onD\<close>)
  show "db_ok av (clean\<lparr>db_backends := filter (\<lambda>b. bk_id b \<noteq> i) (db_backends clean), db_endpoints := filter (\<lambda>e. en_backend_id e \<noteq> i) (db_endpoints clean)\<rparr>)"
    unfolding clean_def by (rule drop_backend_ok [OF clean_routes_ok [OF assms(1,2)]])
qed

lemma loaded_backend:
  assumes "load_snapshot ce (tables_of db) = Inr snap" and "distinct (map bk_id (db_backends db))"
  shows "b \<in> set (db_backends db) \<Longrightarrow> \<exists>x. hm_get (cs_backends snap) (bk_id b) = Some x \<and> be_enabled x = bk_enabled b"
    and "i \<notin> bk_id ` set (db_backends db) \<Longrightarrow> hm_get (cs_backends snap) i = None"
proof -
  from assms(1) obtain xs where xs: "load_backends ce (tables_of db) = Inr xs" and snap: "cs_backends snap = index_by be_id xs"
    by (rule load_snapshotD) simp
  from xs have c: "collect_rows (backend_row ce) (map backend_columns (db_backends db)) = Inr xs" by (simp add: load_backends_def tables_of_def)
  have ids: "int_key (backend_columns b) = bk_id b" for b by (simp add: int_key_def backend_columns_def column_defs)
  have "map be_id xs = map bk_id (db_backends db)" using backend_table.collected_keys [OF c] by (simp add: ids comp_def)
  then have "be_id ` set xs = bk_id ` set (db_backends db)" by (metis list.set_map)
  then show "i \<notin> bk_id ` set (db_backends db) \<Longrightarrow> hm_get (cs_backends snap) i = None"
    unfolding snap using index_by_keyed [of be_id xs i] by (cases "hm_get (index_by be_id xs) i") auto
  assume b: "b \<in> set (db_backends db)"
  with backend_table.collected [OF c] obtain x where x: "backend_row ce (backend_columns b) = Inr x"
    by (fastforce simp: list_all2_map1 list_all2_conv_all_nth in_set_conv_nth)
  moreover have "be_enabled x = bk_enabled b" using x by (auto simp: backend_row_def backend_columns_def column_defs result_iffs)
  moreover have "hm_get (index_by be_id xs) (bk_id b) = Some x"
    using backend_table.lookup_exact [OF c, of "bk_id b" x] assms(2) b x ids by (auto simp: comp_def)
  ultimately show "\<exists>x. hm_get (cs_backends snap) (bk_id b) = Some x \<and> be_enabled x = bk_enabled b" unfolding snap by blast
qed



text \<open>
  A refused change of a route has already written the key it carries, under the name it was refused for: the credential of the other route is
  replaced, although the answer says that nothing was done.
\<close>

lemma rejected_patch_overwrites_key:
  assumes "validate_fields p = Inr v" and "vr_model_name v \<noteq> old" and "vr_model_name v \<in> ro_model_name ` set (db_routes (ad_db st))"
    and "ur_accept_anthropic_messages p = Some False" and "ur_endpoints p = None" and "vr_auth_mode v \<noteq> ''none''"
    and "ur_provider_key p = Some key" and "trim key \<noteq> []" and "patch_route av now old p st = (st', res)"
  shows "(\<exists>e. res = Inl e \<and> ae_status e = 409)
    \<and> hm_get (db_files (ad_db st')) (route_key_file av (vr_model_name v)) = Some (trim key)"
proof -
  have "\<not> vr_accept_anthropic_messages v"
    using assms(1,4) by (auto simp: validate_fields_def result_iffs Let_def split: if_splits)
  moreover have "non_blank (ur_provider_key p) = Some (trim key)" using assms(7,8) by (simp add: non_blank_def filter_opt_def)
  moreover have "keep_flag (ad_db st) old p = p" using assms(4) by (simp add: keep_flag_def)
  moreover have "list_ex (\<lambda>r. ro_model_name r = vr_model_name v) (db_routes (ad_db st))" using assms(3) by (auto simp: list_ex_iff)
  ultimately show ?thesis
    using assms(1,2,5,6,9)
    by (auto simp: patch_route_def validate_route_def store_key_def write_key_db validate_bridge_backends_def check_rename_def refuse_def api_errors)
qed

end
