(* ===== verification/Admin_Views.thy ===== *)
theory Admin_Views
  imports Control_Plane
begin

text \<open>
  The requests of the control plane and of the user portal that only read, \<open>src/admin/mod.rs\<close>: the lists of routes, backends, teams and
  keys with what may be deleted, the call log and the statistics with their filters, and the cache of the summary. \<open>ORDER BY\<close> sorts text by bytes and
  keeps the table's order among equal rows. A model name is a primary key, so a route's endpoints are looked up where the code removes them.
  Doubles have one zero.
\<close>

section \<open>Lists of backends and routes\<close>

record lifecycle_data =
  lc_enabled :: "(i64, bool) hmap"
  lc_usage_by_backend :: "(i64, i64) hmap"
  lc_usage_by_model :: "(string, i64) hmap"
  lc_active_by_backend :: "(i64, string list) hmap"

definition usage_groups :: "admin_db \<Rightarrow> ((i64 \<times> string) \<times> i64) list" where
  "usage_groups db = map (\<lambda>g. (g, int (count_list (db_usage db) g))) (remdups (db_usage db))"

definition add_count :: "'k \<Rightarrow> i64 \<Rightarrow> ('k, i64) hmap \<Rightarrow> ('k, i64) hmap" where
  "add_count k c m = hm_insert k (unwrap_or 0 (hm_get m k) + c) m"

definition push_name :: "string \<Rightarrow> (i64, string list) hmap \<Rightarrow> i64 \<Rightarrow> (i64, string list) hmap" where
  "push_name name m i = hm_insert i (unwrap_or [] (hm_get m i) @ [name]) m"

definition route_refs :: "admin_env \<Rightarrow> route_rec \<Rightarrow> i64 list" where
  "route_refs av r = route_ids av r @ (case ro_fallback_backend_id r of None \<Rightarrow> [] | Some f \<Rightarrow> [f])"

definition load_lifecycle_data :: "admin_env \<Rightarrow> admin_db \<Rightarrow> lifecycle_data" where
  "load_lifecycle_data av db =
     \<lparr>lc_enabled = foldl (\<lambda>m b. hm_insert (bk_id b) (bk_enabled b) m) [] (db_backends db),
      lc_usage_by_backend = foldl (\<lambda>m ((b, _), c). add_count b c m) [] (usage_groups db),
      lc_usage_by_model = foldl (\<lambda>m ((_, model), c). add_count model c m) [] (usage_groups db),
      lc_active_by_backend = foldl (\<lambda>m r. if ro_enabled r then foldl (push_name (ro_model_name r)) m (route_refs av r) else m) [] (db_routes db)\<rparr>"

record backend_response =
  br_backend :: backend_rec
  br_key_resolved :: bool
  br_active_route_count :: i64
  br_usage_count :: i64
  br_can_delete :: bool
  br_delete_blockers :: "string list"

definition backend_view :: "admin_env \<Rightarrow> admin_db \<Rightarrow> lifecycle_data \<Rightarrow> backend_rec \<Rightarrow> backend_response" where
  "backend_view av db lc b =
     (let active_names = unwrap_or [] (hm_get (lc_active_by_backend lc) (bk_id b));
          usage_count = unwrap_or 0 (hm_get (lc_usage_by_backend lc) (bk_id b));
          blockers = (if active_names \<noteq> []
                      then [''used by '' @ dec (length active_names) @ '' active route(s): '' @ join '', '' active_names] else [])
            @ (if usage_count > 0 then [''has '' @ idec usage_count @ '' logged request(s)''] else [])
      in \<lparr>br_backend = b,
          br_key_resolved = (case resolve_backend_key (with_files (av_config av) db) (bk_api_key_ref b) of None \<Rightarrow> False | Some v \<Rightarrow> trim v \<noteq> []),
          br_active_route_count = int (length active_names), br_usage_count = usage_count,
          br_can_delete = (blockers = []), br_delete_blockers = blockers\<rparr>)"

definition list_backends :: "admin_env \<Rightarrow> admin_db \<Rightarrow> backend_response list" where
  "list_backends av db = map (backend_view av db (load_lifecycle_data av db)) (sort_key bk_id (db_backends db))"

record route_response =
  rr_route :: route_rec
  rr_backend_ids :: "i64 list"
  rr_first_byte_timeout :: u64
  rr_endpoints :: "(endpoint_rec \<times> u32 \<times> u32) list"
  rr_effective_enabled :: bool
  rr_disabled_reason :: "string option"
  rr_usage_count :: i64
  rr_can_delete :: bool

definition endpoint_view :: "endpoint_rec \<Rightarrow> endpoint_rec \<times> u32 \<times> u32" where
  "endpoint_view e = (e, unwrap_or 1 (u32_try_from (max (en_weight e) 1)), unwrap_or 0 (u32_try_from (max (en_max_inflight e) 0)))"

definition load_route_endpoint_responses :: "admin_db \<Rightarrow> (string, (endpoint_rec \<times> u32 \<times> u32) list) hmap" where
  "load_route_endpoint_responses db =
     foldl (\<lambda>m e. hm_insert (en_model_name e) (unwrap_or [] (hm_get m (en_model_name e)) @ [endpoint_view e]) m) []
       (sort_key en_model_name (sort_key en_backend_id (db_endpoints db)))"

definition route_view ::
  "admin_env \<Rightarrow> lifecycle_data \<Rightarrow> (endpoint_rec \<times> u32 \<times> u32) list \<Rightarrow> route_rec \<Rightarrow> api_error + route_response" where
  "route_view av lc endpoints r =
     (case ce_ids (av_config av) (ro_backend_ids r) of
        None \<Rightarrow> Inl (api_internal (''invalid backend_ids JSON in model_routes: '' @ ro_backend_ids r))
      | Some ids \<Rightarrow>
          (let referenced = ids @ (case ro_fallback_backend_id r of None \<Rightarrow> [] | Some f \<Rightarrow> [f]);
               any_enabled = list_ex (\<lambda>i. unwrap_or False (hm_get (lc_enabled lc) i)) referenced;
               usage_count = unwrap_or 0 (hm_get (lc_usage_by_model lc) (ro_model_name r))
           in Inr \<lparr>rr_route = r, rr_backend_ids = ids, rr_first_byte_timeout = word_of_int (ro_first_byte_timeout r), rr_endpoints = endpoints,
                 rr_effective_enabled = (ro_enabled r \<and> any_enabled),
                 rr_disabled_reason = (if \<not> ro_enabled r then Some ''disabled manually''
                   else if \<not> any_enabled then Some ''provider disabled'' else None),
                 rr_usage_count = usage_count, rr_can_delete = (usage_count = 0)\<rparr>))"

definition list_routes_from_pool :: "admin_env \<Rightarrow> admin_db \<Rightarrow> api_error + route_response list" where
  "list_routes_from_pool av db =
     (let lc = load_lifecycle_data av db; endpoints = load_route_endpoint_responses db in
      fold_res (\<lambda>out r. try_res (route_view av lc (unwrap_or [] (hm_get endpoints (ro_model_name r))) r) (\<lambda>x. Inr (out @ [x]))) []
        (sort_key ro_model_name (db_routes db)))"

section \<open>Teams and keys\<close>

definition list_teams :: "admin_env \<Rightarrow> admin_db \<Rightarrow> api_error + (team_rec \<times> budget option) list" where
  "list_teams av db =
     fold_res (\<lambda>out t. case te_budget t of
         None \<Rightarrow> Inr (out @ [(t, None)])
       | Some s \<Rightarrow> try_res (ok_or (api_internal ''json'') (ce_budget (av_config av) s)) (\<lambda>b. Inr (out @ [(t, Some b)]))) []
       (sort_key te_id (db_teams db))"

record key_view =
  kv_id :: i64
  kv_prefix :: string
  kv_team_id :: i64
  kv_team_name :: string
  kv_owner :: string
  kv_allowed_models :: "string list"
  kv_budget :: "budget option"
  kv_rpm_limit :: "i64 option"
  kv_concurrency_limit :: "i64 option"
  kv_expires_at :: "i64 option"
  kv_enabled :: bool
  kv_revealable :: bool

definition key_view_of :: "admin_env \<Rightarrow> admin_db \<Rightarrow> key_rec \<Rightarrow> budget option \<Rightarrow> key_view" where
  "key_view_of av db k b =
     \<lparr>kv_id = ke_id k, kv_prefix = ke_key_prefix k, kv_team_id = ke_team_id k,
      kv_team_name = (case find (\<lambda>t. te_id t = ke_team_id k) (db_teams db) of None \<Rightarrow> [] | Some t \<Rightarrow> te_name t),
      kv_owner = ke_owner k, kv_allowed_models = unwrap_or [] (ce_strings (av_config av) (ke_allowed_models k)), kv_budget = b,
      kv_rpm_limit = ke_rpm_limit k, kv_concurrency_limit = ke_concurrency_limit k, kv_expires_at = ke_expires_at k,
      kv_enabled = ke_enabled k, kv_revealable = (ke_key_secret k \<noteq> None)\<rparr>"

definition list_keys :: "admin_env \<Rightarrow> admin_db \<Rightarrow> api_error + key_view list" where
  "list_keys av db =
     fold_res (\<lambda>out k. case ke_budget k of
         None \<Rightarrow> Inr (out @ [key_view_of av db k None])
       | Some s \<Rightarrow> try_res (ok_or (api_internal ''json'') (ce_budget (av_config av) s)) (\<lambda>b. Inr (out @ [key_view_of av db k (Some b)]))) []
       (sort_key ke_id (db_keys db))"

definition reveal_key :: "admin_db \<Rightarrow> i64 \<Rightarrow> api_error + (i64 \<times> string \<times> string \<times> string)" where
  "reveal_key db i =
     (case find (\<lambda>k. ke_id k = i) (db_keys db) of
        None \<Rightarrow> Inl (api_not_found ''key not found'')
      | Some k \<Rightarrow>
          (case ke_key_secret k of
             None \<Rightarrow> Inl (api_error_new 410 ''plaintext not stored (key created before key-reveal); disable and recreate it'')
           | Some secret \<Rightarrow> Inr (i, ke_key_prefix k, ke_owner k, secret)))"

section \<open>The call log\<close>

datatype status_filter = StatusNone | StatusSuccess | StatusError | StatusExact i64

definition parse_i64 :: "string \<Rightarrow> i64 option" where
  "parse_i64 s =
     (let neg = (s \<noteq> [] \<and> hd s = CHR ''-'');
          digits = (if s \<noteq> [] \<and> hd s \<in> {CHR ''+'', CHR ''-''} then tl s else s);
          n = int (foldl (\<lambda>n c. n * 10 + (byte_val c - 48)) 0 digits);
          v = (if neg then - n else n)
      in if digits = [] \<or> list_ex (\<lambda>c. byte_val c < 48 \<or> 57 < byte_val c) digits \<or> v < - (2 ^ 63) \<or> v \<ge> 2 ^ 63 then None else Some v)"

definition normalize_status :: "string option \<Rightarrow> api_error + status_filter" where
  "normalize_status raw =
     (case map_option to_ascii_lowercase (non_blank raw) of
        None \<Rightarrow> Inr StatusNone
      | Some s \<Rightarrow>
          if s = ''all'' then Inr StatusNone
          else if s \<in> {''success'', ''ok'', ''2xx''} then Inr StatusSuccess
          else if s \<in> {''error'', ''err'', ''4xx'', ''5xx''} then Inr StatusError
          else (case parse_i64 s of Some code \<Rightarrow> Inr (StatusExact code) | None \<Rightarrow> Inl (bad_request (''invalid status filter: '' @ s))))"

record usage_query =
  uq_team :: "i64 option"
  uq_key :: "i64 option"
  uq_backend :: "i64 option"
  uq_model :: "string option"
  uq_status :: "string option"
  uq_from :: "i64 option"
  uq_to :: "i64 option"
  uq_days :: "u32 option"

text \<open>The \<open>WHERE\<close> clause.\<close>

definition status_matches :: "status_filter \<Rightarrow> i64 \<Rightarrow> bool" where
  "status_matches f code \<longleftrightarrow>
     (case f of StatusNone \<Rightarrow> True | StatusSuccess \<Rightarrow> 200 \<le> code \<and> code < 400 | StatusError \<Rightarrow> 400 \<le> code | StatusExact c \<Rightarrow> code = c)"

definition opt_matches :: "('v \<Rightarrow> bool) \<Rightarrow> 'v option \<Rightarrow> bool" where
  "opt_matches p x \<longleftrightarrow> (case x of None \<Rightarrow> True | Some v \<Rightarrow> p v)"

definition usage_filter ::
  "i64 option \<Rightarrow> i64 option \<Rightarrow> i64 option \<Rightarrow> string option \<Rightarrow> status_filter \<Rightarrow> i64 option \<Rightarrow> i64 option \<Rightarrow> ledger_row \<Rightarrow> bool" where
  "usage_filter team key backend model status from until r \<longleftrightarrow>
     opt_matches (\<lambda>t. lr_team_id r = t) team \<and> opt_matches (\<lambda>k. lr_key_id r = k) key \<and> opt_matches (\<lambda>b. lr_backend_id r = b) backend
     \<and> opt_matches (\<lambda>m. lr_model r = m) (filter_opt (\<lambda>m. trim m \<noteq> []) model) \<and> status_matches status (lr_status r)
     \<and> opt_matches (\<lambda>f. f \<le> lr_ts r) from \<and> opt_matches (\<lambda>t. lr_ts r \<le> t) until"

definition clamped_days :: "u32 \<Rightarrow> i64" where
  "clamped_days d = uint (min (max d 1) 365)"

definition usage_window_from :: "i64 \<Rightarrow> i64 option \<Rightarrow> u32 option \<Rightarrow> i64 option" where
  "usage_window_from now from days = or_else from (map_option (\<lambda>d. now - clamped_days d * 86400) days)"

definition prompt_size_bucket :: "i64 \<Rightarrow> string" where
  "prompt_size_bucket n =
     (if n < 2000 then ''<2k'' else if n < 32000 then ''2k-32k'' else if n < 128000 then ''32k-128k'' else ''128k+'')"

definition em_dash :: string where
  "em_dash = map char_of [226 :: nat, 128, 148]"

definition format_duration :: "i64 \<Rightarrow> string" where
  "format_duration ms =
     (if ms < 0 then em_dash
      else if ms < 1000 then idec ms @ '' ms''
      else
        (let s = ms div 1000 in
         if s < 60 then idec s @ ''.'' @ idec (ms mod 1000 div 100) @ '' s''
         else idec (s div 60) @ ''m '' @ idec (s mod 60) @ ''s''))"

text \<open>Double-precision arithmetic with rounding and overflow; \<open>as f64\<close> is \<open>f64_of_int\<close>.\<close>

definition f64_fin :: "rat \<Rightarrow> f64" where
  "f64_fin q = (let r = f64_round \<bar>q\<bar> in if 2 ^ 1024 \<le> r then Infinite (q < 0) else Fin (if q < 0 then - r else r))"

definition f64_of_int :: "int \<Rightarrow> f64" where
  "f64_of_int i = f64_fin (of_int i)"

fun f64_add :: "f64 \<Rightarrow> f64 \<Rightarrow> f64" where
  "f64_add (Fin a) (Fin b) = f64_fin (a + b)"
| "f64_add (Infinite n) (Fin _) = Infinite n"
| "f64_add (Fin _) (Infinite n) = Infinite n"
| "f64_add (Infinite n) (Infinite m) = (if n = m then Infinite n else NaN)"
| "f64_add _ _ = NaN"

fun f64_mul :: "f64 \<Rightarrow> f64 \<Rightarrow> f64" where
  "f64_mul (Fin a) (Fin b) = f64_fin (a * b)"
| "f64_mul (Infinite n) (Fin a) = (if a = 0 then NaN else Infinite (n \<noteq> (a < 0)))"
| "f64_mul (Fin a) (Infinite n) = (if a = 0 then NaN else Infinite (n \<noteq> (a < 0)))"
| "f64_mul (Infinite n) (Infinite m) = Infinite (n \<noteq> m)"
| "f64_mul _ _ = NaN"

text \<open>Quotients by a positive finite divisor, the only ones taken.\<close>

fun f64_quot :: "f64 \<Rightarrow> f64 \<Rightarrow> f64" where
  "f64_quot (Fin a) (Fin b) = f64_fin (a / b)"
| "f64_quot (Infinite n) (Fin _) = Infinite n"
| "f64_quot _ _ = NaN"

definition tokens_per_second :: "i64 \<Rightarrow> i64 \<Rightarrow> f64 option" where
  "tokens_per_second tokens ms =
     (if tokens \<le> 0 then None else Some (f64_quot (f64_of_int tokens) (f64_quot (f64_of_int (max ms 1)) (Fin 1000))))"

definition token_cost :: "i64 \<Rightarrow> i64 \<Rightarrow> f64 \<Rightarrow> f64 \<Rightarrow> f64" where
  "token_cost input_tokens output_tokens p_in p_out =
     f64_quot (f64_add (f64_mul (f64_of_int input_tokens) p_in) (f64_mul (f64_of_int output_tokens) p_out)) (Fin 1000000)"

definition estimated_cost_usd :: "i64 \<Rightarrow> i64 \<Rightarrow> model_route option \<Rightarrow> f64 option" where
  "estimated_cost_usd input_tokens output_tokens route =
     Option.bind route (\<lambda>r. Option.bind (rt_price_input_per_mtok_usd r) (\<lambda>p_in.
       map_option (token_cost input_tokens output_tokens p_in) (rt_price_output_per_mtok_usd r)))"

definition wrap64 :: "int \<Rightarrow> i64" where
  "wrap64 n = (n + 2 ^ 63) mod 2 ^ 64 - 2 ^ 63"

record usage_row =
  ur_row :: ledger_row
  ur_total_tokens :: i64
  ur_total_tokens_per_second :: "f64 option"
  ur_input_tokens_per_second_to_first_byte :: "f64 option"
  ur_output_tokens_per_second :: "f64 option"
  ur_prompt_size_bucket :: string
  ur_estimated_cost_usd :: "f64 option"
  ur_cost_known :: bool
  ur_duration_display :: string
  ur_router_overhead_display :: string

definition usage_row_of :: "(string, model_route) hmap \<Rightarrow> ledger_row \<Rightarrow> usage_row" where
  "usage_row_of routes r =
     (let total_tokens = wrap64 (lr_input_tokens r + lr_output_tokens r);
          cost = estimated_cost_usd (lr_input_tokens r) (lr_output_tokens r) (hm_get routes (lr_model r))
      in \<lparr>ur_row = r, ur_total_tokens = total_tokens, ur_total_tokens_per_second = tokens_per_second total_tokens (lr_total_ms r),
          ur_input_tokens_per_second_to_first_byte = tokens_per_second (lr_input_tokens r) (lr_ttfb_ms r),
          ur_output_tokens_per_second = (if lr_total_ms r > lr_ttfb_ms r
            then tokens_per_second (lr_output_tokens r) (wrap64 (lr_total_ms r - lr_ttfb_ms r)) else None),
          ur_prompt_size_bucket = prompt_size_bucket (lr_input_tokens r), ur_estimated_cost_usd = cost, ur_cost_known = (cost \<noteq> None),
          ur_duration_display = format_duration (lr_total_ms r), ur_router_overhead_display = format_duration (lr_router_overhead_ms r)\<rparr>)"

definition query_usage_rows ::
  "ledger_row list \<Rightarrow> (string, model_route) hmap \<Rightarrow> i64 option \<Rightarrow> i64 option \<Rightarrow> i64 option \<Rightarrow> string option \<Rightarrow> string option
   \<Rightarrow> i64 option \<Rightarrow> i64 option \<Rightarrow> api_error + usage_row list" where
  "query_usage_rows table routes team key backend model status from until =
     try_res (normalize_status status) (\<lambda>status.
     Inr (map (usage_row_of routes)
            (take 1000 (sort_key (\<lambda>r. - lr_ts r) (filter (usage_filter team key backend model status from until) table)))))"

definition get_usage :: "ledger_row list \<Rightarrow> config_snapshot \<Rightarrow> i64 \<Rightarrow> usage_query \<Rightarrow> api_error + usage_row list" where
  "get_usage table snap now q =
     query_usage_rows table (cs_routes snap) (uq_team q) (uq_key q) (uq_backend q) (uq_model q) (uq_status q)
       (usage_window_from now (uq_from q) (uq_days q)) (uq_to q)"

section \<open>Statistics\<close>

record stat_row =
  sr_day :: i64
  sr_model :: string
  sr_input_tokens :: i64
  sr_output_tokens :: i64
  sr_requests :: i64

text \<open>Integer division of SQL truncates; a sum outside 64 bits is an error of the cast.\<close>

definition day_of :: "i64 \<Rightarrow> i64" where
  "day_of ts = (if 0 \<le> ts then ts div 86400 else - ((- ts) div 86400)) * 86400"

definition fits_i64 :: "int \<Rightarrow> bool" where
  "fits_i64 n \<longleftrightarrow> - (2 ^ 63) \<le> n \<and> n < 2 ^ 63"

definition stat_row_of :: "ledger_row list \<Rightarrow> i64 \<times> string \<Rightarrow> api_error + stat_row" where
  "stat_row_of rows = (\<lambda>(day, model).
     let grp = filter (\<lambda>r. (day_of (lr_ts r), lr_model r) = (day, model)) rows;
         input = sum_list (map lr_input_tokens grp); output = sum_list (map lr_output_tokens grp)
     in if fits_i64 input \<and> fits_i64 output
        then Inr \<lparr>sr_day = day, sr_model = model, sr_input_tokens = input, sr_output_tokens = output, sr_requests = int (length grp)\<rparr>
        else Inl (api_internal ''bigint out of range''))"

definition query_stats ::
  "ledger_row list \<Rightarrow> i64 \<Rightarrow> i64 option \<Rightarrow> i64 option \<Rightarrow> i64 option \<Rightarrow> string option \<Rightarrow> status_filter \<Rightarrow> i64 option \<Rightarrow> i64 option \<Rightarrow> u32
   \<Rightarrow> api_error + stat_row list" where
  "query_stats table now team key backend model status from until days =
     (let since = unwrap_or (now - clamped_days days * 86400) from;
          rows = filter (usage_filter team key backend model status (Some since) until) table;
          groups = sort_key fst (sort_key snd (remdups (map (\<lambda>r. (day_of (lr_ts r), lr_model r)) rows)))
      in fold_res (\<lambda>out g. try_res (stat_row_of rows g) (\<lambda>x. Inr (out @ [x]))) [] groups)"

definition get_stats :: "ledger_row list \<Rightarrow> i64 \<Rightarrow> usage_query \<Rightarrow> api_error + stat_row list" where
  "get_stats table now q =
     try_res (normalize_status (uq_status q)) (\<lambda>status.
     query_stats table now (uq_team q) (uq_key q) (uq_backend q) (uq_model q) status (uq_from q) (uq_to q) (unwrap_or 30 (uq_days q)))"

section \<open>The portal\<close>

definition user_api_key :: "http_client \<Rightarrow> header_map \<Rightarrow> string option" where
  "user_api_key hc headers =
     (case Option.bind (filter_opt (hc_text_ok hc) (hdr_get headers ''authorization'')) (\<lambda>a. strip_prefix a ''Bearer '') of
        Some stripped \<Rightarrow> Some (trim stripped)
      | None \<Rightarrow> map_option trim (filter_opt (hc_text_ok hc) (hdr_get headers ''x-api-key'')))"

definition authorize_user_key ::
  "http_client \<Rightarrow> (bytes \<Rightarrow> key_hash) \<Rightarrow> config_snapshot \<Rightarrow> i64 \<Rightarrow> header_map \<Rightarrow> api_error + api_key" where
  "authorize_user_key hc sha256 snap now headers =
     (case user_api_key hc headers of
        None \<Rightarrow> Inl (api_unauthorized ''missing API key'')
      | Some plaintext \<Rightarrow>
          (case authorize_key snap (hash_key sha256 plaintext) now of
             Inl _ \<Rightarrow> Inl (api_unauthorized ''invalid or disabled API key'')
           | Inr key \<Rightarrow> Inr key))"

text \<open>The snapshot is loaded again for the team; in between another may have been published.\<close>

definition me ::
  "http_client \<Rightarrow> (bytes \<Rightarrow> key_hash) \<Rightarrow> config_snapshot \<Rightarrow> config_snapshot \<Rightarrow> i64 \<Rightarrow> header_map \<Rightarrow> api_error + (api_key \<times> team)" where
  "me hc sha256 snap snap' now headers =
     try_res (authorize_user_key hc sha256 snap now headers) (\<lambda>key.
     try_res (ok_or (api_unauthorized ''team not found or disabled'') (hm_get (cs_teams snap') (ak_team_id key))) (\<lambda>team.
     Inr (key, team)))"

definition me_usage ::
  "http_client \<Rightarrow> (bytes \<Rightarrow> key_hash) \<Rightarrow> config_snapshot \<Rightarrow> config_snapshot \<Rightarrow> i64 \<Rightarrow> header_map \<Rightarrow> ledger_row list \<Rightarrow> i64 \<Rightarrow> usage_query
   \<Rightarrow> api_error + usage_row list" where
  "me_usage hc sha256 snap snap' now headers table now' q =
     try_res (authorize_user_key hc sha256 snap now headers) (\<lambda>key.
     query_usage_rows table (cs_routes snap') None (Some (ak_id key)) None (uq_model q) (uq_status q) (usage_window_from now' (uq_from q) (uq_days q)) (uq_to q))"

definition me_stats ::
  "http_client \<Rightarrow> (bytes \<Rightarrow> key_hash) \<Rightarrow> config_snapshot \<Rightarrow> i64 \<Rightarrow> header_map \<Rightarrow> ledger_row list \<Rightarrow> i64 \<Rightarrow> u32 option
   \<Rightarrow> api_error + stat_row list" where
  "me_stats hc sha256 snap now headers table now' days =
     try_res (authorize_user_key hc sha256 snap now headers) (\<lambda>key.
     query_stats table now' None (Some (ak_id key)) None None StatusNone None None (unwrap_or 30 days))"

section \<open>The cache of the summary\<close>

definition SUMMARY_CACHE_TTL :: duration where "SUMMARY_CACHE_TTL = 45000"

type_synonym summary_cache = "(string, instant \<times> string) hmap"

definition summary_cache_get :: "summary_cache \<Rightarrow> string \<Rightarrow> instant \<Rightarrow> string option" where
  "summary_cache_get c key now =
     Option.bind (hm_get c key) (\<lambda>(t, v). if now - t < SUMMARY_CACHE_TTL then Some v else None)"

definition summary_cache_put :: "summary_cache \<Rightarrow> string \<Rightarrow> string \<Rightarrow> instant \<Rightarrow> summary_cache" where
  "summary_cache_put c key v now = hm_insert key (now, v) (if length c > 64 then [] else c)"

section \<open>What the lists say\<close>

lemma counted:
  "unwrap_or 0 (hm_get (foldl (\<lambda>m (g, c). add_count (k g) c m) m0 xs) i)
     = unwrap_or 0 (hm_get m0 i) + sum_list (map snd (filter (\<lambda>(g, _). k g = i) xs))"
  by (induction xs arbitrary: m0) (auto simp: add_count_def)

lemma group_counts: "sum_list (map (\<lambda>g. int (count_list us g)) (filter P (remdups us))) = int (length (filter P us))"
proof -
  have c: "count_list (filter P us) g = count_list us g" if "P g" for g using that by (induction us) auto
  have "sum_list (map (\<lambda>g. int (count_list us g)) (filter P (remdups us))) = (\<Sum>g \<in> set (filter P us). int (count_list us g))"
    by (subst sum_list_distinct_conv_sum_set) simp_all
  also have "\<dots> = (\<Sum>g \<in> set (filter P us). int (count_list (filter P us) g))" by (rule sum.cong) (simp_all add: c)
  also have "\<dots> = int (sum (count_list (filter P us)) (set (filter P us)))" by simp
  also have "\<dots> = int (length (filter P us))" by (subst sum_count_set) simp_all
  finally show ?thesis .
qed

lemma usage_counts:
  "unwrap_or 0 (hm_get (lc_usage_by_backend (load_lifecycle_data av db)) i) = int (length (filter (\<lambda>(b, _). b = i) (db_usage db)))"
  "unwrap_or 0 (hm_get (lc_usage_by_model (load_lifecycle_data av db)) m) = int (length (filter (\<lambda>(_, x). x = m) (db_usage db)))"
proof -
  have "sum_list (map snd (filter (\<lambda>(g, _). k g = j) (usage_groups db))) = int (length (filter (\<lambda>g. k g = j) (db_usage db)))" for k :: "_ \<Rightarrow> 'k" and j
    using group_counts [of "db_usage db" "\<lambda>g. k g = j"] by (simp add: usage_groups_def filter_map comp_def)
  note this [of fst i] this [of snd m]
  then show "unwrap_or 0 (hm_get (lc_usage_by_backend (load_lifecycle_data av db)) i) = int (length (filter (\<lambda>(b, _). b = i) (db_usage db)))"
    "unwrap_or 0 (hm_get (lc_usage_by_model (load_lifecycle_data av db)) m) = int (length (filter (\<lambda>(_, x). x = m) (db_usage db)))"
    using counted [where k = fst and xs = "usage_groups db" and ?m0.0 = "[]"] counted [where k = snd and xs = "usage_groups db" and ?m0.0 = "[]"]
    by (simp_all add: load_lifecycle_data_def case_prod_beta')
qed

lemma pushed: "unwrap_or [] (hm_get (foldl (push_name n) m ids) i) = unwrap_or [] (hm_get m i) @ replicate (count_list ids i) n"
proof (induction ids arbitrary: m)
  case (Cons j ids)
  then show ?case by (cases "j = i") (auto simp: push_name_def replicate_append_same [symmetric])
qed simp

lemma active_names:
  "unwrap_or [] (hm_get (lc_active_by_backend (load_lifecycle_data av db)) i)
     = concat (map (\<lambda>r. if ro_enabled r then replicate (count_list (route_refs av r) i) (ro_model_name r) else []) (db_routes db))"
proof -
  have "unwrap_or [] (hm_get (foldl (\<lambda>m r. if ro_enabled r then foldl (push_name (ro_model_name r)) m (route_refs av r) else m) m0 rs) i)
      = unwrap_or [] (hm_get m0 i) @ concat (map (\<lambda>r. if ro_enabled r then replicate (count_list (route_refs av r) i) (ro_model_name r) else []) rs)" for m0 rs
    by (induction rs arbitrary: m0) (auto simp: pushed)
  from this [of "[]"] show ?thesis by (simp add: load_lifecycle_data_def)
qed

lemma route_refs_iff: "i \<in> set (route_refs av r) \<longleftrightarrow> refers_to av i r"
  by (auto simp: route_refs_def refers_to_def split: option.split)

lemma no_active_names:
  "unwrap_or [] (hm_get (lc_active_by_backend (load_lifecycle_data av db)) i) = [] \<longleftrightarrow> (\<forall>r \<in> set (db_routes db). ro_enabled r \<longrightarrow> \<not> refers_to av i r)"
  unfolding active_names concat_eq_Nil_conv set_map ball_simps by (simp add: count_list_0_iff route_refs_iff)

text \<open>
  The list of backends tells what deletion will do. A backend is listed as deletable exactly when deleting it succeeds, and its count of
  logged requests is the number of ledger rows that name it.
\<close>

theorem listed_deletable_exact:
  assumes "faithful_env av" and "db_ok av (ad_db st)" and "row \<in> set (list_backends av (ad_db st))"
  shows "(br_can_delete row \<longleftrightarrow> (\<exists>st'. delete_backend av now (bk_id (br_backend row)) st = (st', Inr ())))
    \<and> br_usage_count row = int (length (filter (\<lambda>(b, _). b = bk_id (br_backend row)) (db_usage (ad_db st))))"
proof -
  let ?db = "ad_db st" and ?i = "bk_id (br_backend row)"
  from assms(3) obtain b where b: "b \<in> set (db_backends ?db)" "row = backend_view av ?db (load_lifecycle_data av ?db) b"
    by (auto simp: list_backends_def)
  then have i: "?i = bk_id b" by (simp add: backend_view_def Let_def)
  have deletable: "br_can_delete row \<longleftrightarrow> ?i \<notin> fst ` set (db_usage ?db) \<and> (\<forall>r \<in> set (db_routes ?db). ro_enabled r \<longrightarrow> \<not> refers_to av ?i r)"
    unfolding no_active_names [where av = av and db = ?db, symmetric] i
    by (auto simp: b(2) backend_view_def Let_def usage_counts logged_iff)
  obtain st' res where d: "delete_backend av now ?i st = (st', res)" by force
  have "br_can_delete row \<longleftrightarrow> res = Inr ()"
  proof (cases "br_can_delete row")
    case True
    with deletable b(1) i have cond: "?i \<in> bk_id ` set (db_backends ?db) \<and> ?i \<notin> fst ` set (db_usage ?db)
        \<and> (\<forall>r \<in> set (db_routes ?db). ro_enabled r \<longrightarrow> \<not> refers_to av ?i r)" by simp
    from reloaded_publishes [OF deleted_backend_tables(3) [OF assms(1,2)] delete_backend_cases(1) [OF d cond]] True show ?thesis by simp
  next
    case False
    with deletable delete_backend_cases(2) [OF d] show ?thesis by auto
  qed
  then show ?thesis using d by (simp add: b(2) backend_view_def Let_def usage_counts)
qed

theorem listed_deletable_exact_witness:
  "\<exists>row st'. row \<in> set (list_backends demo_av demo_db) \<and> br_backend row = demo_backend 2 \<and> br_can_delete row
     \<and> delete_backend demo_av 8 2 demo_admin = (st', Inr ())"
proof -
  let ?row = "backend_view demo_av demo_db (load_lifecycle_data demo_av demo_db) (demo_backend 2)"
  have row: "?row \<in> set (list_backends demo_av (ad_db demo_admin))" by (simp add: list_backends_def demo_admin_def demo_db_def)
  have ok: "db_ok demo_av (ad_db demo_admin)" using demo_db_ok by (simp add: demo_admin_def)
  have "refers_to demo_av 2 (demo_route m ids b) \<longleftrightarrow> 2 \<in> set ids" for m ids b
    by (simp add: refers_to_def route_ids_def demo_route_def demo_av_def demo_parse_text)
  moreover have "ro_enabled (demo_route m ids b) = b" for m ids b by (simp add: demo_route_def)
  ultimately have "unwrap_or [] (hm_get (lc_active_by_backend (load_lifecycle_data demo_av demo_db)) 2) = []"
    unfolding no_active_names by (simp add: demo_db_def)
  then have del: "br_can_delete ?row" by (simp add: backend_view_def Let_def usage_counts demo_backend_def) (simp add: demo_db_def)
  have br: "br_backend ?row = demo_backend 2" "bk_id (demo_backend 2) = 2" by (simp_all add: backend_view_def Let_def demo_backend_def)
  have "ad_db demo_admin = demo_db" by (simp add: demo_admin_def)
  then show ?thesis using listed_deletable_exact [OF demo_faithful ok row, of 8] row del br by auto
qed

text \<open>The list of routes against the data plane.\<close>

lemma enabled_map:
  assumes "distinct (map bk_id (db_backends db))" and "load_snapshot ce (tables_of db) = Inr snap"
  shows "unwrap_or False (hm_get (lc_enabled (load_lifecycle_data av db)) i) = backend_enabled snap i"
proof -
  have "hm_get (foldl (\<lambda>m b. hm_insert (bk_id b) (bk_enabled b) m) m0 bs) i
      = (case find (\<lambda>b. bk_id b = i) (rev bs) of None \<Rightarrow> hm_get m0 i | Some b \<Rightarrow> Some (bk_enabled b))" for m0 and bs :: "backend_rec list"
  proof (induction bs rule: rev_induct)
    case (snoc b bs)
    then show ?case by simp
  qed simp
  then have lc: "hm_get (lc_enabled (load_lifecycle_data av db)) i = map_option bk_enabled (find (\<lambda>b. bk_id b = i) (rev (db_backends db)))"
    by (simp add: load_lifecycle_data_def split: option.split)
  show ?thesis
  proof (cases "find (\<lambda>b. bk_id b = i) (rev (db_backends db))")
    case None
    then have "i \<notin> bk_id ` set (db_backends db)" by (auto simp: find_None_iff)
    from loaded_backend(2) [OF assms(2,1) this] None lc show ?thesis by (simp add: backend_enabled_def)
  next
    case (Some b)
    then have "b \<in> set (db_backends db)" "bk_id b = i" by (auto simp: find_Some_iff) (metis length_rev nth_mem set_rev)
    with loaded_backend(1) [OF assms(2,1), of b] Some lc show ?thesis by (auto simp: backend_enabled_def)
  qed
qed

lemma route_columns_read:
  "route_row ce endpoints (route_columns r) = Inr x \<Longrightarrow> rt_enabled x = ro_enabled r \<and> ce_ids ce (ro_backend_ids r) = Some (rt_backend_ids x)
    \<and> rt_fallback_backend_id x = ro_fallback_backend_id r"
  by (auto simp: route_row_def route_columns_def column_defs result_iffs Let_def)

lemma loaded_route:
  assumes "load_snapshot ce (tables_of db) = Inr snap" and "distinct (map ro_model_name (db_routes db))" and "distinct (map endpoint_id (db_endpoints db))"
    and "r \<in> set (db_routes db)"
  shows "\<exists>x. hm_get (cs_routes snap) (ro_model_name r) = Some x \<and> rt_enabled x = ro_enabled r \<and> ce_ids ce (ro_backend_ids r) = Some (rt_backend_ids x)
    \<and> rt_fallback_backend_id x = ro_fallback_backend_id r"
proof -
  let ?rs = "map route_columns (db_routes db)" and ?es = "map endpoint_columns (db_endpoints db)"
  from assms(1) obtain routes where L: "load_routes ce (tables_of db) = Inr routes" and snap: "cs_routes snap = index_by rt_model_name routes"
    by (rule load_snapshotD) simp
  have name: "text_key (route_columns r) = ro_model_name r" for r by (simp add: text_key_def route_columns_def column_defs)
  have "endpoint_key (endpoint_columns e) = endpoint_id e" for e by (simp add: endpoint_key_def endpoint_columns_def column_defs)
  then have d: "distinct (map text_key ?rs)" "distinct (map endpoint_key ?es)" using assms(2,3) by (simp_all add: comp_def name)
  have t: "cd_routes (tables_of db) = Inr ?rs" "cd_endpoints (tables_of db) = Inr ?es" by (simp_all add: tables_of_def)
  note lr = loaded_routes [OF L t(1) d(1) t(2) d(2), of "ro_model_name r"]
  have "text_key (route_columns r) \<in> text_key ` set ?rs" using assms(4) by (intro imageI) simp
  then have "ro_model_name r \<in> text_key ` set ?rs" unfolding name .
  with lr(1) obtain x where x: "hm_get (index_by rt_model_name routes) (ro_model_name r) = Some x" by blast
  from lr(2) [OF x] obtain row where row: "row \<in> set ?rs" "text_key row = ro_model_name r" "route_row ce (rt_endpoints x) row = Inr x" by blast
  from row(1) obtain r' where r'0: "r' \<in> set (db_routes db)" "row = route_columns r'" unfolding set_map by blast
  have r': "r' \<in> set (db_routes db)" "ro_model_name r' = ro_model_name r" "route_row ce (rt_endpoints x) (route_columns r') = Inr x"
    using r'0(1) row(2,3) unfolding r'0(2) name .
  from r' assms(2,4) have "r' = r" by (auto simp: distinct_map dest: inj_onD)
  with route_columns_read [OF r'(3)] x show ?thesis unfolding snap by blast
qed



section \<open>What a user sees\<close>

lemma group_sum:
  assumes "distinct gs" and "f ` set rows \<subseteq> set gs"
  shows "sum_list (map (\<lambda>g. sum_list (map w (filter (\<lambda>r. f r = g) rows))) gs) = (sum_list (map w rows) :: int)"
  using assms(2)
proof (induction rows)
  case Nil
  show ?case by (induction gs) simp_all
next
  case (Cons r rows)
  have "distinct gs \<Longrightarrow> sum_list (map (\<lambda>g. if f r = g then w r else 0) gs) = (if f r \<in> set gs then w r else 0)" for gs
    by (induction gs) auto
  then have "sum_list (map (\<lambda>g. if f r = g then w r else 0) gs) = w r" using assms(1) Cons.prems by simp
  moreover have "sum_list (map (\<lambda>g. sum_list (map w (filter (\<lambda>r. f r = g) (r # rows)))) gs)
      = sum_list (map (\<lambda>g. (if f r = g then w r else 0) + sum_list (map w (filter (\<lambda>r. f r = g) rows))) gs)"
    by (rule arg_cong [of _ _ sum_list]) simp
  ultimately show ?case using Cons by (simp add: sum_list_addf)
qed

lemma stats_conserve:
  assumes "query_stats table now team key backend model status from until days = Inr stats"
  defines "rows \<equiv> filter (usage_filter team key backend model status (Some (unwrap_or (now - clamped_days days * 86400) from)) until) table"
  shows "sum_list (map sr_requests stats) = int (length rows) \<and> sum_list (map sr_input_tokens stats) = sum_list (map lr_input_tokens rows)
    \<and> sum_list (map sr_output_tokens stats) = sum_list (map lr_output_tokens rows)"
proof -
  let ?f = "\<lambda>r. (day_of (lr_ts r), lr_model r)"
  let ?gs = "sort_key fst (sort_key snd (remdups (map ?f rows)))"
  let ?sum = "\<lambda>w g. sum_list (map w (filter (\<lambda>r. ?f r = g) rows)) :: int"
  have g: "distinct ?gs" "?f ` set rows \<subseteq> set ?gs" by auto
  from assms(1) have "list_all2 (\<lambda>g x. stat_row_of rows g = Inr x) ?gs stats"
    unfolding query_stats_def Let_def rows_def [symmetric] collect_iff .
  then have "list_all2 (\<lambda>g x. sr_requests x = ?sum (\<lambda>_. 1) g \<and> sr_input_tokens x = ?sum lr_input_tokens g \<and> sr_output_tokens x = ?sum lr_output_tokens g) ?gs stats"
    by (rule list.rel_mono_strong) (auto simp: stat_row_of_def Let_def sum_list_triv split: if_splits)
  then have "map sr_requests stats = map (?sum (\<lambda>_. 1)) ?gs" "map sr_input_tokens stats = map (?sum lr_input_tokens) ?gs"
      "map sr_output_tokens stats = map (?sum lr_output_tokens) ?gs"
    by (simp_all add: list_all2_conv_all_nth list_eq_iff_nth_eq)
  with group_sum [OF g, of "\<lambda>_. 1"] group_sum [OF g, of lr_input_tokens] group_sum [OF g, of lr_output_tokens]
  show ?thesis by (simp add: sum_list_triv)
qed

lemma latest_rows:
  fixes table :: "ledger_row list"
  defines "calls \<equiv> \<lambda>P. sort_key (\<lambda>r. - lr_ts r) (filter P table)"
  shows "sorted_wrt (\<lambda>a b. lr_ts b \<le> lr_ts a) (take n (calls P))" and "x \<in> set (take n (calls P)) \<Longrightarrow> x \<in> set table \<and> P x"
    and "r \<in> set table \<Longrightarrow> P r \<Longrightarrow> r \<in> set (take n (calls P)) \<or> length (take n (calls P)) = n \<and> (\<forall>x \<in> set (take n (calls P)). lr_ts r \<le> lr_ts x)"
proof -
  have "sorted (map (\<lambda>r. - lr_ts r) (calls P))" by (simp add: calls_def)
  then have s: "sorted_wrt (\<lambda>a b. lr_ts b \<le> lr_ts a) (take n (calls P) @ drop n (calls P))" by (simp add: sorted_wrt_map)
  then show "sorted_wrt (\<lambda>a b. lr_ts b \<le> lr_ts a) (take n (calls P))" unfolding sorted_wrt_append by blast
  show "x \<in> set (take n (calls P)) \<Longrightarrow> x \<in> set table \<and> P x" using in_set_takeD [of x n "calls P"] by (auto simp: calls_def)
  assume "r \<in> set table" "P r"
  then have "r \<in> set (take n (calls P) @ drop n (calls P))" by (simp add: calls_def)
  moreover have "length (take n (calls P)) = n \<and> (\<forall>x \<in> set (take n (calls P)). lr_ts r \<le> lr_ts x)" if "r \<in> set (drop n (calls P))"
  proof
    show "length (take n (calls P)) = n" using that by (cases "length (calls P) \<le> n") simp_all
    show "\<forall>x \<in> set (take n (calls P)). lr_ts r \<le> lr_ts x" using s that unfolding sorted_wrt_append by blast
  qed
  ultimately show "r \<in> set (take n (calls P)) \<or> length (take n (calls P)) = n \<and> (\<forall>x \<in> set (take n (calls P)). lr_ts r \<le> lr_ts x)"
    unfolding set_append by blast
qed

lemma call_log:
  assumes "us = map (usage_row_of routes) (take n (sort_key (\<lambda>r. - lr_ts r) (filter (usage_filter team (Some k) backend model status from until) table)))"
  shows "length us \<le> n \<and> sorted_wrt (\<lambda>a b. lr_ts (ur_row b) \<le> lr_ts (ur_row a)) us
    \<and> (\<forall>row \<in> set us. ur_row row \<in> set table \<and> lr_key_id (ur_row row) = k)
    \<and> (\<forall>r \<in> set table. usage_filter team (Some k) backend model status from until r \<longrightarrow>
        r \<in> ur_row ` set us \<or> length us = n \<and> (\<forall>row \<in> set us. lr_ts r \<le> lr_ts (ur_row row)))"
proof -
  let ?P = "usage_filter team (Some k) backend model status from until"
  let ?xs = "take n (sort_key (\<lambda>r. - lr_ts r) (filter ?P table))"
  have u: "ur_row (usage_row_of routes r) = r" for r by (simp add: usage_row_of_def Let_def)
  then have im: "ur_row ` set us = set ?xs" "length us = length ?xs" by (simp_all add: assms image_image)
  have ball: "(\<forall>row \<in> set us. Q (ur_row row)) \<longleftrightarrow> (\<forall>x \<in> set ?xs. Q x)" for Q using im(1) by (metis imageE imageI)
  have key: "?P x \<Longrightarrow> lr_key_id x = k" for x by (simp add: usage_filter_def opt_matches_def)
  note latest = latest_rows [where n = n and table = table and P = ?P]
  show ?thesis
  proof (intro conjI)
    show "length us \<le> n" unfolding im(2) by simp
    show "sorted_wrt (\<lambda>a b. lr_ts (ur_row b) \<le> lr_ts (ur_row a)) us" unfolding assms sorted_wrt_map u by (rule latest(1))
    show "\<forall>row \<in> set us. ur_row row \<in> set table \<and> lr_key_id (ur_row row) = k" 
      by (rule iffD2 [OF ball [of "\<lambda>x. x \<in> set table \<and> lr_key_id x = k"]]) (use latest(2) key in blast)
    show "\<forall>r \<in> set table. ?P r \<longrightarrow> r \<in> ur_row ` set us \<or> length us = n \<and> (\<forall>row \<in> set us. lr_ts r \<le> lr_ts (ur_row row))"
      unfolding im using latest(3) ball [of "\<lambda>x. lr_ts _ \<le> lr_ts x"] by blast
  qed
qed

lemma authorize_user_key_error:
  assumes "authorize_user_key hc sha256 snap now headers = Inl e"
  shows "ae_status e = 401" and "user_api_key hc headers = Some plain \<Longrightarrow> \<not> key_live snap (hash_key sha256 plain) now k"
  using assms authorize_key_iff [of snap "hash_key sha256 plain" now k]
  by (auto simp: authorize_user_key_def api_errors split: option.splits sum.splits)

text \<open>
  C16. A user of the portal sees his own requests and no others. Without a live key every answer is 401. With one, the call log holds, whatever
  the query asks for, only ledger rows of that key, at most a thousand and the latest first, and leaves out an older matching row only
  when it is full; and the statistics add up to exactly the requests and tokens of that key in the window.
\<close>

theorem portal_isolated:
  "(case authorize_user_key hc sha256 snap now headers of
      Inl e \<Rightarrow> ae_status e = 401 \<and> (\<nexists>plain k. user_api_key hc headers = Some plain \<and> key_live snap (hash_key sha256 plain) now k)
        \<and> me hc sha256 snap snap' now headers = Inl e \<and> me_usage hc sha256 snap snap' now headers table now' q = Inl e
        \<and> me_stats hc sha256 snap now headers table now' days = Inl e
    | Inr key \<Rightarrow> (\<exists>plain. user_api_key hc headers = Some plain \<and> key_live snap (hash_key sha256 plain) now key)
        \<and> (\<forall>rows. me_usage hc sha256 snap snap' now headers table now' q = Inr rows \<longrightarrow>
             length rows \<le> 1000 \<and> sorted_wrt (\<lambda>a b. lr_ts (ur_row b) \<le> lr_ts (ur_row a)) rows
             \<and> (\<forall>row \<in> set rows. ur_row row \<in> set table \<and> lr_key_id (ur_row row) = ak_id key)
             \<and> (\<forall>status r. normalize_status (uq_status q) = Inr status \<longrightarrow> r \<in> set table \<longrightarrow>
                  usage_filter None (Some (ak_id key)) None (uq_model q) status (usage_window_from now' (uq_from q) (uq_days q)) (uq_to q) r \<longrightarrow>
                  r \<in> ur_row ` set rows \<or> length rows = 1000 \<and> (\<forall>row \<in> set rows. lr_ts r \<le> lr_ts (ur_row row))))
        \<and> (\<forall>stats. me_stats hc sha256 snap now headers table now' days = Inr stats \<longrightarrow>
             (let mine = filter (\<lambda>r. lr_key_id r = ak_id key \<and> now' - clamped_days (unwrap_or 30 days) * 86400 \<le> lr_ts r) table
              in sum_list (map sr_requests stats) = int (length mine) \<and> sum_list (map sr_input_tokens stats) = sum_list (map lr_input_tokens mine)
                 \<and> sum_list (map sr_output_tokens stats) = sum_list (map lr_output_tokens mine))))"
proof (cases "authorize_user_key hc sha256 snap now headers")
  case (Inl e)
  then show ?thesis using authorize_user_key_error [OF Inl] by (auto simp: me_def me_usage_def me_stats_def)
next
  case (Inr key)
  then obtain plain where plain: "user_api_key hc headers = Some plain" "key_live snap (hash_key sha256 plain) now key"
    by (auto simp: authorize_user_key_def authorize_key_iff split: option.splits sum.splits)
  let ?from = "usage_window_from now' (uq_from q) (uq_days q)"
  let ?match = "\<lambda>status. usage_filter None (Some (ak_id key)) None (uq_model q) status ?from (uq_to q)"
  let ?log = "\<lambda>status. sort_key (\<lambda>r. - lr_ts r) (filter (?match status) table)"
  show ?thesis unfolding Inr sum.case
  proof (intro conjI allI impI)
    show "\<exists>plain. user_api_key hc headers = Some plain \<and> key_live snap (hash_key sha256 plain) now key" using plain by blast
  next
    fix us assume "me_usage hc sha256 snap snap' now headers table now' q = Inr us"
    then obtain status where st: "normalize_status (uq_status q) = Inr status" and us: "us = map (usage_row_of (cs_routes snap')) (take 1000 (?log status))"
      using Inr by (auto simp: me_usage_def query_usage_rows_def result_iffs)
    note r = call_log [OF us]
    show "length us \<le> 1000" "sorted_wrt (\<lambda>a b. lr_ts (ur_row b) \<le> lr_ts (ur_row a)) us"
      "\<forall>row \<in> set us. ur_row row \<in> set table \<and> lr_key_id (ur_row row) = ak_id key" using r by blast+
    fix status' x assume "normalize_status (uq_status q) = Inr status'" "x \<in> set table" "?match status' x"
    then show "x \<in> ur_row ` set us \<or> length us = 1000 \<and> (\<forall>row \<in> set us. lr_ts x \<le> lr_ts (ur_row row))" using r st by simp
  next
    fix stats assume "me_stats hc sha256 snap now headers table now' days = Inr stats"
    then have "query_stats table now' None (Some (ak_id key)) None None StatusNone None None (unwrap_or 30 days) = Inr stats"
      using Inr by (simp add: me_stats_def)
    moreover have "usage_filter None (Some (ak_id key)) None None StatusNone (Some since) None = (\<lambda>r. lr_key_id r = ak_id key \<and> since \<le> lr_ts r)" for since
      by (rule ext) (simp add: usage_filter_def opt_matches_def status_matches_def filter_opt_def)
    ultimately show "let mine = filter (\<lambda>r. lr_key_id r = ak_id key \<and> now' - clamped_days (unwrap_or 30 days) * 86400 \<le> lr_ts r) table
        in sum_list (map sr_requests stats) = int (length mine) \<and> sum_list (map sr_input_tokens stats) = sum_list (map lr_input_tokens mine)
          \<and> sum_list (map sr_output_tokens stats) = sum_list (map lr_output_tokens mine)"
      using stats_conserve by (simp add: Let_def)
  qed
qed

definition demo_snapshot :: config_snapshot where
  "demo_snapshot = \<lparr>cs_backends = [], cs_routes = [], cs_teams = [(1, \<lparr>tm_id = 1, tm_name = ''t'', tm_budget = None, tm_enabled = True\<rparr>)],
     cs_keys_by_hash = [(av_sha256 demo_av ''a'', key_of demo_av 1 ''a'' True demo_key_payload)]\<rparr>"

definition demo_query :: usage_query where
  "demo_query = \<lparr>uq_team = None, uq_key = Some 9, uq_backend = None, uq_model = None, uq_status = None, uq_from = None, uq_to = None, uq_days = None\<rparr>"

theorem portal_isolated_witness:
  "\<exists>rows. authorize_user_key demo_http (av_sha256 demo_av) demo_snapshot 5 [(''x-api-key'', ''a'')] = Inr (key_of demo_av 1 ''a'' True demo_key_payload)
     \<and> me_usage demo_http (av_sha256 demo_av) demo_snapshot demo_snapshot 5 [(''x-api-key'', ''a'')] [] 6 demo_query = Inr rows \<and> length rows \<le> 1000"
proof -
  have "trim ''a'' = ''a''" by code_simp
  then have "user_api_key demo_http [(''x-api-key'', ''a'')] = Some ''a''"
    by (simp add: user_api_key_def hdr_get_def hdr_values_def filter_opt_def demo_http_def)
  then have a: "authorize_user_key demo_http (av_sha256 demo_av) demo_snapshot 5 [(''x-api-key'', ''a'')] = Inr (key_of demo_av 1 ''a'' True demo_key_payload)"
    by (simp add: authorize_user_key_def authorize_key_def demo_snapshot_def hash_key_def key_of_def demo_key_payload_def)
  then obtain rows where r: "me_usage demo_http (av_sha256 demo_av) demo_snapshot demo_snapshot 5 [(''x-api-key'', ''a'')] [] 6 demo_query = Inr rows"
    by (simp add: me_usage_def query_usage_rows_def normalize_status_def non_blank_def filter_opt_def demo_query_def)
  show ?thesis
    using portal_isolated [where hc = demo_http and ?sha256.0 = "av_sha256 demo_av" and snap = demo_snapshot and now = 5 and headers = "[(''x-api-key'', ''a'')]"
      and snap' = demo_snapshot and table = "[]" and now' = 6 and q = demo_query and days = None, unfolded a sum.case] a r
    by blast
qed

end
