(* ===== verification/Admin_Summary.thy ===== *)
theory Admin_Summary
  imports Admin_Views "HOL-Library.Product_Lexorder"
begin

text \<open>
  The summary of the dashboard, \<open>get_summary\<close> of \<open>src/admin/mod.rs\<close>, with its cache, and the settings. The seven queries run one after the
  other on a live database: \<open>reads i\<close> is what query \<open>i\<close> sees. The 0.95 percentile of PostgreSQL, the \<open>Debug\<close> text of a string and the
  JSON text of the answer are arguments. A sum outside 64 bits is an error of the cast.
\<close>

section \<open>Groups\<close>

definition groups :: "(ledger_row \<Rightarrow> 'k) \<Rightarrow> (ledger_row list \<Rightarrow> 'a) \<Rightarrow> ledger_row list \<Rightarrow> ('k \<times> 'a) list" where
  "groups f agg rows = map (\<lambda>k. (k, agg (filter (\<lambda>r. f r = k) rows))) (remdups (map f rows))"

record aggregate =
  ag_requests :: i64
  ag_input_tokens :: i64
  ag_output_tokens :: i64
  ag_errors :: i64

definition count_where :: "(ledger_row \<Rightarrow> bool) \<Rightarrow> ledger_row list \<Rightarrow> i64" where
  "count_where p rows = int (length (filter p rows))"

definition is_error :: "ledger_row \<Rightarrow> bool" where
  "is_error r \<longleftrightarrow> 400 \<le> lr_status r"

definition aggregate_of :: "ledger_row list \<Rightarrow> aggregate" where
  "aggregate_of rows = \<lparr>ag_requests = int (length rows), ag_input_tokens = sum_list (map lr_input_tokens rows),
     ag_output_tokens = sum_list (map lr_output_tokens rows), ag_errors = count_where is_error rows\<rparr>"

definition sums_fit :: "aggregate \<Rightarrow> bool" where
  "sums_fit a \<longleftrightarrow> fits_i64 (ag_input_tokens a) \<and> fits_i64 (ag_output_tokens a)"

definition out_of_range :: "api_error + 'a" where
  "out_of_range = Inl (api_internal ''bigint out of range'')"

definition totals_query :: "ledger_row list \<Rightarrow> api_error + aggregate" where
  "totals_query rows = (if sums_fit (aggregate_of rows) then Inr (aggregate_of rows) else out_of_range)"

definition SUMMARY_LIMIT :: nat where "SUMMARY_LIMIT = 20"

definition by_requests :: "'k \<times> aggregate \<Rightarrow> i64" where
  "by_requests = (\<lambda>(_, a). - ag_requests a)"

definition busiest :: "(ledger_row \<Rightarrow> 'k) \<Rightarrow> ledger_row list \<Rightarrow> api_error + ('k \<times> aggregate) list" where
  "busiest f rows =
     (let gs = groups f aggregate_of rows in
      if list_all (\<lambda>(_, a). sums_fit a) gs then Inr (take SUMMARY_LIMIT (sort_key by_requests gs)) else out_of_range)"

section \<open>The rows of the answer\<close>

record latencies =
  la_p95_ttfb_ms :: f64
  la_p95_total_ms :: f64
  la_p95_router_overhead_ms :: f64

definition latencies_of :: "(i64 list \<Rightarrow> f64 option) \<Rightarrow> ledger_row list \<Rightarrow> latencies" where
  "latencies_of p95 rows = \<lparr>la_p95_ttfb_ms = unwrap_or (Fin 0) (p95 (map lr_ttfb_ms rows)),
     la_p95_total_ms = unwrap_or (Fin 0) (p95 (map lr_total_ms rows)),
     la_p95_router_overhead_ms = unwrap_or (Fin 0) (p95 (map lr_router_overhead_ms rows))\<rparr>"

record provider_health =
  ph_requests :: i64
  ph_errors :: i64
  ph_rate_limited :: i64
  ph_server_errors :: i64
  ph_timeouts :: i64

definition is_timeout :: "ledger_row \<Rightarrow> bool" where
  "is_timeout r \<longleftrightarrow> (case lr_error_class r of None \<Rightarrow> False
     | Some c \<Rightarrow> str_contains (to_ascii_lowercase c) ''timeout'' \<or> str_contains (to_ascii_lowercase c) ''timed out'')"

definition health_of :: "ledger_row list \<Rightarrow> provider_health" where
  "health_of rows = \<lparr>ph_requests = int (length rows), ph_errors = count_where is_error rows,
     ph_rate_limited = count_where (\<lambda>r. lr_status r = 429) rows, ph_server_errors = count_where (\<lambda>r. 500 \<le> lr_status r) rows,
     ph_timeouts = count_where is_timeout rows\<rparr>"

definition by_errors :: "'k \<times> provider_health \<Rightarrow> i64 \<times> i64" where
  "by_errors = (\<lambda>(_, h). (- ph_errors h, - ph_requests h))"

text \<open>\<open>LEFT JOIN\<close> on a primary key, with an empty text for a missing row.\<close>

definition name_in :: "('a \<Rightarrow> i64) \<Rightarrow> ('a \<Rightarrow> string) \<Rightarrow> 'a list \<Rightarrow> i64 \<Rightarrow> string" where
  "name_in key name table i = (case find (\<lambda>x. key x = i) table of None \<Rightarrow> [] | Some x \<Rightarrow> name x)"

definition team_of_row :: "admin_db \<Rightarrow> ledger_row \<Rightarrow> i64 \<times> string" where
  "team_of_row db r = (lr_team_id r, name_in te_id te_name (db_teams db) (lr_team_id r))"

definition key_of_row :: "admin_db \<Rightarrow> ledger_row \<Rightarrow> i64 \<times> string" where
  "key_of_row db r = (lr_key_id r, name_in ke_id ke_key_prefix (db_keys db) (lr_key_id r))"

definition backend_of_row :: "admin_db \<Rightarrow> ledger_row \<Rightarrow> i64 \<times> string" where
  "backend_of_row db r = (lr_backend_id r, name_in bk_id bk_name (db_backends db) (lr_backend_id r))"

record bucket_total =
  bu_requests :: i64
  bu_latencies :: latencies
  bu_least :: i64

definition bucket_of :: "(i64 list \<Rightarrow> f64 option) \<Rightarrow> ledger_row list \<Rightarrow> bucket_total" where
  "bucket_of p95 rows = \<lparr>bu_requests = int (length rows), bu_latencies = latencies_of p95 rows, bu_least = Min (lr_input_tokens ` set rows)\<rparr>"

definition row_bucket :: "ledger_row \<Rightarrow> string" where
  "row_bucket r = prompt_size_bucket (lr_input_tokens r)"

record summary =
  su_totals :: aggregate
  su_error_rate_pct :: f64
  su_latencies :: latencies
  su_estimated_cost_usd :: "f64 option"
  su_cost_known_requests :: i64
  su_by_model :: "((string \<times> aggregate) \<times> f64 option) list"
  su_by_team :: "((i64 \<times> string) \<times> aggregate) list"
  su_by_key :: "((i64 \<times> string) \<times> aggregate) list"
  su_by_bucket :: "(string \<times> bucket_total) list"
  su_by_backend :: "((i64 \<times> string) \<times> provider_health) list"

section \<open>The summary\<close>

type_synonym reads = "nat \<Rightarrow> admin_db \<times> ledger_row list"

definition error_rate :: "aggregate \<Rightarrow> f64" where
  "error_rate a = (if ag_requests a > 0
     then f64_quot (f64_mul (f64_of_int (ag_errors a)) (Fin 100)) (f64_of_int (ag_requests a)) else Fin 0)"

definition model_cost :: "config_snapshot \<Rightarrow> string \<times> aggregate \<Rightarrow> f64 option" where
  "model_cost snap = (\<lambda>(model, a). estimated_cost_usd (ag_input_tokens a) (ag_output_tokens a) (hm_get (cs_routes snap) model))"

definition summary_filter :: "usage_query \<Rightarrow> status_filter \<Rightarrow> i64 \<Rightarrow> ledger_row \<Rightarrow> bool" where
  "summary_filter q status from = usage_filter (uq_team q) (uq_key q) (uq_backend q) (uq_model q) status (Some from) (uq_to q)"

definition seen :: "usage_query \<Rightarrow> status_filter \<Rightarrow> i64 \<Rightarrow> reads \<Rightarrow> nat \<Rightarrow> ledger_row list" where
  "seen q status from reads i = filter (summary_filter q status from) (snd (reads i))"

definition summary_of ::
  "(i64 list \<Rightarrow> f64 option) \<Rightarrow> config_snapshot \<Rightarrow> reads \<Rightarrow> i64 \<Rightarrow> usage_query \<Rightarrow> status_filter \<Rightarrow> api_error + summary" where
  "summary_of p95 snap reads from q status =
     (let rows = seen q status from reads in
      try_res (totals_query (rows 0)) (\<lambda>totals.
      try_res (busiest lr_model (rows 2)) (\<lambda>models.
      let by_model = map (\<lambda>g. (g, model_cost snap g)) models in
      try_res (busiest (team_of_row (fst (reads 3))) (rows 3)) (\<lambda>by_team.
      try_res (busiest (key_of_row (fst (reads 4))) (rows 4)) (\<lambda>by_key.
      Inr \<lparr>su_totals = totals, su_error_rate_pct = error_rate totals, su_latencies = latencies_of p95 (rows 1),
           su_estimated_cost_usd = Some (foldl f64_add (Fin 0) (List.map_filter snd by_model)),
           su_cost_known_requests = sum_list (map (\<lambda>(g, _). ag_requests (snd g)) (filter (\<lambda>(_, c). c \<noteq> None) by_model)),
           su_by_model = by_model, su_by_team = by_team, su_by_key = by_key,
           su_by_bucket = sort_key (\<lambda>(_, b). bu_least b) (groups row_bucket (bucket_of p95) (rows 5)),
           su_by_backend = take SUMMARY_LIMIT (sort_key by_errors (groups (backend_of_row (fst (reads 6))) health_of (rows 6)))\<rparr>)))))"

definition show_opt :: "('a \<Rightarrow> string) \<Rightarrow> 'a option \<Rightarrow> string" where
  "show_opt f x = (case x of None \<Rightarrow> ''None'' | Some v \<Rightarrow> ''Some('' @ f v @ '')'')"

definition summary_days :: "usage_query \<Rightarrow> i64" where
  "summary_days q = clamped_days (unwrap_or 30 (uq_days q))"

definition summary_key :: "(string \<Rightarrow> string) \<Rightarrow> usage_query \<Rightarrow> string" where
  "summary_key dbg q =
     ''d='' @ idec (summary_days q) @ ''|t='' @ show_opt idec (uq_team q) @ ''|k='' @ show_opt idec (uq_key q)
     @ ''|b='' @ show_opt idec (uq_backend q) @ ''|m='' @ show_opt dbg (uq_model q) @ ''|s='' @ unwrap_or ''-'' (uq_status q)
     @ ''|f='' @ show_opt idec (uq_from q) @ ''|to='' @ show_opt idec (uq_to q)"

record summary_call =
  sc_query :: usage_query
  sc_snap :: config_snapshot
  sc_reads :: reads
  sc_now :: i64
  sc_get :: instant
  sc_put :: instant

definition computed :: "(i64 list \<Rightarrow> f64 option) \<Rightarrow> (summary \<Rightarrow> string) \<Rightarrow> summary_call \<Rightarrow> status_filter \<Rightarrow> api_error + string" where
  "computed p95 show x status =
     try_res (summary_of p95 (sc_snap x) (sc_reads x) (unwrap_or (sc_now x - summary_days (sc_query x) * 86400) (uq_from (sc_query x)))
                (sc_query x) status) (\<lambda>s. Inr (show s))"

definition get_summary ::
  "(string \<Rightarrow> string) \<Rightarrow> (i64 list \<Rightarrow> f64 option) \<Rightarrow> (summary \<Rightarrow> string) \<Rightarrow> summary_call \<Rightarrow> summary_cache \<Rightarrow> summary_cache \<times> (api_error + string)" where
  "get_summary dbg p95 show x c =
     (case normalize_status (uq_status (sc_query x)) of
        Inl e \<Rightarrow> (c, Inl e)
      | Inr status \<Rightarrow>
          (case summary_cache_get c (summary_key dbg (sc_query x)) (sc_get x) of
             Some cached \<Rightarrow> (c, Inr cached)
           | None \<Rightarrow>
               (case computed p95 show x status of
                  Inl e \<Rightarrow> (c, Inl e)
                | Inr body \<Rightarrow> (summary_cache_put c (summary_key dbg (sc_query x)) body (sc_put x), Inr body))))"

section \<open>The settings\<close>

record settings_response =
  se_listen_addr :: string
  se_database_ok :: bool
  se_config_reload_ok :: bool
  se_max_body_bytes :: nat
  se_version :: string

definition get_settings :: "config_env \<Rightarrow> bool \<Rightarrow> u64 \<Rightarrow> u64 \<Rightarrow> nat \<Rightarrow> string \<Rightarrow> settings_response" where
  "get_settings ce database_ok ok_at err_at max_body_bytes version =
     \<lparr>se_listen_addr = unwrap_or ''0.0.0.0:18080'' (ce_var ce ''LISTEN_ADDR''), se_database_ok = database_ok,
      se_config_reload_ok = (ok_at > 0 \<and> ok_at > err_at), se_max_body_bytes = max_body_bytes, se_version = version\<rparr>"

section \<open>What the lists hold\<close>

text \<open>
  A ranking of the groups of some rows: at most \<open>n\<close> different groups, the first by the sort key first, each with the totals of all its rows; a group
  is left out only when \<open>n\<close> others that sort no later are listed.
\<close>

definition ranking ::
  "nat \<Rightarrow> (ledger_row \<Rightarrow> 'k) \<Rightarrow> (ledger_row list \<Rightarrow> 'a) \<Rightarrow> ('k \<times> 'a \<Rightarrow> 'o :: linorder) \<Rightarrow> ledger_row list \<Rightarrow> ('k \<times> 'a) list \<Rightarrow> bool" where
  "ranking n f agg key rows gs \<longleftrightarrow>
     length gs \<le> n \<and> distinct (map fst gs) \<and> sorted (map key gs)
     \<and> (\<forall>(k, a) \<in> set gs. k \<in> f ` set rows \<and> a = agg (filter (\<lambda>r. f r = k) rows))
     \<and> (\<forall>r \<in> set rows. f r \<in> fst ` set gs
          \<or> length gs = n \<and> (\<forall>x \<in> set gs. key x \<le> key (f r, agg (filter (\<lambda>r'. f r' = f r) rows))))"

lemma set_groups: "set (groups f agg rows) = (\<lambda>k. (k, agg (filter (\<lambda>r. f r = k) rows))) ` f ` set rows"
  by (simp add: groups_def)

lemma fst_groups: "map fst (groups f agg rows) = remdups (map f rows)"
  by (simp add: groups_def comp_def)

lemma distinct_sorted_groups: "distinct (map fst (take n (sort_key key (groups f agg rows))))"
proof -
  have "mset (map fst (sort_key key (groups f agg rows))) = mset (map fst (groups f agg rows))" by simp
  then have "distinct (map fst (sort_key key (groups f agg rows)))"
    unfolding fst_groups using mset_eq_imp_distinct_iff distinct_remdups by blast
  then show ?thesis by (simp add: take_map [symmetric] distinct_take)
qed

lemma groups_ranked: "ranking n f agg key rows (take n (sort_key key (groups f agg rows)))"
proof -
  let ?all = "sort_key key (groups f agg rows)"
  let ?gs = "take n ?all"
  have "sorted (map key (?gs @ drop n ?all))" by simp
  then have s: "sorted (map key ?gs)" "\<forall>x \<in> set ?gs. \<forall>y \<in> set (drop n ?all). key x \<le> key y"
    unfolding map_append sorted_append by auto
  have sub: "set ?gs \<subseteq> set (groups f agg rows)" using set_take_subset [of n ?all] by simp
  have rest: "f r \<in> fst ` set ?gs \<or> length ?gs = n \<and> (\<forall>x \<in> set ?gs. key x \<le> key (f r, agg (filter (\<lambda>r'. f r' = f r) rows)))"
    if "r \<in> set rows" for r
  proof -
    let ?g = "(f r, agg (filter (\<lambda>r'. f r' = f r) rows))"
    have "?g \<in> set ?all" using that by (simp add: set_groups)
    then have "?g \<in> set ?gs \<or> ?g \<in> set (drop n ?all)" by (metis Un_iff append_take_drop_id set_append)
    moreover have "length ?gs = n" if "?g \<in> set (drop n ?all)" using that by (cases "length ?all \<le> n") simp_all
    ultimately show ?thesis using s(2) by force
  qed
  show ?thesis unfolding ranking_def using s(1) sub rest distinct_sorted_groups [of n key f agg rows] by (auto simp: set_groups)
qed

lemma listed_count:
  assumes "distinct ks"
  shows "sum_list (map (\<lambda>k. int (length (filter (\<lambda>r. f r = k) rows))) ks) = int (length (filter (\<lambda>r. f r \<in> set ks) rows))"
  using assms
proof (induction ks)
  case (Cons k ks)
  have "length (filter (\<lambda>r. f r = k \<or> f r \<in> set ks) rows) = length (filter (\<lambda>r. f r = k) rows) + length (filter (\<lambda>r. f r \<in> set ks) rows)"
    using Cons.prems by (induction rows) auto
  with Cons show ?case by simp
qed simp

lemma busiest_ranked: "busiest f rows = Inr gs \<Longrightarrow> ranking SUMMARY_LIMIT f aggregate_of by_requests rows gs"
  using groups_ranked [of SUMMARY_LIMIT f aggregate_of by_requests rows] by (auto simp: busiest_def out_of_range_def Let_def split: if_splits)

lemma ranked_count:
  assumes "ranking n f aggregate_of key rows gs"
  shows "sum_list (map (\<lambda>g. ag_requests (snd g)) (filter P gs)) = int (length (filter (\<lambda>r. f r \<in> fst ` set (filter P gs)) rows))"
proof -
  have "distinct (map fst (filter P gs))" using assms unfolding ranking_def by (metis distinct_map_filter)
  from listed_count [OF this, of f rows]
  have "sum_list (map (\<lambda>g. int (length (filter (\<lambda>r. f r = fst g) rows))) (filter P gs)) = int (length (filter (\<lambda>r. f r \<in> fst ` set (filter P gs)) rows))"
    by (simp add: comp_def)
  moreover have "map (\<lambda>g. ag_requests (snd g)) (filter P gs) = map (\<lambda>g. int (length (filter (\<lambda>r. f r = fst g) rows))) (filter P gs)"
    using assms unfolding ranking_def by (intro map_cong refl) (force simp: aggregate_of_def)
  ultimately show ?thesis by presburger
qed

lemma sum_list_sort: "sum_list (map h (sort_key k xs)) = (sum_list (map h xs) :: int)"
  by (metis mset_map mset_sort sum_mset_sum_list)

lemma bucket_count: "sum_list (map (\<lambda>b. bu_requests (snd b)) (groups f (bucket_of p95) rows)) = int (length rows)"
proof -
  have "sum_list (map (\<lambda>b. bu_requests (snd b)) (groups f (bucket_of p95) rows))
      = sum_list (map (\<lambda>k. int (length (filter (\<lambda>r. f r = k) rows))) (remdups (map f rows)))"
    by (simp add: groups_def bucket_of_def comp_def)
  also have "\<dots> = int (length (filter (\<lambda>r. f r \<in> set (remdups (map f rows))) rows))" by (rule listed_count) simp
  also have "filter (\<lambda>r. f r \<in> set (remdups (map f rows))) rows = rows" by (rule filter_True) simp
  finally show ?thesis .
qed

definition priced :: "config_snapshot \<Rightarrow> string \<Rightarrow> bool" where
  "priced snap model \<longleftrightarrow> (case hm_get (cs_routes snap) model of None \<Rightarrow> False
     | Some r \<Rightarrow> rt_price_input_per_mtok_usd r \<noteq> None \<and> rt_price_output_per_mtok_usd r \<noteq> None)"

lemma cost_known_iff: "model_cost snap g \<noteq> None \<longleftrightarrow> priced snap (fst g)"
  by (auto simp: model_cost_def estimated_cost_usd_def priced_def split: prod.splits option.splits bind_splits)

lemma cost_known_count:
  assumes "ranking n lr_model aggregate_of by_requests rows gs"
  shows "sum_list (map (\<lambda>(g, _). ag_requests (snd g)) (filter (\<lambda>(_, c). c \<noteq> None) (map (\<lambda>g. (g, model_cost snap g)) gs)))
    = count_where (\<lambda>r. lr_model r \<in> fst ` set gs \<and> priced snap (lr_model r)) rows"
proof -
  have known: "map (\<lambda>(g, _). ag_requests (snd g)) (filter (\<lambda>(_, c). c \<noteq> None) (map (\<lambda>g. (g, model_cost snap g)) gs))
      = map (\<lambda>g. ag_requests (snd g)) (filter (\<lambda>g. priced snap (fst g)) gs)"
    by (simp add: filter_map comp_def cost_known_iff [symmetric])
  have listed: "(\<lambda>r. lr_model r \<in> fst ` set (filter (\<lambda>g. priced snap (fst g)) gs)) = (\<lambda>r. lr_model r \<in> fst ` set gs \<and> priced snap (lr_model r))"
    by (rule ext) force
  show ?thesis unfolding count_where_def known listed [symmetric] by (rule ranked_count [OF assms])
qed


definition slow_call :: ledger_row where
  "slow_call = \<lparr>lr_ts = 100, lr_request_id = ''r'', lr_key_id = 1, lr_team_id = 1, lr_model = ''m'', lr_backend_id = 1, lr_status = 504,
     lr_input_tokens = 3000, lr_output_tokens = 0, lr_estimated = True, lr_ttfb_ms = 9, lr_total_ms = 9, lr_router_overhead_ms = 1,
     lr_completed_at_ms = 109, lr_stream = False, lr_client_aborted = False, lr_error_class = Some ''upstream timeout''\<rparr>"

definition no_percentile :: "i64 list \<Rightarrow> f64 option" where
  "no_percentile xs = None"

definition error_query :: usage_query where
  "error_query = \<lparr>uq_team = None, uq_key = None, uq_backend = Some 1, uq_model = None, uq_status = Some ''error'', uq_from = Some 50, uq_to = None,
     uq_days = None\<rparr>"

lemma summary_answers:
  assumes "sums_fit (aggregate_of (seen q status from reads 0))"
    and "list_all (\<lambda>(_, a). sums_fit a) (groups lr_model aggregate_of (seen q status from reads 2))"
    and "list_all (\<lambda>(_, a). sums_fit a) (groups (team_of_row (fst (reads 3))) aggregate_of (seen q status from reads 3))"
    and "list_all (\<lambda>(_, a). sums_fit a) (groups (key_of_row (fst (reads 4))) aggregate_of (seen q status from reads 4))"
  obtains s where "summary_of p95 snap reads from q status = Inr s" and "su_totals s = aggregate_of (seen q status from reads 0)"
  using assms by (simp add: summary_of_def totals_query_def busiest_def Let_def)

definition slow_reads :: "nat \<Rightarrow> reads" where
  "slow_reads n = (\<lambda>_. (demo_db, replicate n slow_call))"

lemma slow_seen: "seen error_query StatusError 50 (slow_reads n) i = replicate n slow_call"
proof -
  have "summary_filter error_query StatusError 50 slow_call" by code_simp
  then show ?thesis by (simp add: seen_def slow_reads_def)
qed

lemma slow_fits: "sums_fit (aggregate_of [slow_call])" "sums_fit (aggregate_of [slow_call, slow_call])"
  by code_simp+

lemma groups_equal: "groups f agg (replicate (Suc n) r) = [(f r, agg (replicate (Suc n) r))]"
proof -
  have "remdups (map f (replicate (Suc n) r)) = [f r]" by (induction n) auto
  then show ?thesis by (simp add: groups_def)
qed

lemma slow_summary:
  assumes "sums_fit (aggregate_of (replicate (Suc n) slow_call))"
  obtains s where "summary_of p95 snap (slow_reads (Suc n)) 50 error_query StatusError = Inr s" and "su_totals s = aggregate_of (replicate (Suc n) slow_call)"
  by (rule summary_answers [of error_query StatusError 50 "slow_reads (Suc n)" p95 snap])
     (simp_all add: slow_seen groups_equal assms del: replicate.simps)


section \<open>The cache\<close>

lemma cache_put_length: "length (summary_cache_put c k v t) \<le> 65"
proof -
  have "length (hm_insert k v m) \<le> Suc (length m)" for m :: summary_cache and v
    by (induction m) auto
  from this [of "(t, v)" "if length c > 64 then [] else c"] show ?thesis by (simp add: summary_cache_put_def split: if_splits)
qed

lemma cache_put_get:
  "hm_get (summary_cache_put c k v t) j = Some w \<Longrightarrow> j = k \<and> w = (t, v) \<or> hm_get c j = Some w"
  by (auto simp: summary_cache_put_def split: if_splits)

fun run_summaries ::
  "(string \<Rightarrow> string) \<Rightarrow> (i64 list \<Rightarrow> f64 option) \<Rightarrow> (summary \<Rightarrow> string) \<Rightarrow> summary_call list \<Rightarrow> summary_cache \<Rightarrow> summary_cache \<times> (api_error + string) list" where
  "run_summaries dbg p95 show [] c = (c, [])"
| "run_summaries dbg p95 show (x # xs) c =
     (case get_summary dbg p95 show x c of (c1, a) \<Rightarrow>
      case run_summaries dbg p95 show xs c1 of (c2, as) \<Rightarrow> (c2, a # as))"

text \<open>\<open>made\<close>: the body is what the call computes for its own query.\<close>

definition made :: "(i64 list \<Rightarrow> f64 option) \<Rightarrow> (summary \<Rightarrow> string) \<Rightarrow> summary_call \<Rightarrow> string \<Rightarrow> bool" where
  "made p95 show x body \<longleftrightarrow> (\<exists>status. normalize_status (uq_status (sc_query x)) = Inr status \<and> computed p95 show x status = Inr body)"

definition cache_from :: "(string \<Rightarrow> string) \<Rightarrow> (i64 list \<Rightarrow> f64 option) \<Rightarrow> (summary \<Rightarrow> string) \<Rightarrow> summary_call set \<Rightarrow> summary_cache \<Rightarrow> bool" where
  "cache_from dbg p95 show past c \<longleftrightarrow> length c \<le> 65 \<and> (\<forall>k t v. hm_get c k = Some (t, v) \<longrightarrow>
     (\<exists>x \<in> past. summary_key dbg (sc_query x) = k \<and> sc_put x = t \<and> made p95 show x v))"

definition recent_answer ::
  "(string \<Rightarrow> string) \<Rightarrow> (i64 list \<Rightarrow> f64 option) \<Rightarrow> (summary \<Rightarrow> string) \<Rightarrow> summary_call set \<Rightarrow> summary_call \<Rightarrow> api_error + string \<Rightarrow> bool" where
  "recent_answer dbg p95 show past x a \<longleftrightarrow> (\<forall>body. a = Inr body \<longrightarrow> made p95 show x body
     \<or> (\<exists>y \<in> past. summary_key dbg (sc_query y) = summary_key dbg (sc_query x) \<and> made p95 show y body \<and> sc_get x - sc_put y < 45000))"

lemma get_summary_step:
  assumes "cache_from dbg p95 show past c" and "get_summary dbg p95 show x c = (c', a)"
  shows "cache_from dbg p95 show (insert x past) c'" and "recent_answer dbg p95 show past x a"
proof -
  have keep: "cache_from dbg p95 show (insert x past) c" using assms(1) unfolding cache_from_def by blast
  have put: "cache_from dbg p95 show (insert x past) (summary_cache_put c (summary_key dbg (sc_query x)) body (sc_put x))" if "made p95 show x body" for body
    using assms(1) that cache_put_length cache_put_get unfolding cache_from_def by blast
  show "cache_from dbg p95 show (insert x past) c'"
    using assms(2) keep put by (auto simp: get_summary_def made_def split: sum.splits option.splits)
  show "recent_answer dbg p95 show past x a"
    using assms unfolding recent_answer_def cache_from_def
    by (fastforce simp: get_summary_def made_def summary_cache_get_def SUMMARY_CACHE_TTL_def bind_eq_Some_conv split: sum.splits option.splits if_splits)
qed

lemma run_summaries_recent:
  assumes "cache_from dbg p95 show past c" and "run_summaries dbg p95 show xs c = (c', as)"
  shows "length c' \<le> 65 \<and> length as = length xs \<and> (\<forall>i < length xs. recent_answer dbg p95 show (past \<union> set (take i xs)) (xs ! i) (as ! i))"
  using assms
proof (induction xs arbitrary: past c as)
  case (Cons x xs)
  obtain c1 a as' where g: "get_summary dbg p95 show x c = (c1, a)" and r: "run_summaries dbg p95 show xs c1 = (c', as')" and as: "as = a # as'"
    using Cons.prems(2) by (auto split: prod.splits)
  note step = get_summary_step [OF Cons.prems(1) g]
  have ih: "length c' \<le> 65" "length as' = length xs"
      "\<And>i. i < length xs \<Longrightarrow> recent_answer dbg p95 show (insert x past \<union> set (take i xs)) (xs ! i) (as' ! i)"
    using Cons.IH [OF step(1) r] by blast+
  have "recent_answer dbg p95 show (past \<union> set (take i (x # xs))) ((x # xs) ! i) (as ! i)" if "i < length (x # xs)" for i
    using that step(2) ih(3) unfolding as by (cases i) simp_all
  with ih show ?case by (simp add: as)
qed (simp add: cache_from_def)

text \<open>The dashboard is never staler than 45 seconds and its cache never grows past 65 entries. Over any sequence of requests, an answer is what its own
  request computes or what an earlier request with the same parameters computed less than 45 seconds before.\<close>

theorem summary_cache_recent:
  assumes "run_summaries dbg p95 show calls [] = (c, answers)"
  shows "length c \<le> 65 \<and> length answers = length calls \<and> (\<forall>i body. i < length calls \<longrightarrow> answers ! i = Inr body \<longrightarrow>
      made p95 show (calls ! i) body
      \<or> (\<exists>j < i. summary_key dbg (sc_query (calls ! j)) = summary_key dbg (sc_query (calls ! i)) \<and> made p95 show (calls ! j) body
           \<and> sc_get (calls ! i) - sc_put (calls ! j) < 45000))"
proof (intro conjI allI impI)
  have "cache_from dbg p95 show {} []" by (simp add: cache_from_def)
  note r = run_summaries_recent [OF this assms]
  show "length c \<le> 65" "length answers = length calls" using r by blast+
  fix i body assume i: "i < length calls" "answers ! i = Inr body"
  then have "recent_answer dbg p95 show (set (take i calls)) (calls ! i) (answers ! i)" using r by (metis Un_empty_left)
  moreover have "\<exists>j < i. y = calls ! j" if "y \<in> set (take i calls)" for y using that i(1) by (auto simp: in_set_conv_nth)
  ultimately show "made p95 show (calls ! i) body
      \<or> (\<exists>j < i. summary_key dbg (sc_query (calls ! j)) = summary_key dbg (sc_query (calls ! i)) \<and> made p95 show (calls ! j) body
           \<and> sc_get (calls ! i) - sc_put (calls ! j) < 45000)"
    unfolding recent_answer_def using i(2) by blast
qed

definition slow_call_at :: "nat \<Rightarrow> instant \<Rightarrow> summary_call" where
  "slow_call_at n t = \<lparr>sc_query = error_query, sc_snap = demo_snapshot, sc_reads = slow_reads n, sc_now = 1000, sc_get = t, sc_put = t + 10\<rparr>"

definition show_requests :: "summary \<Rightarrow> string" where
  "show_requests s = idec (ag_requests (su_totals s))"

lemma error_filter_status: "normalize_status (uq_status error_query) = Inr StatusError"
  by code_simp

lemma one_computed: "computed no_percentile show_requests (slow_call_at 1 t) StatusError = Inr ''1''"
proof -
  obtain s where s: "summary_of no_percentile demo_snapshot (slow_reads 1) 50 error_query StatusError = Inr s"
    and t: "su_totals s = aggregate_of [slow_call]"
    using slow_summary [of 0 no_percentile demo_snapshot] slow_fits(1) by auto
  have "show_requests s = ''1''" unfolding show_requests_def t by code_simp
  with s show ?thesis by (simp add: computed_def slow_call_at_def error_query_def)
qed

lemma two_answers:
  "snd (run_summaries dbg no_percentile show_requests [slow_call_at 1 0, slow_call_at 2 40000] []) = [Inr ''1'', Inr ''1'']"
proof -
  have q: "sc_query (slow_call_at n t) = error_query" for n t by (simp add: slow_call_at_def)
  show ?thesis
    using one_computed [of 0]
    by (simp add: get_summary_def q error_filter_status summary_cache_get_def summary_cache_put_def slow_call_at_def SUMMARY_CACHE_TTL_def)
qed

theorem summary_cache_recent_witness:
  "\<exists>c. run_summaries (\<lambda>s. s) no_percentile show_requests [slow_call_at 1 0, slow_call_at 2 40000] [] = (c, [Inr ''1'', Inr ''1'']) \<and> length c \<le> 65
     \<and> (made no_percentile show_requests (slow_call_at 2 40000) ''1'' \<or> made no_percentile show_requests (slow_call_at 1 0) ''1'')"
proof -
  obtain c where r: "run_summaries (\<lambda>s. s) no_percentile show_requests [slow_call_at 1 0, slow_call_at 2 40000] [] = (c, [Inr ''1'', Inr ''1''])"
    using two_answers [of "\<lambda>s. s"] by (metis prod.collapse)
  have "1 < length [slow_call_at 1 0, slow_call_at 2 40000]" "[Inr ''1'', Inr ''1''] ! 1 = (Inr ''1'' :: api_error + string)" by simp_all
  then have "made no_percentile show_requests (slow_call_at 2 40000) ''1'' \<or> (\<exists>j < 1. made no_percentile show_requests ([slow_call_at 1 0, slow_call_at 2 40000] ! j) ''1'')"
    using summary_cache_recent [OF r] by fastforce
  with summary_cache_recent [OF r] r show ?thesis by auto
qed

end
