(* ===== verification/Admin_Probe.thy ===== *)
theory Admin_Probe
  imports Admin_Db Bridge "HOL-Library.Sublist"
begin

text \<open>
  What the control plane asks of providers, \<open>src/admin/mod.rs\<close>: the lists of models with their context limits, the provider catalogue, and the test
  of a connection with the request shape of each protocol. The HTTP client is an argument: it takes the address, the headers and the body of a
  request and gives an error text or the status and the JSON of the answer, if it is JSON.
\<close>

section \<open>Addresses and credentials\<close>

fun trim_end_char :: "char \<Rightarrow> string \<Rightarrow> string" where
  "trim_end_char c s = rev (dropWhile (\<lambda>x. x = c) (rev s))"

definition split_once :: "string \<Rightarrow> string \<Rightarrow> (string \<times> string) option" where
  "split_once s sep = map_option (\<lambda>n. (take n s, drop (n + length sep) s)) (find_sub sep s)"

definition join_provider_url :: "string \<Rightarrow> string \<Rightarrow> string" where
  "join_provider_url base_url route =
     (let trimmed = trim_end_char (CHR ''/'') base_url;
          has_path_prefix = (Option.bind (split_once trimmed ''://'') (\<lambda>(_, rest). split_once rest ''/'') \<noteq> None);
          path = (if has_path_prefix then unwrap_or route (strip_prefix route ''/v1'') else route)
      in if starts_with path ''/'' then trimmed @ path else trimmed @ ''/'' @ path)"

definition resolve_route_key :: "config_env \<Rightarrow> string option \<Rightarrow> string option \<Rightarrow> api_error + string" where
  "resolve_route_key ce plain ref =
     (case filter_opt (\<lambda>s. s \<noteq> []) (map_option trim plain) of
        Some p \<Rightarrow> Inr p
      | None \<Rightarrow>
          (case filter_opt (\<lambda>s. s \<noteq> []) (map_option trim ref) of
             Some r \<Rightarrow> ok_or (api_error_new 400 (''cannot resolve provider key reference: '' @ r)) (resolve_backend_key ce r)
           | None \<Rightarrow> Inr []))"

definition add_provider_auth :: "string \<Rightarrow> string \<Rightarrow> header_map" where
  "add_provider_auth dialect key =
     (if key = [] then []
      else if dialect = ''anthropic'' then [(''x-api-key'', key), (''anthropic-version'', ''2023-06-01'')]
      else [(''authorization'', ''Bearer '' @ key)])"

section \<open>Models of a provider\<close>

fun as_i64 :: "json \<Rightarrow> i64 option" where
  "as_i64 (JNumber (PosInt n)) = (if unat n < 2 ^ 63 then Some (int (unat n)) else None)"
| "as_i64 (JNumber (NegInt i)) = Some i"
| "as_i64 _ = None"

fun first_member :: "json \<Rightarrow> string list \<Rightarrow> json option" where
  "first_member v [] = None"
| "first_member v (k # ks) = or_else (jget v k) (first_member v ks)"

definition item_name :: "string list \<Rightarrow> json \<Rightarrow> string option" where
  "item_name names item = or_else (Option.bind (first_member item names) as_str) (as_str item)"

definition parse_model_list :: "json \<Rightarrow> string list" where
  "parse_model_list body =
     (case Option.bind (jget body ''data'') as_array of
        Some items \<Rightarrow> List.map_filter (item_name [''id'', ''name'']) items
      | None \<Rightarrow>
          (case Option.bind (jget body ''models'') as_array of
             Some items \<Rightarrow> List.map_filter (item_name [''id'', ''name'', ''model'']) items
           | None \<Rightarrow> []))"

definition documented_model_context :: "string \<Rightarrow> i64 option" where
  "documented_model_context model =
     (if model = ''gpt-6.1-sol'' then Some 1050000
      else if model \<in> {''deepseek-v4-pro'', ''deepseek-v4-flash'', ''deepseek-flash''} then Some 1048576
      else if model = ''kimi-k3'' then Some 1000000
      else if model \<in> {''qwen3.8-max'', ''qwen3.8-flash'', ''qwen3.8-27b''} then Some 1000000
      else None)"

definition model_limit :: "json \<Rightarrow> string \<Rightarrow> (i64 \<times> string) option" where
  "model_limit item model =
     (case filter_opt (\<lambda>n. n > 0) (Option.bind (first_member item
             [''context_window'', ''context_length'', ''max_input_tokens'', ''input_token_limit'', ''inputTokenLimit'']) as_i64) of
        Some n \<Rightarrow> Some (n, ''provider'')
      | None \<Rightarrow> map_option (\<lambda>n. (n, ''model documentation'')) (documented_model_context model))"

definition parse_model_limits :: "json \<Rightarrow> (string, i64 \<times> string) hmap" where
  "parse_model_limits body =
     (case Option.bind (first_member body [''data'', ''models'']) as_array of
        None \<Rightarrow> []
      | Some items \<Rightarrow>
          foldl (\<lambda>limits item.
            case Option.bind (first_member item [''id'', ''model'', ''name'']) as_str of
              None \<Rightarrow> limits
            | Some model \<Rightarrow> (case model_limit item model of None \<Rightarrow> limits | Some l \<Rightarrow> hm_insert model l limits)) [] items)"

section \<open>The catalogue\<close>

record catalog_entry =
  ca_key :: string
  ca_label :: string
  ca_base_url :: string
  ca_dialect :: string
  ca_key_env :: string
  ca_key_set :: bool
  ca_enabled :: bool

definition env_set :: "config_env \<Rightarrow> string \<Rightarrow> bool" where
  "env_set ce name = (case ce_var ce name of None \<Rightarrow> False | Some v \<Rightarrow> trim v \<noteq> [])"

definition provider_env_key_set :: "config_env \<Rightarrow> string \<Rightarrow> bool" where
  "provider_env_key_set ce key_env \<longleftrightarrow> env_set ce key_env
     \<or> key_env = ''QWEN_API_KEY'' \<and> env_set ce ''DASHSCOPE_API_KEY''
     \<or> key_env = ''DASHSCOPE_API_KEY'' \<and> env_set ce ''QWEN_API_KEY''"

definition catalog_part :: "config_env \<Rightarrow> string \<Rightarrow> catalog_entry option" where
  "catalog_part ce part =
     (case map trim (split_char (CHR ''|'') part) of
        key # label # base_url # dialect # others \<Rightarrow>
          (let key_env = (case others of [] \<Rightarrow> [] | e # _ \<Rightarrow> e);
               enabled = (case others of _ # e # _ \<Rightarrow> e \<noteq> ''0'' | _ \<Rightarrow> True)
           in if key = [] \<or> label = [] then None
              else Some \<lparr>ca_key = key, ca_label = label, ca_base_url = base_url,
                     ca_dialect = (if dialect = ''anthropic'' then ''anthropic'' else ''openai''), ca_key_env = key_env,
                     ca_key_set = (key_env \<noteq> [] \<and> env_set ce key_env), ca_enabled = enabled\<rparr>)
      | _ \<Rightarrow> None)"

definition adapter_defaults :: "(string \<times> string \<times> string \<times> string) list" where
  "adapter_defaults = [(''jina'', ''Jina AI'', ''https://api.jina.ai'', ''JINA_API_KEY''),
     (''voyage'', ''Voyage AI'', ''https://api.voyageai.com'', ''VOYAGE_API_KEY''),
     (''cohere'', ''Cohere'', ''https://api.cohere.com/v2'', ''COHERE_API_KEY'')]"

definition default_catalog :: string where
  "default_catalog =
      ''openai|OpenAI|https://api.openai.com|openai|OPENAI_API_KEY|1;'' @
      ''         anthropic|Anthropic|https://api.anthropic.com|anthropic|ANTHROPIC_API_KEY|1;'' @
      ''         gemini|Gemini|https://generativelanguage.googleapis.com/v1beta/openai|openai|GEMINI_API_KEY|0;'' @
      ''         deepseek|DeepSeek|https://api.deepseek.com|openai|DEEPSEEK_API_KEY|1;'' @
      ''         kimi|Kimi|https://api.moonshot.ai/v1|openai|KIMI_API_KEY|1;'' @
      ''         qwen|Qwen|https://dashscope-intl.aliyuncs.com/compatible-mode/v1|openai|QWEN_API_KEY|1;'' @
      ''         zai|Z.AI|https://api.z.ai/api/paas/v4|openai|ZAI_API_KEY|1;'' @
      ''         openrouter|OpenRouter|https://openrouter.ai/api/v1|openai|OPENROUTER_API_KEY|1;'' @
      ''         jina|Jina AI|https://api.jina.ai|openai|JINA_API_KEY|1;'' @
      ''         voyage|Voyage AI|https://api.voyageai.com|openai|VOYAGE_API_KEY|1;'' @
      ''         cohere|Cohere|https://api.cohere.com/v2|openai|COHERE_API_KEY|1;'' @
      ''         meta-muse|Meta Muse|https://api.meta.ai/v1|openai|META_MUSE_API_KEY|0;'' @
      ''         custom-llm|Custom LLM|http://127.0.0.1:8088/v1|openai|CUSTOM_LLM_API_KEY|1;'' @
      ''         ollaya|Ollaya System One|http://127.0.0.1:11435/v1|openai|OLLAYA_API_KEY|1''"

definition provider_catalog_from_env :: "config_env \<Rightarrow> catalog_entry list" where
  "provider_catalog_from_env ce =
     foldl (\<lambda>entries (key, label, base_url, key_env).
        if list_ex (\<lambda>e. ca_key e = key) entries then entries
        else entries @ [\<lparr>ca_key = key, ca_label = label, ca_base_url = base_url, ca_dialect = ''openai'', ca_key_env = key_env,
               ca_key_set = provider_env_key_set ce key_env, ca_enabled = True\<rparr>])
       (List.map_filter (catalog_part ce) (split_char (CHR '';'') (unwrap_or default_catalog (ce_var ce ''PROVIDER_CATALOG'')))) adapter_defaults"

section \<open>The test of a connection\<close>

record probe_request =
  pq_url :: string
  pq_headers :: header_map
  pq_body :: "json + bytes"
  pq_timeout_secs :: nat

type_synonym probe_client = "probe_request \<Rightarrow> string + (u16 \<times> json option)"

definition post_json_probe :: "probe_client \<Rightarrow> string \<Rightarrow> string \<Rightarrow> string \<Rightarrow> string \<Rightarrow> json \<Rightarrow> nat \<Rightarrow> string + (u16 \<times> json option)" where
  "post_json_probe http base_url route dialect key body timeout_secs =
     http \<lparr>pq_url = join_provider_url base_url route, pq_headers = add_provider_auth dialect key, pq_body = Inl body, pq_timeout_secs = timeout_secs\<rparr>"

text \<open>\<open>str::replace\<close> with a pattern that is not empty: occurrences from the left that do not overlap.\<close>

function str_replace :: "string \<Rightarrow> string \<Rightarrow> string \<Rightarrow> string" where
  "str_replace key rep s =
     (if key = [] then s
      else case find_sub key s of None \<Rightarrow> s | Some n \<Rightarrow> take n s @ rep @ str_replace key rep (drop (n + length key) s))"
  by pat_completeness auto
termination
proof (relation "measure (\<lambda>(_, _, s). length s)")
  show "((key, rep, drop (n + length key) s), key, rep, s) \<in> measure (\<lambda>(_, _, s). length s)"
    if "key \<noteq> []" and "find_sub key s = Some n" for key rep s n
    using that find_sub_Some [of key s n] by (cases s) auto
qed simp

declare str_replace.simps [simp del]

definition redacted :: string where
  "redacted = ''[redacted]''"

definition provider_message :: "json option \<Rightarrow> string" where
  "provider_message data =
     unwrap_or ''provider did not return an error message''
       (Option.bind (Option.bind data (\<lambda>body. or_else (Option.bind (jget body ''error'') (\<lambda>e. jget e ''message'')) (jget body ''message''))) as_str)"

definition probe_detail :: "u16 \<Rightarrow> json option \<Rightarrow> string \<Rightarrow> string \<Rightarrow> string" where
  "probe_detail status data success key =
     (if status < 400 then success
      else take_chars 512 (if key = [] then provider_message data else str_replace key redacted (provider_message data)))"

definition user_message :: "string \<Rightarrow> json" where
  "user_message s = JArray [jobj [(''role'', JString ''user''), (''content'', JString s)]]"

definition chat_probe_body :: "string \<Rightarrow> string \<Rightarrow> json" where
  "chat_probe_body dialect model =
     (if dialect = ''anthropic''
      then jobj [(''model'', JString model), (''max_tokens'', JNumber (PosInt 16)), (''messages'', user_message ''Reply OK.'')]
      else jobj [(''model'', JString model), (''stream'', JBool False), (''messages'', user_message ''Reply OK.'')])"

definition success_status :: "u16 \<Rightarrow> bool" where
  "success_status status \<longleftrightarrow> 200 \<le> status \<and> status < 300"

definition has_array :: "json option \<Rightarrow> string \<Rightarrow> bool" where
  "has_array data field = (Option.bind (Option.bind data (\<lambda>b. jget b field)) as_array \<noteq> None)"

type_synonym verdict = "u16 \<times> bool \<times> string"

definition test_chat :: "probe_client \<Rightarrow> string \<Rightarrow> string \<Rightarrow> string \<Rightarrow> string \<Rightarrow> string + verdict" where
  "test_chat http base_url dialect key model =
     try_res (post_json_probe http base_url (if dialect = ''anthropic'' then ''/v1/messages'' else ''/v1/chat/completions'') dialect key
                (chat_probe_body dialect model) 20) (\<lambda>(status, data).
     let ok = success_status status \<and> has_array data (if dialect = ''anthropic'' then ''content'' else ''choices'')
     in Inr (status, ok, probe_detail status data (if ok then ''chat/messages OK'' else ''endpoint did not return a valid chat response'') key))"

definition test_text_completion :: "probe_client \<Rightarrow> string \<Rightarrow> string \<Rightarrow> string \<Rightarrow> string \<Rightarrow> string + verdict" where
  "test_text_completion http base_url dialect key model =
     try_res (post_json_probe http base_url ''/v1/completions'' dialect key
                (jobj [(''model'', JString model), (''prompt'', JString ''ping''), (''stream'', JBool False)]) 20) (\<lambda>(status, data).
     let ok = success_status status \<and> has_array data ''choices''
     in Inr (status, ok, probe_detail status data (if ok then ''completions OK'' else ''endpoint did not return choices'') key))"

definition test_responses :: "probe_client \<Rightarrow> string \<Rightarrow> string \<Rightarrow> string \<Rightarrow> string \<Rightarrow> string + verdict" where
  "test_responses http base_url dialect key model =
     try_res (post_json_probe http base_url ''/v1/responses'' dialect key
                (jobj [(''model'', JString model), (''input'', JString ''ping''), (''stream'', JBool False)]) 20) (\<lambda>(status, data).
     let valid = (Option.bind (Option.bind data (\<lambda>b. jget b ''object'')) as_str = Some ''response'' \<and> has_array data ''output'')
     in Inr (status, success_status status \<and> valid,
             probe_detail status data (if valid then ''responses OK'' else ''endpoint did not return a valid Responses object'') key))"

definition embedding_body :: "string \<Rightarrow> string \<Rightarrow> json" where
  "embedding_body base_url model =
     (let lower = to_ascii_lowercase base_url in
      jobj ([(''model'', JString model), (''input'', JString ''BrighTO-Router adapter smoke test'')]
        @ (if str_contains lower ''voyageai'' then [(''input_type'', JString ''document'')] else [])
        @ (if str_contains lower ''jina.ai'' then [(''normalized'', JBool True), (''embedding_type'', JString ''float'')] else [])))"

definition embedding_dim :: "json option \<Rightarrow> nat" where
  "embedding_dim data =
     (case Option.bind (Option.bind data (\<lambda>b. jget b ''data'')) as_array of
        Some (row # _) \<Rightarrow> (case Option.bind (jget row ''embedding'') as_array of Some xs \<Rightarrow> length xs | None \<Rightarrow> 0)
      | _ \<Rightarrow> 0)"

definition test_embedding :: "probe_client \<Rightarrow> string \<Rightarrow> string \<Rightarrow> string \<Rightarrow> string \<Rightarrow> string + verdict" where
  "test_embedding http base_url dialect key model =
     try_res (post_json_probe http base_url ''/v1/embeddings'' dialect key (embedding_body base_url model) 30) (\<lambda>(status, data).
     let dim = embedding_dim data
     in Inr (status, status < 400 \<and> dim > 0, probe_detail status data (''embedding dim '' @ dec dim) key))"

definition probe_documents :: json where
  "probe_documents = JArray (map JString
     [''BrighTO-Router is an ultra-fast Rust gateway for model routing.'', ''Bananas are yellow fruit and unrelated to API gateways.'',
      ''Rerankers improve retrieval quality by scoring candidate documents.''])"

definition qwen_rerank_probe :: "string \<Rightarrow> string \<times> json" where
  "qwen_rerank_probe model =
     (if to_ascii_lowercase (trim model) = ''qwen3-rerank''
      then (''/compatible-api/v1/reranks'', jobj [(''model'', JString model), (''query'', JString ''fast Rust AI router''),
              (''documents'', probe_documents), (''top_n'', JNumber (PosInt 2))])
      else (''/api/v1/services/rerank/text-rerank/text-rerank'', jobj [(''model'', JString model),
              (''input'', jobj [(''query'', JString ''fast Rust AI router''), (''documents'', probe_documents)]),
              (''parameters'', jobj [(''top_n'', JNumber (PosInt 2))])]))"

definition rerank_probe :: "provider_protocol \<Rightarrow> string \<Rightarrow> string \<times> json" where
  "rerank_probe protocol model =
     (if protocol = QwenRerank then qwen_rerank_probe model
      else (''/v1/rerank'', jobj [(''model'', JString model), (''query'', JString ''fast Rust AI router''), (''documents'', probe_documents),
              (if protocol = VoyageRerank then ''top_k'' else ''top_n'', JNumber (PosInt 2))]))"

definition rerank_results :: "json option \<Rightarrow> json list option" where
  "rerank_results data =
     Option.bind (Option.bind data (\<lambda>v. or_else (jget v ''results'') (or_else (jget v ''data'')
       (Option.bind (jget v ''output'') (\<lambda>w. jget w ''results''))))) as_array"

definition first_result_ok :: "json list option \<Rightarrow> bool" where
  "first_result_ok results =
     (case results of
        Some (JObject m # _) \<Rightarrow> map_of m ''index'' \<noteq> None \<and> (map_of m ''relevance_score'' \<noteq> None \<or> map_of m ''score'' \<noteq> None)
      | _ \<Rightarrow> False)"

definition test_rerank :: "probe_client \<Rightarrow> string \<Rightarrow> string \<Rightarrow> string \<Rightarrow> string \<Rightarrow> provider_protocol \<Rightarrow> string + verdict" where
  "test_rerank http base_url dialect key model protocol =
     (case rerank_probe protocol model of (route, body) \<Rightarrow>
     try_res (post_json_probe http base_url route dialect key body 30) (\<lambda>(status, data).
     let results = rerank_results data
     in Inr (status, status < 400 \<and> first_result_ok results,
             probe_detail status data (''rerank results '' @ dec (case results of None \<Rightarrow> 0 | Some r \<Rightarrow> length r)) key)))"

definition systemone_body :: "string \<Rightarrow> json" where
  "systemone_body model =
     jobj [(''model'', JString model), (''state'', jobj [(''message'', JString ''I was charged twice for one order.'')]),
       (''questions'', jobj [
          (''duplicate_charge'', jobj [(''type'', JString ''noul''), (''instructions'', JString ''Does the message report a duplicate charge?'')]),
          (''team'', jobj [(''type'', JString ''choice''), (''instructions'', JString ''Which team should handle this?''),
             (''criteria'', jobj [(''billing'', JString ''payments and refunds''), (''support'', JString ''technical help'')])])])]"

definition test_systemone :: "probe_client \<Rightarrow> string \<Rightarrow> string \<Rightarrow> string \<Rightarrow> string \<Rightarrow> string + verdict" where
  "test_systemone http base_url dialect key model =
     try_res (post_json_probe http base_url ''/v1/systemone'' dialect key (systemone_body model) 30) (\<lambda>(status, data).
     let count = (case Option.bind (Option.bind data (\<lambda>b. jget b ''answers'')) as_object of None \<Rightarrow> 0 | Some m \<Rightarrow> length m)
     in Inr (status, status < 400 \<and> count > 0, probe_detail status data (''systemone answers '' @ dec count) key))"

text \<open>The sound sample the repository ships is an argument.\<close>

definition probe_crlf :: string where
  "probe_crlf = [char_of (13 :: nat), char_of (10 :: nat)]"

definition asr_boundary :: string where
  "asr_boundary = ''----brighto-router-asr-test-boundary''"

definition quote :: string where
  "quote = [char_of (34 :: nat)]"

definition asr_body :: "bytes \<Rightarrow> string \<Rightarrow> bytes" where
  "asr_body fixture model =
     ''--'' @ asr_boundary @ probe_crlf @ ''Content-Disposition: form-data; name='' @ quote @ ''model'' @ quote @ probe_crlf @ probe_crlf @ model @ probe_crlf
     @ ''--'' @ asr_boundary @ probe_crlf @ ''Content-Disposition: form-data; name='' @ quote @ ''file'' @ quote @ ''; filename='' @ quote
     @ ''asr_smoke.wav'' @ quote @ probe_crlf @ ''Content-Type: audio/wav'' @ probe_crlf @ probe_crlf @ fixture @ probe_crlf @ ''--'' @ asr_boundary @ ''--'' @ probe_crlf"

definition test_asr :: "probe_client \<Rightarrow> bytes \<Rightarrow> string \<Rightarrow> string \<Rightarrow> string \<Rightarrow> string \<Rightarrow> string + verdict" where
  "test_asr http fixture base_url dialect key model =
     try_res (http \<lparr>pq_url = join_provider_url base_url ''/v1/audio/transcriptions'',
                pq_headers = (''content-type'', ''multipart/form-data; boundary='' @ asr_boundary) # add_provider_auth dialect key,
                pq_body = Inr (asr_body fixture model), pq_timeout_secs = 45\<rparr>) (\<lambda>(status, data).
     let text_len = (case Option.bind (Option.bind data (\<lambda>b. jget b ''text'')) as_str of None \<Rightarrow> 0 | Some s \<Rightarrow> char_count (trim s))
     in Inr (status, status < 400 \<and> text_len > 0, probe_detail status data (''transcript chars '' @ dec text_len) key))"

record test_connection_request =
  tq_base_url :: string
  tq_dialect :: string
  tq_auth_mode :: string
  tq_provider_key :: "string option"
  tq_provider_key_ref :: "string option"
  tq_provider_model_name :: "string option"
  tq_protocol :: "string option"

record test_connection_response =
  tc_ok :: bool
  tc_latency_ms :: nat
  tc_status :: u16
  tc_model_ok :: "bool option"
  tc_error :: "string option"
  tc_detail :: "string option"

fun run_probe ::
  "probe_client \<Rightarrow> bytes \<Rightarrow> string \<Rightarrow> string \<Rightarrow> string \<Rightarrow> string \<Rightarrow> provider_protocol \<Rightarrow> string + verdict" where
  "run_probe http fixture base_url dialect key model OpenAiResponses = test_responses http base_url dialect key model"
| "run_probe http fixture base_url dialect key model OpenAiCompletions = test_text_completion http base_url dialect key model"
| "run_probe http fixture base_url dialect key model OpenAiEmbeddings = test_embedding http base_url dialect key model"
| "run_probe http fixture base_url dialect key model OpenAiAudioTranscriptions = test_asr http fixture base_url dialect key model"
| "run_probe http fixture base_url dialect key model SystemOne = test_systemone http base_url dialect key model"
| "run_probe http fixture base_url dialect key model protocol =
     (if protocol \<in> {OpenAiRerank, QwenRerank, CohereRerank, VoyageRerank, JinaRerank}
      then test_rerank http base_url dialect key model protocol
      else test_chat http base_url dialect key model)"

definition probed_protocol :: "string \<Rightarrow> string option \<Rightarrow> provider_protocol" where
  "probed_protocol dialect protocol =
     (case protocol of Some p \<Rightarrow> protocol_parse p | None \<Rightarrow> if dialect = ''anthropic'' then AnthropicMessages else OpenAiChat)"

definition probe_response :: "nat \<Rightarrow> string + verdict \<Rightarrow> test_connection_response" where
  "probe_response latency_ms tested =
     (case tested of
        Inr (status, ok, detail) \<Rightarrow>
          \<lparr>tc_ok = ok, tc_latency_ms = latency_ms, tc_status = status, tc_model_ok = Some ok,
           tc_error = (if ok then None else Some (''provider HTTP '' @ dec (unat status) @ '': '' @ detail)), tc_detail = Some detail\<rparr>
      | Inl e \<Rightarrow>
          \<lparr>tc_ok = False, tc_latency_ms = latency_ms, tc_status = 0, tc_model_ok = None, tc_error = Some e, tc_detail = None\<rparr>)"

definition test_connection ::
  "config_env \<Rightarrow> probe_client \<Rightarrow> bytes \<Rightarrow> nat \<Rightarrow> test_connection_request \<Rightarrow> api_error + test_connection_response" where
  "test_connection ce http fixture elapsed_ms payload =
     try_res (non_empty_trimmed (tq_base_url payload) ''base_url'') (\<lambda>base_url.
     try_res (normalize_backend_format (tq_dialect payload)) (\<lambda>dialect.
     try_res (resolve_route_key ce (tq_provider_key payload) (tq_provider_key_ref payload)) (\<lambda>key.
     if trim (tq_auth_mode payload) \<noteq> ''none'' \<and> key = []
     then Inr \<lparr>tc_ok = False, tc_latency_ms = 0, tc_status = 0, tc_model_ok = None,
                tc_error = Some ''provider key is required for this auth mode'', tc_detail = None\<rparr>
     else
     try_res (ok_or (bad_request ''provider_model_name is required'')
                (filter_opt (\<lambda>m. m \<noteq> []) (map_option trim (tq_provider_model_name payload)))) (\<lambda>model.
     Inr (probe_response elapsed_ms
            (run_probe http fixture base_url dialect key model (probed_protocol dialect (tq_protocol payload))))))))"

section \<open>The list of models\<close>

text \<open>A \<open>GET\<close>: the client gives an error text or the status and, for a body that is JSON, its value; otherwise the text of the parse error.
  \<open>show_status\<close> prints a status with the reason phrase the \<open>http\<close> crate knows.\<close>

record model_list =
  ml_backend_id :: i64
  ml_backend_name :: string
  ml_models :: "string list"
  ml_model_limits :: "(string, i64 \<times> string) hmap"

type_synonym get_client = "string \<Rightarrow> header_map \<Rightarrow> string + (u16 \<times> (string + json))"

definition load_models :: "(u16 \<Rightarrow> string) \<Rightarrow> get_client \<Rightarrow> string \<Rightarrow> header_map \<Rightarrow> i64 \<Rightarrow> string \<Rightarrow> api_error + model_list" where
  "load_models show_status http url headers backend_id backend_name =
     (case http url headers of
        Inl e \<Rightarrow> Inl (api_internal (''fetch models: '' @ e))
      | Inr (status, body) \<Rightarrow>
          if \<not> success_status status then Inl (api_error_new 502 (''provider models endpoint returned '' @ show_status status))
          else
            (case body of
               Inl e \<Rightarrow> Inl (api_internal (''parse models response: '' @ e))
             | Inr v \<Rightarrow> Inr \<lparr>ml_backend_id = backend_id, ml_backend_name = backend_name, ml_models = parse_model_list v,
                          ml_model_limits = parse_model_limits v\<rparr>))"

definition fetch_backend_models :: "config_env \<Rightarrow> (u16 \<Rightarrow> string) \<Rightarrow> get_client \<Rightarrow> admin_db \<Rightarrow> i64 \<Rightarrow> api_error + model_list" where
  "fetch_backend_models ce show_status http db i =
     try_res (ok_or (api_not_found ''backend not found'') (List.find (\<lambda>b. bk_id b = i) (db_backends db))) (\<lambda>b.
     let key = unwrap_or [] (resolve_backend_key ce (bk_api_key_ref b))
     in try_res (normalize_backend_format (bk_format b)) (\<lambda>format.
        load_models show_status http (join_provider_url (bk_base_url b) ''/v1/models'') (add_provider_auth format key) i (bk_name b)))"

record preview_models_request =
  pm_base_url :: string
  pm_protocol :: string
  pm_auth_mode :: "string option"
  pm_provider_key :: "string option"
  pm_provider_key_ref :: "string option"

definition preview_models :: "config_env \<Rightarrow> (u16 \<Rightarrow> string) \<Rightarrow> get_client \<Rightarrow> preview_models_request \<Rightarrow> api_error + model_list" where
  "preview_models ce show_status http payload =
     try_res (non_empty_trimmed (pm_base_url payload) ''base_url'') (\<lambda>base_url.
     try_res (normalize_backend_format (pm_protocol payload)) (\<lambda>protocol.
     let auth_mode = trim (unwrap_or ''bearer'' (pm_auth_mode payload))
     in try_res (resolve_route_key ce (pm_provider_key payload) (pm_provider_key_ref payload)) (\<lambda>key.
        if auth_mode \<noteq> ''none'' \<and> key = [] then Inl (bad_request ''provider key is required for this auth mode'')
        else load_models show_status http (join_provider_url base_url ''/v1/models'')
               (if auth_mode \<noteq> ''none'' \<and> key \<noteq> [] then add_provider_auth protocol key else []) 0 base_url)))"

section \<open>The redaction\<close>

lemma sublist_over_separator:
  assumes "c \<notin> set key" and "sublist key (a @ c # b)"
  shows "sublist key a \<or> sublist key b"
  using assms by (auto simp: sublist_append sublist_Cons_right prefix_Cons dest: set_mono_prefix)

lemma str_contains_sublist: "str_contains s key \<longleftrightarrow> sublist key s"
proof (cases "find_sub key s")
  case None
  have "\<not> sublist key s" using None
    by (induction key s rule: find_sub.induct) (auto simp: sublist_Cons_right starts_with_def prefix_def split: if_splits)
  then show ?thesis by (simp add: str_contains_def None)
next
  case (Some n)
  then have "take (length key) (drop n s) = key" using find_sub_Some by blast
  then have "s = take n s @ key @ drop (length key) (drop n s)" by (metis append_take_drop_id)
  then show ?thesis by (metis Some option.distinct(1) str_contains_def sublist_appendI)
qed

lemma no_key_before_match:
  assumes "find_sub key s = Some n" and "key \<noteq> []"
  shows "\<not> sublist key (take n s)"
proof
  assume "sublist key (take n s)"
  then obtain a b where t: "take n s = a @ key @ b" unfolding sublist_def by blast
  have "length a < n" using t assms(2) by (metis append_eq_conv_conj length_append length_greater_0_conv length_take min_less_iff_conj
        nat_less_le not_less trans_less_add1 less_add_same_cancel1 add_gr_0)
  moreover have "starts_with (drop (length a) s) key"
  proof -
    have "s = a @ key @ b @ drop n s" using t by (metis append.assoc append_take_drop_id)
    then show ?thesis by (metis append_eq_conv_conj starts_with_def)
  qed
  ultimately show False using assms(1) by (simp add: find_sub_first)
qed

lemma replaced_without_key:
  assumes "key \<noteq> []" and "CHR ''['' \<notin> set key" and "CHR '']'' \<notin> set key" and "\<not> sublist key ''redacted''"
  shows "\<not> sublist key (str_replace key redacted s)"
  using assms
proof (induction key redacted s rule: str_replace.induct)
  case (1 key s)
  show ?case
  proof (cases "find_sub key s")
    case None
    then show ?thesis using 1 str_contains_sublist [of s key] by (simp add: str_replace.simps [of key] str_contains_def)
  next
    case (Some n)
    let ?r = "str_replace key redacted (drop (n + length key) s)"
    have r: "str_replace key redacted s = take n s @ CHR ''['' # ''redacted'' @ CHR '']'' # ?r"
      using Some \<open>key \<noteq> []\<close> by (subst str_replace.simps) (simp add: redacted_def)
    have "\<not> sublist key ?r" using 1 Some by blast
    then have "\<not> sublist key (''redacted'' @ CHR '']'' # ?r)" using sublist_over_separator [of "CHR '']''" key] 1 by blast
    then show ?thesis
      unfolding r using sublist_over_separator [of "CHR ''[''" key "take n s"] no_key_before_match [OF Some] 1 by blast
  qed
qed

lemma sublist_prefix_trans: "s = t @ r \<Longrightarrow> sublist key t \<Longrightarrow> sublist key s"
  by (metis sublist_append)

lemma probe_detail_hides:
  assumes "key \<noteq> []" and "CHR ''['' \<notin> set key" and "CHR '']'' \<notin> set key" and "\<not> sublist key ''redacted''" and "400 \<le> status"
  shows "\<not> sublist key (probe_detail status data success key)"
proof
  let ?m = "provider_message data"
  assume "sublist key (probe_detail status data success key)"
  then have t: "sublist key (take_chars 512 (str_replace key redacted ?m))"
    using assms(1) assms(5) [folded linorder_not_less] by (simp add: probe_detail_def)
  obtain r where "str_replace key redacted ?m = take_chars 512 (str_replace key redacted ?m) @ r" using take_chars_prefix by blast
  from sublist_prefix_trans [OF this t] show False using replaced_without_key [OF assms(1-4)] by blast
qed

lemma run_probe_detail:
  "run_probe http fixture base_url dialect key model protocol = Inr (status, ok, detail) \<Longrightarrow>
     \<exists>data success. detail = probe_detail status data success key"
  by (cases protocol)
     (auto simp: test_responses_def test_text_completion_def test_embedding_def test_asr_def test_systemone_def test_rerank_def test_chat_def
       result_iffs Let_def split: prod.splits if_splits)

text \<open>C40. A connection test never shows the provider's key: when the provider refuses the probe with an HTTP error, whatever text the provider sends back, the
  detail the administrator sees does not contain the key, for every protocol and both dialects. The key may have neither bracket and may not be
  part of the word that replaces it.\<close>

theorem probe_hides_key:
  assumes "test_connection ce http fixture elapsed_ms payload = Inr r"
    and "resolve_route_key ce (tq_provider_key payload) (tq_provider_key_ref payload) = Inr key" and "key \<noteq> []"
    and "CHR ''['' \<notin> set key" and "CHR '']'' \<notin> set key" and "\<not> str_contains ''redacted'' key"
    and "400 \<le> tc_status r" and "tc_detail r = Some detail"
  shows "\<not> str_contains detail key"
proof -
  obtain base_url dialect model where p: "r = probe_response elapsed_ms
      (run_probe http fixture base_url dialect key model (probed_protocol dialect (tq_protocol payload)))"
    using assms(1-3) by (auto simp: test_connection_def result_iffs split: if_splits)
  obtain ok where "run_probe http fixture base_url dialect key model (probed_protocol dialect (tq_protocol payload)) = Inr (tc_status r, ok, detail)"
    using p assms(8) by (auto simp: probe_response_def split: sum.splits)
  from run_probe_detail [OF this] show ?thesis
    using probe_detail_hides assms(3-7) unfolding str_contains_sublist by blast
qed

definition echo_provider :: probe_client where
  "echo_provider req = Inr (401, Some (jobj [(''error'', jobj [(''message'', JString ''Incorrect API key provided: sk-1'')])]))"

definition echo_test :: test_connection_request where
  "echo_test = \<lparr>tq_base_url = ''https://p'', tq_dialect = ''openai'', tq_auth_mode = ''bearer'', tq_provider_key = Some ''sk-1'',
     tq_provider_key_ref = None, tq_provider_model_name = Some ''m'', tq_protocol = None\<rparr>"

definition bare_env :: config_env where
  "bare_env = \<lparr>ce_var = (\<lambda>_. None), ce_read_file = (\<lambda>_. None), ce_ids = (\<lambda>_. None), ce_strings = (\<lambda>_. None), ce_budget = (\<lambda>_. None)\<rparr>"

lemma echo_key: "resolve_route_key bare_env (tq_provider_key echo_test) (tq_provider_key_ref echo_test) = Inr ''sk-1''"
  by code_simp

lemma echo_test_shape:
  "case test_connection bare_env echo_provider [] 5 echo_test of
     Inl _ \<Rightarrow> False | Inr r \<Rightarrow> tc_status r = 401 \<and> tc_detail r = Some ''Incorrect API key provided: [redacted]''"
  by code_simp

theorem probe_hides_key_witness:
  "\<exists>r. test_connection bare_env echo_provider [] 5 echo_test = Inr r
     \<and> tc_detail r = Some ''Incorrect API key provided: [redacted]''
     \<and> \<not> str_contains ''Incorrect API key provided: [redacted]'' ''sk-1''"
proof -
  obtain r where r: "test_connection bare_env echo_provider [] 5 echo_test = Inr r" "tc_status r = 401"
    "tc_detail r = Some ''Incorrect API key provided: [redacted]''"
    using echo_test_shape by (auto split: sum.splits)
  have b: "CHR ''['' \<notin> set ''sk-1''" "CHR '']'' \<notin> set ''sk-1''" "\<not> str_contains ''redacted'' ''sk-1''"
    by (simp, simp, code_simp)
  have "\<not> str_contains ''Incorrect API key provided: [redacted]'' ''sk-1''"
    by (rule probe_hides_key [OF r(1) echo_key _ b _ r(3)]) (simp_all add: r(2))
  with r show ?thesis by blast
qed

end
