(* ===== verification/Spec2Isabelle.thy ===== *)
theory Spec2Isabelle
  imports Budget_Concurrent Counter Lifecycle Incoming_Scan Admin_Summary Admin_Probe
begin

text \<open>
  Verification of BrighTO-Router, a gateway that puts API keys, budgets, routing, a protocol bridge and an accounting ledger in front of
  language-model providers. The sources are under \<open>src/src\<close>; paths below are relative to it.

  \<^bold>\<open>The program.\<close> A request reaches \<open>handlers.rs\<close> with an API key. The handler authorises the key and the model (\<open>auth.rs\<close>) against the
  current snapshot of the configuration (\<open>config/mod.rs\<close>), reads the body within a limit, checks the route, translates an Anthropic request
  for an OpenAI backend when the route is a bridge (\<open>bridge/\<close>), reserves tokens and slots (\<open>budget/mod.rs\<close>) and hands over to \<open>proxy/mod.rs\<close>. The
  proxy leases a backend from the pool (\<open>route/mod.rs\<close>), tries others while no byte has been answered, relays or translates the
  answer, taps the token usage and, in a completion reporter that runs once, settles budget, lease, circuit breaker and ledger
  (\<open>ledger/mod.rs\<close>). \<open>main.rs\<close> starts the parts and reloads the snapshot; \<open>admin/mod.rs\<close> is the control plane that
  changes the tables the snapshot is loaded from, and the portal where the holder of a key sees his own usage.

  \<^bold>\<open>How code became definitions.\<close> A struct is a record, an enum a datatype, a function or method one definition with
  the name it has in the source; \<open>Result\<close> is a sum with the error on the left and \<open>?\<close> is \<open>try_res\<close>; \<open>u8\<close> to \<open>u64\<close> are
  words and \<open>i64\<close> is \<open>int\<close> with the casts written out. Hash maps are association lists with one entry per key, strings lists of bytes, a finite
  double a rational with IEEE rounding. Atomics and locks are fields of an explicit state. What is outside the
  repository is an argument: the HTTP client, the database's answers, the clock, random bytes, SHA-256 and \<open>serde_json\<close>, with what the code relies
  on as named hypotheses (\<open>codec_ok\<close>, \<open>faithful_env\<close>) that every witness discharges for concrete functions.

  \<^bold>\<open>Theories.\<close>
  \<^item> \<open>Prelude\<close>, \<open>Json\<close>, \<open>Net\<close>, \<open>Contract\<close>: scalar types, results, maps, UTF-8 strings and double rounding; the accessors of \<open>serde_json\<close> values;
    IP literals; the shared types of \<open>contract.rs\<close>.
  \<^item> \<open>Auth\<close> (\<open>auth.rs\<close>): which key may call which model, and until when.
  \<^item> \<open>Calendar\<close>, \<open>Budget\<close>, \<open>Budget_Concurrent\<close> (\<open>budget/mod.rs\<close>): budget periods; reservations, charges, refunds, requests per minute and
    concurrency slots in every branch; the compare-and-swap loops as a step relation, one atomic access per step, for any
    number of threads.
  \<^item> \<open>Route\<close>, \<open>Lease\<close>, \<open>Counter\<close>, \<open>Health\<close> (\<open>route/mod.rs\<close>): policies, the exclusion set, leases and the circuit breaker; the persistent
    round-robin counter shared by several processes; health checks.
  \<^item> \<open>Splice\<close>, \<open>Upload\<close>, \<open>Usage\<close>, \<open>Reporter\<close>, \<open>Forward\<close>, \<open>Response\<close> (\<open>proxy/mod.rs\<close>): byte-level edits of bodies against a grammar of JSON texts, bodies
    of exact length, the usage tap, the completion reporter, the retry loop over backends and the relay of the answer.
  \<^item> \<open>Bridge\<close>, \<open>Bridge_Request\<close>, \<open>Bridge_Response\<close>, \<open>Bridge_Stream\<close>, \<open>Bridge_Grammar\<close>, \<open>Bridge_Chunks\<close> (\<open>bridge/\<close>): both directions of the
    translation, documents and event streams, the automaton of Anthropic event streams and the independence of network chunks.
  \<^item> \<open>Incoming\<close>, \<open>Incoming_Scan\<close>, \<open>Handlers\<close>, \<open>Lifecycle\<close> (\<open>handlers.rs\<close>): the reading and rewriting of bodies, the pipeline, and a whole request
    from its arrival to its last byte.
  \<^item> \<open>Ledger\<close> (\<open>ledger/mod.rs\<close>): channels, the writer with its fallback file and replay, and the seeds of the next start.
  \<^item> \<open>Config\<close>, \<open>Boot\<close> (\<open>config/mod.rs\<close>, \<open>main.rs\<close>): the loader of the five tables, start, reload loop and readiness.
  \<^item> \<open>Admin_Auth\<close>, \<open>Admin_Db\<close>, \<open>Admin_Routes\<close>, \<open>Control_Plane\<close> (\<open>admin/mod.rs\<close>): access and the lock-out, then every request that changes
    teams, keys, backends and routes, statement by statement with the constraints of the migrations, and all of them
    behind the router of the control plane.
  \<^item> \<open>Admin_Views\<close>, \<open>Admin_Summary\<close>, \<open>Admin_Probe\<close> (\<open>admin/mod.rs\<close>): the lists, the usage log, the statistics and the portal; the summary with its
    cache; lists of models, the provider catalogue and connection tests.

  \<^bold>\<open>Interfaces.\<close> A contract one part relies on is a locale, interpreted on the model's own definitions: \<open>inductive_invariant\<close> (a step relation, an
  invariant and reachability; budgets under interference, gauges, leases, counters, reloads and control-plane calls),
  \<open>usage_counters\<close> (what adding and subtracting promise to a reservation), \<open>counter_service\<close> (blocks of counter values for several processes),
  \<open>exclusion_set\<close> (the backends a retry has tried), \<open>exact_body\<close> (the two bodies of announced length), \<open>keyed_table\<close> (a loaded table against its rows).

  \<^bold>\<open>What is shown.\<close> Across components: a request balances its slots, leases, charges and its ledger event however it ends, and is
  admitted exactly when key, model, route, backend, budget and limits allow it (\<open>Lifecycle\<close>). Budgets: a reservation and its settlement are exact,
  concurrent
  reservations lose no update and exceed the cap by at most what commits report above their estimates, a refused caller who waits is admitted. Routing: a lease is
  granted exactly to an eligible backend, the gauge counts the live leases, counter values are never drawn twice, retries end. Bodies: edits
  change the one member they mean to, the scan of a long upload reads what a full parse would read. Bridge: the conversation is
  preserved as an abstract list of items, translated requests are well typed, every translated stream is a word of the event
  grammar whatever the upstream sends and however it is cut, errors come in the client's envelope. Ledger: every accepted event is in the
  table, the file or the queue, and a restart restores the usage of the open periods. Configuration: a snapshot is the tables, and what is published is
  wired into pool and budget. Control plane: after any calls the tables load and accepted changes are live, a key works from creation to
  disabling, the lists agree with what the router does, a portal user sees only his own requests, key guesses are bounded and a connection
  test does not show the provider's key.

  \<^bold>\<open>Loops.\<close> No definition uses fuel. Loops over data are structural or have a measure (the rest of the input, the backends not yet tried); the writer, the
  reload loop and the threads are step relations or sequences of steps of any length. Numeric limits (sizes, time windows, list lengths) are the constants of the code.

  \<^bold>\<open>Not modelled.\<close> Sockets, TLS, signals, tracing and the spawning of tasks in \<open>main.rs\<close>; \<open>metrics.rs\<close>, which only
  forwards to the metrics crate; the static page of the portal; \<open>bin/mock_upstream.rs\<close>, a test server; \<open>lib.rs\<close>, the list of
  modules. A cancelled future is modelled where the code has a drop handler for it (leases, guards, the reporter) and nowhere else. SQL statements
  fail only on a constraint or an overflowing sum, and statements of different control-plane calls do not interleave; the ledger's and the loader's
  database may fail at any operation.
\<close>

end
